(* ===== verification/Kapp_Prelude.thy ===== *)
theory Kapp_Prelude
  imports Complex_Main "HOL-Library.Word" "HOL-Library.Sublist" "HOL-Library.Char_ord"
    "HOL-Library.List_Lexorder"
begin

text \<open>
  Shared vocabulary of the development.

  \<^item> \<open>uuid\<close>, \<open>gotime\<close>, \<open>byte\<close>: the Go types \<open>uuid.UUID\<close> (a 16-byte array, hence a 128-bit
    word; \<open>uuid.Nil\<close> is 0), \<open>time.Time\<close> (nanoseconds since Go's zero time, so that
    \<open>IsZero\<close> is \<open>= 0\<close>) and \<open>byte\<close>.
  \<^item> \<open>rbind\<close>, \<open>guard\<close>, \<open>mapM\<close>: Go's \<open>(value, error)\<close> results as a sum, the early return
    on error as sequential composition.
  \<^item> list facts on association lists, updates of the rows of a table and counting, that the
    component theories share.
\<close>

type_synonym uuid = "128 word"
type_synonym gotime = int
type_synonym byte = "8 word"

named_theorems res_simps \<open>rewriting of error-or-value computations\<close>
named_theorems step_invs \<open>preservation of component invariants by single operations\<close>


section \<open>Results\<close>

definition rbind :: "'e + 'a \<Rightarrow> ('a \<Rightarrow> 'e + 'b) \<Rightarrow> 'e + 'b" where
  "rbind r f = (case r of Inl e \<Rightarrow> Inl e | Inr x \<Rightarrow> f x)"

definition guard :: "'e \<Rightarrow> bool \<Rightarrow> 'e + unit" where
  "guard e b = (if b then Inr () else Inl e)"

primrec mapM :: "('a \<Rightarrow> 'e + 'b) \<Rightarrow> 'a list \<Rightarrow> 'e + 'b list" where
  "mapM f [] = Inr []"
| "mapM f (x # xs) = rbind (f x) (\<lambda>y. rbind (mapM f xs) (\<lambda>ys. Inr (y # ys)))"

fun option_list :: "'a option list \<Rightarrow> 'a list option" where
  "option_list [] = Some []"
| "option_list (x # xs) = (case (x, option_list xs) of (Some y, Some ys) \<Rightarrow> Some (y # ys) | _ \<Rightarrow> None)"

lemma rbind_Inl [simp, res_simps]: "rbind (Inl e) f = Inl e"
  and rbind_Inr [simp, res_simps]: "rbind (Inr x) f = f x"
  by (simp_all add: rbind_def)

lemma rbind_eq_Inr [res_simps]: "rbind r f = Inr y \<longleftrightarrow> (\<exists>x. r = Inr x \<and> f x = Inr y)"
  by (cases r) auto

lemma rbind_eq_Inl [res_simps]:
  "rbind r f = Inl e \<longleftrightarrow> r = Inl e \<or> (\<exists>x. r = Inr x \<and> f x = Inl e)"
  by (cases r) auto

lemma guard_simps [simp, res_simps]:
  "guard e b = Inr u \<longleftrightarrow> b"
  "guard e b = Inl e' \<longleftrightarrow> \<not> b \<and> e' = e"
  by (auto simp: guard_def)

lemma rbind_guard [res_simps]: "rbind (guard e b) f = (if b then f () else Inl e)"
  by (simp add: guard_def)

lemma rbind_cong [fundef_cong]:
  "r = r' \<Longrightarrow> (\<And>x. r' = Inr x \<Longrightarrow> f x = g x) \<Longrightarrow> rbind r f = rbind r' g"
  by (cases r') auto

lemma mapM_cong [fundef_cong]:
  "xs = ys \<Longrightarrow> (\<And>x. x \<in> set ys \<Longrightarrow> f x = g x) \<Longrightarrow> mapM f xs = mapM g ys"
  by (induction ys arbitrary: xs) (auto simp: rbind_def split: sum.splits)

lemma mapM_Inr_iff: "mapM f xs = Inr ys \<longleftrightarrow> list_all2 (\<lambda>x y. f x = Inr y) xs ys"
proof (induction xs arbitrary: ys)
  case (Cons x xs)
  then show ?case by (cases ys) (auto simp: rbind_eq_Inr)
qed auto

lemma mapM_InrD: "mapM f xs = Inr ys \<Longrightarrow> y \<in> set ys \<Longrightarrow> \<exists>x \<in> set xs. f x = Inr y"
  by (fastforce simp: mapM_Inr_iff list_all2_conv_all_nth in_set_conv_nth)

lemma mapM_length: "mapM f xs = Inr ys \<Longrightarrow> length ys = length xs"
  by (auto simp: mapM_Inr_iff dest: list_all2_lengthD)


section \<open>Association lists\<close>

text \<open>
  A JSON object is an association list in the order of the text; decoding it into a Go map
  keeps the last value of a repeated key. \<open>go_map\<close> is that map, one pair per key.
\<close>

fun go_map :: "(string \<times> 'a) list \<Rightarrow> (string \<times> 'a) list" where
  "go_map [] = []"
| "go_map ((k, v) # ps) = (if k \<in> set (map fst ps) then go_map ps else (k, v) # go_map ps)"

lemma set_go_map: "set (go_map ps) \<subseteq> set ps"
  by (induction ps rule: go_map.induct) auto

lemma fst_go_map: "fst ` set (go_map ps) = fst ` set ps"
  by (induction ps rule: go_map.induct) force+

lemma distinct_go_map: "distinct (map fst (go_map ps))"
  by (induction ps rule: go_map.induct) (use fst_go_map in force)+

lemma go_map_distinct: "distinct (map fst ps) \<Longrightarrow> go_map ps = ps"
  by (induction ps rule: go_map.induct) auto

lemma map_of_go_map: "map_of (go_map ps) = map_of (rev ps)"
proof (induction ps rule: go_map.induct)
  case (2 k v ps)
  have "map_of (rev ps) k = None \<longleftrightarrow> k \<notin> set (map fst ps)"
    by (auto simp: map_of_eq_None_iff)
  with 2 show ?case
    by (auto simp: map_add_def split: option.splits intro!: ext)
qed auto


section \<open>Rows of a table\<close>

text \<open>\<open>UPDATE \<dots> WHERE key = k\<close> on the rows of a table kept in insertion order.\<close>

definition update_rows :: "('r \<Rightarrow> bool) \<Rightarrow> ('r \<Rightarrow> 'r) \<Rightarrow> 'r list \<Rightarrow> 'r list" where
  "update_rows p f rows = map (\<lambda>r. if p r then f r else r) rows"

lemma length_update_rows [simp]: "length (update_rows p f rows) = length rows"
  by (simp add: update_rows_def)

lemma set_update_rows: "set (update_rows p f rows) = (\<lambda>r. if p r then f r else r) ` set rows"
  by (simp add: update_rows_def)

lemma map_update_rows:
  "(\<And>r. r \<in> set rows \<Longrightarrow> p r \<Longrightarrow> key (f r) = key r) \<Longrightarrow> map key (update_rows p f rows) = map key rows"
  by (induction rows) (auto simp: update_rows_def)

lemma map_update_const: "key r = k \<Longrightarrow> map key (update_rows (\<lambda>x. key x = k) (\<lambda>_. r) rows) = map key rows"
  by (rule map_update_rows) auto

lemma update_rows_other: "r \<in> set rows \<Longrightarrow> \<not> p r \<Longrightarrow> r \<in> set (update_rows p f rows)"
  by (force simp: set_update_rows)

lemma find_update_rows:
  assumes "List.find p rows = Some r" and "\<And>x. p x \<Longrightarrow> p (f x)"
  shows "List.find p (update_rows p f rows) = Some (f r)"
  using assms by (induction rows) (auto simp: update_rows_def split: if_splits)

lemma find_append: "List.find p (xs @ ys) = (case List.find p xs of None \<Rightarrow> List.find p ys | Some x \<Rightarrow> Some x)"
  by (induction xs) auto

lemma find_SomeD: "List.find p xs = Some x \<Longrightarrow> x \<in> set xs \<and> p x"
  by (auto simp: find_Some_iff)

lemma find_key_unique:
  "distinct (map key rows) \<Longrightarrow> r \<in> set rows \<Longrightarrow> List.find (\<lambda>x. key x = key r) rows = Some r"
  by (induction rows) (auto simp: rev_image_eqI)


section \<open>Counting\<close>

lemma card_filter_le_card:
  "finite A \<Longrightarrow> inj_on f B \<Longrightarrow> f ` B \<subseteq> A \<Longrightarrow> card B \<le> card A"
  by (metis card_image card_mono)

lemma length_filter_distinct_card:
  "distinct xs \<Longrightarrow> length (filter p xs) = card {x \<in> set xs. p x}"
  by (metis distinct_card distinct_filter set_filter)

lemma length_filter_minus:
  assumes "distinct xs" "distinct ys" "set ys \<subseteq> set xs"
  shows "length (filter (\<lambda>x. x \<notin> set ys) xs) = length xs - length ys"
proof -
  have "length (filter (\<lambda>x. x \<notin> set ys) xs) = card (set xs - set ys)"
    using length_filter_distinct_card[OF assms(1)] by (simp add: set_diff_eq)
  also have "\<dots> = card (set xs) - card (set ys)" using assms(3) by (simp add: card_Diff_subset)
  finally show ?thesis using assms(1,2) by (simp add: distinct_card)
qed

end
