(* ===== verification/LRU_Cache.thy ===== *)
theory LRU_Cache
  imports Kapp_Prelude
begin

text \<open>
  \<open>platform.LRUCache\<close> (internal/platform/lru.go): a doubly linked list of entries, front = most
  recently used, and a hash map from keys to list elements.

  A \<open>*list.Element\<close> is an address into \<open>cells\<close>; \<open>order\<close> is the list of addresses and \<open>index\<close>
  the hash map, so the two data structures can disagree in the model as they could in memory,
  and \<open>lru_inv\<close> says that they never do. Every operation takes the clock reading and returns
  the entries it hands to the eviction callback. The mutex makes each operation one atomic
  step; the hit and miss counters of \<open>WithMetrics\<close> are not modelled.

  The locale \<open>keyed_cache\<close> is what clients of the cache rely on; \<open>lru\<close> interprets it.
\<close>

record 'v cacheEntry =
  ce_key :: string
  ce_value :: 'v
  ce_expiresAt :: gotime

record 'v lruCache =
  maxEntries :: int
  ttl :: int
  order :: "nat list"
  index :: "string \<Rightarrow> nat option"
  cells :: "nat \<Rightarrow> 'v cacheEntry"
  fresh :: nat
  onEvict :: bool

definition five_minutes :: int where
  "five_minutes = 5 * 60 * 1000000000"

definition NewLRUCache :: "int \<Rightarrow> int \<Rightarrow> 'v lruCache" where
  "NewLRUCache maxE t =
     \<lparr>maxEntries = (if maxE \<le> 0 then 1024 else maxE),
      ttl = (if t \<le> 0 then five_minutes else t),
      order = [], index = (\<lambda>_. None), cells = (\<lambda>_. undefined), fresh = 0, onEvict = False\<rparr>"

definition SetOnEvict :: "bool \<Rightarrow> 'v lruCache \<Rightarrow> 'v lruCache" where
  "SetOnEvict fn c = c\<lparr>onEvict := fn\<rparr>"

definition move_to_front :: "nat \<Rightarrow> nat list \<Rightarrow> nat list" where
  "move_to_front e es = (if e \<in> set es then e # remove1 e es else es)"

definition removeElement :: "nat \<Rightarrow> 'v lruCache \<Rightarrow> 'v lruCache" where
  "removeElement e c =
     c\<lparr>order := remove1 e (order c), index := (index c)(ce_key (cells c e) := None)\<rparr>"

definition fireEvict :: "'v lruCache \<Rightarrow> 'v cacheEntry option \<Rightarrow> (string \<times> 'v) list" where
  "fireEvict c ent =
     (case ent of None \<Rightarrow> []
      | Some en \<Rightarrow> if onEvict c then [(ce_key en, ce_value en)] else [])"

definition Get :: "gotime \<Rightarrow> string \<Rightarrow> 'v lruCache \<Rightarrow> 'v option \<times> (string \<times> 'v) list \<times> 'v lruCache" where
  "Get now key c =
     (case index c key of
        None \<Rightarrow> (None, [], c)
      | Some e \<Rightarrow>
          (if now > ce_expiresAt (cells c e)
           then (None, fireEvict c (Some (cells c e)), removeElement e c)
           else (Some (ce_value (cells c e)), [], c\<lparr>order := move_to_front e (order c)\<rparr>)))"

definition Set :: "gotime \<Rightarrow> string \<Rightarrow> 'v \<Rightarrow> 'v lruCache \<Rightarrow> (string \<times> 'v) list \<times> 'v lruCache" where
  "Set now key v c =
     (case index c key of
        Some e \<Rightarrow>
          (let entry = cells c e;
               evicted = (if ce_value entry \<noteq> v then Some entry else None);
               c' = c\<lparr>cells := (cells c)(e := entry\<lparr>ce_value := v, ce_expiresAt := now + ttl c\<rparr>),
                      order := move_to_front e (order c)\<rparr>
           in (fireEvict c' evicted, c'))
      | None \<Rightarrow>
          (let e = fresh c;
               c1 = c\<lparr>cells := (cells c)(e := \<lparr>ce_key = key, ce_value = v, ce_expiresAt = now + ttl c\<rparr>),
                      order := e # order c, index := (index c)(key \<mapsto> e), fresh := Suc e\<rparr>
           in if int (length (order c1)) > maxEntries c1
              then (let oldest = last (order c1)
                    in (fireEvict c1 (Some (cells c1 oldest)), removeElement oldest c1))
              else ([], c1)))"

definition Delete :: "string \<Rightarrow> 'v lruCache \<Rightarrow> (string \<times> 'v) list \<times> 'v lruCache" where
  "Delete key c =
     (case index c key of
        None \<Rightarrow> ([], c)
      | Some e \<Rightarrow> (fireEvict c (Some (cells c e)), removeElement e c))"

definition Len :: "'v lruCache \<Rightarrow> nat" where
  "Len c = length (order c)"

definition Purge :: "'v lruCache \<Rightarrow> (string \<times> 'v) list \<times> 'v lruCache" where
  "Purge c =
     ((if onEvict c then map (\<lambda>e. (ce_key (cells c e), ce_value (cells c e))) (order c) else []),
      c\<lparr>order := [], index := (\<lambda>_. None)\<rparr>)"

text \<open>
  The loop of \<open>DeletePrefix\<close> ranges over the hash map in an unspecified order and removes the
  matching elements one by one; the model visits the elements in list order.
\<close>

definition DeletePrefix :: "string \<Rightarrow> 'v lruCache \<Rightarrow> (string \<times> 'v) list \<times> 'v lruCache" where
  "DeletePrefix pre c =
     (if pre = [] then ([], c)
      else let hit = filter (\<lambda>e. prefix pre (ce_key (cells c e))) (order c)
           in (concat (map (\<lambda>e. fireEvict c (Some (cells c e))) hit), fold removeElement hit c))"


section \<open>The invariant\<close>

definition lru_links :: "'v lruCache \<Rightarrow> bool" where
  "lru_links c \<longleftrightarrow>
     distinct (order c)
     \<and> (\<forall>e \<in> set (order c). index c (ce_key (cells c e)) = Some e \<and> e < fresh c)
     \<and> (\<forall>k e. index c k = Some e \<longrightarrow> e \<in> set (order c) \<and> ce_key (cells c e) = k)"

definition lru_inv :: "'v lruCache \<Rightarrow> bool" where
  "lru_inv c \<longleftrightarrow> lru_links c \<and> int (length (order c)) \<le> maxEntries c \<and> 0 < maxEntries c"

lemma lru_linksD:
  assumes "lru_links c"
  shows "distinct (order c)" "e \<in> set (order c) \<Longrightarrow> index c (ce_key (cells c e)) = Some e"
    "e \<in> set (order c) \<Longrightarrow> e < fresh c" "index c k = Some e \<Longrightarrow> e \<in> set (order c)"
    "index c k = Some e \<Longrightarrow> ce_key (cells c e) = k"
  using assms by (auto simp: lru_links_def)

lemma lru_invD:
  assumes "lru_inv c"
  shows "distinct (order c)" "e \<in> set (order c) \<Longrightarrow> index c (ce_key (cells c e)) = Some e"
    "e \<in> set (order c) \<Longrightarrow> e < fresh c" "index c k = Some e \<Longrightarrow> e \<in> set (order c)"
    "index c k = Some e \<Longrightarrow> ce_key (cells c e) = k"
    "int (length (order c)) \<le> maxEntries c" "0 < maxEntries c" "lru_links c"
  using assms by (auto simp: lru_inv_def lru_links_def)

lemma set_move_to_front [simp]: "distinct es \<Longrightarrow> set (move_to_front e es) = set es"
  by (auto simp: move_to_front_def)

lemma distinct_move_to_front: "distinct es \<Longrightarrow> distinct (move_to_front e es)"
  by (auto simp: move_to_front_def)

lemma length_move_to_front [simp]: "length (move_to_front e es) = length es"
  by (auto simp: move_to_front_def length_remove1) (metis Suc_pred length_pos_if_in_set)

lemma lru_inv_New [step_invs]: "lru_inv (NewLRUCache m t)"
  by (simp add: lru_inv_def lru_links_def NewLRUCache_def)

lemma lru_inv_touch: "lru_inv c \<Longrightarrow> lru_inv (c\<lparr>order := move_to_front e (order c)\<rparr>)"
  by (simp add: lru_inv_def lru_links_def distinct_move_to_front)

lemma lru_links_removeElement:
  assumes "lru_links c" and "e \<in> set (order c)"
  shows "lru_links (removeElement e c)"
proof -
  have "ea = e" if "ea \<in> set (order c)" "ce_key (cells c ea) = ce_key (cells c e)" for ea
    using that lru_linksD(2)[OF assms(1)] assms(2) by (metis option.inject)
  then show ?thesis
    using assms(2) lru_linksD[OF assms(1)] unfolding lru_links_def removeElement_def by auto
qed

lemma lru_inv_removeElement [step_invs]:
  "lru_inv c \<Longrightarrow> e \<in> set (order c) \<Longrightarrow> lru_inv (removeElement e c)"
  by (auto simp: lru_inv_def lru_links_removeElement) (simp add: removeElement_def length_remove1)+

lemma lru_inv_Get [step_invs]: "lru_inv c \<Longrightarrow> lru_inv (snd (snd (Get now k c)))"
  by (auto simp: Get_def lru_inv_touch lru_inv_removeElement lru_invD split: option.splits)

lemma lru_inv_refresh:
  assumes "lru_inv c" and "index c k = Some e"
  shows "lru_inv (c\<lparr>cells := (cells c)(e := (cells c e)\<lparr>ce_value := v, ce_expiresAt := t\<rparr>),
                    order := move_to_front e (order c)\<rparr>)"
  using assms by (auto simp: lru_inv_def lru_links_def distinct_move_to_front)

definition insert_front :: "string \<Rightarrow> 'v \<Rightarrow> gotime \<Rightarrow> 'v lruCache \<Rightarrow> 'v lruCache" where
  "insert_front k v t c =
     c\<lparr>cells := (cells c)(fresh c := \<lparr>ce_key = k, ce_value = v, ce_expiresAt = t\<rparr>),
       order := fresh c # order c, index := (index c)(k \<mapsto> fresh c), fresh := Suc (fresh c)\<rparr>"

lemma fresh_not_in: "lru_inv c \<Longrightarrow> fresh c \<notin> set (order c)"
  using lru_invD(3) by blast

lemma insert_front_links:
  assumes "lru_inv c" and "index c k = None"
  shows "lru_links (insert_front k v t c)"
proof -
  have new: "index c (ce_key (cells c e)) = Some e \<and> e < fresh c \<and> ce_key (cells c e) \<noteq> k"
    if "e \<in> set (order c)" for e
    using that assms(2) lru_invD(2,3)[OF assms(1) that] by auto
  have old: "e \<in> set (order c) \<and> ce_key (cells c e) = k' \<and> e \<noteq> fresh c" if "index c k' = Some e" for k' e
    using lru_invD(3-5)[OF assms(1)] that by blast
  let ?c = "insert_front k v t c"
  have "index ?c (ce_key (cells ?c e)) = Some e \<and> e < fresh ?c" if "e \<in> set (order ?c)" for e
    using that new[of e] by (auto simp: insert_front_def)
  moreover have "e \<in> set (order ?c) \<and> ce_key (cells ?c e) = k'" if "index ?c k' = Some e" for k' e
    using that old[of k' e] by (auto simp: insert_front_def split: if_splits)
  moreover have "distinct (order ?c)"
    using lru_invD(1)[OF assms(1)] fresh_not_in[OF assms(1)] by (simp add: insert_front_def)
  ultimately show ?thesis by (simp add: lru_links_def)
qed

lemma Set_new:
  "index c k = None \<Longrightarrow>
   Set now k v c =
     (let c1 = insert_front k v (now + ttl c) c in
      if int (length (order c1)) > maxEntries c1
      then (fireEvict c1 (Some (cells c1 (last (order c1)))), removeElement (last (order c1)) c1)
      else ([], c1))"
  by (simp add: Set_def insert_front_def Let_def)

lemma lru_inv_Set [step_invs]:
  assumes "lru_inv c"
  shows "lru_inv (snd (Set now k v c))"
proof (cases "index c k")
  case None
  let ?c1 = "insert_front k v (now + ttl c) c"
  have links: "lru_links ?c1" by (rule insert_front_links[OF assms None])
  have ne: "order ?c1 \<noteq> []" and cap: "0 < maxEntries ?c1" "int (length (order ?c1)) \<le> maxEntries ?c1 + 1"
    using lru_invD(6,7)[OF assms] by (simp_all add: insert_front_def)
  note last = last_in_set[OF ne]
  have "lru_inv (removeElement (last (order ?c1)) ?c1)"
    using lru_links_removeElement[OF links last] cap last
    by (simp add: lru_inv_def removeElement_def length_remove1)
  then show ?thesis
    using None links cap by (auto simp: Set_new Let_def lru_inv_def)
qed (use assms lru_inv_refresh in \<open>auto simp: Set_def Let_def\<close>)

lemma lru_inv_Delete [step_invs]: "lru_inv c \<Longrightarrow> lru_inv (snd (Delete k c))"
  by (auto simp: Delete_def lru_inv_removeElement lru_invD split: option.splits)

lemma lru_inv_Purge [step_invs]: "lru_inv c \<Longrightarrow> lru_inv (snd (Purge c))"
  by (auto simp: Purge_def lru_inv_def lru_links_def)

lemma removeElement_fields [simp]:
  "order (removeElement e c) = remove1 e (order c)" "cells (removeElement e c) = cells c"
  "ttl (removeElement e c) = ttl c" "maxEntries (removeElement e c) = maxEntries c"
  "onEvict (removeElement e c) = onEvict c" "fresh (removeElement e c) = fresh c"
  by (simp_all add: removeElement_def)

lemma fold_removeElement:
  "lru_inv c \<Longrightarrow> distinct es \<Longrightarrow> set es \<subseteq> set (order c) \<Longrightarrow>
   lru_inv (fold removeElement es c)
   \<and> index (fold removeElement es c) = (\<lambda>k. if k \<in> (\<lambda>e. ce_key (cells c e)) ` set es then None else index c k)
   \<and> cells (fold removeElement es c) = cells c \<and> ttl (fold removeElement es c) = ttl c"
proof (induction es arbitrary: c)
  case (Cons e es)
  have "lru_inv (removeElement e c)" and "set es \<subseteq> set (order (removeElement e c))"
    using Cons.prems lru_invD(1)[OF Cons.prems(1)] by (auto simp: lru_inv_removeElement)
  from Cons.IH[OF this(1) _ this(2)] Cons.prems show ?case
    by (auto simp: removeElement_def fun_eq_iff)
qed simp

lemma lru_inv_DeletePrefix [step_invs]: "lru_inv c \<Longrightarrow> lru_inv (snd (DeletePrefix p c))"
  using fold_removeElement lru_invD(1) by (fastforce simp: DeletePrefix_def Let_def)


section \<open>The cache as a map from keys to values with an expiry\<close>

definition view :: "'v lruCache \<Rightarrow> string \<Rightarrow> ('v \<times> gotime) option" where
  "view c k = map_option (\<lambda>e. (ce_value (cells c e), ce_expiresAt (cells c e))) (index c k)"

lemma view_remove: "view (removeElement e c) = (view c)(ce_key (cells c e) := None)"
  by (simp add: view_def removeElement_def fun_eq_iff)

lemma view_removeElement:
  "lru_inv c \<Longrightarrow> index c k = Some e \<Longrightarrow> view (removeElement e c) = (view c)(k := None)"
  by (simp add: view_remove lru_invD(5))

lemma view_New: "view (NewLRUCache m t) = (\<lambda>_. None)"
  by (simp add: view_def NewLRUCache_def fun_eq_iff)

lemma view_Get:
  assumes "lru_inv c"
  shows "fst (Get now k c) = (case view c k of None \<Rightarrow> None | Some (v, t) \<Rightarrow> if now > t then None else Some v)"
    and "view (snd (snd (Get now k c))) =
           (case view c k of None \<Rightarrow> view c | Some (v, t) \<Rightarrow> if now > t then (view c)(k := None) else view c)"
  using view_removeElement[OF assms]
  by (auto simp: Get_def view_def fun_eq_iff split: option.splits)

lemma view_Delete: "lru_inv c \<Longrightarrow> view (snd (Delete k c)) = (view c)(k := None)"
  by (cases "index c k") (auto simp: Delete_def view_removeElement, auto simp: view_def fun_eq_iff)

lemma view_Purge: "view (snd (Purge c)) = (\<lambda>_. None)"
  by (simp add: Purge_def view_def fun_eq_iff)

lemma view_DeletePrefix:
  assumes "lru_inv c" "p \<noteq> []"
  shows "view (snd (DeletePrefix p c)) = (\<lambda>k. if prefix p k then None else view c k)"
proof -
  let ?hit = "filter (\<lambda>e. prefix p (ce_key (cells c e))) (order c)"
  have "distinct ?hit" "set ?hit \<subseteq> set (order c)"
    using lru_invD(1)[OF assms(1)] by auto
  note f = fold_removeElement[OF assms(1) this]
  have hit: "k \<in> (\<lambda>e. ce_key (cells c e)) ` set ?hit \<longleftrightarrow> prefix p k" if "index c k = Some e" for k e
    using that lru_invD(4,5)[OF assms(1) that] by force
  show ?thesis
  proof
    fix k
    show "view (snd (DeletePrefix p c)) k = (if prefix p k then None else view c k)"
      using assms(2) f hit[of k]
      by (cases "index c k") (simp_all add: DeletePrefix_def Let_def view_def)
  qed
qed

lemma view_insert_front:
  assumes "lru_inv c"
  shows "view (insert_front k v t c) = (view c)(k \<mapsto> (v, t))"
proof
  fix k'
  have "index c k' \<noteq> Some (fresh c)"
    using fresh_not_in[OF assms] lru_invD(4)[OF assms] by blast
  then show "view (insert_front k v t c) k' = ((view c)(k \<mapsto> (v, t))) k'"
    by (cases "index c k'") (auto simp: view_def insert_front_def)
qed

lemma view_Set:
  assumes "lru_inv c"
  shows "view (snd (Set now k v c)) =
     (if index c k = None \<and> int (Len c) = maxEntries c
      then ((view c)(ce_key (cells c (last (order c))) := None))(k \<mapsto> (v, now + ttl c))
      else (view c)(k \<mapsto> (v, now + ttl c)))"
proof (cases "index c k")
  case (Some e)
  show ?thesis
  proof
    fix k'
    have "index c k' = Some e \<longleftrightarrow> k' = k"
      using lru_invD(5)[OF assms] Some by blast
    then show "view (snd (Set now k v c)) k' = (if index c k = None \<and> int (Len c) = maxEntries c
      then ((view c)(ce_key (cells c (last (order c))) := None))(k \<mapsto> (v, now + ttl c))
      else (view c)(k \<mapsto> (v, now + ttl c))) k'"
      using Some by (cases "index c k'") (auto simp: Set_def Let_def view_def)
  qed
next
  case None
  let ?c1 = "insert_front k v (now + ttl c) c"
  have big: "int (length (order ?c1)) > maxEntries ?c1 \<longleftrightarrow> int (Len c) = maxEntries c"
    using lru_invD(6)[OF assms] by (auto simp: insert_front_def Len_def)
  show ?thesis
  proof (cases "int (Len c) = maxEntries c")
    case True
    then have ne: "order c \<noteq> []" using lru_invD(7)[OF assms] by (auto simp: Len_def)
    let ?o = "last (order c)"
    have o: "?o \<in> set (order c)" using ne by simp
    have "ce_key (cells c ?o) \<noteq> k" using lru_invD(2)[OF assms o] None by auto
    moreover have "cells ?c1 ?o = cells c ?o"
      using fresh_not_in[OF assms] o by (auto simp: insert_front_def)
    ultimately have "view (removeElement ?o ?c1) =
        ((view c)(ce_key (cells c ?o) := None))(k \<mapsto> (v, now + ttl c))"
      by (simp add: view_remove view_insert_front[OF assms] fun_upd_twist)
    moreover have "last (order ?c1) = ?o" using ne by (simp add: insert_front_def)
    ultimately show ?thesis
      using None True big by (simp add: Set_new Let_def)
  next
    case False
    with None big view_insert_front[OF assms] show ?thesis
      by (simp add: Set_new Let_def)
  qed
qed

lemma ttl_Set [simp]: "ttl (snd (Set now k v c)) = ttl c"
  by (simp add: Set_def Let_def split: option.splits)

lemma ttl_Get [simp]: "ttl (snd (snd (Get now k c))) = ttl c"
  by (simp add: Get_def split: option.splits)

lemma ttl_Delete [simp]: "ttl (snd (Delete k c)) = ttl c"
  by (simp add: Delete_def split: option.splits)

lemma ttl_fold_remove [simp]: "ttl (fold removeElement es c) = ttl c"
  by (induction es arbitrary: c) simp_all

lemma ttl_DeletePrefix [simp]: "ttl (snd (DeletePrefix p c)) = ttl c"
  by (simp add: DeletePrefix_def Let_def)


section \<open>What a client of the cache relies on\<close>

text \<open>
  \<open>peek now k c\<close> is the value a lookup at time \<open>now\<close> answers. A cache may forget any entry when
  another is stored, but it never invents or mixes up values, and deletion is effective.
\<close>

locale keyed_cache =
  fixes get :: "gotime \<Rightarrow> string \<Rightarrow> 'c \<Rightarrow> 'v option \<times> 'c"
    and put :: "gotime \<Rightarrow> string \<Rightarrow> 'v \<Rightarrow> 'c \<Rightarrow> 'c"
    and del :: "string \<Rightarrow> 'c \<Rightarrow> 'c"
    and del_prefix :: "string \<Rightarrow> 'c \<Rightarrow> 'c"
    and life :: "'c \<Rightarrow> int"
    and invar :: "'c \<Rightarrow> bool"
  assumes inv_get: "invar c \<Longrightarrow> invar (snd (get t k c))"
    and inv_put: "invar c \<Longrightarrow> invar (put t k v c)"
    and inv_del: "invar c \<Longrightarrow> invar (del k c)"
    and inv_del_prefix: "invar c \<Longrightarrow> invar (del_prefix p c)"
    and get_put: "invar c \<Longrightarrow> fst (get t' k (put t k v c)) = (if t' > t + life c then None else Some v)"
    and get_put_other: "invar c \<Longrightarrow> k' \<noteq> k \<Longrightarrow> fst (get t' k' (put t k v c)) \<in> {None, fst (get t' k' c)}"
    and get_del: "invar c \<Longrightarrow> fst (get t k' (del k c)) = (if k' = k then None else fst (get t k' c))"
    and get_del_prefix:
      "invar c \<Longrightarrow> p \<noteq> [] \<Longrightarrow> fst (get t k (del_prefix p c)) = (if prefix p k then None else fst (get t k c))"
    and get_get: "invar c \<Longrightarrow> t \<le> t' \<Longrightarrow> fst (get t' k' (snd (get t k c))) = fst (get t' k' c)"
    and life_get: "invar c \<Longrightarrow> life (snd (get t k c)) = life c"
    and life_put [simp]: "invar c \<Longrightarrow> life (put t k v c) = life c"
    and life_del [simp]: "invar c \<Longrightarrow> life (del k c) = life c"
    and life_del_prefix [simp]: "invar c \<Longrightarrow> life (del_prefix p c) = life c"
begin

lemma hit_after_put: "invar c \<Longrightarrow> t' \<le> t + life c \<Longrightarrow> fst (get t' k (put t k v c)) = Some v"
  by (simp add: get_put)

text \<open>
  A read-through lookup: on a miss the loader's value is stored. Whatever a later lookup of any
  key answers was stored there by this lookup or was already there.
\<close>

definition read_through :: "gotime \<Rightarrow> string \<Rightarrow> 'e + 'v \<Rightarrow> 'c \<Rightarrow> ('e + 'v) \<times> 'c" where
  "read_through t k load c =
     (case get t k c of
        (Some v, c') \<Rightarrow> (Inr v, c')
      | (None, c') \<Rightarrow> (case load of Inl e \<Rightarrow> (Inl e, c') | Inr v \<Rightarrow> (Inr v, put t k v c')))"

lemma read_through_inv: "invar c \<Longrightarrow> invar (snd (read_through t k load c))"
  using inv_get[of c t k] by (auto simp: read_through_def inv_put split: prod.splits option.splits sum.splits)

lemma read_through_life: "invar c \<Longrightarrow> life (snd (read_through t k load c)) = life c"
  using inv_get[of c t k] life_get[of c t k]
  by (auto simp: read_through_def split: prod.splits option.splits sum.splits)

lemma read_through_origin:
  assumes "invar c" and "t \<le> t'" and "fst (get t' k' (snd (read_through t k load c))) = Some w"
  shows "fst (get t' k' c) = Some w \<or> k' = k \<and> load = Inr w \<and> t' \<le> t + life c"
proof -
  obtain r c' where g: "get t k c = (r, c')" by fastforce
  have c': "invar c'" "life c' = life c" using inv_get[OF assms(1), of t k] life_get[OF assms(1), of t k] g by auto
  have old: "fst (get t' k' c') = fst (get t' k' c)" using get_get[OF assms(1,2), of k' k] g by simp
  show ?thesis
  proof (cases "r = None \<and> (\<exists>v. load = Inr v)")
    case True
    then obtain v where v: "load = Inr v" by blast
    show ?thesis
      using assms(3) True g v old get_put[OF c'(1), of t' k t v] get_put_other[OF c'(1), of k' k t' t v] c'(2)
      by (cases "k' = k") (auto simp: read_through_def split: if_splits)
  next
    case False
    then show ?thesis
      using assms(3) g old by (auto simp: read_through_def split: option.splits sum.splits)
  qed
qed

end

text \<open>The cache of the platform package satisfies the contract.\<close>

abbreviation lru_get :: "gotime \<Rightarrow> string \<Rightarrow> 'v lruCache \<Rightarrow> 'v option \<times> 'v lruCache" where
  "lru_get t k c \<equiv> (fst (Get t k c), snd (snd (Get t k c)))"

abbreviation lru_put :: "gotime \<Rightarrow> string \<Rightarrow> 'v \<Rightarrow> 'v lruCache \<Rightarrow> 'v lruCache" where
  "lru_put t k v c \<equiv> snd (Set t k v c)"

lemmas view_ops = view_Get view_Delete view_DeletePrefix view_Set

interpretation lru: keyed_cache lru_get lru_put "\<lambda>k c. snd (Delete k c)" "\<lambda>p c. snd (DeletePrefix p c)"
  ttl lru_inv
proof (unfold_locales, goal_cases)
  case (7 c t k' k) then show ?case by (simp add: view_ops step_invs)
next
  case (8 c p t k) then show ?case by (simp add: view_ops step_invs)
next
  case (9 c t t' k' k) then show ?case
    by (auto simp: view_ops step_invs split: option.splits)
qed (auto simp: view_ops step_invs split: option.splits)


section \<open>Recency\<close>

text \<open>The keys from the most to the least recently used.\<close>

definition keys :: "'v lruCache \<Rightarrow> string list" where
  "keys c = map (\<lambda>e. ce_key (cells c e)) (order c)"

lemma map_remove1_inj:
  "inj_on f (set xs) \<Longrightarrow> x \<in> set xs \<Longrightarrow> map f (remove1 x xs) = remove1 (f x) (map f xs)"
proof (induction xs)
  case (Cons y ys)
  then show ?case by (cases "x = y") (auto simp: inj_on_def)
qed simp

lemma remove1_last_distinct: "distinct xs \<Longrightarrow> remove1 (last xs) xs = butlast xs"
proof (induction xs)
  case (Cons x xs)
  then show ?case using last_in_set[of xs] by (cases "xs = []") auto
qed simp

lemma key_inj: "lru_inv c \<Longrightarrow> inj_on (\<lambda>e. ce_key (cells c e)) (set (order c))"
  by (rule inj_onI) (metis lru_invD(2) option.inject)

lemma distinct_keys: "lru_inv c \<Longrightarrow> distinct (keys c)"
  by (simp add: keys_def distinct_map key_inj lru_invD(1))

lemma set_keys: "lru_inv c \<Longrightarrow> set (keys c) = {k. index c k \<noteq> None}"
  using lru_invD(2,4,5) by (fastforce simp: keys_def)

lemma keys_removeElement:
  "lru_inv c \<Longrightarrow> e \<in> set (order c) \<Longrightarrow> keys (removeElement e c) = remove1 (ce_key (cells c e)) (keys c)"
  by (simp add: keys_def map_remove1_inj key_inj)

lemma keys_touch:
  "lru_inv c \<Longrightarrow> index c k = Some e \<Longrightarrow> keys (c\<lparr>order := move_to_front e (order c)\<rparr>) = k # remove1 k (keys c)"
  using map_remove1_inj[OF key_inj, of c e] lru_invD(4,5)[of c k e]
  by (simp add: keys_def move_to_front_def)

lemma keys_Get:
  assumes "lru_inv c"
  shows "keys (snd (snd (Get now k c))) =
    (case view c k of None \<Rightarrow> keys c | Some (v, t) \<Rightarrow> if now > t then remove1 k (keys c) else k # remove1 k (keys c))"
  using keys_touch[OF assms] keys_removeElement[OF assms] lru_invD(4,5)[OF assms]
  by (auto simp: Get_def view_def split: option.splits)

lemma keys_Set_new:
  assumes "lru_inv c" and "index c k = None"
  shows "keys (snd (Set now k v c)) = take (nat (maxEntries c)) (k # keys c)"
proof -
  let ?c1 = "insert_front k v (now + ttl c) c"
  have ks: "keys ?c1 = k # keys c"
    using fresh_not_in[OF assms(1)] by (auto simp: keys_def insert_front_def)
  have len: "length (order ?c1) = Suc (Len c)" "maxEntries ?c1 = maxEntries c" "length (keys c) = Len c"
    by (simp_all add: insert_front_def Len_def keys_def)
  have max: "int (Len c) \<le> maxEntries c" using lru_invD(6)[OF assms(1)] by (simp add: Len_def)
  show ?thesis
  proof (cases "int (Len c) = maxEntries c")
    case False
    with assms(2) max len show ?thesis by (simp add: Set_new Let_def ks)
  next
    case True
    have ne: "order ?c1 \<noteq> []" by (simp add: insert_front_def)
    have links: "lru_links ?c1" by (rule insert_front_links[OF assms])
    have "map (\<lambda>e. ce_key (cells ?c1 e)) (remove1 (last (order ?c1)) (order ?c1)) = butlast (keys ?c1)"
      using lru_linksD(1)[OF links] by (simp add: remove1_last_distinct keys_def map_butlast)
    then have "keys (removeElement (last (order ?c1)) ?c1) = butlast (k # keys c)"
      by (simp add: keys_def[of "removeElement _ _"] ks)
    moreover have "nat (maxEntries c) = Len c" using True by (metis nat_int)
    ultimately show ?thesis
      using True assms(2) len by (simp add: Set_new Let_def butlast_conv_take)
  qed
qed

lemma keys_Set_old:
  assumes "lru_inv c" and "index c k = Some e"
  shows "keys (snd (Set now k v c)) = k # remove1 k (keys c)"
proof -
  let ?c1 = "c\<lparr>cells := (cells c)(e := (cells c e)\<lparr>ce_value := v, ce_expiresAt := now + ttl c\<rparr>)\<rparr>"
  have "keys (snd (Set now k v c)) = keys (c\<lparr>order := move_to_front e (order c)\<rparr>)"
    using assms(2) by (auto simp: Set_def Let_def keys_def)
  then show ?thesis using keys_touch[OF assms] by simp
qed

lemma keys_Set:
  assumes "lru_inv c"
  shows "keys (snd (Set now k v c)) = take (nat (maxEntries c)) (k # remove1 k (keys c))"
proof (cases "index c k")
  case None
  then have "k \<notin> set (keys c)" using set_keys[OF assms] by auto
  with keys_Set_new[OF assms None] show ?thesis by (simp add: remove1_idem)
next
  case (Some e)
  then have "k \<in> set (keys c)" using set_keys[OF assms] by auto
  then have "length (k # remove1 k (keys c)) = Len c"
    by (simp add: length_remove1 keys_def Len_def) (metis Suc_pred imageE length_pos_if_in_set)
  with keys_Set_old[OF assms Some] lru_invD(6)[OF assms] show ?thesis by (simp add: Len_def)
qed

lemma maxEntries_ops [simp]:
  "maxEntries (snd (Set now k v c)) = maxEntries c"
  "maxEntries (snd (snd (Get now k c))) = maxEntries c"
  "maxEntries (snd (Delete k c)) = maxEntries c"
  "maxEntries (snd (Purge c)) = maxEntries c"
  by (simp_all add: Set_def Get_def Delete_def Purge_def Let_def split: option.splits)

lemma maxEntries_DeletePrefix [simp]: "maxEntries (snd (DeletePrefix p c)) = maxEntries c"
proof -
  have "maxEntries (fold removeElement es c) = maxEntries c" for es :: "nat list"
    by (induction es arbitrary: c) simp_all
  then show ?thesis by (simp add: DeletePrefix_def Let_def)
qed


section \<open>Properties\<close>

datatype 'v cache_op =
    OpGet gotime string
  | OpSet gotime string 'v
  | OpDelete string
  | OpDeletePrefix string
  | OpPurge

fun apply_op :: "'v cache_op \<Rightarrow> 'v lruCache \<Rightarrow> 'v lruCache" where
  "apply_op (OpGet now k) c = snd (snd (Get now k c))"
| "apply_op (OpSet now k v) c = snd (Set now k v c)"
| "apply_op (OpDelete k) c = snd (Delete k c)"
| "apply_op (OpDeletePrefix p) c = snd (DeletePrefix p c)"
| "apply_op OpPurge c = snd (Purge c)"

lemma apply_op_inv [step_invs]: "lru_inv c \<Longrightarrow> lru_inv (apply_op x c)"
  by (cases x) (simp_all add: step_invs)

lemma apply_op_max [simp]: "maxEntries (apply_op x c) = maxEntries c"
  by (cases x) simp_all

lemma run_ops_inv:
  "lru_inv c \<Longrightarrow> lru_inv (fold apply_op xs c) \<and> maxEntries (fold apply_op xs c) = maxEntries c"
  by (induction xs arbitrary: c) (simp_all add: step_invs)

text \<open>
  C20: The cache refines a map from keys to values with an expiry time. In every state that
  satisfies the invariant, a lookup answers the stored value until its expiry and drops an
  expired entry, an insertion stores the value with a fresh expiry and forgets at most the
  least recently used key (only when the key is new and the cache is full), and the deletions
  remove exactly the keys they name.
\<close>

theorem cache_refines_expiring_map:
  assumes "lru_inv c"
  shows "fst (Get now k c) = (case view c k of None \<Rightarrow> None | Some (v, t) \<Rightarrow> if now > t then None else Some v)
    \<and> view (snd (snd (Get now k c))) =
        (case view c k of None \<Rightarrow> view c | Some (v, t) \<Rightarrow> if now > t then (view c)(k := None) else view c)
    \<and> view (snd (Set now k v c)) =
        (if view c k = None \<and> int (Len c) = maxEntries c
         then ((view c)(last (keys c) := None))(k \<mapsto> (v, now + ttl c))
         else (view c)(k \<mapsto> (v, now + ttl c)))
    \<and> view (snd (Delete k c)) = (view c)(k := None)
    \<and> (p \<noteq> [] \<longrightarrow> view (snd (DeletePrefix p c)) = (\<lambda>k. if prefix p k then None else view c k))
    \<and> view (snd (Purge c)) = (\<lambda>_. None)"
proof (intro conjI impI)
  have "order c \<noteq> []" if "int (Len c) = maxEntries c"
    using that lru_invD(7)[OF assms] by (auto simp: Len_def)
  then have "last (keys c) = ce_key (cells c (last (order c)))" if "int (Len c) = maxEntries c"
    using that by (simp add: keys_def last_map)
  moreover have "view c k = None \<longleftrightarrow> index c k = None" by (simp add: view_def)
  ultimately show "view (snd (Set now k v c)) =
        (if view c k = None \<and> int (Len c) = maxEntries c
         then ((view c)(last (keys c) := None))(k \<mapsto> (v, now + ttl c))
         else (view c)(k \<mapsto> (v, now + ttl c)))"
    using view_Set[OF assms, of now k v] by auto
qed (use view_Get[OF assms] view_Delete[OF assms] view_DeletePrefix[OF assms] view_Purge in auto)

theorem cache_refines_expiring_map_witness:
  "fst (Get 7 ''a'' (snd (Set 5 ''a'' (1::nat) (NewLRUCache 2 3)))) = Some 1
   \<and> fst (Get 9 ''a'' (snd (Set 5 ''a'' (1::nat) (NewLRUCache 2 3)))) = None"
  using cache_refines_expiring_map[OF lru_inv_Set[OF lru_inv_New], of 7 "''a''" 5 "''a''" "1::nat" 2 3]
    cache_refines_expiring_map[OF lru_inv_Set[OF lru_inv_New], of 9 "''a''" 5 "''a''" "1::nat" 2 3]
    view_Set[OF lru_inv_New, of 5 "''a''" "1::nat" 2 3]
  by (simp add: view_New) (simp add: NewLRUCache_def Len_def)

text \<open>
  Whatever sequence of operations runs on a new cache, the linked list and the hash map
  describe the same set of entries and there are never more entries than the capacity.
\<close>

theorem cache_capacity:
  "lru_inv (fold apply_op xs (NewLRUCache m d))
   \<and> int (Len (fold apply_op xs (NewLRUCache m d))) \<le> (if m \<le> 0 then 1024 else m)"
proof -
  note inv = run_ops_inv[OF lru_inv_New, of xs m d]
  have "maxEntries (NewLRUCache m d) = (if m \<le> 0 then 1024 else m)" by (simp add: NewLRUCache_def)
  with inv lru_invD(6) show ?thesis by (metis Len_def)
qed

text \<open>
  Eviction is least recently used. A hit moves the key to the front, an insertion puts the
  key in front and keeps the most recent \<open>maxEntries\<close> keys, and all other keys keep their
  order.
\<close>

theorem cache_recency:
  assumes "lru_inv c"
  shows "keys (snd (snd (Get now k c))) =
      (if fst (Get now k c) \<noteq> None then k # remove1 k (keys c) else remove1 k (keys c))
    \<and> keys (snd (Set now k v c)) = take (nat (maxEntries c)) (k # remove1 k (keys c))"
proof -
  have "remove1 k (keys c) = keys c" if "view c k = None"
    using that set_keys[OF assms] by (auto simp: view_def intro!: remove1_idem)
  then show ?thesis
    using keys_Set[OF assms] keys_Get[OF assms] view_Get(1)[OF assms] by (auto split: option.splits)
qed

theorem cache_recency_witness:
  "keys (snd (Set 5 ''c'' (3::nat) (snd (Set 5 ''b'' 2 (snd (Set 5 ''a'' 1 (NewLRUCache 2 9))))))) = [''c'', ''b'']"
  using cache_recency[OF lru_inv_Set[OF lru_inv_Set[OF lru_inv_New]], of 5 "''c''" 5 "''b''" 2 5 "''a''" 1 2 9 "3::nat"]
    keys_Set[OF lru_inv_Set[OF lru_inv_New], of 5 "''b''" 2 5 "''a''" "1::nat" 2 9]
    keys_Set[OF lru_inv_New, of 5 "''a''" "1::nat" 2 9]
  by (simp add: eval_nat_numeral) (simp add: NewLRUCache_def keys_def eval_nat_numeral)

end
