(* ===== verification/Go_Values.thy ===== *)
theory Go_Values
  imports Kapp_Prelude
begin

text \<open>
  Values of the Go language and its standard library that the components exchange: JSON as
  \<open>encoding/json\<close> decodes it, dynamically typed values (\<open>any\<close>), float64, \<open>strings.TrimSpace\<close>
  and \<open>strings.Split\<close>, and the record of the external functions the code calls.
\<close>

section \<open>float64\<close>

text \<open>
  A float64 is a finite number (its exact value), an infinity or NaN. The code only compares
  such values and converts integers to them; the conversion rounds to 53 significant bits,
  ties to even.
\<close>

datatype f64 = Fin rat | PosInf | NegInf | NaN

fun f64_lt :: "f64 \<Rightarrow> f64 \<Rightarrow> bool" where
  "f64_lt NaN _ = False"
| "f64_lt _ NaN = False"
| "f64_lt (Fin x) (Fin y) = (x < y)"
| "f64_lt NegInf NegInf = False"
| "f64_lt NegInf _ = True"
| "f64_lt PosInf _ = False"
| "f64_lt (Fin x) PosInf = True"
| "f64_lt (Fin x) NegInf = False"

fun f64_eq :: "f64 \<Rightarrow> f64 \<Rightarrow> bool" where
  "f64_eq NaN _ = False"
| "f64_eq x y = (x = y)"

fun bitlen :: "nat \<Rightarrow> nat" where
  "bitlen n = (if n = 0 then 0 else Suc (bitlen (n div 2)))"

declare bitlen.simps [simp del]

definition f64_of_int :: "int \<Rightarrow> f64" where
  "f64_of_int n =
     (let m = nat \<bar>n\<bar>; k = bitlen m - 53; q = m div 2 ^ k; r = m mod 2 ^ k;
          q' = (if 2 * r > 2 ^ k \<or> (2 * r = 2 ^ k \<and> odd q) then q + 1 else q)
      in Fin (of_int (sgn n * int (q' * 2 ^ k))))"

lemma bitlen_le: "m < 2 ^ k \<Longrightarrow> bitlen m \<le> k"
proof (induction k arbitrary: m)
  case (Suc k)
  have "bitlen (m div 2) \<le> k" by (rule Suc.IH) (use Suc.prems in auto)
  then show ?case by (subst bitlen.simps) auto
qed (simp add: bitlen.simps)

lemma f64_of_int_exact: "\<bar>n\<bar> < 2 ^ 53 \<Longrightarrow> f64_of_int n = Fin (of_int n)"
proof -
  assume "\<bar>n\<bar> < 2 ^ 53"
  then have "nat \<bar>n\<bar> < 2 ^ 53" by simp
  then have "bitlen (nat \<bar>n\<bar>) - 53 = 0" using bitlen_le by simp
  then show ?thesis by (cases "0 \<le> n") (auto simp: f64_of_int_def Let_def sgn_if)
qed

lemma f64_eq_sym: "f64_eq x y = f64_eq y x"
  by (cases x; cases y) auto


section \<open>JSON\<close>

text \<open>
  A JSON value; an object keeps its members in text order, repeated names included. \<open>JNum None\<close>
  is a number literal outside the range of float64, which decoding into a float64 refuses.
  A \<open>json.RawMessage\<close> at top level is its bytes together with what \<open>json.Unmarshal\<close> makes of
  them, \<open>None\<close> when they are no JSON text; a nested one is the JSON value it holds.
\<close>

datatype json =
    JNull
  | JBool bool
  | JNum "f64 option"
  | JStr string
  | JArr "json list"
  | JObj "(string \<times> json) list"

record raw_message =
  raw_text :: string
  raw_json :: "json option"

text \<open>The raw message of a JSON value, where \<open>jt\<close> gives its text (\<open>json.Marshal\<close>, or JSONB output).\<close>

definition raw_of :: "(json \<Rightarrow> string) \<Rightarrow> json \<Rightarrow> raw_message" where
  "raw_of jt j = \<lparr>raw_text = jt j, raw_json = Some j\<rparr>"

text \<open>Decoding into \<open>map[string]json.RawMessage\<close>: \<open>null\<close> leaves the nil map.\<close>

fun unmarshal_map :: "json \<Rightarrow> (string \<times> json) list option" where
  "unmarshal_map JNull = Some []"
| "unmarshal_map (JObj ps) = Some (go_map ps)"
| "unmarshal_map _ = None"

text \<open>Decoding into a slice of raw messages, into a bool and into a string.\<close>

fun unmarshal_slice :: "json \<Rightarrow> json list option" where
  "unmarshal_slice JNull = Some []"
| "unmarshal_slice (JArr js) = Some js"
| "unmarshal_slice _ = None"

fun unmarshal_bool :: "json \<Rightarrow> bool option" where
  "unmarshal_bool JNull = Some False"
| "unmarshal_bool (JBool b) = Some b"
| "unmarshal_bool _ = None"

fun unmarshal_string :: "string \<Rightarrow> json \<Rightarrow> string option" where
  "unmarshal_string old JNull = Some old"
| "unmarshal_string old (JStr s) = Some s"
| "unmarshal_string old _ = None"

lemma unmarshal_slice_size: "unmarshal_slice j = Some js \<Longrightarrow> x \<in> set js \<Longrightarrow> size x < size j"
  by (cases j) (auto dest: size_list_estimation'[where f = size and y = "size x"])

lemma size_member: "(k, v) \<in> set ps \<Longrightarrow> size v < size (JObj ps)"
  by (induction ps) auto

lemma unmarshal_map_size: "unmarshal_map j = Some m \<Longrightarrow> (k, v) \<in> set m \<Longrightarrow> size v < size j"
  using set_go_map size_member by (cases j) (fastforce simp del: json.size)+


section \<open>Dynamically typed values\<close>

text \<open>
  The dynamic types that the code's type switches distinguish. \<open>AInt\<close> is int, int32 or int64,
  \<open>AUint\<close> uint, uint32 or uint64; \<open>AFloat\<close> is float64 or float32; \<open>AJNum\<close> is a \<open>json.Number\<close>
  with the result of its \<open>Float64\<close> method; \<open>AStringer\<close> is any other type with a \<open>String\<close>
  method, with its result; \<open>AOther\<close> is any remaining type.
\<close>

datatype any =
    ANil
  | ABool bool
  | AStr string
  | AUuid uuid
  | AStringer string
  | AFloat f64
  | AInt int
  | AUint int
  | AJNum "f64 option"
  | AList "any list"
  | AMap "(string \<times> any) list"
  | AOther

text \<open>Decoding JSON into \<open>any\<close> (\<open>None\<close>: a number out of range).\<close>

fun unmarshal_any :: "json \<Rightarrow> any option"
  and unmarshal_anys :: "json list \<Rightarrow> any list option"
  and unmarshal_members :: "(string \<times> json) list \<Rightarrow> (string \<times> any) list option"
where
  "unmarshal_any JNull = Some ANil"
| "unmarshal_any (JBool b) = Some (ABool b)"
| "unmarshal_any (JNum n) = map_option AFloat n"
| "unmarshal_any (JStr s) = Some (AStr s)"
| "unmarshal_any (JArr js) = map_option AList (unmarshal_anys js)"
| "unmarshal_any (JObj ps) = map_option (\<lambda>m. AMap (go_map m)) (unmarshal_members ps)"
| "unmarshal_anys [] = Some []"
| "unmarshal_anys (j # js) =
     (case (unmarshal_any j, unmarshal_anys js) of (Some a, Some as) \<Rightarrow> Some (a # as) | _ \<Rightarrow> None)"
| "unmarshal_members [] = Some []"
| "unmarshal_members ((k, j) # ps) =
     (case (unmarshal_any j, unmarshal_members ps) of
        (Some a, Some as) \<Rightarrow> Some ((k, a) # as) | _ \<Rightarrow> None)"


section \<open>Strings\<close>

text \<open>The byte sequences that \<open>strings.TrimSpace\<close> strips (Unicode White\_Space in UTF-8).\<close>

definition go_spaces :: "string list" where
  "go_spaces =
     [[CHR 0x09], [CHR 0x0A], [CHR 0x0B], [CHR 0x0C], [CHR 0x0D], [CHR 0x20],
      [CHR 0xC2, CHR 0x85], [CHR 0xC2, CHR 0xA0], [CHR 0xE1, CHR 0x9A, CHR 0x80],
      [CHR 0xE2, CHR 0x80, CHR 0x80], [CHR 0xE2, CHR 0x80, CHR 0x81], [CHR 0xE2, CHR 0x80, CHR 0x82],
      [CHR 0xE2, CHR 0x80, CHR 0x83], [CHR 0xE2, CHR 0x80, CHR 0x84], [CHR 0xE2, CHR 0x80, CHR 0x85],
      [CHR 0xE2, CHR 0x80, CHR 0x86], [CHR 0xE2, CHR 0x80, CHR 0x87], [CHR 0xE2, CHR 0x80, CHR 0x88],
      [CHR 0xE2, CHR 0x80, CHR 0x89], [CHR 0xE2, CHR 0x80, CHR 0x8A], [CHR 0xE2, CHR 0x80, CHR 0xA8],
      [CHR 0xE2, CHR 0x80, CHR 0xA9], [CHR 0xE2, CHR 0x80, CHR 0xAF], [CHR 0xE2, CHR 0x81, CHR 0x9F],
      [CHR 0xE3, CHR 0x80, CHR 0x80]]"

fun trim_front :: "nat \<Rightarrow> string list \<Rightarrow> string \<Rightarrow> string" where
  "trim_front 0 sps s = s"
| "trim_front (Suc n) sps s =
     (case List.find (\<lambda>sp. prefix sp s) sps of
        None \<Rightarrow> s
      | Some sp \<Rightarrow> trim_front n sps (drop (length sp) s))"

text \<open>Each round strips at least one byte, so the length of the string is enough rounds.\<close>

definition TrimSpace :: "string \<Rightarrow> string" where
  "TrimSpace s =
     (let t = trim_front (length s) go_spaces s
      in rev (trim_front (length t) (map rev go_spaces) (rev t)))"

lemma trim_front_idle: "List.find (\<lambda>sp. prefix sp s) sps = None \<Longrightarrow> trim_front n sps s = s"
  by (cases n) auto

lemma trim_front_done:
  "(\<And>sp. sp \<in> set sps \<Longrightarrow> sp \<noteq> []) \<Longrightarrow> length s \<le> n \<Longrightarrow>
   List.find (\<lambda>sp. prefix sp (trim_front n sps s)) sps = None"
proof (induction n arbitrary: s)
  case 0
  then show ?case by (auto simp: find_None_iff)
next
  case (Suc n)
  show ?case
  proof (cases "List.find (\<lambda>sp. prefix sp s) sps")
    case (Some sp)
    then have sp: "sp \<in> set sps" "prefix sp s" by (auto dest: find_SomeD)
    then have "sp \<noteq> []" using Suc.prems(1) by auto
    with Suc.prems(2) have "length (drop (length sp) s) \<le> n" by (cases sp) auto
    from Suc.IH[OF Suc.prems(1) this] Some show ?thesis by simp
  qed simp
qed

text \<open>\<open>strings.Split(s, sep)\<close> for a separator of one byte.\<close>

fun split_on :: "char \<Rightarrow> string \<Rightarrow> string list" where
  "split_on c [] = [[]]"
| "split_on c (x # xs) =
     (if x = c then [] # split_on c xs
      else (case split_on c xs of [] \<Rightarrow> [[x]] | w # ws \<Rightarrow> (x # w) # ws))"

lemma split_on_nonempty: "split_on c s \<noteq> []"
  by (induction s) (auto split: list.splits)

lemma split_on_no_sep: "w \<in> set (split_on c s) \<Longrightarrow> c \<notin> set w"
proof (induction s arbitrary: w)
  case (Cons x xs)
  then show ?case
    by (cases "split_on c xs") (auto split: if_splits)
qed auto

fun join_with :: "char \<Rightarrow> string list \<Rightarrow> string" where
  "join_with c [] = []"
| "join_with c [w] = w"
| "join_with c (w # ws) = w @ c # join_with c ws"

lemma join_split: "join_with c (split_on c s) = s"
proof (induction s)
  case (Cons x xs)
  obtain w ws where "split_on c xs = w # ws"
    using split_on_nonempty by (metis neq_Nil_conv)
  with Cons show ?case by (cases ws) auto
qed simp

text \<open>A path segment: nonempty, letters, digits and underscore only.\<close>

definition ident_char :: "char \<Rightarrow> bool" where
  "ident_char r \<longleftrightarrow>
     CHR ''a'' \<le> r \<and> r \<le> CHR ''z'' \<or> CHR ''A'' \<le> r \<and> r \<le> CHR ''Z''
     \<or> CHR ''0'' \<le> r \<and> r \<le> CHR ''9'' \<or> r = CHR ''_''"


section \<open>External functions\<close>

text \<open>
  What the code calls outside the repository: \<open>uuid.Parse\<close> and \<open>UUID.String\<close> of google/uuid,
  \<open>regexp.Compile\<close> and \<open>MatchString\<close> (a compiled expression is a handle),
  \<open>time.Parse\<close> and \<open>Time.Format\<close> for RFC 3339. Every definition that calls one of them takes the
  record as an argument.
\<close>

type_synonym regexp = string

record golib =
  uuid_parse :: "string \<Rightarrow> uuid option"
  uuid_string :: "uuid \<Rightarrow> string"
  regexp_compile :: "string \<Rightarrow> regexp option"
  regexp_match :: "regexp \<Rightarrow> string \<Rightarrow> bool"
  time_parse :: "string \<Rightarrow> gotime option"
  time_format :: "gotime \<Rightarrow> string"

text \<open>Documented behaviour of google/uuid: the canonical form parses back and has no colon.\<close>

definition uuid_laws :: "golib \<Rightarrow> bool" where
  "uuid_laws L \<longleftrightarrow>
     (\<forall>u. uuid_parse L (uuid_string L u) = Some u)
     \<and> (\<forall>u. CHR '':'' \<notin> set (uuid_string L u))"

lemma uuid_string_inj: "uuid_laws L \<Longrightarrow> uuid_string L u = uuid_string L v \<Longrightarrow> u = v"
  unfolding uuid_laws_def by (metis option.inject)

text \<open>
  A concrete instance of the external functions, for closed examples: a UUID prints as its 128
  bits, a regular expression matches itself only, no string is a time.
\<close>

definition bin_uuid :: "uuid \<Rightarrow> string" where
  "bin_uuid u = map (\<lambda>i. if bit u i then CHR ''1'' else CHR ''0'') [0..<128]"

definition bin_parse :: "string \<Rightarrow> uuid option" where
  "bin_parse s =
     (if length s = 128 \<and> list_all (\<lambda>c. c = CHR ''0'' \<or> c = CHR ''1'') s
      then Some (horner_sum of_bool 2 (map (\<lambda>c. c = CHR ''1'') s)) else None)"

definition bin_lib :: golib where
  "bin_lib =
     \<lparr>uuid_parse = bin_parse, uuid_string = bin_uuid,
      regexp_compile = (\<lambda>pat. if pat = ''('' then None else Some pat),
      regexp_match = (\<lambda>re s. s = re),
      time_parse = (\<lambda>_. None), time_format = (\<lambda>_. ''2026-01-01T00:00:00Z'')\<rparr>"

lemma set_bin_uuid: "set (bin_uuid u) \<subseteq> {CHR ''0'', CHR ''1''}"
  unfolding bin_uuid_def set_map by (rule image_subsetI) simp

lemma bin_parse_bin_uuid: "bin_parse (bin_uuid u) = Some u"
proof -
  have "map (\<lambda>c. c = CHR ''1'') (bin_uuid u) = map (bit u) [0..<128]"
    unfolding bin_uuid_def map_map by (rule map_cong) auto
  moreover have "horner_sum of_bool 2 (map (bit u) [0..<128]) = take_bit 128 u"
    by (rule horner_sum_bit_eq_take_bit)
  moreover have "length (bin_uuid u) = 128"
    by (simp add: bin_uuid_def del: upt_rec_numeral)
  ultimately show ?thesis
    using set_bin_uuid[of u] by (auto simp: bin_parse_def list_all_iff take_bit_word_eq_self)
qed

lemma uuid_laws_bin_lib: "uuid_laws bin_lib"
  using set_bin_uuid by (fastforce simp: uuid_laws_def bin_lib_def bin_parse_bin_uuid)

end
