(* ===== verification/Condition.thy ===== *)
theory Condition
  imports Go_Values
begin

text \<open>
  The condition language of permissions (internal/authz/condition/condition.go): a JSON payload
  is compiled into a tree of \<open>all_of\<close>, \<open>any_of\<close>, \<open>not\<close> and \<open>leaf\<close> nodes and evaluated against
  an actor and the attributes of a record.

  Definitions follow the source: the AST and its evaluation, the operator and reference tables,
  literals, the parser with its depth bound, the comparison of dynamic values, and the
  translation of the older two-key form. The lemmas show the depth bound, that malformed
  payloads deny, that evaluation reads nothing but the attribute paths of the tree and the
  four references, and when evaluation can fail.
\<close>

definition MaxDepth :: nat where
  "MaxDepth = 16"

record Actor =
  UserID :: uuid
  TenantID :: uuid
  Roles :: "string list"
  Now :: gotime

record evalEnv =
  env_actor :: Actor
  env_attrs :: "(string \<times> any) list"
  env_clock :: gotime


section \<open>Operators, references, literals\<close>

datatype op = OpEq | OpNe | OpLt | OpLe | OpGt | OpGe | OpIn | OpNotIn | OpPrefix | OpSuffix
  | OpContains | OpExists | OpMatches

definition opNames :: "(string \<times> op) list" where
  "opNames =
     [(''eq'', OpEq), (''ne'', OpNe), (''lt'', OpLt), (''le'', OpLe), (''gt'', OpGt), (''ge'', OpGe),
      (''in'', OpIn), (''not_in'', OpNotIn), (''prefix'', OpPrefix), (''suffix'', OpSuffix),
      (''contains'', OpContains), (''exists'', OpExists), (''matches'', OpMatches)]"

datatype refSource = RefActorUserID | RefActorTenantID | RefActorRoles | RefNow

definition refNames :: "(string \<times> refSource) list" where
  "refNames =
     [(''actor.user_id'', RefActorUserID), (''actor.tenant_id'', RefActorTenantID),
      (''actor.roles'', RefActorRoles), (''now'', RefNow)]"

text \<open>\<open>clock\<close> is what \<open>time.Now()\<close> reads when the actor carries no pinned time.\<close>

fun resolveRef :: "golib \<Rightarrow> gotime \<Rightarrow> Actor \<Rightarrow> refSource \<Rightarrow> any" where
  "resolveRef L clock a RefActorUserID = AStr (uuid_string L (UserID a))"
| "resolveRef L clock a RefActorTenantID = AStr (uuid_string L (TenantID a))"
| "resolveRef L clock a RefActorRoles = AList (map AStr (Roles a))"
| "resolveRef L clock a RefNow = AStr (time_format L (if Now a = 0 then clock else Now a))"

datatype literal =
    LitString string
  | LitNumber f64
  | LitBool bool
  | LitList "literal list"
  | LitNull

fun toAny :: "literal \<Rightarrow> any" where
  "toAny (LitString s) = AStr s"
| "toAny (LitNumber n) = AFloat n"
| "toAny (LitBool b) = ABool b"
| "toAny (LitList ls) = AList (map toAny ls)"
| "toAny LitNull = ANil"

definition is_LitList :: "literal \<Rightarrow> bool" where
  "is_LitList l = (case l of LitList _ \<Rightarrow> True | _ \<Rightarrow> False)"

datatype compile_error =
    BadJson
  | NestedListValue
  | UnrecognisedLiteral
  | DepthExceeded
  | NotOneKey nat
  | UnknownNodeKind string
  | FieldRequired
  | BadFieldPath string
  | UnknownOp string
  | ValueAndRef
  | ValueOrRefRequired
  | UnknownRef string
  | RefNotAList
  | ListValueRequired
  | ListValueRefused
  | PatternRequired
  | InvalidRegex
  | BoolValueRequired
  | LegacyStatusList

function parseLiteral :: "json \<Rightarrow> compile_error + literal" where
  "parseLiteral JNull = Inr LitNull"
| "parseLiteral (JBool b) = Inr (LitBool b)"
| "parseLiteral (JStr s) = Inr (LitString s)"
| "parseLiteral (JArr arr) =
     rbind (mapM (\<lambda>item. rbind (parseLiteral item)
                     (\<lambda>child. if is_LitList child then Inl NestedListValue else Inr child)) arr)
           (\<lambda>items. Inr (LitList items))"
| "parseLiteral (JNum n) = (case n of None \<Rightarrow> Inl UnrecognisedLiteral | Some f \<Rightarrow> Inr (LitNumber f))"
| "parseLiteral (JObj ps) = Inl UnrecognisedLiteral"
  by pat_completeness auto
termination
  by (relation "measure size") (auto dest: size_list_estimation'[where f = size and y = "size _"]
      intro: le_imp_less_Suc)


section \<open>Comparison of dynamic values\<close>

fun asString :: "golib \<Rightarrow> any \<Rightarrow> string option" where
  "asString L (AStr s) = Some s"
| "asString L (AUuid u) = Some (uuid_string L u)"
| "asString L (AStringer s) = Some s"
| "asString L _ = None"

fun asNumber :: "any \<Rightarrow> f64 option" where
  "asNumber (AFloat f) = Some f"
| "asNumber (AInt n) = Some (f64_of_int n)"
| "asNumber (AUint n) = Some (f64_of_int n)"
| "asNumber (AJNum f) = f"
| "asNumber _ = None"

fun asBool :: "any \<Rightarrow> bool option" where
  "asBool (ABool b) = Some b"
| "asBool _ = None"

fun asList :: "any \<Rightarrow> any list option" where
  "asList (AList xs) = Some xs"
| "asList _ = None"

definition equal_strings :: "golib \<Rightarrow> string \<Rightarrow> string \<Rightarrow> bool" where
  "equal_strings L as bs =
     (case (uuid_parse L as, uuid_parse L bs) of
        (Some au, Some bu) \<Rightarrow> au = bu
      | _ \<Rightarrow> as = bs)"

definition equal :: "golib \<Rightarrow> any \<Rightarrow> any \<Rightarrow> bool" where
  "equal L a b =
     (case asString L a of
        Some as \<Rightarrow> (case asString L b of None \<Rightarrow> False | Some bs \<Rightarrow> equal_strings L as bs)
      | None \<Rightarrow>
          (case asNumber a of
             Some an \<Rightarrow> (case asNumber b of None \<Rightarrow> False | Some bn \<Rightarrow> f64_eq an bn)
           | None \<Rightarrow>
               (case asBool a of
                  Some ab \<Rightarrow> (case asBool b of None \<Rightarrow> False | Some bb \<Rightarrow> ab = bb)
                | None \<Rightarrow> False)))"

text \<open>The three-way comparison, \<open>None\<close> when the two sides are not comparable.\<close>

definition cmp3 :: "bool \<Rightarrow> bool \<Rightarrow> int" where
  "cmp3 ltn gtn = (if ltn then -1 else if gtn then 1 else 0)"

definition compareOrdered :: "golib \<Rightarrow> any \<Rightarrow> any \<Rightarrow> int option" where
  "compareOrdered L a b =
     (case asNumber a of
        Some an \<Rightarrow>
          (case asNumber b of
             Some bn \<Rightarrow> Some (cmp3 (f64_lt an bn) (f64_lt bn an))
           | None \<Rightarrow> None)
      | None \<Rightarrow>
          (case (asString L a, asString L b) of
             (Some as, Some bs) \<Rightarrow>
               (case (time_parse L as, time_parse L bs) of
                  (Some ta, Some tb) \<Rightarrow> Some (cmp3 (ta < tb) (tb < ta))
                | _ \<Rightarrow> Some (cmp3 (as < bs) (bs < as)))
           | _ \<Rightarrow> None))"

datatype eval_error = MatchesMissingRegex

definition applyOp :: "golib \<Rightarrow> op \<Rightarrow> any \<Rightarrow> any \<Rightarrow> regexp option \<Rightarrow> eval_error + bool" where
  "applyOp L oper lhs rhs re =
     (let ordered = (\<lambda>test. Inr (case compareOrdered L lhs rhs of None \<Rightarrow> False | Some c \<Rightarrow> test c));
          strings = (\<lambda>test. Inr (case (asString L lhs, asString L rhs) of
                                   (Some ls, Some rs) \<Rightarrow> test ls rs | _ \<Rightarrow> False));
          member = (\<lambda>pos. Inr (case asList rhs of
                                 None \<Rightarrow> False
                               | Some items \<Rightarrow> (list_ex (equal L lhs) items \<longleftrightarrow> pos)))
      in case oper of
           OpEq \<Rightarrow> Inr (equal L lhs rhs)
         | OpNe \<Rightarrow> Inr (\<not> equal L lhs rhs)
         | OpLt \<Rightarrow> ordered (\<lambda>c. c < 0)
         | OpLe \<Rightarrow> ordered (\<lambda>c. c \<le> 0)
         | OpGt \<Rightarrow> ordered (\<lambda>c. c > 0)
         | OpGe \<Rightarrow> ordered (\<lambda>c. c \<ge> 0)
         | OpIn \<Rightarrow> member True
         | OpNotIn \<Rightarrow> member False
         | OpPrefix \<Rightarrow> strings (\<lambda>ls rs. prefix rs ls)
         | OpSuffix \<Rightarrow> strings (\<lambda>ls rs. suffix rs ls)
         | OpContains \<Rightarrow>
             (case asList lhs of
                Some items \<Rightarrow> Inr (list_ex (\<lambda>item. equal L item rhs) items)
              | None \<Rightarrow> strings (\<lambda>ls rs. sublist rs ls))
         | OpExists \<Rightarrow> Inr False
         | OpMatches \<Rightarrow>
             (case re of
                None \<Rightarrow> Inl MatchesMissingRegex
              | Some r \<Rightarrow> Inr (case asString L lhs of None \<Rightarrow> False | Some ls \<Rightarrow> regexp_match L r ls)))"


section \<open>The tree and its evaluation\<close>

record leaf =
  path :: "string list"
  leaf_op :: op
  leaf_value :: "literal option"
  refSrc :: "refSource option"
  regex :: "regexp option"

datatype node =
    AllOf "node list"
  | AnyOf "node list"
  | NotNode node
  | Leaf leaf

fun walk_path :: "any \<Rightarrow> string list \<Rightarrow> any option" where
  "walk_path cur [] = Some cur"
| "walk_path cur (seg # segs) =
     (case cur of
        AMap m \<Rightarrow> (case map_of m seg of None \<Rightarrow> None | Some nxt \<Rightarrow> walk_path nxt segs)
      | _ \<Rightarrow> None)"

definition resolveAttrPath :: "(string \<times> any) list \<Rightarrow> string list \<Rightarrow> any option" where
  "resolveAttrPath attrs p = (if p = [] then None else walk_path (AMap attrs) p)"

definition eval_leaf :: "golib \<Rightarrow> evalEnv \<Rightarrow> leaf \<Rightarrow> eval_error + bool" where
  "eval_leaf L env n =
     (let lhs = resolveAttrPath (env_attrs env) (path n)
      in if leaf_op n = OpExists
         then Inr ((lhs \<noteq> None) = (case leaf_value n of Some (LitBool b) \<Rightarrow> b | _ \<Rightarrow> True))
         else (case lhs of
                 None \<Rightarrow> Inr False
               | Some v \<Rightarrow>
                   if v = ANil then Inr False
                   else let rhs = (case refSrc n of
                                     Some r \<Rightarrow> resolveRef L (env_clock env) (env_actor env) r
                                   | None \<Rightarrow> (case leaf_value n of Some l \<Rightarrow> toAny l | None \<Rightarrow> ANil))
                        in applyOp L (leaf_op n) v rhs (regex n)))"

fun eval :: "golib \<Rightarrow> evalEnv \<Rightarrow> node \<Rightarrow> eval_error + bool"
  and eval_all :: "golib \<Rightarrow> evalEnv \<Rightarrow> node list \<Rightarrow> eval_error + bool"
  and eval_any :: "golib \<Rightarrow> evalEnv \<Rightarrow> node list \<Rightarrow> eval_error + bool"
where
  "eval L env (AllOf children) = eval_all L env children"
| "eval L env (AnyOf children) = eval_any L env children"
| "eval L env (NotNode child) = rbind (eval L env child) (\<lambda>ok. Inr (\<not> ok))"
| "eval L env (Leaf n) = eval_leaf L env n"
| "eval_all L env [] = Inr True"
| "eval_all L env (c # cs) = rbind (eval L env c) (\<lambda>ok. if ok then eval_all L env cs else Inr False)"
| "eval_any L env [] = Inr False"
| "eval_any L env (c # cs) = rbind (eval L env c) (\<lambda>ok. if ok then Inr True else eval_any L env cs)"


section \<open>The parser\<close>

text \<open>\<open>encoding/json\<close> matches the members of an object with struct fields up to letter case.\<close>

definition go_lower :: "char \<Rightarrow> char" where
  "go_lower c = (if CHR ''A'' \<le> c \<and> c \<le> CHR ''Z'' then char_of (of_char c + 32 :: nat) else c)"

record leafSpec =
  Field :: string
  Op :: string
  Value :: "json option"
  Ref :: string

definition decode_member :: "string \<times> json \<Rightarrow> leafSpec option \<Rightarrow> leafSpec option" where
  "decode_member kv spec =
     (case spec of
        None \<Rightarrow> None
      | Some sp \<Rightarrow>
          (let k = map go_lower (fst kv); v = snd kv
           in if k = ''field'' then map_option (\<lambda>x. sp\<lparr>Field := x\<rparr>) (unmarshal_string (Field sp) v)
              else if k = ''op'' then map_option (\<lambda>x. sp\<lparr>Op := x\<rparr>) (unmarshal_string (Op sp) v)
              else if k = ''value'' then Some (sp\<lparr>Value := Some v\<rparr>)
              else if k = ''ref'' then map_option (\<lambda>x. sp\<lparr>Ref := x\<rparr>) (unmarshal_string (Ref sp) v)
              else Some sp))"

definition unmarshal_leafSpec :: "json \<Rightarrow> leafSpec option" where
  "unmarshal_leafSpec j =
     (let zero = \<lparr>Field = [], Op = [], Value = None, Ref = []\<rparr>
      in case j of JNull \<Rightarrow> Some zero | JObj ps \<Rightarrow> fold decode_member ps (Some zero) | _ \<Rightarrow> None)"

definition parseFieldPath :: "string \<Rightarrow> compile_error + string list" where
  "parseFieldPath s =
     (if s = [] then Inl (BadFieldPath s)
      else let parts = split_on CHR ''.'' s
           in if list_all (\<lambda>p. p \<noteq> [] \<and> list_all ident_char p) parts then Inr parts
              else Inl (BadFieldPath s))"

definition set_op :: "op \<Rightarrow> bool" where
  "set_op oper \<longleftrightarrow> oper = OpIn \<or> oper = OpNotIn"

definition leaf_ref :: "leafSpec \<Rightarrow> op \<Rightarrow> leaf \<Rightarrow> compile_error + leaf" where
  "leaf_ref spec oper n =
     (if Ref spec = [] then Inr n
      else case map_of refNames (Ref spec) of
             None \<Rightarrow> Inl (UnknownRef (Ref spec))
           | Some rs \<Rightarrow>
               rbind (guard RefNotAList (\<not> (set_op oper \<and> rs \<noteq> RefActorRoles)))
                 (\<lambda>_. Inr (n\<lparr>refSrc := Some rs\<rparr>)))"

definition leaf_literal :: "golib \<Rightarrow> leafSpec \<Rightarrow> op \<Rightarrow> leaf \<Rightarrow> compile_error + leaf" where
  "leaf_literal L spec oper n =
     (case Value spec of
        None \<Rightarrow> Inr n
      | Some v \<Rightarrow>
          rbind (parseLiteral v) (\<lambda>lit.
          rbind (guard ListValueRequired (\<not> (set_op oper \<and> \<not> is_LitList lit))) (\<lambda>_.
          rbind (guard ListValueRefused (\<not> (\<not> set_op oper \<and> is_LitList lit))) (\<lambda>_.
          if oper = OpMatches
          then (case lit of
                  LitString pat \<Rightarrow>
                    (case regexp_compile L pat of
                       None \<Rightarrow> Inl InvalidRegex
                     | Some re \<Rightarrow> Inr (n\<lparr>leaf_value := Some lit, regex := Some re\<rparr>))
                | _ \<Rightarrow> Inl PatternRequired)
          else Inr (n\<lparr>leaf_value := Some lit\<rparr>)))))"

definition leaf_exists :: "op \<Rightarrow> leaf \<Rightarrow> compile_error + leaf" where
  "leaf_exists oper n =
     (if oper = OpExists
      then (case leaf_value n of
              None \<Rightarrow> Inr (n\<lparr>leaf_value := Some (LitBool True)\<rparr>)
            | Some (LitBool b) \<Rightarrow> Inr n
            | Some _ \<Rightarrow> Inl BoolValueRequired)
      else Inr n)"

definition compileLeaf :: "golib \<Rightarrow> json \<Rightarrow> compile_error + leaf" where
  "compileLeaf L j =
     (case unmarshal_leafSpec j of
        None \<Rightarrow> Inl BadJson
      | Some spec \<Rightarrow>
          rbind (guard FieldRequired (Field spec \<noteq> [])) (\<lambda>_.
          rbind (parseFieldPath (Field spec)) (\<lambda>p.
          case map_of opNames (Op spec) of
            None \<Rightarrow> Inl (UnknownOp (Op spec))
          | Some oper \<Rightarrow>
              rbind (guard ValueAndRef (\<not> (Value spec \<noteq> None \<and> Ref spec \<noteq> []))) (\<lambda>_.
              rbind (guard ValueOrRefRequired (Value spec \<noteq> None \<or> Ref spec \<noteq> [] \<or> oper = OpExists)) (\<lambda>_.
              rbind (leaf_ref spec oper
                       \<lparr>path = p, leaf_op = oper, leaf_value = None, refSrc = None, regex = None\<rparr>) (\<lambda>n.
              rbind (leaf_literal L spec oper n) (\<lambda>n.
              leaf_exists oper n)))))))"

function (sequential) compileNode :: "golib \<Rightarrow> json \<Rightarrow> nat \<Rightarrow> compile_error + node" where
  "compileNode L raw depth =
     (if depth > MaxDepth then Inl DepthExceeded
      else case unmarshal_map raw of
             None \<Rightarrow> Inl BadJson
           | Some [(key, body)] \<Rightarrow>
               (if key = ''all_of'' \<or> key = ''any_of''
                then (case unmarshal_slice body of
                        None \<Rightarrow> Inl BadJson
                      | Some items \<Rightarrow>
                          rbind (mapM (\<lambda>item. compileNode L item (Suc depth)) items)
                            (\<lambda>children. Inr (if key = ''all_of'' then AllOf children else AnyOf children)))
                else if key = ''not''
                then rbind (compileNode L body (Suc depth)) (\<lambda>child. Inr (NotNode child))
                else if key = ''leaf'' then rbind (compileLeaf L body) (\<lambda>n. Inr (Leaf n))
                else Inl (UnknownNodeKind key))
           | Some m \<Rightarrow> Inl (NotOneKey (length m)))"
  by pat_completeness auto
termination
  by (relation "measure (\<lambda>(L, raw, depth). size raw)")
    (auto dest!: unmarshal_slice_size unmarshal_map_size[where k = "_"])

declare compileNode.simps [simp del]


section \<open>The older two-key form, and compilation\<close>

definition isLegacyShape :: "(string \<times> json) list \<Rightarrow> bool" where
  "isLegacyShape keys \<longleftrightarrow>
     keys \<noteq> [] \<and> list_all (\<lambda>kv. fst kv = ''owner_only'' \<or> fst kv = ''status_in'') keys"

definition user_leaf :: "string \<Rightarrow> node" where
  "user_leaf field =
     Leaf \<lparr>path = [field], leaf_op = OpEq, leaf_value = None, refSrc = Some RefActorUserID, regex = None\<rparr>"

definition status_leaf :: "literal \<Rightarrow> node" where
  "status_leaf lit =
     Leaf \<lparr>path = [''status''], leaf_op = OpIn, leaf_value = Some lit, refSrc = None, regex = None\<rparr>"

definition legacy_owner :: "(string \<times> json) list \<Rightarrow> compile_error + node list" where
  "legacy_owner keys =
     (case map_of keys ''owner_only'' of
        None \<Rightarrow> Inr []
      | Some v \<Rightarrow>
          (case unmarshal_bool v of
             None \<Rightarrow> Inl BadJson
           | Some b \<Rightarrow> Inr (if b then [AnyOf [user_leaf ''owner'', user_leaf ''created_by'']] else [])))"

definition legacy_status :: "(string \<times> json) list \<Rightarrow> compile_error + node list" where
  "legacy_status keys =
     (case map_of keys ''status_in'' of
        None \<Rightarrow> Inr []
      | Some v \<Rightarrow>
          rbind (parseLiteral v) (\<lambda>lit.
          rbind (guard LegacyStatusList (is_LitList lit)) (\<lambda>_. Inr [status_leaf lit])))"

definition compileLegacy :: "(string \<times> json) list \<Rightarrow> compile_error + node" where
  "compileLegacy keys =
     rbind (legacy_owner keys) (\<lambda>os.
     rbind (legacy_status keys) (\<lambda>ss.
     Inr (case os @ ss of [n] \<Rightarrow> n | nodes \<Rightarrow> AllOf nodes)))"

text \<open>A compiled condition is a root node, or the marker of a failed compilation.\<close>

datatype compiled = FailClosed | Root node

definition IsUnconditional :: "raw_message \<Rightarrow> bool" where
  "IsUnconditional raw =
     (let t = TrimSpace (raw_text raw) in t = '''' \<or> t = ''{}'' \<or> t = ''null'')"

definition fail_closed :: "compile_error + node \<Rightarrow> compiled" where
  "fail_closed r = (case r of Inl _ \<Rightarrow> FailClosed | Inr n \<Rightarrow> Root n)"

definition Compile :: "golib \<Rightarrow> raw_message \<Rightarrow> compiled" where
  "Compile L raw =
     (if IsUnconditional raw then Root (AllOf [])
      else case raw_json raw of
             None \<Rightarrow> FailClosed
           | Some j \<Rightarrow>
               (case unmarshal_map j of
                  None \<Rightarrow> FailClosed
                | Some keys \<Rightarrow>
                    if isLegacyShape keys then fail_closed (compileLegacy keys)
                    else fail_closed (compileNode L j 0)))"

text \<open>\<open>Eval\<close> on a pointer: the nil pointer denies.\<close>

definition Eval :: "golib \<Rightarrow> gotime \<Rightarrow> compiled option \<Rightarrow> Actor \<Rightarrow> (string \<times> any) list \<Rightarrow> eval_error + bool" where
  "Eval L clock c actor attrs =
     (case c of
        None \<Rightarrow> Inr False
      | Some FailClosed \<Rightarrow> Inr False
      | Some (Root n) \<Rightarrow> eval L \<lparr>env_actor = actor, env_attrs = attrs, env_clock = clock\<rparr> n)"

definition EvalRaw :: "golib \<Rightarrow> gotime \<Rightarrow> raw_message \<Rightarrow> Actor \<Rightarrow> (string \<times> any) list \<Rightarrow> eval_error + bool" where
  "EvalRaw L clock raw actor attrs = Eval L clock (Some (Compile L raw)) actor attrs"


section \<open>Evaluation of combinators\<close>

lemma eval_all_True: "eval_all L env cs = Inr True \<longleftrightarrow> (\<forall>c \<in> set cs. eval L env c = Inr True)"
  by (induction cs) (auto simp: rbind_def split: sum.splits)

lemma eval_any_append:
  "\<forall>a \<in> set as. eval L env a = Inr False \<Longrightarrow> eval_any L env (as @ cs) = eval_any L env cs"
  by (induction as) auto

lemma eval_any_TrueE:
  assumes "eval_any L env cs = Inr True"
  obtains as c bs where "cs = as @ c # bs" "eval L env c = Inr True" "\<forall>a \<in> set as. eval L env a = Inr False"
proof -
  have "\<exists>as c bs. cs = as @ c # bs \<and> eval L env c = Inr True \<and> (\<forall>a \<in> set as. eval L env a = Inr False)"
    using assms
  proof (induction cs)
    case (Cons x xs)
    from Cons.prems consider "eval L env x = Inr True"
      | "eval L env x = Inr False" "eval_any L env xs = Inr True"
      by (auto simp: rbind_def split: sum.splits if_splits)
    then show ?case
    proof cases
      case 2
      with Cons.IH obtain as c bs where "xs = as @ c # bs" "eval L env c = Inr True"
        "\<forall>a \<in> set as. eval L env a = Inr False" by blast
      with 2(1) show ?thesis by (intro exI[of _ "x # as"]) auto
    qed (intro exI[of _ "[]"], auto)
  qed simp
  then show thesis using that by blast
qed

lemma eval_any_True:
  "eval_any L env cs = Inr True \<longleftrightarrow>
   (\<exists>as c bs. cs = as @ c # bs \<and> eval L env c = Inr True \<and> (\<forall>a \<in> set as. eval L env a = Inr False))"
proof
  assume "eval_any L env cs = Inr True"
  then show "\<exists>as c bs. cs = as @ c # bs \<and> eval L env c = Inr True \<and> (\<forall>a \<in> set as. eval L env a = Inr False)"
    by (rule eval_any_TrueE) blast
qed (auto simp: eval_any_append)

lemma eval_any_False: "eval_any L env cs = Inr False \<longleftrightarrow> (\<forall>c \<in> set cs. eval L env c = Inr False)"
  by (induction cs) (auto simp: rbind_def split: sum.splits)


section \<open>Shape of compiled trees\<close>

fun node_depth :: "node \<Rightarrow> nat" where
  "node_depth (AllOf cs) = foldr (\<lambda>c m. max (Suc (node_depth c)) m) cs 0"
| "node_depth (AnyOf cs) = foldr (\<lambda>c m. max (Suc (node_depth c)) m) cs 0"
| "node_depth (NotNode c) = Suc (node_depth c)"
| "node_depth (Leaf n) = 0"

fun leaves :: "node \<Rightarrow> leaf list" where
  "leaves (AllOf cs) = concat (map leaves cs)"
| "leaves (AnyOf cs) = concat (map leaves cs)"
| "leaves (NotNode c) = leaves c"
| "leaves (Leaf n) = [n]"

lemma foldr_depth_le:
  "foldr (\<lambda>c m. max (Suc (node_depth c)) m) cs 0 \<le> k \<longleftrightarrow> (\<forall>c \<in> set cs. Suc (node_depth c) \<le> k)"
  by (induction cs) auto

text \<open>What the parser makes of a node, one case per kind.\<close>

lemma compileNode_cases:
  assumes "compileNode L j d = Inr n"
  obtains (group) items cs where "d \<le> MaxDepth" "n = AllOf cs \<or> n = AnyOf cs"
      "mapM (\<lambda>item. compileNode L item (Suc d)) items = Inr cs" "\<forall>item \<in> set items. size item < size j"
    | (neg) body c where "d \<le> MaxDepth" "n = NotNode c" "compileNode L body (Suc d) = Inr c" "size body < size j"
    | (leaf) body l where "d \<le> MaxDepth" "n = Leaf l" "compileLeaf L body = Inr l"
proof -
  obtain key body where d: "d \<le> MaxDepth" and m: "unmarshal_map j = Some [(key, body)]"
    using assms by (subst (asm) compileNode.simps)
      (auto split: if_splits option.splits list.splits prod.splits)
  have sz: "size body < size j" using unmarshal_map_size[OF m, of key body] by simp
  note unf = assms[unfolded compileNode.simps[of L j d] m]
  consider "key = ''all_of'' \<or> key = ''any_of''" | "key = ''not''" | "key = ''leaf''"
    using unf d by (auto split: if_splits)
  then show thesis
  proof cases
    case 1
    then obtain items where items: "unmarshal_slice body = Some items"
      using unf d by (auto split: option.splits)
    with 1 unf d obtain cs where "mapM (\<lambda>item. compileNode L item (Suc d)) items = Inr cs"
      "n = AllOf cs \<or> n = AnyOf cs" by (auto simp: rbind_eq_Inr)
    with group[OF d this(2,1)] unmarshal_slice_size[OF items] sz show thesis by fastforce
  qed (use unf d sz neg leaf in \<open>auto simp: rbind_eq_Inr\<close>)
qed

lemma compileNode_depth: "compileNode L j d = Inr n \<Longrightarrow> d + node_depth n \<le> MaxDepth"
proof (induction "size j" arbitrary: j d n rule: less_induct)
  case less
  from less.prems show ?case
  proof (cases rule: compileNode_cases)
    case (group items cs)
    have "Suc (node_depth c) \<le> MaxDepth - d" if "c \<in> set cs" for c
      using mapM_InrD[OF group(3) that] less.hyps group(4) by fastforce
    with group(1,2) foldr_depth_le[of cs "MaxDepth - d"] show ?thesis by auto
  next
    case (neg body c)
    from less.hyps[OF neg(4) neg(3)] neg(2) show ?thesis by simp
  qed simp
qed

lemma compileNode_leaves:
  assumes "\<And>j l. compileLeaf L j = Inr l \<Longrightarrow> P l"
  shows "compileNode L j d = Inr n \<Longrightarrow> l \<in> set (leaves n) \<Longrightarrow> P l"
proof (induction "size j" arbitrary: j d n rule: less_induct)
  case less
  from less.prems(1) show ?case
  proof (cases rule: compileNode_cases)
    case (group items cs)
    with less.prems(2) obtain c where "c \<in> set cs" "l \<in> set (leaves c)" by auto
    with mapM_InrD[OF group(3) this(1)] less.hyps group(4) show ?thesis by blast
  next
    case (neg body c)
    with less.prems(2) less.hyps[OF neg(4) neg(3)] show ?thesis by simp
  qed (use less.prems(2) assms in auto)
qed

text \<open>The typing of a leaf that the parser establishes.\<close>

definition leaf_wf :: "leaf \<Rightarrow> bool" where
  "leaf_wf n \<longleftrightarrow>
     path n \<noteq> [] \<and> list_all (\<lambda>p. p \<noteq> [] \<and> list_all ident_char p) (path n)
     \<and> (if leaf_op n = OpExists then (\<exists>b. leaf_value n = Some (LitBool b))
        else (leaf_value n = None) \<noteq> (refSrc n = None))
     \<and> (set_op (leaf_op n) \<longrightarrow> refSrc n = Some RefActorRoles \<or> (\<exists>ls. leaf_value n = Some (LitList ls)))
     \<and> (\<not> set_op (leaf_op n) \<longrightarrow> (\<forall>ls. leaf_value n \<noteq> Some (LitList ls)))
     \<and> (leaf_op n = OpMatches \<longrightarrow> refSrc n \<noteq> None \<or> regex n \<noteq> None)"

lemma parseFieldPath_wf:
  "parseFieldPath s = Inr p \<Longrightarrow> p \<noteq> [] \<and> list_all (\<lambda>p. p \<noteq> [] \<and> list_all ident_char p) p"
  by (auto simp: parseFieldPath_def Let_def split_on_nonempty split: if_splits)

lemma is_LitList_simps [simp]:
  "is_LitList (LitList ls)" "\<not> is_LitList (LitString s)" "\<not> is_LitList (LitNumber f)"
  "\<not> is_LitList (LitBool b)" "\<not> is_LitList LitNull"
  by (simp_all add: is_LitList_def)

lemma is_LitList_iff: "is_LitList l \<longleftrightarrow> (\<exists>ls. l = LitList ls)"
  by (cases l) (auto simp: is_LitList_def)

lemma leaf_ref_fields:
  "leaf_ref spec oper n = Inr n' \<Longrightarrow>
   path n' = path n \<and> leaf_op n' = leaf_op n \<and> leaf_value n' = leaf_value n \<and> regex n' = regex n
   \<and> (if Ref spec = [] then refSrc n' = refSrc n
      else \<exists>r. refSrc n' = Some r \<and> map_of refNames (Ref spec) = Some r
        \<and> (set_op oper \<longrightarrow> r = RefActorRoles))"
  by (auto simp: leaf_ref_def rbind_guard split: if_splits option.splits)

lemma leaf_literal_fields:
  "leaf_literal L spec oper n = Inr n' \<Longrightarrow>
   path n' = path n \<and> leaf_op n' = leaf_op n \<and> refSrc n' = refSrc n
   \<and> (if Value spec = None then leaf_value n' = leaf_value n \<and> regex n' = regex n
      else \<exists>l. leaf_value n' = Some l \<and> (set_op oper \<longleftrightarrow> is_LitList l) \<and> (oper = OpMatches \<longrightarrow> regex n' \<noteq> None))"
  by (auto simp: leaf_literal_def rbind_guard rbind_eq_Inr
      split: if_split_asm option.split_asm literal.split_asm)

lemma leaf_exists_fields:
  "leaf_exists oper n = Inr n' \<Longrightarrow>
   path n' = path n \<and> leaf_op n' = leaf_op n \<and> refSrc n' = refSrc n \<and> regex n' = regex n
   \<and> (if oper = OpExists then \<exists>b. leaf_value n' = Some (LitBool b) else leaf_value n' = leaf_value n)"
  by (auto simp: leaf_exists_def split: if_splits option.splits literal.splits)

lemma compileLeaf_wf:
  assumes "compileLeaf L j = Inr l"
  shows "leaf_wf l"
proof -
  obtain spec where "unmarshal_leafSpec j = Some spec"
    using assms by (auto simp: compileLeaf_def split: option.splits)
  with assms obtain p oper n1 n2 where p: "parseFieldPath (Field spec) = Inr p"
    and o: "map_of opNames (Op spec) = Some oper"
    and vr: "Value spec = None \<or> Ref spec = []" "Value spec \<noteq> None \<or> Ref spec \<noteq> [] \<or> oper = OpExists"
    and n1: "leaf_ref spec oper
               \<lparr>path = p, leaf_op = oper, leaf_value = None, refSrc = None, regex = None\<rparr> = Inr n1"
    and n2: "leaf_literal L spec oper n1 = Inr n2" and l: "leaf_exists oper n2 = Inr l"
    by (auto simp: compileLeaf_def rbind_guard rbind_eq_Inr split: option.splits if_splits)
  note f = leaf_ref_fields[OF n1] leaf_literal_fields[OF n2] leaf_exists_fields[OF l]
  have "set_op OpExists = False" "set_op OpMatches = False" by (simp_all add: set_op_def)
  with f vr parseFieldPath_wf[OF p] show ?thesis
    by (auto simp: leaf_wf_def is_LitList_iff split: if_splits)
qed

lemma leaf_wf_legacy: "leaf_wf \<lparr>path = [''owner''], leaf_op = OpEq, leaf_value = None, refSrc = Some RefActorUserID, regex = None\<rparr>"
  "leaf_wf \<lparr>path = [''created_by''], leaf_op = OpEq, leaf_value = None, refSrc = Some RefActorUserID, regex = None\<rparr>"
  "is_LitList lit \<Longrightarrow>
   leaf_wf \<lparr>path = [''status''], leaf_op = OpIn, leaf_value = Some lit, refSrc = None, regex = None\<rparr>"
  by (simp_all add: leaf_wf_def set_op_def is_LitList_iff ident_char_def less_eq_char_def)

text \<open>The trees of the older form: two conjuncts at most, one of them a disjunction of leaves.\<close>

lemma legacy_owner_shape:
  "legacy_owner keys = Inr os \<Longrightarrow>
   os = [] \<or> os = [AnyOf [user_leaf ''owner'', user_leaf ''created_by'']]"
  by (auto simp: legacy_owner_def split: option.splits if_splits)

lemma legacy_status_shape:
  "legacy_status keys = Inr ss \<Longrightarrow> ss = [] \<or> (\<exists>lit. is_LitList lit \<and> ss = [status_leaf lit])"
  by (auto simp: legacy_status_def rbind_eq_Inr split: option.splits)

lemma compileLegacy_shape:
  assumes "compileLegacy keys = Inr n"
  shows "node_depth n \<le> 2 \<and> (\<forall>l \<in> set (leaves n). leaf_wf l)"
proof -
  obtain os ss where "legacy_owner keys = Inr os" "legacy_status keys = Inr ss"
    and n: "n = (case os @ ss of [n] \<Rightarrow> n | nodes \<Rightarrow> AllOf nodes)"
    using assms unfolding compileLegacy_def rbind_eq_Inr by blast
  with legacy_owner_shape legacy_status_shape show ?thesis
    unfolding n by (fastforce simp: user_leaf_def status_leaf_def leaf_wf_legacy)
qed

lemma Compile_cases:
  assumes "Compile L raw = Root n"
  obtains (free) "IsUnconditional raw" "n = AllOf []"
    | (legacy) keys where "compileLegacy keys = Inr n"
    | (dsl) j where "raw_json raw = Some j" "compileNode L j 0 = Inr n"
  using assms
  by (auto simp: Compile_def fail_closed_def split: if_splits option.splits sum.splits)


section \<open>The grammar the parser accepts\<close>

inductive cond_grammar :: "golib \<Rightarrow> nat \<Rightarrow> json \<Rightarrow> node \<Rightarrow> bool" for L where
  all_of: "d \<le> MaxDepth \<Longrightarrow> unmarshal_map j = Some [(''all_of'', b)] \<Longrightarrow> unmarshal_slice b = Some items
    \<Longrightarrow> list_all2 (cond_grammar L (Suc d)) items cs \<Longrightarrow> cond_grammar L d j (AllOf cs)"
| any_of: "d \<le> MaxDepth \<Longrightarrow> unmarshal_map j = Some [(''any_of'', b)] \<Longrightarrow> unmarshal_slice b = Some items
    \<Longrightarrow> list_all2 (cond_grammar L (Suc d)) items cs \<Longrightarrow> cond_grammar L d j (AnyOf cs)"
| neg: "d \<le> MaxDepth \<Longrightarrow> unmarshal_map j = Some [(''not'', b)] \<Longrightarrow> cond_grammar L (Suc d) b c
    \<Longrightarrow> cond_grammar L d j (NotNode c)"
| leaf: "d \<le> MaxDepth \<Longrightarrow> unmarshal_map j = Some [(''leaf'', b)] \<Longrightarrow> compileLeaf L b = Inr l
    \<Longrightarrow> cond_grammar L d j (Leaf l)"

lemma grammar_compiles: "cond_grammar L d j n \<Longrightarrow> compileNode L j d = Inr n"
proof (induction rule: cond_grammar.induct)
  case (all_of d j b items cs)
  from all_of(4) have "list_all2 (\<lambda>i c. compileNode L i (Suc d) = Inr c) items cs"
    by (rule list_all2_mono) blast
  with all_of(1-3) show ?case
    by (subst compileNode.simps) (simp add: mapM_Inr_iff[symmetric])
next
  case (any_of d j b items cs)
  from any_of(4) have "list_all2 (\<lambda>i c. compileNode L i (Suc d) = Inr c) items cs"
    by (rule list_all2_mono) blast
  with any_of(1-3) show ?case
    by (subst compileNode.simps) (simp add: mapM_Inr_iff[symmetric])
qed (subst compileNode.simps, simp)+

lemma compiles_grammar: "compileNode L j d = Inr n \<Longrightarrow> cond_grammar L d j n"
proof (induction "size j" arbitrary: j d n rule: less_induct)
  case less
  obtain key b where d: "d \<le> MaxDepth" and m: "unmarshal_map j = Some [(key, b)]"
    using less.prems by (subst (asm) compileNode.simps)
      (auto split: if_splits option.splits list.splits prod.splits)
  have sz: "size b < size j" using unmarshal_map_size[OF m, of key b] by simp
  note unf = less.prems[unfolded compileNode.simps[of L j d] m]
  have grp: "list_all2 (cond_grammar L (Suc d)) items cs"
    if "unmarshal_slice b = Some items" "mapM (\<lambda>i. compileNode L i (Suc d)) items = Inr cs" for items cs
    using that less.hyps unmarshal_slice_size[OF that(1)] sz
    by (auto simp: mapM_Inr_iff list_all2_conv_all_nth) (metis nth_mem order.strict_trans)
  consider "key = ''all_of''" | "key = ''any_of''" | "key = ''not''" | "key = ''leaf''"
    using unf d by (auto split: if_splits)
  then show ?case
  proof cases
    case 1
    with unf d m grp show ?thesis
      by (auto simp: rbind_eq_Inr split: option.splits intro: cond_grammar.all_of)
  next
    case 2
    with unf d m grp show ?thesis
      by (auto simp: rbind_eq_Inr split: option.splits intro: cond_grammar.any_of)
  qed (use unf d m sz less.hyps in \<open>auto simp: rbind_eq_Inr intro: cond_grammar.intros\<close>)
qed


section \<open>Comparison laws\<close>

lemma equal_strings_sym: "equal_strings L as bs = equal_strings L bs as"
  by (auto simp: equal_strings_def split: option.splits)

lemma asString_asNumber: "asString L a = Some s \<Longrightarrow> asNumber a = None"
  and asString_asBool: "asString L a = Some s \<Longrightarrow> asBool a = None"
  and asNumber_asBool: "asNumber a = Some f \<Longrightarrow> asBool a = None"
  by (cases a; simp)+

lemma equal_sym: "equal L a b = equal L b a"
  unfolding equal_def
  using asString_asNumber asString_asBool asNumber_asBool equal_strings_sym f64_eq_sym
  by (auto split: option.splits)

lemma equal_uuid_identity:
  "uuid_laws L \<Longrightarrow> equal L (AUuid u) (AStr (uuid_string L v)) \<longleftrightarrow> u = v"
  by (auto simp: equal_def equal_strings_def uuid_laws_def)

lemma f64_lt_asym: "f64_lt x y \<Longrightarrow> \<not> f64_lt y x"
  by (cases x; cases y) auto

lemma cmp3_swap: "\<not> (p \<and> q) \<Longrightarrow> cmp3 q p = - cmp3 p q"
  by (auto simp: cmp3_def)

lemma compareOrdered_swap:
  assumes "compareOrdered L a b = Some c"
  shows "compareOrdered L b a = Some (- c)"
proof (cases "asNumber a")
  case None
  with assms obtain as bs where s: "asString L a = Some as" "asString L b = Some bs"
    by (auto simp: compareOrdered_def split: option.splits)
  note nb = asString_asNumber[OF s(2)]
  from assms None s nb show ?thesis
    by (auto simp: compareOrdered_def intro!: cmp3_swap split: option.splits)
next
  case (Some an)
  with assms obtain bn where "asNumber b = Some bn" "c = cmp3 (f64_lt an bn) (f64_lt bn an)"
    by (auto simp: compareOrdered_def split: option.splits)
  with Some show ?thesis
    by (auto simp: compareOrdered_def intro!: cmp3_swap dest: f64_lt_asym)
qed


section \<open>What evaluation reads, and when it fails\<close>

lemma eval_leaf_cong:
  "resolveAttrPath (env_attrs e1) (path l) = resolveAttrPath (env_attrs e2) (path l) \<Longrightarrow>
   env_actor e1 = env_actor e2 \<Longrightarrow> env_clock e1 = env_clock e2 \<Longrightarrow> eval_leaf L e1 l = eval_leaf L e2 l"
  by (auto simp: eval_leaf_def Let_def split: option.split)

lemma eval_list_cong:
  assumes "\<And>c. c \<in> set cs \<Longrightarrow> eval L e1 c = eval L e2 c"
  shows "eval_all L e1 cs = eval_all L e2 cs" and "eval_any L e1 cs = eval_any L e2 cs"
  using assms by (induction cs) (auto intro!: rbind_cong)

lemma eval_reads:
  assumes "env_actor e1 = env_actor e2" "env_clock e1 = env_clock e2"
  shows "(\<And>l. l \<in> set (leaves n) \<Longrightarrow>
            resolveAttrPath (env_attrs e1) (path l) = resolveAttrPath (env_attrs e2) (path l))
          \<Longrightarrow> eval L e1 n = eval L e2 n"
proof (induction n)
  case (AllOf cs)
  have "eval L e1 c = eval L e2 c" if "c \<in> set cs" for c
    by (rule AllOf.IH[OF that], rule AllOf.prems) (use that in auto)
  then have "eval_all L e1 cs = eval_all L e2 cs" by (rule eval_list_cong)
  then show ?case by simp
next
  case (AnyOf cs)
  have "eval L e1 c = eval L e2 c" if "c \<in> set cs" for c
    by (rule AnyOf.IH[OF that], rule AnyOf.prems) (use that in auto)
  then have "eval_any L e1 cs = eval_any L e2 cs" by (rule eval_list_cong)
  then show ?case by simp
next
  case (NotNode n)
  have "eval L e1 n = eval L e2 n"
    by (rule NotNode.IH, rule NotNode.prems) simp
  then show ?case by simp
next
  case (Leaf l)
  show ?case using Leaf[of l] eval_leaf_cong[OF _ assms] by simp
qed

lemma applyOp_error: "applyOp L oper v r re = Inl e \<Longrightarrow> oper = OpMatches \<and> re = None"
  by (cases oper) (auto simp: applyOp_def Let_def split: option.splits)

lemma eval_leaf_error: "eval_leaf L env l = Inl e \<Longrightarrow> leaf_op l = OpMatches \<and> regex l = None"
  by (auto simp: eval_leaf_def Let_def dest!: applyOp_error split: if_splits option.splits)

lemma eval_list_error:
  "eval_all L env cs = Inl e \<Longrightarrow> \<exists>c \<in> set cs. eval L env c = Inl e"
  "eval_any L env cs = Inl e \<Longrightarrow> \<exists>c \<in> set cs. eval L env c = Inl e"
  by (induction cs) (auto simp: rbind_eq_Inl split: if_splits)

lemma eval_error:
  "eval L env n = Inl e \<Longrightarrow> \<exists>l \<in> set (leaves n). leaf_op l = OpMatches \<and> regex l = None"
proof (induction n)
  case (AllOf cs)
  then obtain c where "c \<in> set cs" "eval L env c = Inl e" by (auto dest: eval_list_error)
  with AllOf.IH show ?case by fastforce
next
  case (AnyOf cs)
  then obtain c where "c \<in> set cs" "eval L env c = Inl e" by (auto dest: eval_list_error)
  with AnyOf.IH show ?case by fastforce
qed (auto simp: rbind_eq_Inl dest: eval_leaf_error)

lemma compileNode_leaf_wf: "compileNode L j d = Inr n \<Longrightarrow> l \<in> set (leaves n) \<Longrightarrow> leaf_wf l"
  by (rule compileNode_leaves[where P = leaf_wf]) (auto dest: compileLeaf_wf)

lemma Compile_leaf_wf: "Compile L raw = Root n \<Longrightarrow> l \<in> set (leaves n) \<Longrightarrow> leaf_wf l"
  by (erule Compile_cases) (auto dest: compileLegacy_shape compileNode_leaf_wf)


section \<open>Properties\<close>

text \<open>
  C26: every condition that compiles has nesting depth at most MaxDepth (16), and each of its
  leaves is well typed: a nonempty path of identifier segments, a value or a reference but not
  both (except the default of exists), list operands exactly for in and not\_in, a compiled
  pattern or a reference for matches.
\<close>

theorem Compile_bounded_and_typed:
  assumes "Compile L raw = Root n"
  shows "node_depth n \<le> MaxDepth \<and> (\<forall>l \<in> set (leaves n). leaf_wf l)"
  using assms
proof (cases rule: Compile_cases)
  case (legacy keys)
  then show ?thesis using compileLegacy_shape[OF legacy] by (auto simp: MaxDepth_def)
next
  case (dsl j)
  then show ?thesis using compileNode_depth[OF dsl(2)] compileNode_leaf_wf[OF dsl(2)] by auto
qed simp

theorem Compile_bounded_and_typed_witness:
  "let j = JObj [(''not'', JObj [(''leaf'',
             JObj [(''field'', JStr ''a.b''), (''op'', JStr ''ge''), (''value'', JNum (Some (Fin 3)))])])];
       n = NotNode (Leaf \<lparr>path = [''a'', ''b''], leaf_op = OpGe, leaf_value = Some (LitNumber (Fin 3)),
                          refSrc = None, regex = None\<rparr>)
   in Compile bin_lib \<lparr>raw_text = ''x'', raw_json = Some j\<rparr> = Root n \<and> node_depth n \<le> MaxDepth"
proof -
  let ?j = "JObj [(''not'', JObj [(''leaf'',
             JObj [(''field'', JStr ''a.b''), (''op'', JStr ''ge''), (''value'', JNum (Some (Fin 3)))])])]"
  let ?n = "NotNode (Leaf \<lparr>path = [''a'', ''b''], leaf_op = OpGe, leaf_value = Some (LitNumber (Fin 3)),
                          refSrc = None, regex = None\<rparr>)"
  have c: "Compile bin_lib \<lparr>raw_text = ''x'', raw_json = Some ?j\<rparr> = Root ?n"
    by code_simp
  show ?thesis
    using c Compile_bounded_and_typed[OF c] by (simp add: Let_def)
qed



text \<open>
  C24: fail closed. A payload that is not the empty form and neither of the older shape nor
  derivable in the grammar denies every actor on every record, without an error; so does a
  payload that is no JSON text or no JSON object.
\<close>

theorem malformed_payload_denies:
  assumes "\<not> IsUnconditional raw"
    and "\<And>j keys. raw_json raw = Some j \<Longrightarrow> unmarshal_map j = Some keys \<Longrightarrow>
           \<not> isLegacyShape keys \<and> (\<nexists>n. cond_grammar L 0 j n)"
  shows "EvalRaw L clock raw actor attrs = Inr False"
proof -
  have "Compile L raw = FailClosed"
    using assms compiles_grammar[of L _ 0]
    by (fastforce simp: Compile_def fail_closed_def split: option.splits sum.splits)
  then show ?thesis by (simp add: EvalRaw_def Eval_def)
qed

theorem malformed_payload_denies_witness:
  "EvalRaw bin_lib 7 \<lparr>raw_text = ''{all_off:1}'', raw_json = Some (JObj [(''all_off'', JArr [])])\<rparr>
     \<lparr>UserID = 1, TenantID = 2, Roles = [''admin''], Now = 0\<rparr> [] = Inr False"
proof (rule malformed_payload_denies, goal_cases)
  case 1
  show ?case by code_simp
next
  case (2 j keys)
  have "compileNode bin_lib (JObj [(''all_off'', JArr [])]) 0 = Inl (UnknownNodeKind ''all_off'')"
    by code_simp
  with 2 show ?case
    using grammar_compiles by (auto simp: isLegacyShape_def)
qed

text \<open>
  what the code does with a null member, against the package's promise that a malformed
  payload never grants: the payloads owner\_only: null and all\_of: null grant every actor
  access to every record.
\<close>

theorem null_member_grants:
  "EvalRaw L clock \<lparr>raw_text = t, raw_json = Some (JObj [(''owner_only'', JNull)])\<rparr> actor attrs = Inr True
   \<and> EvalRaw L clock \<lparr>raw_text = t, raw_json = Some (JObj [(''all_of'', JNull)])\<rparr> actor attrs = Inr True"
  by (simp_all add: EvalRaw_def Compile_def Eval_def isLegacyShape_def compileLegacy_def
      legacy_owner_def legacy_status_def fail_closed_def compileNode.simps)

text \<open>
  evaluation reads only what the tree names. Two evaluations of a condition with the same
  actor and clock agree whenever the attribute bags agree on the paths of the tree's leaves,
  whatever else the bags hold.
\<close>

theorem eval_depends_on_named_paths:
  assumes "\<And>l. l \<in> set (leaves n) \<Longrightarrow> resolveAttrPath as (path l) = resolveAttrPath bs (path l)"
  shows "Eval L clock (Some (Root n)) actor as = Eval L clock (Some (Root n)) actor bs"
  using eval_reads[of "\<lparr>env_actor = actor, env_attrs = as, env_clock = clock\<rparr>"
      "\<lparr>env_actor = actor, env_attrs = bs, env_clock = clock\<rparr>" n L] assms
  by (simp add: Eval_def)

theorem eval_depends_on_named_paths_witness:
  "Eval bin_lib 7 (Some (Root (status_leaf (LitList [LitString ''open''])))) \<lparr>UserID = 1, TenantID = 2, Roles = [], Now = 0\<rparr>
     [(''status'', AStr ''open''), (''salary'', AInt 10)]
   = Eval bin_lib 7 (Some (Root (status_leaf (LitList [LitString ''open''])))) \<lparr>UserID = 1, TenantID = 2, Roles = [], Now = 0\<rparr> [(''status'', AStr ''open'')]"
  by (rule eval_depends_on_named_paths) (simp add: status_leaf_def resolveAttrPath_def)

text \<open>
  the only evaluation error of a compiled condition is a matches leaf whose right side is an
  actor reference; without such a leaf evaluation returns a decision for every actor and record.
\<close>

theorem compiled_eval_total:
  assumes "Compile L raw = Root n"
    and "\<And>l. l \<in> set (leaves n) \<Longrightarrow> leaf_op l = OpMatches \<Longrightarrow> refSrc l = None"
  shows "\<exists>b. Eval L clock (Some (Compile L raw)) actor attrs = Inr b"
proof (cases "Eval L clock (Some (Compile L raw)) actor attrs")
  case (Inl e)
  then obtain l where l: "l \<in> set (leaves n)" "leaf_op l = OpMatches" "regex l = None"
    using assms(1) by (auto simp: Eval_def dest: eval_error)
  with Compile_leaf_wf[OF assms(1) l(1)] assms(2)[OF l(1,2)] show ?thesis
    by (simp add: leaf_wf_def)
qed auto

theorem compiled_eval_total_witness:
  "\<exists>b. Eval bin_lib 7 (Some (Compile bin_lib \<lparr>raw_text = ''x'',
       raw_json = Some (JObj [(''leaf'', JObj [(''field'', JStr ''a''), (''op'', JStr ''matches''),
         (''value'', JStr ''x'')])])\<rparr>)) \<lparr>UserID = 1, TenantID = 2, Roles = [], Now = 0\<rparr> [(''a'', AStr ''x'')] = Inr b"
proof (rule compiled_eval_total)
  show "Compile bin_lib \<lparr>raw_text = ''x'',
       raw_json = Some (JObj [(''leaf'', JObj [(''field'', JStr ''a''), (''op'', JStr ''matches''),
         (''value'', JStr ''x'')])])\<rparr>
     = Root (Leaf \<lparr>path = [''a''], leaf_op = OpMatches, leaf_value = Some (LitString ''x''),
                   refSrc = None, regex = Some ''x''\<rparr>)"
    by code_simp
qed simp

text \<open>
  missing attributes. A comparison leaf on an attribute that is absent or null denies, as the
  null-safe rule promises; but the same leaf under not grants, so a mistyped attribute name in a
  negated leaf opens the record.
\<close>

theorem missing_attribute:
  assumes "leaf_op l \<noteq> OpExists" and "resolveAttrPath attrs (path l) \<in> {None, Some ANil}"
  shows "Eval L clock (Some (Root (Leaf l))) actor attrs = Inr False
    \<and> Eval L clock (Some (Root (NotNode (Leaf l)))) actor attrs = Inr True"
  using assms by (auto simp: Eval_def eval_leaf_def)

theorem missing_attribute_witness:
  "Eval bin_lib 7 (Some (Root (NotNode (status_leaf (LitList [LitString ''closed'']))))) \<lparr>UserID = 1, TenantID = 2, Roles = [], Now = 0\<rparr>
     [(''statsu'', AStr ''closed'')] = Inr True"
  unfolding status_leaf_def by (rule missing_attribute[THEN conjunct2]) (simp_all add: resolveAttrPath_def)

definition attr_matches :: "golib \<Rightarrow> (string \<times> any) list \<Rightarrow> string \<Rightarrow> (any \<Rightarrow> bool) \<Rightarrow> bool" where
  "attr_matches L attrs f p = (case map_of attrs f of None \<Rightarrow> False | Some v \<Rightarrow> v \<noteq> ANil \<and> p v)"

lemma eval_user_leaf:
  "eval L env (user_leaf f) =
   Inr (attr_matches L (env_attrs env) f
          (\<lambda>v. equal L v (AStr (uuid_string L (UserID (env_actor env))))))"
  by (auto simp: user_leaf_def eval_leaf_def resolveAttrPath_def applyOp_def attr_matches_def split: option.splits)

lemma eval_status_leaf:
  "eval L env (status_leaf (LitList ls)) =
   Inr (attr_matches L (env_attrs env) ''status'' (\<lambda>v. list_ex (equal L v) (map toAny ls)))"
  by (auto simp: status_leaf_def eval_leaf_def resolveAttrPath_def applyOp_def attr_matches_def Let_def
      split: option.splits)

text \<open>
  the older form with both keys grants exactly when the record's owner or creator equals the
  acting user and the record's status is among the listed values.
\<close>

theorem legacy_form_meaning:
  assumes "\<not> IsUnconditional raw"
    and "raw_json raw = Some (JObj [(''owner_only'', JBool True), (''status_in'', JArr js)])"
    and "parseLiteral (JArr js) = Inr (LitList ls)"
  shows "EvalRaw L clock raw actor attrs =
    Inr ((\<exists>f \<in> {''owner'', ''created_by''}. attr_matches L attrs f
             (\<lambda>v. equal L v (AStr (uuid_string L (UserID actor)))))
         \<and> attr_matches L attrs ''status'' (\<lambda>v. list_ex (equal L v) (map toAny ls)))"
proof -
  have "Compile L raw = Root (AllOf [AnyOf [user_leaf ''owner'', user_leaf ''created_by''],
      status_leaf (LitList ls)])"
    using assms by (simp add: Compile_def isLegacyShape_def compileLegacy_def legacy_owner_def
        legacy_status_def fail_closed_def rbind_guard)
  then show ?thesis
    by (simp add: EvalRaw_def Eval_def eval_user_leaf eval_status_leaf)
qed

theorem legacy_form_meaning_witness:
  "EvalRaw bin_lib 7 \<lparr>raw_text = ''x'', raw_json = Some (JObj [(''owner_only'', JBool True),
       (''status_in'', JArr [JStr ''open''])])\<rparr>
     \<lparr>UserID = 5, TenantID = 2, Roles = [], Now = 0\<rparr>
     [(''owner'', AUuid 5), (''status'', AStr ''open'')] = Inr True"
proof -
  let ?raw = "\<lparr>raw_text = ''x'', raw_json = Some (JObj [(''owner_only'', JBool True),
       (''status_in'', JArr [JStr ''open''])])\<rparr>"
  have 1: "\<not> IsUnconditional ?raw" by code_simp
  have 2: "parseLiteral (JArr [JStr ''open'']) = Inr (LitList [LitString ''open''])" by simp
  have 3: "equal bin_lib (AUuid 5) (AStr (uuid_string bin_lib 5))"
    by (simp add: equal_uuid_identity[OF uuid_laws_bin_lib])
  have 4: "equal bin_lib (AStr ''open'') (AStr ''open'')"
    by (simp add: equal_def equal_strings_def split: option.split)
  show ?thesis
    using legacy_form_meaning[OF 1 _ 2, of bin_lib 7 "\<lparr>UserID = 5, TenantID = 2, Roles = [], Now = 0\<rparr>"
        "[(''owner'', AUuid 5), (''status'', AStr ''open'')]"] 3 4
    by (simp add: attr_matches_def)
qed

text \<open>
  comparisons do not depend on the side: equality of dynamic values is symmetric, swapping
  the operands of an ordered comparison negates its outcome and keeps whether they are
  comparable, so lt, le mirror gt, ge.
\<close>

theorem comparison_symmetric:
  "applyOp L OpEq a b re = applyOp L OpEq b a re \<and> applyOp L OpNe a b re = applyOp L OpNe b a re
   \<and> applyOp L OpLt a b re = applyOp L OpGt b a re \<and> applyOp L OpLe a b re = applyOp L OpGe b a re"
proof -
  have "compareOrdered L b a = map_option uminus (compareOrdered L a b)"
    using compareOrdered_swap[of L a b] compareOrdered_swap[of L b a]
    by (cases "compareOrdered L a b"; cases "compareOrdered L b a") auto
  then show ?thesis
    by (auto simp: applyOp_def Let_def equal_sym split: option.splits)
qed

end
