(* ===== verification/Tenant_Tx.thy ===== *)
theory Tenant_Tx
  imports Kapp_Prelude
begin

text \<open>
  Tenant-scoped transactions (internal/dbutil/txn.go, \<open>WithTenantTx\<close>). The database is a state
  value, a transaction body maps a state to an error or to a result and a new state. The body's
  effects are kept when it returns without error (commit) and dropped otherwise (rollback).
  Failures of the database itself, and of \<open>BEGIN\<close> and \<open>COMMIT\<close>, are not modelled; \<open>nilTenant\<close> is
  the error for the nil tenant id.
\<close>

definition WithTenantTx ::
  "'e \<Rightarrow> uuid \<Rightarrow> ('s \<Rightarrow> 'e + 'a \<times> 's) \<Rightarrow> 's \<Rightarrow> ('e + 'a) \<times> 's" where
  "WithTenantTx nilTenant tenantID body db =
     (if tenantID = 0 then (Inl nilTenant, db)
      else case body db of
             Inl e \<Rightarrow> (Inl e, db)
           | Inr (a, db') \<Rightarrow> (Inr a, db'))"

lemma tx_error_rolls_back: "WithTenantTx n t body db = (Inl e, db') \<Longrightarrow> db' = db"
  by (auto simp: WithTenantTx_def split: if_splits sum.splits prod.splits)

lemma tx_commit: "WithTenantTx n t body db = (Inr a, db') \<longleftrightarrow> t \<noteq> 0 \<and> body db = Inr (a, db')"
  by (auto simp: WithTenantTx_def split: if_splits sum.splits prod.splits)

lemma tx_fst: "fst (WithTenantTx n t body db) = (if t = 0 then Inl n else map_sum id fst (body db))"
  by (auto simp: WithTenantTx_def split: sum.splits prod.splits)

lemma tx_effect:
  "WithTenantTx n t body db = (r, db') \<Longrightarrow> (\<exists>e. r = Inl e \<and> db' = db) \<or> (\<exists>a. r = Inr a \<and> t \<noteq> 0 \<and> body db = Inr (a, db'))"
  by (auto simp: WithTenantTx_def split: if_splits sum.splits prod.splits)

text \<open>
  A component over a transactional store promises an invariant of the state and operations that
  keep it when they succeed and change nothing when they fail. Then the invariant holds after
  whatever sequence of operations, with whatever outcomes, and only the successful ones matter.
\<close>

locale atomic_component =
  fixes invar :: "'s \<Rightarrow> bool"
    and step :: "'op \<Rightarrow> 's \<Rightarrow> ('e + 'a) \<times> 's"
  assumes ok_keeps: "invar s \<Longrightarrow> step x s = (Inr a, s') \<Longrightarrow> invar s'"
    and error_keeps: "step x s = (Inl e, s') \<Longrightarrow> s' = s"
begin

definition exec :: "'op \<Rightarrow> 's \<Rightarrow> 's" where
  "exec x s = snd (step x s)"

lemma exec_keeps: "invar s \<Longrightarrow> invar (exec x s)"
  by (cases "step x s"; cases "fst (step x s)") (auto simp: exec_def dest: ok_keeps error_keeps)

lemma run_keeps: "invar s \<Longrightarrow> invar (fold exec xs s)"
  by (induction xs arbitrary: s) (simp_all add: exec_keeps)

fun ok_ops :: "'op list \<Rightarrow> 's \<Rightarrow> 'op list" where
  "ok_ops [] s = []"
| "ok_ops (x # xs) s = (case fst (step x s) of Inl _ \<Rightarrow> ok_ops xs s | Inr _ \<Rightarrow> x # ok_ops xs (exec x s))"

lemma failed_ops_invisible: "fold exec (ok_ops xs s) s = fold exec xs s"
proof (induction xs arbitrary: s)
  case (Cons x xs)
  obtain r s' where st: "step x s = (r, s')" by fastforce
  show ?case
  proof (cases r)
    case (Inl e)
    with st have "s' = s" using error_keeps by simp
    with st Inl Cons.IH[of s] show ?thesis by (simp add: exec_def)
  next
    case (Inr a)
    with st Cons.IH[of s'] show ?thesis by (simp add: exec_def)
  qed
qed simp

end

end
