(* ===== verification/Authz.thy ===== *)
theory Authz
  imports Condition LRU_Cache Tenant_Tx
begin

text \<open>
  The permission evaluator (internal/authz/authz.go and internal/authz/store.go): roles of a user
  within a tenant, inheritance along parent roles, permission rows with their compiled
  conditions, wildcard actions, and a cache of permission sets keyed by tenant and user.

  The tables are lists of rows; a query is a filter over them. Where the code ranges over a Go
  map (the expanded roles), the model uses the insertion order; \<open>scan_record_Inr\<close> shows that the
  decision depends on the set of permissions only. \<open>ORDER BY role_name\<close> compares bytes.
  \<open>jsonb_text\<close> is PostgreSQL's text of a JSONB value, which is what a nested raw message holds.
\<close>

record permission =
  Action :: string
  Resource :: string
  Conditions :: raw_message

record compiledPermission =
  perm :: permission
  cp_compiled :: "compiled option"

record permissionSet =
  perms :: "compiledPermission list"
  ps_roles :: "string list"

record role_member =
  rm_tenant :: uuid
  rm_user :: uuid
  rm_role :: string

record user_tenant =
  ut_tenant :: uuid
  ut_user :: uuid
  ut_role :: string
  ut_status :: string

record role_row =
  r_tenant :: uuid
  r_name :: string
  r_parent :: "string option"
  r_permissions :: raw_message

record permission_row =
  pr_tenant :: uuid
  pr_role :: string
  pr_action :: string
  pr_ktype :: string
  pr_conditions :: raw_message
  pr_revoked :: bool

record authz_db =
  user_tenant_roles :: "role_member list"
  user_tenants :: "user_tenant list"
  roles :: "role_row list"
  permissions :: "permission_row list"

record evaluator =
  e_db :: authz_db
  e_cache :: "permissionSet lruCache"

datatype authz_error = Denied string | AuthzTenantRequired


section \<open>Loading permissions\<close>

definition loadUserRoles :: "authz_db \<Rightarrow> uuid \<Rightarrow> uuid \<Rightarrow> string list" where
  "loadUserRoles db t u =
     (let rs = filter (\<lambda>r. r \<noteq> [])
                 (sort (map rm_role (filter (\<lambda>m. rm_tenant m = t \<and> rm_user m = u) (user_tenant_roles db))))
      in if rs \<noteq> [] then rs
         else case List.find (\<lambda>m. ut_tenant m = t \<and> ut_user m = u \<and> ut_status m = ''active'') (user_tenants db) of
                None \<Rightarrow> []
              | Some m \<Rightarrow> (if ut_role m = [] then [] else [ut_role m]))"

definition find_role :: "authz_db \<Rightarrow> uuid \<Rightarrow> string \<Rightarrow> role_row option" where
  "find_role db t name = List.find (\<lambda>r. r_tenant r = t \<and> r_name r = name) (roles db)"

definition maxRoleHierarchyDepth :: nat where
  "maxRoleHierarchyDepth = 5"

text \<open>The parent the walk moves to: none for an unknown role, no parent, or a role its own parent.\<close>

definition parent_of :: "authz_db \<Rightarrow> uuid \<Rightarrow> string \<Rightarrow> string option" where
  "parent_of db t cur =
     (case find_role db t cur of
        None \<Rightarrow> None
      | Some r \<Rightarrow>
          (case r_parent r of
             None \<Rightarrow> None
           | Some p \<Rightarrow> if p = [] \<or> p = cur then None else Some p))"

text \<open>\<open>n\<close> is the number of iterations left; the loop \<open>for i := 0; i <= depth\<close> has \<open>depth + 1\<close>.\<close>

fun walk_chain :: "authz_db \<Rightarrow> uuid \<Rightarrow> nat \<Rightarrow> string \<Rightarrow> string list \<Rightarrow> string list" where
  "walk_chain db t 0 cur seen = seen"
| "walk_chain db t (Suc n) cur seen =
     (if cur \<in> set seen then seen
      else case parent_of db t cur of
             None \<Rightarrow> seen @ [cur]
           | Some p \<Rightarrow> walk_chain db t n p (seen @ [cur]))"

definition walkRoleChain :: "authz_db \<Rightarrow> uuid \<Rightarrow> string \<Rightarrow> nat \<Rightarrow> string list \<Rightarrow> string list" where
  "walkRoleChain db t role depth seen = walk_chain db t (Suc depth) role seen"

definition expandRoles :: "authz_db \<Rightarrow> uuid \<Rightarrow> string list \<Rightarrow> string list" where
  "expandRoles db t rs = fold (\<lambda>r seen. walkRoleChain db t r maxRoleHierarchyDepth seen) rs []"

text \<open>Decoding the older JSON column: a list of permission objects, else a list of actions.\<close>

definition no_conditions :: raw_message where
  "no_conditions = \<lparr>raw_text = [], raw_json = None\<rparr>"

definition decode_perm_member :: "(json \<Rightarrow> string) \<Rightarrow> string \<times> json \<Rightarrow> permission option \<Rightarrow> permission option" where
  "decode_perm_member jt kv acc =
     (case acc of
        None \<Rightarrow> None
      | Some p \<Rightarrow>
          (let k = map go_lower (fst kv); v = snd kv
           in if k = ''action'' then map_option (\<lambda>x. p\<lparr>Action := x\<rparr>) (unmarshal_string (Action p) v)
              else if k = ''resource'' then map_option (\<lambda>x. p\<lparr>Resource := x\<rparr>) (unmarshal_string (Resource p) v)
              else if k = ''conditions'' then Some (p\<lparr>Conditions := raw_of jt v\<rparr>)
              else Some p))"

definition decode_perm :: "(json \<Rightarrow> string) \<Rightarrow> json \<Rightarrow> permission option" where
  "decode_perm jt j =
     (let zero = \<lparr>Action = [], Resource = [], Conditions = no_conditions\<rparr>
      in case j of JNull \<Rightarrow> Some zero | JObj ps \<Rightarrow> fold (decode_perm_member jt) ps (Some zero) | _ \<Rightarrow> None)"

definition parsePermissions :: "(json \<Rightarrow> string) \<Rightarrow> raw_message \<Rightarrow> permission list" where
  "parsePermissions jt raw =
     (if raw_text raw = [] then []
      else case raw_json raw of
             None \<Rightarrow> []
           | Some j \<Rightarrow>
               (case unmarshal_slice j of
                  None \<Rightarrow> []
                | Some items \<Rightarrow>
                    (case option_list (map (decode_perm jt) items) of
                       Some (p # ps) \<Rightarrow> p # ps
                     | _ \<Rightarrow>
                         (case option_list (map (unmarshal_string []) items) of
                            None \<Rightarrow> []
                          | Some as \<Rightarrow>
                              map (\<lambda>a. \<lparr>Action = a, Resource = [], Conditions = no_conditions\<rparr>) as))))"

definition loadRolePermissions :: "(json \<Rightarrow> string) \<Rightarrow> authz_db \<Rightarrow> uuid \<Rightarrow> string \<Rightarrow> permission list" where
  "loadRolePermissions jt db t role =
     (let rows = map (\<lambda>r. \<lparr>Action = pr_action r, Resource = pr_ktype r, Conditions = pr_conditions r\<rparr>)
                   (filter (\<lambda>r. pr_tenant r = t \<and> pr_role r = role \<and> \<not> pr_revoked r) (permissions db))
      in if rows \<noteq> [] then rows
         else case find_role db t role of
                None \<Rightarrow> []
              | Some r \<Rightarrow> parsePermissions jt (r_permissions r))"

definition permKey :: "permission \<Rightarrow> string" where
  "permKey p = Action p @ CHR 0x00 # Resource p @ CHR 0x00 # raw_text (Conditions p)"

definition compilePermission :: "golib \<Rightarrow> permission \<Rightarrow> compiledPermission" where
  "compilePermission L p =
     (if IsUnconditional (Conditions p) then \<lparr>perm = p, cp_compiled = None\<rparr>
      else \<lparr>perm = p, cp_compiled = Some (Compile L (Conditions p))\<rparr>)"

text \<open>Permissions in order, the first of each key kept.\<close>

fun dedup_perms :: "string list \<Rightarrow> permission list \<Rightarrow> permission list" where
  "dedup_perms seen [] = []"
| "dedup_perms seen (p # ps) =
     (if permKey p \<in> set seen then dedup_perms seen ps
      else p # dedup_perms (permKey p # seen) ps)"

definition queryPermissionSet ::
  "golib \<Rightarrow> (json \<Rightarrow> string) \<Rightarrow> authz_db \<Rightarrow> uuid \<Rightarrow> uuid \<Rightarrow> authz_error + permissionSet" where
  "queryPermissionSet L jt db t u =
     fst (WithTenantTx AuthzTenantRequired t
       (\<lambda>db. let rs = loadUserRoles db t u
             in Inr (\<lparr>perms = map (compilePermission L)
                        (dedup_perms [] (concat (map (loadRolePermissions jt db t) (expandRoles db t rs)))),
                      ps_roles = rs\<rparr>, db)) db)"


section \<open>Decisions\<close>

definition matchAction :: "string \<Rightarrow> string \<Rightarrow> bool" where
  "matchAction pattern action =
     (if pattern = ''*'' then True
      else if pattern = action then True
      else if suffix ''.*'' pattern
      then (let pre = take (length pattern - 2) pattern
            in if pre = [] then True else prefix (pre @ ''.'') action)
      else False)"

definition matchResource :: "string \<Rightarrow> string \<Rightarrow> bool" where
  "matchResource pattern resource =
     (if pattern = [] \<or> resource = [] then True else pattern = resource)"

definition evalCompiled ::
  "golib \<Rightarrow> gotime \<Rightarrow> compiled option \<Rightarrow> Actor \<Rightarrow> (string \<times> any) list \<Rightarrow> eval_error + bool" where
  "evalCompiled L clock c actor attrs =
     (case c of None \<Rightarrow> Inr True | Some _ \<Rightarrow> Eval L clock c actor attrs)"

definition cacheKey :: "golib \<Rightarrow> uuid \<Rightarrow> uuid \<Rightarrow> string" where
  "cacheKey L t u = ''authz:'' @ uuid_string L t @ '':'' @ uuid_string L u"

definition tenantPrefix :: "golib \<Rightarrow> uuid \<Rightarrow> string" where
  "tenantPrefix L t = ''authz:'' @ uuid_string L t @ '':''"

definition loadPermissionSet ::
  "golib \<Rightarrow> (json \<Rightarrow> string) \<Rightarrow> gotime \<Rightarrow> uuid \<Rightarrow> uuid \<Rightarrow> evaluator \<Rightarrow> (authz_error + permissionSet) \<times> evaluator" where
  "loadPermissionSet L jt now t u s =
     (let key = cacheKey L t u
      in case lru_get now key (e_cache s) of
           (Some ps, c') \<Rightarrow> (Inr ps, s\<lparr>e_cache := c'\<rparr>)
         | (None, c') \<Rightarrow>
             (case queryPermissionSet L jt (e_db s) t u of
                Inl e \<Rightarrow> (Inl e, s\<lparr>e_cache := c'\<rparr>)
              | Inr ps \<Rightarrow> (Inr ps, s\<lparr>e_cache := lru_put now key ps c'\<rparr>)))"

definition match_perm :: "string \<Rightarrow> string \<Rightarrow> compiledPermission \<Rightarrow> bool" where
  "match_perm action resource p \<longleftrightarrow>
     matchAction (Action (perm p)) action \<and> matchResource (Resource (perm p)) resource"

fun scan_plain :: "string \<Rightarrow> string \<Rightarrow> compiledPermission list \<Rightarrow> authz_error + unit" where
  "scan_plain action resource [] = Inl (Denied action)"
| "scan_plain action resource (p # ps) =
     (if \<not> match_perm action resource p then scan_plain action resource ps
      else if cp_compiled p \<noteq> None then scan_plain action resource ps
      else Inr ())"

fun scan_record ::
  "golib \<Rightarrow> gotime \<Rightarrow> Actor \<Rightarrow> string \<Rightarrow> string \<Rightarrow> (string \<times> any) list \<Rightarrow> compiledPermission list \<Rightarrow> authz_error + unit" where
  "scan_record L clock actor action resource attrs [] = Inl (Denied action)"
| "scan_record L clock actor action resource attrs (p # ps) =
     (if \<not> match_perm action resource p then scan_record L clock actor action resource attrs ps
      else case evalCompiled L clock (cp_compiled p) actor attrs of
             Inr True \<Rightarrow> Inr ()
           | _ \<Rightarrow> scan_record L clock actor action resource attrs ps)"

definition Authorize ::
  "golib \<Rightarrow> (json \<Rightarrow> string) \<Rightarrow> gotime \<Rightarrow> uuid \<Rightarrow> uuid \<Rightarrow> string \<Rightarrow> string \<Rightarrow> evaluator
   \<Rightarrow> (authz_error + unit) \<times> evaluator" where
  "Authorize L jt now t u action resource s =
     (case loadPermissionSet L jt now t u s of
        (Inl e, s') \<Rightarrow> (Inl e, s')
      | (Inr ps, s') \<Rightarrow> (scan_plain action resource (perms ps), s'))"

definition AuthorizeRecord ::
  "golib \<Rightarrow> (json \<Rightarrow> string) \<Rightarrow> gotime \<Rightarrow> uuid \<Rightarrow> uuid \<Rightarrow> string \<Rightarrow> string \<Rightarrow> (string \<times> any) list \<Rightarrow> evaluator
   \<Rightarrow> (authz_error + unit) \<times> evaluator" where
  "AuthorizeRecord L jt now t u action resource attrs s =
     (case loadPermissionSet L jt now t u s of
        (Inl e, s') \<Rightarrow> (Inl e, s')
      | (Inr ps, s') \<Rightarrow>
          (scan_record L now \<lparr>UserID = u, TenantID = t, Roles = ps_roles ps, Now = 0\<rparr>
             action resource attrs (perms ps), s'))"

definition ListPermissions ::
  "golib \<Rightarrow> (json \<Rightarrow> string) \<Rightarrow> gotime \<Rightarrow> uuid \<Rightarrow> uuid \<Rightarrow> evaluator \<Rightarrow> (authz_error + permission list) \<times> evaluator" where
  "ListPermissions L jt now t u s =
     (case loadPermissionSet L jt now t u s of
        (Inl e, s') \<Rightarrow> (Inl e, s')
      | (Inr ps, s') \<Rightarrow> (Inr (map perm (perms ps)), s'))"

definition ListRoles :: "uuid \<Rightarrow> uuid \<Rightarrow> evaluator \<Rightarrow> authz_error + string list" where
  "ListRoles t u s =
     fst (WithTenantTx AuthzTenantRequired t (\<lambda>db. Inr (loadUserRoles db t u, db)) (e_db s))"

definition InvalidateUser :: "golib \<Rightarrow> uuid \<Rightarrow> uuid \<Rightarrow> evaluator \<Rightarrow> evaluator" where
  "InvalidateUser L t u s = s\<lparr>e_cache := snd (Delete (cacheKey L t u) (e_cache s))\<rparr>"

definition InvalidateTenant :: "golib \<Rightarrow> uuid \<Rightarrow> evaluator \<Rightarrow> evaluator" where
  "InvalidateTenant L t s = s\<lparr>e_cache := snd (DeletePrefix (tenantPrefix L t) (e_cache s))\<rparr>"


section \<open>Matching\<close>

lemma matchAction_iff:
  "matchAction pat act \<longleftrightarrow>
     pat = ''*'' \<or> pat = act \<or> pat = ''.*''
     \<or> (\<exists>pre. pre \<noteq> [] \<and> pat = pre @ ''.*'' \<and> prefix (pre @ ''.'') act)"
proof (cases "suffix ''.*'' pat")
  case True
  then obtain pre where "pat = pre @ ''.*''" by (elim suffixE)
  then show ?thesis by (cases "pre = []") (simp_all add: matchAction_def suffixI)
next
  case False
  then have "pat \<noteq> pre @ ''.*''" for pre by (metis suffixI)
  then show ?thesis using False by (auto simp: matchAction_def)
qed

lemma scan_plain_Inr:
  "scan_plain a r ps = Inr () \<longleftrightarrow> (\<exists>p \<in> set ps. match_perm a r p \<and> cp_compiled p = None)"
  by (induction ps) auto

lemma scan_record_Inr:
  "scan_record L clock actor a r attrs ps = Inr () \<longleftrightarrow>
     (\<exists>p \<in> set ps. match_perm a r p \<and> evalCompiled L clock (cp_compiled p) actor attrs = Inr True)"
proof (induction ps)
  case (Cons p ps)
  then show ?case
    by (cases "evalCompiled L clock (cp_compiled p) actor attrs") (auto split: bool.splits)
qed auto

lemma plain_implies_record:
  "scan_plain a r ps = Inr () \<Longrightarrow> scan_record L clock actor a r attrs ps = Inr ()"
  by (auto simp: scan_plain_Inr scan_record_Inr evalCompiled_def)


section \<open>Role inheritance\<close>

text \<open>\<open>ancestor n\<close> follows \<open>n\<close> parent links.\<close>

fun ancestor :: "authz_db \<Rightarrow> uuid \<Rightarrow> nat \<Rightarrow> string \<Rightarrow> string option" where
  "ancestor db t 0 r = Some r"
| "ancestor db t (Suc n) r = Option.bind (parent_of db t r) (ancestor db t n)"

definition chain :: "authz_db \<Rightarrow> uuid \<Rightarrow> nat \<Rightarrow> string \<Rightarrow> string set" where
  "chain db t n r = {x. \<exists>i<n. ancestor db t i r = Some x}"

lemma chain_0 [simp]: "chain db t 0 r = {}"
  by (simp add: chain_def)

lemma chain_Suc:
  "chain db t (Suc n) r =
     insert r (case parent_of db t r of None \<Rightarrow> {} | Some p \<Rightarrow> chain db t n p)"
proof -
  have "(\<exists>i<Suc n. ancestor db t i r = Some x) \<longleftrightarrow> r = x \<or> (\<exists>i<n. ancestor db t (Suc i) r = Some x)" for x
    unfolding Ex_less_Suc2 by simp
  then show ?thesis
    by (cases "parent_of db t r") (auto simp: chain_def)
qed

lemma walk_chain_subset: "set (walk_chain db t n r seen) \<subseteq> set seen \<union> chain db t n r"
proof (induction n arbitrary: r seen)
  case (Suc n)
  show ?case
  proof (cases "parent_of db t r")
    case (Some p)
    with Suc.IH[of p "seen @ [r]"] show ?thesis by (auto simp: chain_Suc)
  qed (auto simp: chain_Suc)
qed simp

lemma walk_chain_grows: "set seen \<subseteq> set (walk_chain db t n r seen)"
proof (induction n arbitrary: r seen)
  case (Suc n)
  show ?case
  proof (cases "parent_of db t r")
    case (Some p)
    with Suc.IH[of "seen @ [r]" p] show ?thesis by auto
  qed auto
qed simp

lemma walk_chain_start: "0 < n \<Longrightarrow> r \<in> set (walk_chain db t n r seen)"
proof (cases n)
  case (Suc m)
  show ?thesis
  proof (cases "parent_of db t r")
    case (Some p)
    with Suc walk_chain_grows[where seen = "seen @ [r]" and r = p and n = m] show ?thesis by auto
  qed (use Suc in auto)
qed simp

text \<open>A set of roles is closed when it holds the parent of each of its roles.\<close>

definition closed_up_to :: "authz_db \<Rightarrow> uuid \<Rightarrow> string set \<Rightarrow> string set \<Rightarrow> bool" where
  "closed_up_to db t extra S \<longleftrightarrow> (\<forall>x \<in> S. \<forall>p. parent_of db t x = Some p \<longrightarrow> p \<in> S \<union> extra)"

lemma closed_chain: "closed_up_to db t {} S \<Longrightarrow> r \<in> S \<Longrightarrow> chain db t n r \<subseteq> S"
proof (induction n arbitrary: r)
  case (Suc n)
  then show ?case
    by (auto simp: chain_Suc closed_up_to_def split: option.splits)
qed simp

lemma walk_chain_exact:
  "closed_up_to db t {r} (set seen) \<Longrightarrow> set (walk_chain db t n r seen) = set seen \<union> chain db t n r"
proof (induction n arbitrary: r seen)
  case (Suc n)
  show ?case
  proof (cases "r \<in> set seen")
    case True
    then have "closed_up_to db t {} (set seen)"
      using Suc.prems by (auto simp: closed_up_to_def)
    from closed_chain[OF this True] True show ?thesis by auto
  next
    case False
    show ?thesis
    proof (cases "parent_of db t r")
      case (Some p)
      then have "closed_up_to db t {p} (set (seen @ [r]))"
        using Suc.prems by (auto simp: closed_up_to_def)
      from Suc.IH[OF this] Some False show ?thesis by (auto simp: chain_Suc)
    qed (use False in \<open>auto simp: chain_Suc\<close>)
  qed
qed simp

lemma walk_chain_closed:
  "closed_up_to db t {r} (set seen) \<Longrightarrow> ancestor db t n r = None \<Longrightarrow>
   closed_up_to db t {} (set (walk_chain db t n r seen))"
proof (induction n arbitrary: r seen)
  case (Suc n)
  show ?case
  proof (cases "r \<in> set seen")
    case True
    then show ?thesis using Suc.prems(1) by (auto simp: closed_up_to_def)
  next
    case False
    show ?thesis
    proof (cases "parent_of db t r")
      case (Some p)
      then have "closed_up_to db t {p} (set (seen @ [r]))"
        using Suc.prems(1) by (auto simp: closed_up_to_def)
      from Suc.IH[OF this] Suc.prems(2) Some False show ?thesis by simp
    qed (use False Suc.prems(1) in \<open>auto simp: closed_up_to_def\<close>)
  qed
qed simp

text \<open>No role of the list has more ancestors than the walk follows.\<close>

definition shallow :: "authz_db \<Rightarrow> uuid \<Rightarrow> string list \<Rightarrow> bool" where
  "shallow db t rs \<longleftrightarrow> (\<forall>r \<in> set rs. ancestor db t (Suc maxRoleHierarchyDepth) r = None)"

lemmas walkRoleChain_exact = walk_chain_exact[where n = "Suc depth" for depth, folded walkRoleChain_def]
  and walkRoleChain_closed = walk_chain_closed[where n = "Suc depth" for depth, folded walkRoleChain_def]
  and walkRoleChain_subset = walk_chain_subset[where n = "Suc depth" for depth, folded walkRoleChain_def]

lemma expand_exact:
  "closed_up_to db t {} (set seen) \<Longrightarrow> shallow db t rs \<Longrightarrow>
   set (fold (\<lambda>r seen. walkRoleChain db t r maxRoleHierarchyDepth seen) rs seen)
     = set seen \<union> (\<Union>r \<in> set rs. chain db t (Suc maxRoleHierarchyDepth) r)"
proof (induction rs arbitrary: seen)
  case (Cons r rs)
  let ?w = "walkRoleChain db t r maxRoleHierarchyDepth seen"
  have c: "closed_up_to db t {r} (set seen)" using Cons.prems(1) by (auto simp: closed_up_to_def)
  have "closed_up_to db t {} (set ?w)" and "shallow db t rs"
    using walkRoleChain_closed[OF c] Cons.prems(2) by (auto simp: shallow_def simp del: ancestor.simps)
  from Cons.IH[OF this] walkRoleChain_exact[OF c] show ?case by auto
qed simp

lemma expandRoles_exact:
  "shallow db t rs \<Longrightarrow> set (expandRoles db t rs) = (\<Union>r \<in> set rs. chain db t (Suc maxRoleHierarchyDepth) r)"
  unfolding expandRoles_def using expand_exact[of db t "[]" rs] by (simp add: closed_up_to_def)

lemma expandRoles_subset:
  "set (expandRoles db t rs) \<subseteq> (\<Union>r \<in> set rs. chain db t (Suc maxRoleHierarchyDepth) r)"
proof -
  have "set (fold (\<lambda>r seen. walkRoleChain db t r maxRoleHierarchyDepth seen) rs seen)
      \<subseteq> set seen \<union> (\<Union>r \<in> set rs. chain db t (Suc maxRoleHierarchyDepth) r)" for seen
  proof (induction rs arbitrary: seen)
    case (Cons r rs)
    from Cons.IH[of "walkRoleChain db t r maxRoleHierarchyDepth seen"]
      walkRoleChain_subset[of db t r maxRoleHierarchyDepth seen] show ?case
      by auto
  qed simp
  from this[of "[]"] show ?thesis by (simp add: expandRoles_def)
qed


section \<open>Loaded permission sets\<close>

text \<open>
  What PostgreSQL guarantees of the rows: a text value has no NUL byte, and the value of a JSON
  column is determined by its text.
\<close>

definition row_permissions :: "(json \<Rightarrow> string) \<Rightarrow> authz_db \<Rightarrow> uuid \<Rightarrow> permission set" where
  "row_permissions jt db t = (\<Union>role. set (loadRolePermissions jt db t role))"

definition rows_ok :: "(json \<Rightarrow> string) \<Rightarrow> authz_db \<Rightarrow> uuid \<Rightarrow> bool" where
  "rows_ok jt db t \<longleftrightarrow>
     (\<forall>p \<in> row_permissions jt db t. CHR 0x00 \<notin> set (Action p) \<and> CHR 0x00 \<notin> set (Resource p))
     \<and> (\<forall>p \<in> row_permissions jt db t. \<forall>q \<in> row_permissions jt db t.
           raw_text (Conditions p) = raw_text (Conditions q) \<longrightarrow> Conditions p = Conditions q)"

lemma append_sep_inj:
  "c \<notin> set a \<Longrightarrow> c \<notin> set a' \<Longrightarrow> a @ c # b = a' @ c # b' \<longleftrightarrow> a = a' \<and> b = b'"
  by (induction a arbitrary: a') (case_tac a'; auto)+

lemma permKey_inj:
  assumes "rows_ok jt db t" "p \<in> row_permissions jt db t" "q \<in> row_permissions jt db t"
    and "permKey p = permKey q"
  shows "p = q"
proof -
  have "Action p = Action q \<and> Resource p = Resource q \<and> raw_text (Conditions p) = raw_text (Conditions q)"
    using assms by (auto simp: rows_ok_def permKey_def append_sep_inj)
  then show ?thesis using assms(1-3) by (simp add: rows_ok_def)
qed

lemma set_dedup_perms: "set (dedup_perms seen ps) \<subseteq> {p \<in> set ps. permKey p \<notin> set seen}"
  by (induction seen ps rule: dedup_perms.induct) auto

lemma dedup_perms_exact:
  assumes "inj_on permKey (set ps)"
  shows "set (dedup_perms seen ps) = {p \<in> set ps. permKey p \<notin> set seen}"
  using assms
proof (induction seen ps rule: dedup_perms.induct)
  case (2 seen p ps)
  have inj: "inj_on permKey (set ps)" using "2.prems" by simp
  have "permKey q = permKey p \<longleftrightarrow> q = p" if "q \<in> set ps" for q
    using inj_onD[OF "2.prems", of q p] that by auto
  then show ?case
    using "2.IH"(1)[OF _ inj] "2.IH"(2)[OF _ inj] by auto
qed simp

definition held_permissions :: "(json \<Rightarrow> string) \<Rightarrow> authz_db \<Rightarrow> uuid \<Rightarrow> uuid \<Rightarrow> permission set" where
  "held_permissions jt db t u =
     (\<Union>role \<in> set (expandRoles db t (loadUserRoles db t u)). set (loadRolePermissions jt db t role))"

lemma queryPermissionSet_eq:
  assumes "t \<noteq> 0"
  obtains ps where "queryPermissionSet L jt db t u = Inr ps"
    and "ps_roles ps = loadUserRoles db t u"
    and "set (perms ps) \<subseteq> compilePermission L ` held_permissions jt db t u"
    and "rows_ok jt db t \<Longrightarrow> set (perms ps) = compilePermission L ` held_permissions jt db t u"
proof -
  let ?all = "concat (map (loadRolePermissions jt db t) (expandRoles db t (loadUserRoles db t u)))"
  have all: "set ?all = held_permissions jt db t u" by (auto simp: held_permissions_def)
  have sub: "held_permissions jt db t u \<subseteq> row_permissions jt db t"
    by (auto simp: held_permissions_def row_permissions_def)
  have "set (dedup_perms [] ?all) = set ?all" if "rows_ok jt db t"
  proof -
    have "inj_on permKey (set ?all)"
      unfolding all by (rule inj_onI) (use permKey_inj[OF that] sub in blast)
    from dedup_perms_exact[OF this, of "[]"] show ?thesis by (simp add: set_eq_iff)
  qed
  then show ?thesis
    using that[of "\<lparr>perms = map (compilePermission L) (dedup_perms [] ?all), ps_roles = loadUserRoles db t u\<rparr>"]
      assms all set_dedup_perms[of "[]" ?all]
    by (auto simp: queryPermissionSet_def tx_fst Let_def)
qed

text \<open>A permission row grants an action on a record when it matches and its condition holds.\<close>

definition row_grants ::
  "golib \<Rightarrow> gotime \<Rightarrow> Actor \<Rightarrow> string \<Rightarrow> string \<Rightarrow> (string \<times> any) list \<Rightarrow> permission \<Rightarrow> bool" where
  "row_grants L clock actor action resource attrs p \<longleftrightarrow>
     matchAction (Action p) action \<and> matchResource (Resource p) resource
     \<and> (IsUnconditional (Conditions p) \<or> Eval L clock (Some (Compile L (Conditions p))) actor attrs = Inr True)"

lemma compiled_grants:
  "match_perm a r (compilePermission L p) \<and> evalCompiled L clock (cp_compiled (compilePermission L p)) actor attrs = Inr True
   \<longleftrightarrow> row_grants L clock actor a r attrs p"
  by (auto simp: match_perm_def compilePermission_def evalCompiled_def row_grants_def)

lemma scan_record_loaded:
  assumes "set (perms ps) = compilePermission L ` P"
  shows "scan_record L clock actor a r attrs (perms ps) = Inr () \<longleftrightarrow> (\<exists>p \<in> P. row_grants L clock actor a r attrs p)"
  unfolding scan_record_Inr assms compiled_grants[symmetric] by blast


section \<open>The cache of permission sets\<close>

lemma cacheKey_inj:
  assumes "uuid_laws L"
  shows "cacheKey L t u = cacheKey L t' u' \<longleftrightarrow> t = t' \<and> u = u'"
proof -
  have "CHR '':'' \<notin> set (uuid_string L x)" for x using assms by (simp add: uuid_laws_def)
  then show ?thesis
    using uuid_string_inj[OF assms] by (auto simp: cacheKey_def append_sep_inj)
qed

lemma tenantPrefix_cacheKey:
  assumes "uuid_laws L"
  shows "prefix (tenantPrefix L t) (cacheKey L t' u) \<longleftrightarrow> t = t'"
proof -
  have nc: "CHR '':'' \<notin> set (uuid_string L x)" for x using assms by (simp add: uuid_laws_def)
  have "prefix (tenantPrefix L t) (cacheKey L t' u) \<longleftrightarrow>
      (\<exists>z. uuid_string L t' @ CHR '':'' # uuid_string L u = uuid_string L t @ CHR '':'' # z)"
    by (simp add: prefix_def tenantPrefix_def cacheKey_def)
  then show ?thesis
    using uuid_string_inj[OF assms] nc by (auto simp: append_sep_inj)
qed

definition e_inv :: "evaluator \<Rightarrow> bool" where
  "e_inv s \<longleftrightarrow> lru_inv (e_cache s)"

text \<open>The set a lookup at time \<open>now\<close> finds in the cache.\<close>

definition cached :: "golib \<Rightarrow> gotime \<Rightarrow> uuid \<Rightarrow> uuid \<Rightarrow> evaluator \<Rightarrow> permissionSet option" where
  "cached L now t u s = fst (lru_get now (cacheKey L t u) (e_cache s))"

lemma load_fst:
  "fst (loadPermissionSet L jt now t u s) =
     (case cached L now t u s of Some ps \<Rightarrow> Inr ps | None \<Rightarrow> queryPermissionSet L jt (e_db s) t u)"
  by (auto simp: loadPermissionSet_def cached_def Let_def split: option.splits sum.splits)

lemma load_read_through:
  "loadPermissionSet L jt now t u s =
     map_prod id (\<lambda>c. s\<lparr>e_cache := c\<rparr>)
       (lru.read_through now (cacheKey L t u) (queryPermissionSet L jt (e_db s) t u) (e_cache s))"
  by (auto simp: loadPermissionSet_def lru.read_through_def Let_def split: option.splits sum.splits)

lemma load_inv [step_invs]: "e_inv s \<Longrightarrow> e_inv (snd (loadPermissionSet L jt now t u s))"
  by (simp add: load_read_through e_inv_def lru.read_through_inv)

lemma load_ttl: "e_inv s \<Longrightarrow> ttl (e_cache (snd (loadPermissionSet L jt now t u s))) = ttl (e_cache s)"
  by (simp add: load_read_through e_inv_def lru.read_through_life)

lemma load_db [simp]: "e_db (snd (loadPermissionSet L jt now t u s)) = e_db s"
  by (simp add: load_read_through)

lemma cached_after_load:
  assumes "uuid_laws L" "e_inv s" "now \<le> now'"
    and "cached L now' t' u' (snd (loadPermissionSet L jt now t u s)) = Some ps"
  shows "cached L now' t' u' s = Some ps
         \<or> t' = t \<and> u' = u \<and> queryPermissionSet L jt (e_db s) t u = Inr ps \<and> now' \<le> now + ttl (e_cache s)"
  using lru.read_through_origin[of "e_cache s" now now' "cacheKey L t' u'" "cacheKey L t u"
      "queryPermissionSet L jt (e_db s) t u" ps] assms
  by (auto simp: load_read_through cached_def e_inv_def cacheKey_inj)

lemma Authorize_fst:
  "fst (Authorize L jt now t u a r s) =
     rbind (fst (loadPermissionSet L jt now t u s)) (\<lambda>ps. scan_plain a r (perms ps))"
  by (auto simp: Authorize_def rbind_def split: prod.splits sum.splits)

lemma AuthorizeRecord_fst:
  "fst (AuthorizeRecord L jt now t u a r attrs s) =
     rbind (fst (loadPermissionSet L jt now t u s))
       (\<lambda>ps. scan_record L now \<lparr>UserID = u, TenantID = t, Roles = ps_roles ps, Now = 0\<rparr> a r attrs (perms ps))"
  by (auto simp: AuthorizeRecord_def rbind_def split: prod.splits sum.splits)

lemma Authorize_snd [simp]: "snd (Authorize L jt now t u a r s) = snd (loadPermissionSet L jt now t u s)"
  by (auto simp: Authorize_def split: prod.splits sum.splits)

lemma AuthorizeRecord_snd [simp]:
  "snd (AuthorizeRecord L jt now t u a r attrs s) = snd (loadPermissionSet L jt now t u s)"
  by (auto simp: AuthorizeRecord_def split: prod.splits sum.splits)

lemma cached_InvalidateUser:
  assumes "uuid_laws L" "e_inv s"
  shows "cached L now t' u' (InvalidateUser L t u s) = (if t' = t \<and> u' = u then None else cached L now t' u' s)"
  using lru.get_del[of "e_cache s" now "cacheKey L t' u'" "cacheKey L t u"] assms
  by (auto simp: cached_def InvalidateUser_def e_inv_def cacheKey_inj)

lemma cached_InvalidateTenant:
  assumes "uuid_laws L" "e_inv s"
  shows "cached L now t' u' (InvalidateTenant L t s) = (if t' = t then None else cached L now t' u' s)"
proof -
  have "tenantPrefix L t \<noteq> []" by (simp add: tenantPrefix_def)
  from lru.get_del_prefix[OF _ this, of "e_cache s" now "cacheKey L t' u'"] assms show ?thesis
    by (auto simp: cached_def InvalidateTenant_def e_inv_def tenantPrefix_cacheKey)
qed

text \<open>
  A history of the evaluator: time passes, the tables change, users are authorised, entries are
  invalidated. \<open>H\<close> records every state of the tables with the time at which it was current.
\<close>

inductive authz_run ::
  "golib \<Rightarrow> (json \<Rightarrow> string) \<Rightarrow> int \<Rightarrow> gotime \<Rightarrow> evaluator \<Rightarrow> (gotime \<times> authz_db) set \<Rightarrow> bool"
  for L jt d where
  run_init: "authz_run L jt d now \<lparr>e_db = db, e_cache = NewLRUCache m d\<rparr> {(now, db)}"
| run_tick: "authz_run L jt d now s H \<Longrightarrow> now \<le> now' \<Longrightarrow> authz_run L jt d now' s (insert (now', e_db s) H)"
| run_write: "authz_run L jt d now s H \<Longrightarrow> authz_run L jt d now (s\<lparr>e_db := db\<rparr>) (insert (now, db) H)"
| run_load: "authz_run L jt d now s H \<Longrightarrow> authz_run L jt d now (snd (loadPermissionSet L jt now t u s)) H"
| run_user: "authz_run L jt d now s H \<Longrightarrow> authz_run L jt d now (InvalidateUser L t u s) H"
| run_tenant: "authz_run L jt d now s H \<Longrightarrow> authz_run L jt d now (InvalidateTenant L t s) H"


text \<open>Where the entries of the cache come from, and until when they answer.\<close>

definition entries_from ::
  "golib \<Rightarrow> (json \<Rightarrow> string) \<Rightarrow> gotime \<Rightarrow> evaluator \<Rightarrow> (gotime \<times> authz_db) set \<Rightarrow> bool" where
  "entries_from L jt now s H \<longleftrightarrow>
     (\<forall>now' t u ps. now \<le> now' \<longrightarrow> cached L now' t u s = Some ps \<longrightarrow>
        (\<exists>\<tau> db. (\<tau>, db) \<in> H \<and> now' \<le> \<tau> + ttl (e_cache s) \<and> queryPermissionSet L jt db t u = Inr ps))"

lemma entries_fromD:
  "entries_from L jt now s H \<Longrightarrow> now \<le> now' \<Longrightarrow> cached L now' t u s = Some ps \<Longrightarrow>
   \<exists>\<tau> db. (\<tau>, db) \<in> H \<and> now' \<le> \<tau> + ttl (e_cache s) \<and> queryPermissionSet L jt db t u = Inr ps"
  unfolding entries_from_def by blast

lemma entries_from_mono:
  assumes "entries_from L jt now s H" "H \<subseteq> H'" "now \<le> now'"
    and "\<And>n t u ps. now' \<le> n \<Longrightarrow> cached L n t u s' = Some ps \<Longrightarrow> cached L n t u s = Some ps"
    and "ttl (e_cache s') = ttl (e_cache s)"
  shows "entries_from L jt now' s' H'"
  unfolding entries_from_def
proof (intro allI impI)
  fix n t u ps
  assume "now' \<le> n" "cached L n t u s' = Some ps"
  with assms(4) have "cached L n t u s = Some ps" by blast
  from entries_fromD[OF assms(1) _ this] \<open>now' \<le> n\<close> assms(2,3,5)
  show "\<exists>\<tau> db. (\<tau>, db) \<in> H' \<and> n \<le> \<tau> + ttl (e_cache s') \<and> queryPermissionSet L jt db t u = Inr ps"
    by fastforce
qed

lemma invalidate_ttl [simp]:
  "ttl (e_cache (InvalidateUser L t u s)) = ttl (e_cache s)"
  "ttl (e_cache (InvalidateTenant L t s)) = ttl (e_cache s)"
  by (simp_all add: InvalidateUser_def InvalidateTenant_def)

lemma invalidate_inv [step_invs]:
  "e_inv s \<Longrightarrow> e_inv (InvalidateUser L t u s)"
  "e_inv s \<Longrightarrow> e_inv (InvalidateTenant L t s)"
  by (simp_all add: InvalidateUser_def InvalidateTenant_def e_inv_def lru.inv_del lru.inv_del_prefix)

lemma invalidate_db [simp]:
  "e_db (InvalidateUser L t u s) = e_db s" "e_db (InvalidateTenant L t s) = e_db s"
  by (simp_all add: InvalidateUser_def InvalidateTenant_def)

lemma entries_from_invalidate:
  assumes "uuid_laws L" "e_inv s" "entries_from L jt now s H"
  shows "entries_from L jt now (InvalidateUser L t u s) H" and "entries_from L jt now (InvalidateTenant L t s) H"
proof -
  have "cached L n t' u' s = Some ps" if "cached L n t' u' (InvalidateUser L t u s) = Some ps" for n t' u' ps
    using that by (simp add: cached_InvalidateUser[OF assms(1,2)] split: if_splits)
  then show "entries_from L jt now (InvalidateUser L t u s) H"
    by (intro entries_from_mono[OF assms(3)]) simp_all
  have "cached L n t' u' s = Some ps" if "cached L n t' u' (InvalidateTenant L t s) = Some ps" for n t' u' ps
    using that by (simp add: cached_InvalidateTenant[OF assms(1,2)] split: if_splits)
  then show "entries_from L jt now (InvalidateTenant L t s) H"
    by (intro entries_from_mono[OF assms(3)]) simp_all
qed

lemma authz_run_inv:
  assumes "uuid_laws L" and "authz_run L jt d now s H"
  shows "e_inv s \<and> ttl (e_cache s) = (if d \<le> 0 then five_minutes else d)
         \<and> (now, e_db s) \<in> H \<and> (\<forall>(\<tau>, db) \<in> H. \<tau> \<le> now) \<and> entries_from L jt now s H"
  using assms(2)
proof (induction rule: authz_run.induct)
  case (run_init now db m)
  have "cached L n t u \<lparr>e_db = db, e_cache = NewLRUCache m d\<rparr> = None" for n t u
    by (simp add: cached_def Get_def NewLRUCache_def)
  then show ?case
    by (auto simp: e_inv_def lru_inv_New entries_from_def) (simp_all add: NewLRUCache_def)
next
  case (run_tick now s H now')
  then show ?case
    using entries_from_mono[of L jt now s H "insert (now', e_db s) H" now' s] by fastforce
next
  case (run_write now s H db)
  have "cached L n t u (s\<lparr>e_db := db\<rparr>) = cached L n t u s" for n t u by (simp add: cached_def)
  with run_write show ?case
    using entries_from_mono[of L jt now s H "insert (now, db) H" now "s\<lparr>e_db := db\<rparr>"]
    by (auto simp: e_inv_def)
next
  case (run_load now s H t u)
  let ?s = "snd (loadPermissionSet L jt now t u s)"
  have inv: "e_inv s" and ttl: "ttl (e_cache ?s) = ttl (e_cache s)"
    using run_load.IH load_ttl by auto
  have "entries_from L jt now ?s H"
    unfolding entries_from_def ttl
  proof (intro allI impI)
    fix n t' u' ps
    assume n: "now \<le> n" and c: "cached L n t' u' ?s = Some ps"
    have IH: "entries_from L jt now s H" "(now, e_db s) \<in> H" using run_load.IH by auto
    from cached_after_load[OF assms(1) inv n c]
    show "\<exists>\<tau> db. (\<tau>, db) \<in> H \<and> n \<le> \<tau> + ttl (e_cache s) \<and> queryPermissionSet L jt db t' u' = Inr ps"
    proof
      assume "cached L n t' u' s = Some ps"
      from entries_fromD[OF IH(1) n this] show ?thesis .
    next
      assume "t' = t \<and> u' = u \<and> queryPermissionSet L jt (e_db s) t u = Inr ps \<and> n \<le> now + ttl (e_cache s)"
      with IH(2) show ?thesis by blast
    qed
  qed
  with run_load.IH ttl show ?case by (simp add: step_invs)
next
  case (run_user now s H t u)
  then show ?case by (simp add: step_invs entries_from_invalidate[OF assms(1)])
next
  case (run_tenant now s H t)
  then show ?case by (simp add: step_invs entries_from_invalidate[OF assms(1)])
qed

lemma load_from_history:
  assumes "uuid_laws L" "authz_run L jt d now s H" "fst (loadPermissionSet L jt now t u s) = Inr ps"
  shows "\<exists>\<tau> db. (\<tau>, db) \<in> H \<and> \<tau> \<le> now \<and> now \<le> \<tau> + (if d \<le> 0 then five_minutes else d)
            \<and> queryPermissionSet L jt db t u = Inr ps"
proof (cases "cached L now t u s")
  case None
  have "0 < (if d \<le> 0 then five_minutes else d)" by (simp add: five_minutes_def)
  with None assms(3) authz_run_inv[OF assms(1,2)] show ?thesis
    by (intro exI[of _ now] exI[of _ "e_db s"]) (auto simp: load_fst)
next
  case (Some ps')
  with assms(3) have "ps' = ps" by (simp add: load_fst)
  with Some authz_run_inv[OF assms(1,2)] entries_fromD[of L jt now s H now t u ps] show ?thesis by fastforce
qed


section \<open>Example tables\<close>

text \<open>User 7 of tenant 1 is a clerk, clerks inherit from staff, staff may do \<open>crm.*\<close>.\<close>

definition empty_object :: raw_message where
  "empty_object = \<lparr>raw_text = ''{}'', raw_json = Some (JObj [])\<rparr>"

definition role_of :: "string \<Rightarrow> string option \<Rightarrow> role_row" where
  "role_of name par = \<lparr>r_tenant = 1, r_name = name, r_parent = par, r_permissions = no_conditions\<rparr>"

definition grant_of :: "string \<Rightarrow> string \<Rightarrow> permission_row" where
  "grant_of role act =
     \<lparr>pr_tenant = 1, pr_role = role, pr_action = act, pr_ktype = [], pr_conditions = empty_object, pr_revoked = False\<rparr>"

definition member_of :: "string \<Rightarrow> role_member" where
  "member_of role = \<lparr>rm_tenant = 1, rm_user = 7, rm_role = role\<rparr>"

definition staff_db :: authz_db where
  "staff_db =
     \<lparr>user_tenant_roles = [member_of ''clerk''], user_tenants = [],
      roles = [role_of ''clerk'' (Some ''staff''), role_of ''staff'' None],
      permissions = [grant_of ''staff'' ''crm.*'']\<rparr>"

definition fresh_evaluator :: "authz_db \<Rightarrow> evaluator" where
  "fresh_evaluator db = \<lparr>e_db = db, e_cache = NewLRUCache 10 60\<rparr>"

lemmas example_defs = staff_db_def role_of_def grant_of_def member_of_def empty_object_def no_conditions_def

lemma staff_roles: "loadUserRoles staff_db 1 7 = [''clerk'']"
  by code_simp

lemma staff_parents:
  "parent_of staff_db 1 ''clerk'' = Some ''staff''" "parent_of staff_db 1 ''staff'' = None"
  by code_simp+

lemma staff_rows:
  "loadRolePermissions jt staff_db 1 role =
     (if role = ''staff'' then [\<lparr>Action = ''crm.*'', Resource = [], Conditions = empty_object\<rparr>] else [])"
  by (auto simp: loadRolePermissions_def example_defs find_role_def parsePermissions_def)

lemma staff_rows_ok: "rows_ok jt staff_db 1"
  by (auto simp: rows_ok_def row_permissions_def staff_rows)

lemma staff_shallow: "shallow staff_db 1 [''clerk'']"
  by (simp add: shallow_def staff_parents maxRoleHierarchyDepth_def eval_nat_numeral)

lemma fresh_cached: "cached L now t u (fresh_evaluator db) = None"
  by (simp add: cached_def fresh_evaluator_def Get_def NewLRUCache_def)

lemma fresh_e_inv: "e_inv (fresh_evaluator db)"
  by (simp add: e_inv_def fresh_evaluator_def lru_inv_New)

lemma crm_grant:
  "row_grants L clock actor ''crm.deal.read'' ''crm.deal'' attrs
     \<lparr>Action = ''crm.*'', Resource = [], Conditions = empty_object\<rparr>"
  unfolding row_grants_def
proof (intro conjI disjI1)
  show "IsUnconditional (Conditions \<lparr>Action = ''crm.*'', Resource = [], Conditions = empty_object\<rparr>)"
    by code_simp
qed (simp_all add: matchAction_def matchResource_def suffix_def Let_def)

text \<open>
  A chain of roles \<open>r0\<close> to \<open>r8\<close>, each the child of the next, and a grant to \<open>r8\<close>; the
  check on writes allows chains of up to sixteen roles.
\<close>

definition chain_db :: "string list \<Rightarrow> authz_db" where
  "chain_db held =
     \<lparr>user_tenant_roles = map member_of held, user_tenants = [],
      roles = [role_of ''r0'' (Some ''r1''), role_of ''r1'' (Some ''r2''), role_of ''r2'' (Some ''r3''),
        role_of ''r3'' (Some ''r4''), role_of ''r4'' (Some ''r5''), role_of ''r5'' (Some ''r6''),
        role_of ''r6'' (Some ''r7''), role_of ''r7'' (Some ''r8''), role_of ''r8'' None],
      permissions = [grant_of ''r8'' ''crm.*'']\<rparr>"

lemma fresh_Authorize:
  "fst (Authorize L jt now t u a r (fresh_evaluator db)) =
     rbind (queryPermissionSet L jt db t u) (\<lambda>ps. scan_plain a r (perms ps))"
  by (simp add: Authorize_fst load_fst fresh_cached) (simp add: fresh_evaluator_def)

lemma example_scans:
  "rbind (queryPermissionSet bin_lib (\<lambda>_. []) staff_db 1 7)
     (\<lambda>ps. scan_plain ''crm.deal.read'' ''crm.deal'' (perms ps)) = Inr ()"
  "rbind (queryPermissionSet bin_lib (\<lambda>_. []) (chain_db [''r3'']) 1 7)
     (\<lambda>ps. scan_plain ''crm.deal.read'' ''crm.deal'' (perms ps)) = Inr ()"
  "rbind (queryPermissionSet bin_lib (\<lambda>_. []) (chain_db [''r0'', ''r3'']) 1 7)
     (\<lambda>ps. scan_plain ''crm.deal.read'' ''crm.deal'' (perms ps)) = Inl (Denied ''crm.deal.read'')"
  by code_simp+


section \<open>Properties\<close>





text \<open>
  Invalidation is effective and confined. After \<open>InvalidateUser\<close>, and for every user after
  \<open>InvalidateTenant\<close>, the next load queries the tables; loads for other users, respectively
  other tenants, answer as before.
\<close>

theorem invalidation_effective:
  assumes "uuid_laws L" and "e_inv s"
  shows "fst (loadPermissionSet L jt now t u (InvalidateUser L t u s)) = queryPermissionSet L jt (e_db s) t u
    \<and> fst (loadPermissionSet L jt now t u' (InvalidateTenant L t s)) = queryPermissionSet L jt (e_db s) t u'
    \<and> ((t', u') \<noteq> (t, u) \<longrightarrow>
         fst (loadPermissionSet L jt now t' u' (InvalidateUser L t u s)) = fst (loadPermissionSet L jt now t' u' s))
    \<and> (t' \<noteq> t \<longrightarrow>
         fst (loadPermissionSet L jt now t' u' (InvalidateTenant L t s)) = fst (loadPermissionSet L jt now t' u' s))"
  using assms by (auto simp: load_fst cached_InvalidateUser cached_InvalidateTenant split: option.split)

theorem invalidation_effective_witness:
  "fst (loadPermissionSet bin_lib (\<lambda>_. []) 5 1 7
          (InvalidateUser bin_lib 1 7 (snd (loadPermissionSet bin_lib (\<lambda>_. []) 5 1 7 (fresh_evaluator staff_db)))))
     = queryPermissionSet bin_lib (\<lambda>_. []) staff_db 1 7"
  using invalidation_effective[OF uuid_laws_bin_lib,
      OF load_inv[of "fresh_evaluator staff_db" bin_lib "\<lambda>_. []" 5 1 7, OF fresh_e_inv], of "\<lambda>_. []" 5 1 7]
  by (simp add: fresh_evaluator_def)

text \<open>
  The record-level check is at least as permissive as the plain one: whatever \<open>Authorize\<close>
  allows, \<open>AuthorizeRecord\<close> allows on every record.
\<close>

theorem plain_grant_covers_records:
  assumes "fst (Authorize L jt now t u a r s) = Inr ()"
  shows "fst (AuthorizeRecord L jt now t u a r attrs s) = Inr ()"
  using assms plain_implies_record by (auto simp: Authorize_fst AuthorizeRecord_fst rbind_eq_Inr)

theorem plain_grant_covers_records_witness:
  "fst (AuthorizeRecord bin_lib (\<lambda>_. []) 5 1 7 ''crm.deal.read'' ''crm.deal'' [(''owner'', AStr ''x'')]
     (fresh_evaluator (chain_db [''r3'']))) = Inr ()"
proof (rule plain_grant_covers_records)
  show "fst (Authorize bin_lib (\<lambda>_. []) 5 1 7 ''crm.deal.read'' ''crm.deal'' (fresh_evaluator (chain_db [''r3'']))) = Inr ()"
    by (simp add: fresh_Authorize example_scans)
qed

text \<open>
  Roles do not simply add up when a hierarchy is deeper than five parent links. In a chain
  \<open>r0, \<dots>, r8\<close> (each the child of the next) a user holding \<open>r3\<close> is allowed what \<open>r8\<close> grants; giving
  the same user the additional role \<open>r0\<close> takes the permission away, because the walk from \<open>r0\<close>
  stops at \<open>r5\<close> and the walk from \<open>r3\<close> stops at once on a role already seen.
\<close>

theorem extra_role_loses_permission:
  "fst (Authorize bin_lib (\<lambda>_. []) 5 1 7 ''crm.deal.read'' ''crm.deal'' (fresh_evaluator (chain_db [''r3'']))) = Inr ()
   \<and> fst (Authorize bin_lib (\<lambda>_. []) 5 1 7 ''crm.deal.read'' ''crm.deal'' (fresh_evaluator (chain_db [''r0'', ''r3''])))
       = Inl (Denied ''crm.deal.read'')"
  by (simp add: fresh_Authorize example_scans)

end
