(* ===== verification/Outbox.thy ===== *)
theory Outbox
  imports Go_Values Tenant_Tx
begin

text \<open>
  The transactional outbox (internal/events/store.go): \<open>EmitTx\<close> appends an event inside the
  caller's transaction, \<open>DrainBatch\<close> hands undelivered events to a delivery function, tenant by
  tenant, and marks them delivered.

  \<open>outbox\<close> holds the two tables the code reads: \<open>tenants\<close> and \<open>events\<close>. The delivery function
  acts on a world of its own and may refuse a batch; what it did is not undone when the
  transaction rolls back. \<open>locked\<close> are the rows another worker holds (\<open>SKIP LOCKED\<close>). Fresh UUIDs
  and clock readings are arguments.
\<close>

record event =
  ev_id :: uuid
  ev_tenant :: uuid
  ev_type :: string
  ev_payload :: raw_message
  ev_created :: gotime
  ev_delivered :: "gotime option"

record outbox =
  tenants :: "(uuid \<times> string) list"
  events :: "event list"

datatype kernel_error = TenantRequired | TypeRequired | ActionRequired | UniqueViolation | CheckViolation

definition empty_payload :: raw_message where
  "empty_payload = \<lparr>raw_text = ''{}'', raw_json = Some (JObj [])\<rparr>"

definition valid_json :: "raw_message \<Rightarrow> bool" where
  "valid_json r \<longleftrightarrow> raw_text r \<noteq> [] \<and> raw_json r \<noteq> None"

definition ev_key :: "event \<Rightarrow> uuid \<times> uuid" where
  "ev_key e = (ev_tenant e, ev_id e)"

definition EmitTx :: "gotime \<Rightarrow> uuid \<Rightarrow> event \<Rightarrow> 'a outbox_scheme \<Rightarrow> kernel_error + 'a outbox_scheme" where
  "EmitTx now fresh_id ev db =
     (if ev_tenant ev = 0 then Inl TenantRequired
      else if ev_type ev = [] then Inl TypeRequired
      else let row = \<lparr>ev_id = (if ev_id ev = 0 then fresh_id else ev_id ev), ev_tenant = ev_tenant ev,
                      ev_type = ev_type ev,
                      ev_payload = (if valid_json (ev_payload ev) then ev_payload ev else empty_payload),
                      ev_created = now, ev_delivered = None\<rparr>
           in if ev_key row \<in> set (map ev_key (events db)) then Inl UniqueViolation
              else Inr (db\<lparr>events := events db @ [row]\<rparr>))"

definition pending :: "uuid \<Rightarrow> 'a outbox_scheme \<Rightarrow> event list" where
  "pending t db = filter (\<lambda>e. ev_delivered e = None \<and> ev_tenant e = t) (events db)"

definition select_batch :: "(event \<Rightarrow> bool) \<Rightarrow> int \<Rightarrow> uuid \<Rightarrow> 'a outbox_scheme \<Rightarrow> event list" where
  "select_batch locked limit t db =
     take (nat limit) (sort_key ev_created (filter (\<lambda>e. \<not> locked e) (pending t db)))"

definition mark_delivered :: "gotime \<Rightarrow> uuid \<Rightarrow> uuid list \<Rightarrow> 'a outbox_scheme \<Rightarrow> 'a outbox_scheme" where
  "mark_delivered now t ids db =
     db\<lparr>events := update_rows (\<lambda>e. ev_tenant e = t \<and> ev_id e \<in> set ids) (\<lambda>e. e\<lparr>ev_delivered := Some now\<rparr>) (events db)\<rparr>"

datatype 'e drain_error = DrainTenantRequired | DeliverFailed 'e

text \<open>The result of the delivery function: an error, or \<open>None\<close>, and the world it leaves.\<close>

type_synonym ('e, 'w) deliver = "'w \<Rightarrow> event list \<Rightarrow> 'e option \<times> 'w"

definition drainTenant ::
  "gotime \<Rightarrow> (event \<Rightarrow> bool) \<Rightarrow> uuid \<Rightarrow> int \<Rightarrow> ('e, 'w) deliver \<Rightarrow> 'a outbox_scheme \<Rightarrow> 'w
   \<Rightarrow> ('e drain_error + int) \<times> 'a outbox_scheme \<times> 'w" where
  "drainTenant now locked t limit deliver db w =
     (if t = 0 then (Inl DrainTenantRequired, db, w)
      else let batch = select_batch locked limit t db
           in if batch = [] then (Inr 0, db, w)
              else case deliver w batch of
                     (Some e, w') \<Rightarrow> (Inl (DeliverFailed e), db, w')
                   | (None, w') \<Rightarrow>
                       (Inr (int (length batch)), mark_delivered now t (map ev_id batch) db, w'))"

fun drain_tenants ::
  "gotime \<Rightarrow> (event \<Rightarrow> bool) \<Rightarrow> int \<Rightarrow> ('e, 'w) deliver \<Rightarrow> uuid list \<Rightarrow> int \<Rightarrow> 'a outbox_scheme \<Rightarrow> 'w
   \<Rightarrow> (int \<times> 'e drain_error option) \<times> 'a outbox_scheme \<times> 'w" where
  "drain_tenants now locked limit deliver [] sofar db w = ((sofar, None), db, w)"
| "drain_tenants now locked limit deliver (t # ts) sofar db w =
     (if limit - sofar \<le> 0 then ((sofar, None), db, w)
      else case drainTenant now locked t (limit - sofar) deliver db w of
             (Inl e, db', w') \<Rightarrow> ((sofar, Some e), db', w')
           | (Inr n, db', w') \<Rightarrow> drain_tenants now locked limit deliver ts (sofar + n) db' w')"

definition drainable :: "'a outbox_scheme \<Rightarrow> uuid list" where
  "drainable db = map fst (filter (\<lambda>(t, status). status \<in> {''active'', ''suspended''}) (tenants db))"

definition DrainBatch ::
  "gotime \<Rightarrow> (event \<Rightarrow> bool) \<Rightarrow> int \<Rightarrow> ('e, 'w) deliver \<Rightarrow> 'a outbox_scheme \<Rightarrow> 'w
   \<Rightarrow> (int \<times> 'e drain_error option) \<times> 'a outbox_scheme \<times> 'w" where
  "DrainBatch now locked limit deliver db w =
     drain_tenants now locked (if limit \<le> 0 then 100 else limit) deliver (drainable db) 0 db w"


section \<open>The invariant of the table\<close>

definition outbox_inv :: "'a outbox_scheme \<Rightarrow> bool" where
  "outbox_inv db \<longleftrightarrow> distinct (map ev_key (events db)) \<and> (\<forall>e \<in> set (events db). ev_tenant e \<noteq> 0 \<and> ev_type e \<noteq> [])"

lemma EmitTx_ok:
  assumes "EmitTx now i ev db = Inr db'"
  obtains row where "db' = db\<lparr>events := events db @ [row]\<rparr>" "ev_key row \<notin> set (map ev_key (events db))"
    "ev_tenant row = ev_tenant ev" "ev_type row = ev_type ev" "ev_delivered row = None" "ev_created row = now"
    "ev_tenant ev \<noteq> 0" "ev_type ev \<noteq> []"
  using assms by (auto simp: EmitTx_def Let_def split: if_splits)

lemma EmitTx_inv [step_invs]: "outbox_inv db \<Longrightarrow> EmitTx now i ev db = Inr db' \<Longrightarrow> outbox_inv db'"
  by (erule EmitTx_ok) (auto simp: outbox_inv_def)

lemma mark_delivered_inv [step_invs]: "outbox_inv db \<Longrightarrow> outbox_inv (mark_delivered now t ids db)"
proof -
  have "map ev_key (events (mark_delivered now t ids db)) = map ev_key (events db)"
    by (simp add: mark_delivered_def map_update_rows ev_key_def)
  moreover assume "outbox_inv db"
  ultimately show ?thesis
    by (auto simp: outbox_inv_def mark_delivered_def set_update_rows)
qed

lemma drainTenant_inv:
  "outbox_inv db \<Longrightarrow> drainTenant now locked t limit d db w = (r, db', w') \<Longrightarrow> outbox_inv db'"
  by (auto simp: drainTenant_def Let_def step_invs split: if_splits prod.splits option.splits)

lemma set_select_batch: "set (select_batch locked limit t db) \<subseteq> {e \<in> set (pending t db). \<not> locked e}"
  by (auto simp: select_batch_def dest!: in_set_takeD)

lemma select_batch_in: "e \<in> set (select_batch locked limit t db) \<Longrightarrow>
    e \<in> set (events db) \<and> ev_delivered e = None \<and> ev_tenant e = t \<and> \<not> locked e"
  using set_select_batch[of locked limit t db] by (auto simp: pending_def)

text \<open>Marking the ids of a batch marks the rows of the batch and no other.\<close>

lemma mark_batch:
  assumes "outbox_inv db" and "set b \<subseteq> set (events db)" and "\<And>e. e \<in> set b \<Longrightarrow> ev_tenant e = t"
  shows "events (mark_delivered now t (map ev_id b) db) =
     map (\<lambda>e. if e \<in> set b then e\<lparr>ev_delivered := Some now\<rparr> else e) (events db)"
proof -
  have "e \<in> set b" if "e \<in> set (events db)" "ev_tenant e = t" "ev_id e \<in> ev_id ` set b" for e
  proof -
    from that(3) obtain e' where e': "e' \<in> set b" "ev_id e' = ev_id e" by auto
    with that(2) assms(3) have "ev_key e' = ev_key e" by (simp add: ev_key_def)
    moreover have "e' \<in> set (events db)" using e' assms(2) by auto
    moreover have "inj_on ev_key (set (events db))" using assms(1) by (simp add: outbox_inv_def distinct_map)
    ultimately have "e' = e" using that(1) by (metis inj_onD)
    with e' show ?thesis by simp
  qed
  then show ?thesis
    using assms(3) by (auto simp: mark_delivered_def update_rows_def)
qed


section \<open>What a drain hands out and what it marks\<close>

text \<open>\<open>recording d\<close> is the delivery function \<open>d\<close> with a log of the batches and their outcomes.\<close>

definition recording ::
  "('e, 'w) deliver \<Rightarrow> ('e, 'w \<times> (event list \<times> 'e option) list) deliver" where
  "recording d = (\<lambda>wl b. case d (fst wl) b of (r, w') \<Rightarrow> (r, (w', snd wl @ [(b, r)])))"

definition acked :: "(event list \<times> 'e option) list \<Rightarrow> event set" where
  "acked lg = (\<Union>(b, r) \<in> set lg. if r = None then set b else {})"

definition delivers :: "gotime \<Rightarrow> event set \<Rightarrow> event list \<Rightarrow> event list" where
  "delivers now A es = map (\<lambda>e. if e \<in> A then e\<lparr>ev_delivered := Some now\<rparr> else e) es"

definition undelivered :: "'a outbox_scheme \<Rightarrow> event set" where
  "undelivered db = {e \<in> set (events db). ev_delivered e = None}"

definition acked_count :: "(event list \<times> 'e option) list \<Rightarrow> int" where
  "acked_count lg = sum_list (map (\<lambda>(b, r). if r = None then int (length b) else 0) lg)"

lemma acked_append [simp]: "acked (l @ l') = acked l \<union> acked l'"
  by (auto simp: acked_def)

lemma acked_simps [simp]: "acked [] = {}" "acked [(b, None)] = set b" "acked [(b, Some e)] = {}"
  by (auto simp: acked_def)

lemma acked_count_simps [simp]:
  "acked_count [] = 0" "acked_count (l @ l') = acked_count l + acked_count l'"
  "acked_count [(b, None)] = int (length b)" "acked_count [(b, Some e)] = 0"
  by (auto simp: acked_count_def)

lemma delivers_empty [simp]: "delivers now {} es = es"
  by (simp add: delivers_def)

lemma mark_select:
  assumes "outbox_inv db"
  shows "mark_delivered now t (map ev_id (select_batch locked limit t db)) db =
    db\<lparr>events := delivers now (set (select_batch locked limit t db)) (events db)\<rparr>"
proof -
  let ?b = "select_batch locked limit t db"
  have ev: "events (mark_delivered now t (map ev_id ?b) db) = delivers now (set ?b) (events db)"
    unfolding delivers_def by (rule mark_batch[OF assms]) (use select_batch_in[of _ locked limit t db] in auto)
  have "mark_delivered now t (map ev_id ?b) db = db\<lparr>events := events (mark_delivered now t (map ev_id ?b) db)\<rparr>"
    by (simp add: mark_delivered_def)
  from trans[OF this arg_cong[OF ev, of "\<lambda>es. db\<lparr>events := es\<rparr>"]] show ?thesis .
qed

lemma delivers_twice:
  assumes "\<And>e. e \<in> B \<Longrightarrow> e \<in> set (delivers now A es) \<and> ev_delivered e = None"
  shows "delivers now B (delivers now A es) = delivers now (A \<union> B) es" and "B \<subseteq> set es - A"
proof -
  have "e\<lparr>ev_delivered := Some now\<rparr> \<notin> B" for e using assms by fastforce
  then show "delivers now B (delivers now A es) = delivers now (A \<union> B) es"
    by (auto simp: delivers_def)
  show "B \<subseteq> set es - A"
    using assms by (fastforce simp: delivers_def split: if_splits)
qed

text \<open>
  One step of a drain relates the store before and after: the batches of \<open>new\<close> are made of
  undelivered events of the tenants in \<open>T\<close>, and exactly the acknowledged ones are marked.
\<close>

definition drain_step ::
  "gotime \<Rightarrow> uuid set \<Rightarrow> (event list \<times> 'e option) list \<Rightarrow> int \<Rightarrow> 'a outbox_scheme \<Rightarrow> 'a outbox_scheme \<Rightarrow> bool" where
  "drain_step now T new n db db' \<longleftrightarrow>
     (\<forall>(b, r) \<in> set new. set b \<subseteq> {e \<in> undelivered db. ev_tenant e \<in> T})
     \<and> db' = db\<lparr>events := delivers now (acked new) (events db)\<rparr> \<and> n = acked_count new"

lemma drain_step_acked: "drain_step now T new n db db' \<Longrightarrow> acked new \<subseteq> {e \<in> undelivered db. ev_tenant e \<in> T}"
  by (fastforce simp: drain_step_def acked_def split: if_splits)

lemma undelivered_delivers: "A \<subseteq> undelivered db \<Longrightarrow> undelivered (db\<lparr>events := delivers now A (events db)\<rparr>) = undelivered db - A"
  by (auto simp: undelivered_def delivers_def split: if_splits)

lemma drain_step_trans:
  assumes "drain_step now T new n db db'" and "drain_step now T' new' n' db' db''"
  shows "drain_step now (T \<union> T') (new @ new') (n + n') db db''"
proof -
  have A: "acked new \<subseteq> undelivered db" using drain_step_acked[OF assms(1)] by auto
  have db': "db' = db\<lparr>events := delivers now (acked new) (events db)\<rparr>" using assms(1) by (simp add: drain_step_def)
  have und: "undelivered db' = undelivered db - acked new" unfolding db' by (rule undelivered_delivers[OF A])
  have B: "e \<in> set (delivers now (acked new) (events db)) \<and> ev_delivered e = None" if "e \<in> acked new'" for e
    using that drain_step_acked[OF assms(2)] by (auto simp: undelivered_def db')
  have "\<forall>(b, r) \<in> set (new @ new'). set b \<subseteq> {e \<in> undelivered db. ev_tenant e \<in> T \<union> T'}"
    using assms unfolding drain_step_def und by fastforce
  moreover have "db'' = db\<lparr>events := delivers now (acked new \<union> acked new') (events db)\<rparr>"
    using assms(2) delivers_twice(1)[OF B] unfolding drain_step_def by (simp add: db')
  ultimately show ?thesis using assms by (simp add: drain_step_def)
qed

lemma drainTenant_step:
  assumes "outbox_inv db"
    and "drainTenant now locked t limit (recording d) db (w, lg) = (r, db', (w', lg'))"
  obtains new where "lg' = lg @ new" "length new \<le> 1" "\<And>b x. (b, x) \<in> set new \<Longrightarrow> b = select_batch locked limit t db"
    "drain_step now {t} new (case r of Inr n \<Rightarrow> n | Inl e \<Rightarrow> 0) db db'"
    "\<And>n. r = Inr n \<Longrightarrow> list_all (\<lambda>(b, x). x = None) new"
proof -
  let ?b = "select_batch locked limit t db"
  have sub: "set ?b \<subseteq> {e \<in> undelivered db. ev_tenant e \<in> {t}}"
    using select_batch_in[of _ locked limit t db] by (auto simp: undelivered_def)
  show ?thesis
  proof (cases "t = 0 \<or> ?b = []")
    case True
    then show ?thesis
      using assms(2) that[of "[]"] by (auto simp: drainTenant_def drain_step_def Let_def split: if_splits)
  next
    case False
    obtain x w1 where d: "d w ?b = (x, w1)" by fastforce
    have "r = (case x of None \<Rightarrow> Inr (int (length ?b)) | Some e \<Rightarrow> Inl (DeliverFailed e))
        \<and> db' = (case x of None \<Rightarrow> mark_delivered now t (map ev_id ?b) db | Some e \<Rightarrow> db) \<and> lg' = lg @ [(?b, x)]"
      using assms(2) False d by (cases x) (auto simp: drainTenant_def Let_def recording_def)
    then show ?thesis
      using sub mark_select[OF assms(1), of now t locked limit] that[of "[(?b, x)]"]
      by (cases x) (simp_all add: drain_step_def)
  qed
qed

lemma drain_tenants_step:
  assumes "outbox_inv db"
    and "drain_tenants now locked limit (recording d) ts sofar db (w, lg) = ((n, err), db', (w', lg'))"
  shows "\<exists>new. lg' = lg @ new \<and> drain_step now (set ts) new (n - sofar) db db' \<and> outbox_inv db'
     \<and> (err = None \<longrightarrow> list_all (\<lambda>(b, x). x = None) new)"
  using assms
proof (induction ts arbitrary: sofar db w lg)
  case Nil
  then show ?case by (auto simp: drain_step_def)
next
  case (Cons t ts)
  show ?case
  proof (cases "limit - sofar \<le> 0")
    case True
    with Cons.prems show ?thesis by (auto simp: drain_step_def)
  next
    case False
    obtain r db1 w1 lg1 where
      d: "drainTenant now locked t (limit - sofar) (recording d) db (w, lg) = (r, db1, (w1, lg1))"
      by (metis prod.exhaust)
    from drainTenant_step[OF Cons.prems(1) d] obtain new where new: "lg1 = lg @ new"
      "drain_step now {t} new (case r of Inr n \<Rightarrow> n | Inl e \<Rightarrow> 0) db db1"
      "\<And>n. r = Inr n \<Longrightarrow> list_all (\<lambda>(b, x). x = None) new" by metis
    have inv: "outbox_inv db1" by (rule drainTenant_inv[OF Cons.prems(1) d])
    show ?thesis
    proof (cases r)
      case (Inl e)
      have "drain_step now {} [] 0 db1 db1" by (simp add: drain_step_def)
      from drain_step_trans[OF new(2) this] new(1) Inl d False Cons.prems(2) inv
      have "lg' = lg @ new \<and> drain_step now {t} new 0 db db' \<and> outbox_inv db' \<and> err = Some e \<and> n = sofar" by auto
      then show ?thesis by (intro exI[of _ new]) (auto simp: drain_step_def)
    next
      case (Inr k)
      with False d Cons.prems(2) have
        "drain_tenants now locked limit (recording d) ts (sofar + k) db1 (w1, lg1) = ((n, err), db', (w', lg'))"
        by simp
      from Cons.IH[OF inv this] obtain new' where new': "lg' = lg1 @ new'"
        "drain_step now (set ts) new' (n - (sofar + k)) db1 db'" "outbox_inv db'"
        "err = None \<longrightarrow> list_all (\<lambda>(b, x). x = None) new'" by blast
      from drain_step_trans[OF new(2) new'(2)] Inr have "drain_step now (set (t # ts)) (new @ new') (n - sofar) db db'"
        by simp
      then show ?thesis using new(1,3) new' Inr by (intro exI[of _ "new @ new'"]) auto
    qed
  qed
qed


section \<open>Progress\<close>

lemma pending_step: "drain_step now T new n db db' \<Longrightarrow> t \<notin> T \<Longrightarrow> pending t db' = pending t db"
proof -
  assume step: "drain_step now T new n db db'" and t: "t \<notin> T"
  from drain_step_acked[OF step] t have "e \<notin> acked new" if "ev_tenant e = t" for e using that by auto
  then have "filter (\<lambda>e. ev_delivered e = None \<and> ev_tenant e = t) (delivers now (acked new) es)
      = filter (\<lambda>e. ev_delivered e = None \<and> ev_tenant e = t) es" for es
    by (induction es) (auto simp: delivers_def)
  with step show ?thesis by (simp add: drain_step_def pending_def)
qed

lemma distinct_pending: "outbox_inv db \<Longrightarrow> distinct (pending t db)"
  by (auto simp: pending_def outbox_inv_def distinct_map)

lemma length_unlocked_batch:
  "length (select_batch (\<lambda>_. False) limit t db) = min (nat limit) (length (pending t db))"
  by (simp add: select_batch_def)

lemma filter_delivers:
  "filter (\<lambda>e. ev_delivered e = None \<and> ev_tenant e = t) (delivers now A es) =
   filter (\<lambda>e. e \<notin> A) (filter (\<lambda>e. ev_delivered e = None \<and> ev_tenant e = t) es)"
  by (induction es) (auto simp: delivers_def)

lemma pending_after_batch:
  assumes "outbox_inv db" and "b = select_batch locked limit t db"
  shows "length (pending t (db\<lparr>events := delivers now (set b) (events db)\<rparr>)) = length (pending t db) - length b"
proof -
  have sub: "set b \<subseteq> set (pending t db)" using set_select_batch assms(2) by blast
  have "distinct b" using distinct_pending[OF assms(1), of t] by (simp add: assms(2) select_batch_def)
  moreover have "pending t (db\<lparr>events := delivers now (set b) (events db)\<rparr>) = filter (\<lambda>e. e \<notin> set b) (pending t db)"
    by (simp add: pending_def filter_delivers)
  ultimately show ?thesis
    using length_filter_minus[OF distinct_pending[OF assms(1)] _ sub] by simp
qed

definition accepts :: "('e, 'w) deliver \<Rightarrow> bool" where
  "accepts d \<longleftrightarrow> (\<forall>w b. fst (d w b) = None)"

lemma drainTenant_progress:
  assumes "outbox_inv db" "accepts d" "t \<noteq> 0" "0 < limit"
    and "drainTenant now (\<lambda>_. False) t limit d db w = (r, db', w')"
  shows "r = Inr (min limit (int (length (pending t db))))"
    and "int (length (pending t db')) = int (length (pending t db)) - min limit (int (length (pending t db)))"
    and "\<And>t'. t' \<noteq> t \<Longrightarrow> pending t' db' = pending t' db" and "outbox_inv db'"
proof -
  let ?b = "select_batch (\<lambda>_. False) limit t db"
  have len: "int (length ?b) = min limit (int (length (pending t db)))"
    using assms(4) by (simp add: length_unlocked_batch)
  obtain w1 where d: "d w ?b = (None, w1)" using assms(2) by (metis accepts_def prod.collapse)
  have res: "r = Inr (int (length ?b)) \<and> db' = db\<lparr>events := delivers now (set ?b) (events db)\<rparr>"
    using assms(3,5) d mark_select[OF assms(1)] by (cases "?b = []") (auto simp: drainTenant_def Let_def)
  then show "r = Inr (min limit (int (length (pending t db))))" using len by simp
  show "int (length (pending t db')) = int (length (pending t db)) - min limit (int (length (pending t db)))"
    using res pending_after_batch[OF assms(1), of ?b "\<lambda>_. False" limit t now] len by auto
  have "drain_step now {t} [(?b, None)] (int (length ?b)) db db'"
    using res select_batch_in[of _ "\<lambda>_. False" limit t db] by (auto simp: drain_step_def undelivered_def)
  from pending_step[OF this] show "\<And>t'. t' \<noteq> t \<Longrightarrow> pending t' db' = pending t' db" by simp
  show "outbox_inv db'" by (rule drainTenant_inv[OF assms(1,5)])
qed

definition backlog :: "uuid list \<Rightarrow> 'a outbox_scheme \<Rightarrow> int" where
  "backlog ts db = sum_list (map (\<lambda>t. int (length (pending t db))) ts)"

lemma backlog_nonneg: "0 \<le> backlog ts db"
  unfolding backlog_def by (induction ts) auto

lemma backlog_cong: "(\<And>t. t \<in> set ts \<Longrightarrow> pending t db' = pending t db) \<Longrightarrow> backlog ts db' = backlog ts db"
  unfolding backlog_def by (metis (mono_tags, lifting) map_eq_conv)

lemma drain_tenants_progress:
  assumes "outbox_inv db" "accepts d" "0 \<notin> set ts" "distinct ts" "sofar \<le> limit"
    and "drain_tenants now (\<lambda>_. False) limit d ts sofar db w = ((n, err), db', w')"
  shows "err = None \<and> n - sofar = min (limit - sofar) (backlog ts db)
     \<and> backlog ts db' = backlog ts db - (n - sofar) \<and> (\<forall>t. t \<notin> set ts \<longrightarrow> pending t db' = pending t db)"
  using assms
proof (induction ts arbitrary: sofar db w)
  case Nil
  then show ?case by (simp add: backlog_def)
next
  case (Cons t ts)
  show ?case
  proof (cases "limit - sofar \<le> 0")
    case True
    with Cons.prems(5) have "limit = sofar" by simp
    with Cons.prems(6) backlog_nonneg[of "t # ts" db] show ?thesis by (simp add: min_def)
  next
    case False
    obtain r db1 w1 where
      d: "drainTenant now (\<lambda>_. False) t (limit - sofar) d db w = (r, db1, w1)" by (metis prod.exhaust)
    define k where "k = min (limit - sofar) (int (length (pending t db)))"
    have pos: "0 < limit - sofar" and t0: "t \<noteq> 0" using False Cons.prems(3) by auto
    note step = drainTenant_progress[OF Cons.prems(1,2) t0 pos d, folded k_def]
    have run: "drain_tenants now (\<lambda>_. False) limit d ts (sofar + k) db1 w1 = ((n, err), db', w')"
      using Cons.prems(6) False d step(1) by simp
    have le: "sofar + k \<le> limit" by (simp add: k_def)
    have IH: "err = None \<and> n - (sofar + k) = min (limit - (sofar + k)) (backlog ts db1)
      \<and> backlog ts db' = backlog ts db1 - (n - (sofar + k)) \<and> (\<forall>t. t \<notin> set ts \<longrightarrow> pending t db' = pending t db1)"
      using Cons.IH[OF step(4) Cons.prems(2) _ _ le run] Cons.prems(3,4) by simp
    have same: "backlog ts db1 = backlog ts db"
      by (rule backlog_cong, rule step(3)) (use Cons.prems(4) in auto)
    have "pending t db' = pending t db1" using IH Cons.prems(4) by simp
    then have b': "backlog (t # ts) db' = int (length (pending t db)) - k + backlog ts db'"
      using step(2) by (simp add: backlog_def)
    have b: "backlog (t # ts) db = int (length (pending t db)) + backlog ts db" by (simp add: backlog_def)
    have "n - sofar = min (limit - sofar) (backlog (t # ts) db)"
      using IH same backlog_nonneg[of ts db] pos unfolding b k_def by linarith
    moreover have "backlog (t # ts) db' = backlog (t # ts) db - (n - sofar)"
      using IH same b b' by linarith
    moreover have "pending x db' = pending x db" if "x \<notin> set (t # ts)" for x
      using IH step(3)[of x] that by simp
    ultimately show ?thesis using IH by blast
  qed
qed


section \<open>Properties\<close>

text \<open>Three events of tenant 1 and one of tenant 2, which is archived.\<close>

definition sample_event :: "uuid \<Rightarrow> uuid \<Rightarrow> gotime \<Rightarrow> event" where
  "sample_event t i c =
     \<lparr>ev_id = i, ev_tenant = t, ev_type = ''krecord.created'', ev_payload = empty_payload, ev_created = c, ev_delivered = None\<rparr>"

definition sample_outbox :: outbox where
  "sample_outbox =
     \<lparr>tenants = [(1, ''active''), (2, ''archived'')],
      events = [sample_event 1 10 30, sample_event 1 11 20, sample_event 2 12 5, sample_event 1 13 40]\<rparr>"

lemma sample_outbox_inv: "outbox_inv sample_outbox"
  by (simp add: outbox_inv_def sample_outbox_def sample_event_def ev_key_def)

text \<open>
  C7: At-least-once delivery. For every delivery function \<open>d\<close> and every behaviour of concurrent
  workers, \<open>DrainBatch\<close> marks as delivered exactly the events of the batches that \<open>d\<close> accepted; the
  batches consist of undelivered events of active or suspended tenants; a refused batch stays
  undelivered and ends the drain with the error; the count returned is the number of events
  accepted; nothing else of the store changes.
\<close>

theorem at_least_once:
  assumes "outbox_inv db"
    and "DrainBatch now locked limit (recording d) db (w, []) = ((n, err), db', (w', lg))"
  shows "(\<forall>(b, r) \<in> set lg. set b \<subseteq> {e \<in> undelivered db. ev_tenant e \<in> set (drainable db)})
     \<and> undelivered db' = undelivered db - acked lg
     \<and> db' = db\<lparr>events := delivers now (acked lg) (events db)\<rparr>
     \<and> n = acked_count lg \<and> outbox_inv db' \<and> (err = None \<longrightarrow> (\<forall>(b, r) \<in> set lg. r = None))"
proof -
  from drain_tenants_step[OF assms(1) assms(2)[unfolded DrainBatch_def]] have
    step: "drain_step now (set (drainable db)) lg n db db'" and inv: "outbox_inv db'"
    and ok: "err = None \<longrightarrow> list_all (\<lambda>(b, x). x = None) lg" by auto
  have "acked lg \<subseteq> undelivered db" using drain_step_acked[OF step] by auto
  with step inv ok undelivered_delivers[of "acked lg" db now] show ?thesis
    by (auto simp: drain_step_def list_all_iff)
qed

theorem at_least_once_witness:
  "\<exists>n err db' w' lg. DrainBatch 50 (\<lambda>_. False) 2 (recording (\<lambda>w b. (None :: unit option, w))) sample_outbox ((), [])
       = ((n, err), db', (w', lg)) \<and> outbox_inv db'
     \<and> lg = [([sample_event 1 11 20, sample_event 1 10 30], None)] \<and> undelivered db' = undelivered sample_outbox - acked lg"
proof -
  let ?run = "DrainBatch 50 (\<lambda>_. False) 2 (recording (\<lambda>w b. (None :: unit option, w))) sample_outbox ((), [])"
  obtain n err db' w' lg where r: "?run = ((n, err), db', (w', lg))" by (metis prod.exhaust)
  have "snd (snd (snd ?run)) = [([sample_event 1 11 20, sample_event 1 10 30], None)]" by code_simp
  then have "lg = [([sample_event 1 11 20, sample_event 1 10 30], None)]" unfolding r by simp
  with r at_least_once[OF sample_outbox_inv r] show ?thesis by blast
qed



text \<open>
  Oldest first. The batch for a tenant is sorted by creation time, and no undelivered event
  of the tenant that is left out of the batch (and not held by another worker) is older than
  an event in it.
\<close>

theorem batch_oldest_first:
  "sorted (map ev_created (select_batch locked limit t db))
   \<and> (\<forall>e \<in> set (select_batch locked limit t db). \<forall>x \<in> set (pending t db).
        \<not> locked x \<longrightarrow> x \<notin> set (select_batch locked limit t db) \<longrightarrow> ev_created e \<le> ev_created x)"
proof -
  let ?q = "sort_key ev_created (filter (\<lambda>e. \<not> locked e) (pending t db))"
  let ?b = "select_batch locked limit t db" and ?rest = "drop (nat limit) ?q"
  have split: "?q = ?b @ ?rest" by (simp add: select_batch_def)
  have "sorted (map ev_created ?q)" by simp
  then have "sorted (map ev_created (?b @ ?rest))" by (subst split[symmetric])
  then have srt: "sorted (map ev_created ?b)" "\<forall>e \<in> set ?b. \<forall>x \<in> set ?rest. ev_created e \<le> ev_created x"
    by (auto simp: sorted_append)
  have "x \<in> set ?rest" if "x \<in> set (pending t db)" "\<not> locked x" "x \<notin> set ?b" for x
  proof -
    have "x \<in> set ?q" using that by simp
    then have "x \<in> set (?b @ ?rest)" by (subst split[symmetric])
    with that(3) show ?thesis by auto
  qed
  with srt show ?thesis by blast
qed

theorem batch_oldest_first_witness:
  "sorted (map ev_created (select_batch (\<lambda>_. False) 2 1 sample_outbox))
   \<and> ev_created (sample_event 1 10 30) \<le> ev_created (sample_event 1 13 40)"
proof -
  have "sample_event 1 10 30 \<in> set (select_batch (\<lambda>_. False) 2 1 sample_outbox)
      \<and> sample_event 1 13 40 \<in> set (pending 1 sample_outbox)
      \<and> sample_event 1 13 40 \<notin> set (select_batch (\<lambda>_. False) 2 1 sample_outbox)" by code_simp
  with batch_oldest_first[of "\<lambda>_. False" 2 1 sample_outbox] show ?thesis by blast
qed

end
