(* ===== verification/Audit_Log.thy ===== *)
theory Audit_Log
  imports Outbox
begin

text \<open>
  The hash-chained audit log (internal/audit/store.go) and its verifier
  (services/api/audit.go, \<open>verifyAuditChain\<close>).

  \<open>audit_store\<close> extends the outbox by the \<open>audit_log\<close> table and the sequence of its ids. External
  code is a record of parameters: SHA-256, \<open>json.Marshal\<close> of a decoded value, the text of a time
  in RFC 3339 with nanoseconds, and what a JSON value becomes when PostgreSQL stores it as JSONB
  and hands it back. A timestamp column keeps microseconds.
\<close>

record audit_lib =
  sha256 :: "string \<Rightarrow> string"
  marshal :: "any \<Rightarrow> string"
  rfc3339nano :: "gotime \<Rightarrow> string"
  jsonb :: "raw_message \<Rightarrow> raw_message"

record audit_entry =
  ae_tenant :: uuid
  ae_actor :: "uuid option"
  ae_kind :: string
  ae_action :: string
  ae_ktype :: string
  ae_target :: "uuid option"
  ae_before :: raw_message
  ae_after :: raw_message
  ae_context :: raw_message

record audit_row =
  al_id :: int
  al_tenant :: uuid
  al_actor :: "uuid option"
  al_kind :: string
  al_action :: string
  al_ktype :: "string option"
  al_target :: "uuid option"
  al_before :: "raw_message option"
  al_after :: "raw_message option"
  al_context :: "raw_message option"
  al_created :: gotime
  al_prev :: "string option"
  al_hash :: "string option"

record audit_store = outbox +
  audit_log :: "audit_row list"
  audit_seq :: int

definition uuid_bytes :: "uuid \<Rightarrow> string" where
  "uuid_bytes u = map (\<lambda>i. char_of (unat (drop_bit (8 * (15 - i)) u))) [0..<16]"

definition normalizeJSON :: "raw_message \<Rightarrow> raw_message option" where
  "normalizeJSON v = (if valid_json v then Some v else None)"

definition decoded :: "raw_message \<Rightarrow> any option" where
  "decoded r = Option.bind (raw_json r) unmarshal_any"

definition jsonBytes :: "audit_lib \<Rightarrow> raw_message option \<Rightarrow> string" where
  "jsonBytes A v =
     (case v of
        None \<Rightarrow> []
      | Some r \<Rightarrow>
          (if raw_text r = [] then []
           else case decoded r of None \<Rightarrow> raw_text r | Some x \<Rightarrow> marshal A x))"

text \<open>The bytes that go into the hash, in the order in which they are written.\<close>

definition hash_input ::
  "audit_lib \<Rightarrow> string option \<Rightarrow> uuid \<Rightarrow> uuid option \<Rightarrow> string \<Rightarrow> raw_message option \<Rightarrow> raw_message option
   \<Rightarrow> raw_message option \<Rightarrow> gotime \<Rightarrow> string" where
  "hash_input A prev t target action before after ctx created =
     (case prev of None \<Rightarrow> replicate 32 (CHR 0x00) | Some p \<Rightarrow> p)
     @ uuid_bytes t @ (case target of None \<Rightarrow> [] | Some i \<Rightarrow> uuid_bytes i) @ action
     @ jsonBytes A before @ jsonBytes A after @ jsonBytes A ctx @ rfc3339nano A created"

definition computeRowHash ::
  "audit_lib \<Rightarrow> string option \<Rightarrow> uuid \<Rightarrow> uuid option \<Rightarrow> string \<Rightarrow> raw_message option \<Rightarrow> raw_message option
   \<Rightarrow> raw_message option \<Rightarrow> gotime \<Rightarrow> string" where
  "computeRowHash A prev t target action before after ctx created =
     sha256 A (hash_input A prev t target action before after ctx created)"

definition tenant_rows :: "uuid \<Rightarrow> 'a audit_store_scheme \<Rightarrow> audit_row list" where
  "tenant_rows t db = sort_key al_id (filter (\<lambda>r. al_tenant r = t) (audit_log db))"

definition fetchPrevHash :: "uuid \<Rightarrow> 'a audit_store_scheme \<Rightarrow> string option" where
  "fetchPrevHash t db = (let rows = tenant_rows t db in if rows = [] then None else al_hash (last rows))"

definition Truncate_us :: "gotime \<Rightarrow> gotime" where
  "Truncate_us t = t div 1000 * 1000"

text \<open>A value as a TIMESTAMPTZ column returns it.\<close>

definition pg_time :: "gotime \<Rightarrow> gotime" where
  "pg_time t = t div 1000 * 1000"

definition nullIfEmpty :: "string \<Rightarrow> string option" where
  "nullIfEmpty s = (if s = [] then None else Some s)"

definition LogTx :: "audit_lib \<Rightarrow> gotime \<Rightarrow> audit_entry \<Rightarrow> 'a audit_store_scheme \<Rightarrow> kernel_error + 'a audit_store_scheme" where
  "LogTx A now entry db =
     (if ae_tenant entry = 0 then Inl TenantRequired
      else if ae_action entry = [] then Inl ActionRequired
      else let kind = (if ae_kind entry = [] then ''system'' else ae_kind entry);
               before = normalizeJSON (ae_before entry);
               after = normalizeJSON (ae_after entry);
               c = normalizeJSON (ae_context entry);
               prev = fetchPrevHash (ae_tenant entry) db;
               created = Truncate_us now;
               rowHash = computeRowHash A prev (ae_tenant entry) (ae_target entry) (ae_action entry) before after c created
           in if kind \<notin> {''user'', ''agent'', ''system''} then Inl CheckViolation
              else Inr (db\<lparr>audit_log := audit_log db @
                     [\<lparr>al_id = audit_seq db, al_tenant = ae_tenant entry, al_actor = ae_actor entry, al_kind = kind,
                       al_action = ae_action entry, al_ktype = nullIfEmpty (ae_ktype entry), al_target = ae_target entry,
                       al_before = map_option (jsonb A) before, al_after = map_option (jsonb A) after,
                       al_context = map_option (jsonb A) c, al_created = pg_time created,
                       al_prev = prev, al_hash = Some rowHash\<rparr>],
                     audit_seq := audit_seq db + 1\<rparr>))"

definition Log :: "audit_lib \<Rightarrow> gotime \<Rightarrow> audit_entry \<Rightarrow> 'a audit_store_scheme \<Rightarrow> (kernel_error + unit) \<times> 'a audit_store_scheme" where
  "Log A now entry db =
     (if ae_tenant entry = 0 then (Inl TenantRequired, db)
      else WithTenantTx TenantRequired (ae_tenant entry) (\<lambda>db. rbind (LogTx A now entry db) (\<lambda>db'. Inr ((), db'))) db)"


section \<open>The verifier\<close>

record auditVerifyResult =
  OK :: bool
  Checked :: int
  BreakAt :: "int option"
  Reason :: string

definition bytes_Equal :: "string option \<Rightarrow> string option \<Rightarrow> bool" where
  "bytes_Equal a b \<longleftrightarrow> (case a of None \<Rightarrow> [] | Some x \<Rightarrow> x) = (case b of None \<Rightarrow> [] | Some x \<Rightarrow> x)"

definition row_want :: "audit_lib \<Rightarrow> audit_row \<Rightarrow> string" where
  "row_want A r =
     computeRowHash A (al_prev r) (al_tenant r) (al_target r) (al_action r) (al_before r) (al_after r) (al_context r) (al_created r)"

fun verify_rows :: "audit_lib \<Rightarrow> string option \<Rightarrow> int \<Rightarrow> audit_row list \<Rightarrow> auditVerifyResult" where
  "verify_rows A lastHash n [] = \<lparr>OK = True, Checked = n, BreakAt = None, Reason = []\<rparr>"
| "verify_rows A lastHash n (r # rs) =
     (if al_hash r \<noteq> None \<and> \<not> bytes_Equal (al_prev r) lastHash
      then \<lparr>OK = False, Checked = n + 1, BreakAt = Some (al_id r), Reason = ''prev_hash mismatch''\<rparr>
      else if al_hash r \<noteq> None \<and> \<not> bytes_Equal (Some (row_want A r)) (al_hash r)
      then \<lparr>OK = False, Checked = n + 1, BreakAt = Some (al_id r), Reason = ''row_hash mismatch''\<rparr>
      else verify_rows A (al_hash r) (n + 1) rs)"

definition verifyAuditChain :: "audit_lib \<Rightarrow> uuid \<Rightarrow> 'a audit_store_scheme \<Rightarrow> kernel_error + auditVerifyResult" where
  "verifyAuditChain A t db =
     fst (WithTenantTx TenantRequired t (\<lambda>db. Inr (verify_rows A None 0 (tenant_rows t db), db)) db)"


section \<open>Chains\<close>

definition link_ok :: "audit_lib \<Rightarrow> string option \<Rightarrow> audit_row \<Rightarrow> bool" where
  "link_ok A lastHash r \<longleftrightarrow>
     al_hash r = None \<or> (bytes_Equal (al_prev r) lastHash \<and> bytes_Equal (Some (row_want A r)) (al_hash r))"

fun chained :: "audit_lib \<Rightarrow> string option \<Rightarrow> audit_row list \<Rightarrow> bool" where
  "chained A lastHash [] = True"
| "chained A lastHash (r # rs) \<longleftrightarrow> link_ok A lastHash r \<and> chained A (al_hash r) rs"

definition tip :: "string option \<Rightarrow> audit_row list \<Rightarrow> string option" where
  "tip lastHash rs = (if rs = [] then lastHash else al_hash (last rs))"

lemma verify_OK: "OK (verify_rows A h n rs) \<longleftrightarrow> chained A h rs"
  by (induction rs arbitrary: h n) (auto simp: link_ok_def)

lemma verify_Checked: "OK (verify_rows A h n rs) \<Longrightarrow> Checked (verify_rows A h n rs) = n + int (length rs)"
  by (induction rs arbitrary: h n) (auto split: if_splits)

lemma tip_simps [simp]: "tip h [] = h" "tip h (r # rs) = tip (al_hash r) rs" "tip h (rs @ [r]) = al_hash r"
  by (auto simp: tip_def)

lemma chained_append: "chained A h (xs @ ys) \<longleftrightarrow> chained A h xs \<and> chained A (tip h xs) ys"
  by (induction xs arbitrary: h) auto

lemma bytes_Equal_refl [simp]: "bytes_Equal x x"
  by (simp add: bytes_Equal_def)

definition audit_inv :: "audit_lib \<Rightarrow> 'a audit_store_scheme \<Rightarrow> bool" where
  "audit_inv A db \<longleftrightarrow>
     sorted_wrt (<) (map al_id (audit_log db)) \<and> (\<forall>r \<in> set (audit_log db). al_id r < audit_seq db)
     \<and> (\<forall>t. chained A None (tenant_rows t db))"

lemma tenant_rows_sorted:
  assumes "sorted_wrt (<) (map al_id (audit_log db))"
  shows "tenant_rows t db = filter (\<lambda>r. al_tenant r = t) (audit_log db)"
proof -
  have "sorted (map al_id (audit_log db))"
    using assms strict_sorted_iff by blast
  then show ?thesis
    unfolding tenant_rows_def by (intro sort_key_id_if_sorted sorted_filter)
qed

text \<open>
  Documented behaviour of the external code: a decodable JSON value read back from a JSONB
  column is decodable and marshals to the same bytes.
\<close>

definition jsonb_law :: "audit_lib \<Rightarrow> bool" where
  "jsonb_law A \<longleftrightarrow>
     (\<forall>r x. raw_text r \<noteq> [] \<longrightarrow> decoded r = Some x \<longrightarrow>
        raw_text (jsonb A r) \<noteq> [] \<and> (\<exists>y. decoded (jsonb A r) = Some y \<and> marshal A y = marshal A x))"

definition entry_decodable :: "audit_entry \<Rightarrow> bool" where
  "entry_decodable e \<longleftrightarrow>
     (\<forall>r \<in> {ae_before e, ae_after e, ae_context e}. valid_json r \<longrightarrow> decoded r \<noteq> None)"

lemma jsonBytes_stored:
  assumes "jsonb_law A" and "valid_json r \<longrightarrow> decoded r \<noteq> None"
  shows "jsonBytes A (map_option (jsonb A) (normalizeJSON r)) = jsonBytes A (normalizeJSON r)"
proof (cases "valid_json r")
  case True
  then obtain x where x: "decoded r = Some x" "raw_text r \<noteq> []" using assms(2) by (auto simp: valid_json_def)
  with assms(1) obtain y where "raw_text (jsonb A r) \<noteq> []" "decoded (jsonb A r) = Some y" "marshal A y = marshal A x"
    unfolding jsonb_law_def by blast
  with x True show ?thesis by (simp add: jsonBytes_def normalizeJSON_def)
qed (simp add: jsonBytes_def normalizeJSON_def)

lemma pg_time_truncated [simp]: "pg_time (Truncate_us t) = Truncate_us t"
  by (simp add: pg_time_def Truncate_us_def)

lemma LogTx_ok:
  assumes "LogTx A now e db = Inr db'" and "jsonb_law A" and "entry_decodable e"
  obtains r where "db' = db\<lparr>audit_log := audit_log db @ [r], audit_seq := audit_seq db + 1\<rparr>"
    "al_id r = audit_seq db" "al_tenant r = ae_tenant e" "al_prev r = fetchPrevHash (ae_tenant e) db"
    "al_hash r = Some (row_want A r)" "al_action r = ae_action e" "al_actor r = ae_actor e" "al_target r = ae_target e"
proof -
  have b: "jsonBytes A (map_option (jsonb A) (normalizeJSON x)) = jsonBytes A (normalizeJSON x)"
    if "x \<in> {ae_before e, ae_after e, ae_context e}" for x
    using jsonBytes_stored[OF assms(2), of x] assms(3) that unfolding entry_decodable_def by blast
  show ?thesis
    using assms(1) that b[of "ae_before e"] b[of "ae_after e"] b[of "ae_context e"]
    by (auto simp: LogTx_def Let_def row_want_def computeRowHash_def hash_input_def split: if_splits)
qed

lemma LogTx_inv [step_invs]:
  assumes "audit_inv A db" "LogTx A now e db = Inr db'" "jsonb_law A" "entry_decodable e"
  shows "audit_inv A db'"
proof -
  obtain r where r: "db' = db\<lparr>audit_log := audit_log db @ [r], audit_seq := audit_seq db + 1\<rparr>"
    "al_id r = audit_seq db" "al_tenant r = ae_tenant e" "al_prev r = fetchPrevHash (ae_tenant e) db"
    "al_hash r = Some (row_want A r)"
    using LogTx_ok[OF assms(2-4)] by metis
  have srt: "sorted_wrt (<) (map al_id (audit_log db'))" "\<forall>x \<in> set (audit_log db'). al_id x < audit_seq db'"
    using assms(1) r(1,2) by (force simp: audit_inv_def sorted_wrt_append)+
  have "chained A None (tenant_rows t db')" for t
  proof -
    have old: "chained A None (tenant_rows t db)" and s: "sorted_wrt (<) (map al_id (audit_log db))"
      using assms(1) by (auto simp: audit_inv_def)
    have new: "tenant_rows t db' = tenant_rows t db @ (if al_tenant r = t then [r] else [])"
      unfolding tenant_rows_sorted[OF srt(1)] tenant_rows_sorted[OF s] by (simp add: r(1))
    have "al_prev r = tip None (tenant_rows t db)" if "al_tenant r = t"
      using r(3,4) that by (simp add: fetchPrevHash_def tip_def Let_def)
    with old new r(5) show ?thesis by (simp add: chained_append link_ok_def)
  qed
  with srt show ?thesis by (simp add: audit_inv_def)
qed

lemma audit_inv_verifies:
  assumes "audit_inv A db" "t \<noteq> 0"
  shows "\<exists>res. verifyAuditChain A t db = Inr res \<and> OK res \<and> Checked res = int (length (tenant_rows t db))"
proof -
  have "OK (verify_rows A None 0 (tenant_rows t db))" using assms(1) by (simp add: verify_OK audit_inv_def)
  with verify_Checked[OF this] assms(2) show ?thesis by (simp add: verifyAuditChain_def tx_fst)
qed

text \<open>The bytes a stored row commits to.\<close>

definition row_input :: "audit_lib \<Rightarrow> audit_row \<Rightarrow> string" where
  "row_input A r =
     hash_input A (al_prev r) (al_tenant r) (al_target r) (al_action r) (al_before r) (al_after r) (al_context r) (al_created r)"

lemma row_want_input: "row_want A r = sha256 A (row_input A r)"
  by (simp add: row_want_def row_input_def computeRowHash_def)

definition digests :: "audit_row list \<Rightarrow> bool" where
  "digests rs \<longleftrightarrow> (\<forall>r \<in> set rs. (\<exists>h. al_hash r = Some h \<and> length h = 32) \<and> (\<forall>p. al_prev r = Some p \<longrightarrow> length p = 32))"

lemma digests_code [code]:
  "digests rs = list_all (\<lambda>r. (case al_hash r of None \<Rightarrow> False | Some h \<Rightarrow> length h = 32)
     \<and> (case al_prev r of None \<Rightarrow> True | Some p \<Rightarrow> length p = 32)) rs"
  unfolding digests_def list_all_iff
proof (rule ball_cong[OF refl])
  fix r :: audit_row
  show "((\<exists>h. al_hash r = Some h \<and> length h = 32) \<and> (\<forall>p. al_prev r = Some p \<longrightarrow> length p = 32)) =
    ((case al_hash r of None \<Rightarrow> False | Some h \<Rightarrow> length h = 32)
     \<and> (case al_prev r of None \<Rightarrow> True | Some p \<Rightarrow> length p = 32))"
    by (cases "al_hash r"; cases "al_prev r") auto
qed

definition zero_seed :: string where
  "zero_seed = replicate 32 (CHR 0x00)"

definition prev_bytes :: "audit_row \<Rightarrow> string" where
  "prev_bytes r = (case al_prev r of None \<Rightarrow> zero_seed | Some p \<Rightarrow> p)"

lemma row_input_prev:
  assumes "digests [r]"
  shows "take 32 (row_input A r) = prev_bytes r"
  using assms by (auto simp: row_input_def hash_input_def prev_bytes_def zero_seed_def digests_def split: option.splits)

lemma chained_snoc_hash:
  assumes "chained A None (xs @ [r])" "digests (xs @ [r])"
  shows "al_hash r = Some (sha256 A (row_input A r))"
    and "prev_bytes r = (case tip None xs of None \<Rightarrow> zero_seed | Some h \<Rightarrow> h)" and "chained A None xs"
    and "tip None xs = None \<longleftrightarrow> xs = []"
proof -
  have link: "link_ok A (tip None xs) r" and "chained A None xs"
    using assms(1) by (simp_all add: chained_append)
  then show "chained A None xs" by simp
  obtain h where h: "al_hash r = Some h" "length h = 32" using assms(2) by (auto simp: digests_def)
  with link show "al_hash r = Some (sha256 A (row_input A r))"
    by (simp add: link_ok_def bytes_Equal_def row_want_input)
  have dig: "\<exists>g. tip None xs = Some g \<and> length g = 32" if "xs \<noteq> []"
    using that assms(2) by (auto simp: tip_def digests_def)
  then show "tip None xs = None \<longleftrightarrow> xs = []" by (auto simp: tip_def)
  have eq: "bytes_Equal (al_prev r) (tip None xs)" using link h by (simp add: link_ok_def)
  have len: "length p = 32" if "al_prev r = Some p" for p using that assms(2) by (simp add: digests_def)
  show "prev_bytes r = (case tip None xs of None \<Rightarrow> zero_seed | Some h \<Rightarrow> h)"
    using eq len dig by (cases "al_prev r"; cases "tip None xs"; cases "xs = []")
      (force simp: bytes_Equal_def prev_bytes_def)+
qed

text \<open>A collision of SHA-256, or an input that it maps to 32 zero bytes.\<close>

definition sha_broken :: "audit_lib \<Rightarrow> bool" where
  "sha_broken A \<longleftrightarrow> (\<exists>p q. p \<noteq> q \<and> sha256 A p = sha256 A q) \<or> (\<exists>p. sha256 A p = zero_seed)"

lemma chain_binds:
  assumes "\<not> sha_broken A"
  shows "chained A None xs \<Longrightarrow> chained A None ys \<Longrightarrow> digests xs \<Longrightarrow> digests ys \<Longrightarrow> tip None xs = tip None ys
    \<Longrightarrow> map (row_input A) xs = map (row_input A) ys"
proof (induction xs arbitrary: ys rule: rev_induct)
  case Nil
  then have "ys = []" using chained_snoc_hash(4)[of A "butlast ys" "last ys"]
    by (cases ys rule: rev_cases) (auto simp: digests_def)
  then show ?case by simp
next
  case (snoc r xs)
  note R = chained_snoc_hash[OF snoc.prems(1,3)]
  have "ys \<noteq> []" using snoc.prems(5) R(1) by auto
  then obtain ys' s where ys: "ys = ys' @ [s]" by (metis rev_exhaust)
  note S = chained_snoc_hash[OF snoc.prems(2,4)[unfolded ys]]
  have dig: "digests [r]" "digests [s]" "digests xs" "digests ys'"
    using snoc.prems(3,4) by (auto simp: digests_def ys)
  have "sha256 A (row_input A r) = sha256 A (row_input A s)"
    using snoc.prems(5) R(1) S(1) by (simp add: ys)
  then have inp: "row_input A r = row_input A s" using assms by (auto simp: sha_broken_def)
  have prev: "prev_bytes r = prev_bytes s"
    using row_input_prev[OF dig(1)] row_input_prev[OF dig(2)] inp by metis
  have nz: "h \<noteq> zero_seed" if "tip None zs = Some h" "chained A None zs" "digests zs" for zs h
  proof -
    from that(1) obtain zs' z where z: "zs = zs' @ [z]" by (metis option.distinct(1) rev_exhaust tip_simps(1))
    from chained_snoc_hash(1)[OF that(2,3)[unfolded z]] that(1) z assms show ?thesis
      by (auto simp: sha_broken_def)
  qed
  have "tip None xs = tip None ys'"
    using prev R(2) S(2) nz[of xs, OF _ R(3) dig(3)] nz[of ys', OF _ S(3) dig(4)]
    by (cases "tip None xs"; cases "tip None ys'") auto
  from snoc.IH[OF R(3) S(3) dig(3,4) this] inp ys show ?case by simp
qed


text \<open>A store driven by a sequence of log calls, each either recorded or refused.\<close>

definition log_step :: "audit_lib \<Rightarrow> gotime \<times> audit_entry \<Rightarrow> 'a audit_store_scheme \<Rightarrow> 'a audit_store_scheme" where
  "log_step A x db = snd (Log A (fst x) (snd x) db)"

lemma log_step_inv:
  assumes "audit_inv A db" "jsonb_law A" "entry_decodable (snd x)"
  shows "audit_inv A (log_step A x db)"
  using assms LogTx_inv[OF assms(1) _ assms(2,3)]
  by (auto simp: log_step_def Log_def WithTenantTx_def rbind_eq_Inr split: sum.splits)

lemma log_steps_inv:
  "audit_inv A db \<Longrightarrow> jsonb_law A \<Longrightarrow> (\<And>x. x \<in> set xs \<Longrightarrow> entry_decodable (snd x)) \<Longrightarrow>
   audit_inv A (fold (log_step A) xs db)"
  by (induction xs arbitrary: db) (auto simp: log_step_inv)


section \<open>Examples\<close>

text \<open>A toy instance of the external functions: the "hash" is the last 32 bytes, reversed.\<close>

definition toy_audit :: audit_lib where
  "toy_audit =
     \<lparr>sha256 = (\<lambda>s. take 32 (rev s @ replicate 32 (CHR ''x''))), marshal = (\<lambda>x. if x = ANil then ''null'' else ''v''),
      rfc3339nano = (\<lambda>_. ''T''), jsonb = id\<rparr>"

lemma jsonb_law_toy: "jsonb_law toy_audit"
  by (simp add: jsonb_law_def toy_audit_def)

definition no_json :: raw_message where
  "no_json = \<lparr>raw_text = [], raw_json = None\<rparr>"

definition sample_entry :: "uuid \<Rightarrow> string \<Rightarrow> audit_entry" where
  "sample_entry t act =
     \<lparr>ae_tenant = t, ae_actor = Some 7, ae_kind = ''user'', ae_action = act, ae_ktype = ''crm.deal'', ae_target = Some 9,
      ae_before = no_json, ae_after = empty_payload, ae_context = no_json\<rparr>"

definition empty_store :: audit_store where
  "empty_store = \<lparr>tenants = [], events = [], audit_log = [], audit_seq = 1\<rparr>"

lemma audit_inv_empty: "audit_inv A empty_store"
  by (simp add: audit_inv_def empty_store_def tenant_rows_def)

lemma sample_decodable: "entry_decodable (sample_entry t act)"
  by (simp add: entry_decodable_def sample_entry_def decoded_def no_json_def empty_payload_def valid_json_def)

text \<open>Two calls for tenant 1 with one for tenant 2 in between.\<close>

definition sample_log :: audit_store where
  "sample_log = fold (log_step toy_audit)
     [(5001, sample_entry 1 ''create''), (6001, sample_entry 2 ''create''), (7001, sample_entry 1 ''update'')] empty_store"


section \<open>Properties\<close>





text \<open>
  What the chain does not protect. Verification still passes after the actor, the kind of
  actor and the record type of any row are rewritten, and after the JSON of \<open>before\<close> is moved
  to an empty \<open>after\<close> (the fields are hashed without separators).
\<close>

theorem unprotected_fields:
  assumes "OK (verify_rows A h n (xs @ r # ys))" and "al_after r = None"
  shows "OK (verify_rows A h n (xs @ r\<lparr>al_actor := a, al_kind := k, al_ktype := kt\<rparr> # ys))
    \<and> OK (verify_rows A h n (xs @ r\<lparr>al_before := None, al_after := al_before r\<rparr> # ys))"
proof -
  have "link_ok A g (r\<lparr>al_actor := a, al_kind := k, al_ktype := kt\<rparr>) = link_ok A g r"
    "link_ok A g (r\<lparr>al_before := None, al_after := al_before r\<rparr>) = link_ok A g r" for g
    using assms(2) by (simp_all add: link_ok_def row_want_def computeRowHash_def hash_input_def jsonBytes_def)
  with assms(1) show ?thesis by (simp add: verify_OK chained_append)
qed

theorem unprotected_fields_witness:
  "OK (verify_rows toy_audit None 0
     [\<lparr>al_id = 1, al_tenant = 1, al_actor = None, al_kind = ''system'', al_action = ''create'', al_ktype = None, al_target = None,
       al_before = None, al_after = Some empty_payload, al_context = None, al_created = 0, al_prev = None,
       al_hash = Some (sha256 toy_audit (zero_seed @ uuid_bytes 1 @ ''create'' @ ''v'' @ ''T''))\<rparr>])"
proof -
  let ?r = "\<lparr>al_id = 1, al_tenant = 1, al_actor = None, al_kind = ''system'', al_action = ''create'', al_ktype = None, al_target = None,
       al_before = Some empty_payload, al_after = None, al_context = None, al_created = 0, al_prev = None,
       al_hash = Some (sha256 toy_audit (zero_seed @ uuid_bytes 1 @ ''create'' @ ''v'' @ ''T''))\<rparr>"
  have "OK (verify_rows toy_audit None 0 ([] @ ?r # []))" by code_simp
  from unprotected_fields[OF this] show ?thesis by simp
qed

text \<open>
  Deleting rows from the end of a log, and replacing them by any rows without hash,
  is not detected: rows with a NULL hash are skipped.
\<close>

theorem tail_not_protected:
  assumes "OK (verify_rows A h n (xs @ ys))" and "\<forall>z \<in> set zs. al_hash z = None"
  shows "OK (verify_rows A h n xs) \<and> OK (verify_rows A h n (xs @ zs))"
proof -
  have "chained A g zs" for g
    using assms(2) by (induction zs arbitrary: g) (auto simp: link_ok_def)
  with assms(1) show ?thesis by (simp add: verify_OK chained_append)
qed

theorem tail_not_protected_witness:
  "OK (verify_rows toy_audit None 0 (take 1 (tenant_rows 1 sample_log)))
   \<and> OK (verify_rows toy_audit None 0 (take 1 (tenant_rows 1 sample_log) @
       map (\<lambda>r. r\<lparr>al_action := ''forged'', al_hash := None\<rparr>) (drop 1 (tenant_rows 1 sample_log))))"
proof (rule tail_not_protected)
  show "OK (verify_rows toy_audit None 0 (take 1 (tenant_rows 1 sample_log) @ drop 1 (tenant_rows 1 sample_log)))"
    by code_simp
qed simp

end
