(* ===== verification/Kernel_Tx.thy ===== *)
theory Kernel_Tx
  imports Audit_Log
begin

text \<open>
  What the transactional services have in common (\<open>Engine\<close> in internal/workflow/engine.go, \<open>PGStore\<close> in
  internal/ledger/store.go): a publisher and an auditor that may be absent, and transactions that end
  with one outbox event and one audit entry. \<open>kernel_inv\<close> is the invariant of outbox and audit log, which
  these two blocks keep.
\<close>

record engine =
  eng_lib :: golib
  eng_audit :: audit_lib
  eng_json :: "json \<Rightarrow> string"
  eng_events :: bool
  eng_auditor :: bool

section \<open>Emitting and logging\<close>

text \<open>The two blocks every operation ends with: emit unless there is no publisher, log unless there is no auditor.\<close>

definition uuid_json :: "engine \<Rightarrow> uuid \<Rightarrow> json" where
  "uuid_json E u = JStr (uuid_string (eng_lib E) u)"

definition emit_event ::
  "engine \<Rightarrow> gotime \<Rightarrow> uuid \<Rightarrow> uuid \<Rightarrow> string \<Rightarrow> json \<Rightarrow> 'a outbox_scheme \<Rightarrow> kernel_error + 'a outbox_scheme" where
  "emit_event E now eid t ty payload db =
     (if eng_events E
      then EmitTx now eid \<lparr>ev_id = 0, ev_tenant = t, ev_type = ty, ev_payload = raw_of (eng_json E) payload,
                           ev_created = 0, ev_delivered = None\<rparr> db
      else Inr db)"

definition log_entry ::
  "engine \<Rightarrow> gotime \<Rightarrow> uuid \<Rightarrow> uuid \<Rightarrow> string \<Rightarrow> string \<Rightarrow> uuid option \<Rightarrow> json option \<Rightarrow> json
   \<Rightarrow> 'a audit_store_scheme \<Rightarrow> kernel_error + 'a audit_store_scheme" where
  "log_entry E now t actor action ktype target before after db =
     (if eng_auditor E
      then LogTx (eng_audit E) now
             \<lparr>ae_tenant = t, ae_actor = Some actor, ae_kind = ''user'', ae_action = action, ae_ktype = ktype,
              ae_target = target,
              ae_before = (case before of None \<Rightarrow> no_json | Some j \<Rightarrow> raw_of (eng_json E) j),
              ae_after = raw_of (eng_json E) after, ae_context = no_json\<rparr> db
      else Inr db)"

definition emit_and_log ::
  "engine \<Rightarrow> gotime \<Rightarrow> uuid \<Rightarrow> uuid \<Rightarrow> string \<Rightarrow> json \<Rightarrow> uuid \<Rightarrow> string \<Rightarrow> string \<Rightarrow> uuid option \<Rightarrow> json option \<Rightarrow> json
   \<Rightarrow> 'a audit_store_scheme \<Rightarrow> kernel_error + 'a audit_store_scheme" where
  "emit_and_log E now eid t ty payload actor action ktype target before after db =
     rbind (emit_event E now eid t ty payload db)
       (log_entry E now t actor action ktype target before after)"


section \<open>Effects of the shared blocks\<close>

lemma map_sum_InrE: "map_sum f g x = Inr y \<Longrightarrow> (\<And>z. x = Inr z \<Longrightarrow> y = g z \<Longrightarrow> P) \<Longrightarrow> P"
  by (cases x) auto

lemma decoded_raw_of [simp]: "decoded (raw_of jt j) = unmarshal_any j"
  by (simp add: decoded_def raw_of_def)

lemma emit_event_ok:
  assumes "emit_event E now eid t ty j db = Inr db'"
  obtains evs where "db' = db\<lparr>events := events db @ evs\<rparr>"
    "eng_events E \<Longrightarrow> \<exists>ev. evs = [ev] \<and> ev_tenant ev = t \<and> ev_type ev = ty \<and> ev_delivered ev = None"
    "\<not> eng_events E \<Longrightarrow> evs = []"
  using assms by (cases "eng_events E") (auto simp: emit_event_def elim!: EmitTx_ok)

lemma emit_event_inv: "outbox_inv db \<Longrightarrow> emit_event E now eid t ty j db = Inr db' \<Longrightarrow> outbox_inv db'"
  by (auto simp: emit_event_def step_invs split: if_splits)

lemma LogTx_shape:
  assumes "LogTx A now e db = Inr db'"
  obtains r where "db' = db\<lparr>audit_log := audit_log db @ [r], audit_seq := audit_seq db + 1\<rparr>"
    "al_tenant r = ae_tenant e" "al_action r = ae_action e" "al_actor r = ae_actor e" "al_target r = ae_target e"
  using assms by (auto simp: LogTx_def Let_def split: if_splits)

lemma log_entry_ok:
  assumes "log_entry E now t actor act kt target b a db = Inr db'"
  obtains rows n where "db' = db\<lparr>audit_log := audit_log db @ rows, audit_seq := n\<rparr>"
    "eng_auditor E \<Longrightarrow> \<exists>r. rows = [r] \<and> al_tenant r = t \<and> al_action r = act \<and> al_actor r = Some actor \<and> al_target r = target"
    "\<not> eng_auditor E \<Longrightarrow> rows = []"
proof (cases "eng_auditor E")
  case True
  with assms show ?thesis using that by (auto simp: log_entry_def elim!: LogTx_shape)
next
  case False
  with assms that[of "audit_seq db" "[]"] show ?thesis by (simp add: log_entry_def)
qed

lemma log_entry_inv:
  assumes "audit_inv (eng_audit E) db" "log_entry E now t actor act kt target b a db = Inr db'"
    and "jsonb_law (eng_audit E)" "unmarshal_any a \<noteq> None" "\<And>j. b = Some j \<Longrightarrow> unmarshal_any j \<noteq> None"
  shows "audit_inv (eng_audit E) db'"
proof (cases "eng_auditor E")
  case True
  have "entry_decodable \<lparr>ae_tenant = t, ae_actor = Some actor, ae_kind = ''user'', ae_action = act, ae_ktype = kt,
      ae_target = target, ae_before = (case b of None \<Rightarrow> no_json | Some j \<Rightarrow> raw_of (eng_json E) j),
      ae_after = raw_of (eng_json E) a, ae_context = no_json\<rparr>"
    using assms(4,5) by (auto simp: entry_decodable_def valid_json_def no_json_def split: option.splits)
  with True assms(1-3) show ?thesis by (auto simp: log_entry_def intro: LogTx_inv)
qed (use assms in \<open>simp add: log_entry_def\<close>)

text \<open>Both blocks: only the outbox and the audit log change.\<close>

definition kernel_only :: "'a audit_store_scheme \<Rightarrow> 'a audit_store_scheme \<Rightarrow> bool" where
  "kernel_only db db' \<longleftrightarrow>
     db' = db\<lparr>events := events db', audit_log := audit_log db', audit_seq := audit_seq db'\<rparr>"

definition kernel_inv :: "engine \<Rightarrow> 'a audit_store_scheme \<Rightarrow> bool" where
  "kernel_inv E db \<longleftrightarrow> outbox_inv db \<and> audit_inv (eng_audit E) db"

lemma emit_and_log_ok:
  assumes "emit_and_log E now eid t ty payload actor act kt target b a db = Inr db'"
  shows "kernel_only db db'"
    and "eng_events E \<Longrightarrow> \<exists>ev. events db' = events db @ [ev] \<and> ev_tenant ev = t \<and> ev_type ev = ty"
    and "eng_auditor E \<Longrightarrow> \<exists>r. audit_log db' = audit_log db @ [r] \<and> al_tenant r = t \<and> al_action r = act
           \<and> al_actor r = Some actor \<and> al_target r = target"
  using assms
  by (auto simp: emit_and_log_def rbind_eq_Inr kernel_only_def elim!: emit_event_ok log_entry_ok)

lemma audit_inv_events: "audit_inv A (db\<lparr>events := evs\<rparr>) = audit_inv A db"
  by (simp add: audit_inv_def tenant_rows_def)

lemma outbox_inv_audit: "outbox_inv (db\<lparr>audit_log := rows, audit_seq := n\<rparr>) = outbox_inv db"
  by (simp add: outbox_inv_def)

lemma emit_and_log_inv:
  assumes "kernel_inv E db" "jsonb_law (eng_audit E)"
    and "emit_and_log E now eid t ty payload actor act kt target b a db = Inr db'"
    and "unmarshal_any a \<noteq> None" "\<And>j. b = Some j \<Longrightarrow> unmarshal_any j \<noteq> None"
  shows "kernel_inv E db'"
proof -
  obtain db1 where e: "emit_event E now eid t ty payload db = Inr db1"
    and l: "log_entry E now t actor act kt target b a db1 = Inr db'"
    using assms(3) by (auto simp: emit_and_log_def rbind_eq_Inr)
  have "outbox_inv db1" "audit_inv (eng_audit E) db1"
    using assms(1) emit_event_inv[OF _ e] emit_event_ok[OF e] audit_inv_events
    unfolding kernel_inv_def by (blast, metis)
  with log_entry_inv[OF _ l assms(2,4,5)] log_entry_ok[OF l] outbox_inv_audit show ?thesis
    unfolding kernel_inv_def by metis
qed


text \<open>An instance for closed examples.\<close>

definition toy_engine :: engine where
  "toy_engine =
     \<lparr>eng_lib = bin_lib, eng_audit = toy_audit, eng_json = (\<lambda>_. ''j''), eng_events = True, eng_auditor = True\<rparr>"

end
