(* ===== verification/Workflow.thy ===== *)
theory Workflow
  imports Kernel_Tx
begin

text \<open>
  The workflow engine (internal/workflow/types.go, internal/workflow/engine.go): versioned
  definitions of state machines, one run per record, transitions that append to the run's
  history, emit an event and write an audit entry in one transaction.

  \<open>workflow_db\<close> extends the store by the tables \<open>workflows\<close> and \<open>workflow_runs\<close>. Columns that hold
  JSON (definition, history) hold the decoded structure. \<open>engine\<close> carries the dependencies: the
  external functions, and whether a publisher and an auditor are configured. Each operation
  takes one clock reading and its fresh UUIDs as arguments.
\<close>

record wf_transition =
  tr_From :: "string list"
  tr_To :: string
  tr_Action :: string
  tr_Post :: "string list"

record definition_def =
  InitialState :: string
  States :: "string list"
  Transitions :: "wf_transition list"

record workflowDef =
  wd_tenant :: uuid
  wd_Name :: string
  wd_Version :: int
  wd_Definition :: definition_def

record historyEntry =
  FromState :: string
  ToState :: string
  he_Action :: string
  he_Actor :: uuid
  he_Timestamp :: gotime

record workflowRun =
  run_ID :: uuid
  run_tenant :: uuid
  run_Workflow :: string
  run_Record :: uuid
  run_State :: string
  run_History :: "historyEntry list"
  run_Created :: gotime
  run_Updated :: gotime

record workflow_db = audit_store +
  workflows :: "workflowDef list"
  workflow_runs :: "workflowRun list"

datatype wf_error =
    WfArgsRequired
  | WfTxTenant
  | ErrWorkflowNotFound
  | ErrRunNotFound
  | ErrDuplicateRun
  | ErrInvalidDefinition
  | ErrTransitionFromWrong
  | ErrActorNotFound
  | WfKernel kernel_error


section \<open>Definitions\<close>

definition containsState :: "string list \<Rightarrow> string \<Rightarrow> bool" where
  "containsState states s = list_ex (\<lambda>x. x = s) states"

definition validTransition :: "string list \<Rightarrow> wf_transition \<Rightarrow> bool" where
  "validTransition states tr \<longleftrightarrow>
     tr_Action tr \<noteq> [] \<and> tr_To tr \<noteq> [] \<and> tr_From tr \<noteq> [] \<and> tr_To tr \<in> set states
     \<and> list_all (\<lambda>f. f \<in> set states) (tr_From tr)"

definition validateDefinition :: "definition_def \<Rightarrow> wf_error + unit" where
  "validateDefinition def =
     (if InitialState def = [] then Inl ErrInvalidDefinition
      else if States def = [] then Inl ErrInvalidDefinition
      else if \<not> distinct (States def) then Inl ErrInvalidDefinition
      else if InitialState def \<notin> set (States def) then Inl ErrInvalidDefinition
      else if \<not> list_all (validTransition (States def)) (Transitions def) then Inl ErrInvalidDefinition
      else Inr ())"

definition wd_key :: "workflowDef \<Rightarrow> uuid \<times> string \<times> int" where
  "wd_key d = (wd_tenant d, wd_Name d, wd_Version d)"

definition upsert_workflow :: "workflowDef \<Rightarrow> workflowDef list \<Rightarrow> workflowDef list" where
  "upsert_workflow d rows =
     (if wd_key d \<in> set (map wd_key rows)
      then update_rows (\<lambda>r. wd_key r = wd_key d) (\<lambda>r. r\<lparr>wd_Definition := wd_Definition d\<rparr>) rows
      else rows @ [d])"

definition RegisterWorkflow :: "workflowDef \<Rightarrow> 'a workflow_db_scheme \<Rightarrow> (wf_error + unit) \<times> 'a workflow_db_scheme" where
  "RegisterWorkflow def db =
     (if wd_tenant def = 0 then (Inl WfArgsRequired, db)
      else if wd_Name def = [] then (Inl WfArgsRequired, db)
      else let def = (if wd_Version def \<le> 0 then def\<lparr>wd_Version := 1\<rparr> else def)
           in case validateDefinition (wd_Definition def) of
                Inl e \<Rightarrow> (Inl e, db)
              | Inr _ \<Rightarrow>
                  WithTenantTx WfTxTenant (wd_tenant def)
                    (\<lambda>db. Inr ((), db\<lparr>workflows := upsert_workflow def (workflows db)\<rparr>)) db)"

text \<open>The row with the highest version (\<open>ORDER BY version DESC LIMIT 1\<close>).\<close>

definition loadDefinitionTx :: "uuid \<Rightarrow> string \<Rightarrow> 'a workflow_db_scheme \<Rightarrow> wf_error + workflowDef" where
  "loadDefinitionTx t name db =
     (let rows = sort_key wd_Version (filter (\<lambda>d. wd_tenant d = t \<and> wd_Name d = name) (workflows db))
      in if rows = [] then Inl ErrWorkflowNotFound else Inr (last rows))"

definition GetDefinition :: "uuid \<Rightarrow> string \<Rightarrow> 'a workflow_db_scheme \<Rightarrow> wf_error + workflowDef" where
  "GetDefinition t name db =
     (if t = 0 \<or> name = [] then Inl WfArgsRequired
      else fst (WithTenantTx WfTxTenant t (\<lambda>db. map_sum id (\<lambda>d. (d, db)) (loadDefinitionTx t name db)) db))"

definition resolveTransition :: "workflowDef \<Rightarrow> string \<Rightarrow> string \<Rightarrow> wf_error + string \<times> string list" where
  "resolveTransition def fromState action =
     (case List.find (\<lambda>tr. tr_Action tr = action \<and> fromState \<in> set (tr_From tr)) (Transitions (wd_Definition def)) of
        None \<Rightarrow> Inl ErrTransitionFromWrong
      | Some tr \<Rightarrow> Inr (tr_To tr, tr_Post tr))"


section \<open>Runs\<close>

definition run_key :: "workflowRun \<Rightarrow> uuid \<times> uuid" where
  "run_key r = (run_tenant r, run_ID r)"

definition loadRunTx :: "uuid \<Rightarrow> uuid \<Rightarrow> 'a workflow_db_scheme \<Rightarrow> wf_error + workflowRun" where
  "loadRunTx t runID db =
     (case List.find (\<lambda>r. run_tenant r = t \<and> run_ID r = runID) (workflow_runs db) of
        None \<Rightarrow> Inl ErrRunNotFound
      | Some r \<Rightarrow> Inr r)"

text \<open>A run as its row holds it.\<close>

definition pg_run :: "workflowRun \<Rightarrow> workflowRun" where
  "pg_run run = run\<lparr>run_Created := pg_time (run_Created run), run_Updated := pg_time (run_Updated run)\<rparr>"

definition started_payload :: "engine \<Rightarrow> workflowRun \<Rightarrow> uuid \<Rightarrow> json" where
  "started_payload E run actor =
     JObj [(''run_id'', uuid_json E (run_ID run)), (''workflow'', JStr (run_Workflow run)),
           (''record_id'', uuid_json E (run_Record run)), (''state'', JStr (run_State run)),
           (''actor_id'', uuid_json E actor)]"

definition started_after :: "workflowRun \<Rightarrow> json" where
  "started_after run = JObj [(''state'', JStr (run_State run)), (''workflow'', JStr (run_Workflow run))]"

text \<open>The transaction of \<open>StartRun\<close>: refuse a second run, insert, emit, log.\<close>

definition start_tx ::
  "engine \<Rightarrow> gotime \<Rightarrow> uuid \<Rightarrow> workflowRun \<Rightarrow> uuid \<Rightarrow> 'a workflow_db_scheme \<Rightarrow> wf_error + unit \<times> 'a workflow_db_scheme" where
  "start_tx E now eid run actor db =
     (if \<exists>r \<in> set (workflow_runs db). run_tenant r = run_tenant run \<and> run_Record r = run_Record run
      then Inl ErrDuplicateRun
      else if run_key run \<in> set (map run_key (workflow_runs db)) then Inl (WfKernel UniqueViolation)
      else map_sum WfKernel (\<lambda>db'. ((), db'))
                (emit_and_log E now eid (run_tenant run) ''workflow.started''
                   (started_payload E run actor) actor ''workflow.started'' (run_Workflow run) (Some (run_Record run))
                   None (started_after run)
                   (db\<lparr>workflow_runs := workflow_runs db @ [pg_run run]\<rparr>)))"

definition StartRun ::
  "engine \<Rightarrow> gotime \<Rightarrow> uuid \<Rightarrow> uuid \<Rightarrow> uuid \<Rightarrow> string \<Rightarrow> uuid \<Rightarrow> string \<Rightarrow> uuid \<Rightarrow> 'a workflow_db_scheme
   \<Rightarrow> (wf_error + workflowRun) \<times> 'a workflow_db_scheme" where
  "StartRun E now runID eid t name record initialState actor db =
     (if t = 0 \<or> name = [] \<or> record = 0 then (Inl WfArgsRequired, db)
      else case GetDefinition t name db of
             Inl e \<Rightarrow> (Inl e, db)
           | Inr def \<Rightarrow>
               (let state = (if initialState = [] then InitialState (wd_Definition def) else initialState)
                in if \<not> containsState (States (wd_Definition def)) state then (Inl ErrInvalidDefinition, db)
                   else let run = \<lparr>run_ID = runID, run_tenant = t, run_Workflow = name, run_Record = record,
                                   run_State = state, run_History = [], run_Created = now, run_Updated = now\<rparr>
                        in case WithTenantTx WfTxTenant t (start_tx E now eid run actor) db of
                             (Inl e, db') \<Rightarrow> (Inl e, db')
                           | (Inr _, db') \<Rightarrow> (Inr run, db')))"

definition post_json :: "string list \<Rightarrow> json" where
  "post_json ps = (if ps = [] then JNull else JArr (map JStr ps))"

definition transitioned_payload :: "engine \<Rightarrow> workflowRun \<Rightarrow> string \<Rightarrow> string \<Rightarrow> string list \<Rightarrow> uuid \<Rightarrow> json" where
  "transitioned_payload E run target action post actor =
     JObj [(''run_id'', uuid_json E (run_ID run)), (''workflow'', JStr (run_Workflow run)),
           (''record_id'', uuid_json E (run_Record run)), (''from_state'', JStr (run_State run)),
           (''to_state'', JStr target), (''action'', JStr action), (''actor_id'', uuid_json E actor),
           (''post'', post_json post)]"

definition transitioned_before :: "workflowRun \<Rightarrow> json" where
  "transitioned_before run = JObj [(''state'', JStr (run_State run))]"

definition transitioned_after :: "string \<Rightarrow> string \<Rightarrow> string list \<Rightarrow> json" where
  "transitioned_after target action post =
     JObj [(''state'', JStr target), (''action'', JStr action), (''post'', post_json post)]"

text \<open>The effect of a transition on a loaded run.\<close>

definition advance :: "gotime \<Rightarrow> string \<Rightarrow> uuid \<Rightarrow> string \<Rightarrow> workflowRun \<Rightarrow> workflowRun" where
  "advance now action actor target run =
     run\<lparr>run_History := run_History run @
           [\<lparr>FromState = run_State run, ToState = target, he_Action = action, he_Actor = actor, he_Timestamp = now\<rparr>],
         run_State := target, run_Updated := now\<rparr>"

definition update_run :: "workflowRun \<Rightarrow> 'a workflow_db_scheme \<Rightarrow> 'a workflow_db_scheme" where
  "update_run run db =
     db\<lparr>workflow_runs := update_rows (\<lambda>r. run_tenant r = run_tenant run \<and> run_ID r = run_ID run)
          (\<lambda>r. r\<lparr>run_State := run_State run, run_History := run_History run, run_Updated := pg_time (run_Updated run)\<rparr>)
          (workflow_runs db)\<rparr>"

text \<open>
  The transaction of \<open>Transition\<close>: it reads the run and its definition without locking the row,
  resolves the action, and then writes.
\<close>

definition transition_read ::
  "uuid \<Rightarrow> uuid \<Rightarrow> string \<Rightarrow> 'a workflow_db_scheme \<Rightarrow> wf_error + workflowRun \<times> string \<times> string list" where
  "transition_read t runID action db =
     rbind (loadRunTx t runID db) (\<lambda>run.
     rbind (loadDefinitionTx t (run_Workflow run) db) (\<lambda>def.
     rbind (resolveTransition def (run_State run) action) (\<lambda>(target, post). Inr (run, target, post))))"

definition transition_write ::
  "engine \<Rightarrow> gotime \<Rightarrow> uuid \<Rightarrow> uuid \<Rightarrow> string \<Rightarrow> uuid \<Rightarrow> workflowRun \<times> string \<times> string list \<Rightarrow> 'a workflow_db_scheme
   \<Rightarrow> wf_error + workflowRun \<times> 'a workflow_db_scheme" where
  "transition_write E now eid t action actor x db =
     (case x of (run, target, post) \<Rightarrow>
       let run' = advance now action actor target run
       in map_sum WfKernel (\<lambda>db'. (run', db'))
            (emit_and_log E now eid t ''workflow.transitioned''
               (transitioned_payload E run target action post actor)
               actor ''workflow.transitioned'' (run_Workflow run) (Some (run_Record run))
               (Some (transitioned_before run)) (transitioned_after target action post)
               (update_run run' db)))"

definition transition_tx ::
  "engine \<Rightarrow> gotime \<Rightarrow> uuid \<Rightarrow> uuid \<Rightarrow> uuid \<Rightarrow> string \<Rightarrow> uuid \<Rightarrow> 'a workflow_db_scheme
   \<Rightarrow> wf_error + workflowRun \<times> 'a workflow_db_scheme" where
  "transition_tx E now eid t runID action actor db =
     rbind (transition_read t runID action db) (\<lambda>x. transition_write E now eid t action actor x db)"

definition Transition ::
  "engine \<Rightarrow> gotime \<Rightarrow> uuid \<Rightarrow> uuid \<Rightarrow> uuid \<Rightarrow> string \<Rightarrow> uuid \<Rightarrow> 'a workflow_db_scheme
   \<Rightarrow> (wf_error + workflowRun) \<times> 'a workflow_db_scheme" where
  "Transition E now eid t runID action actor db =
     (if t = 0 \<or> runID = 0 then (Inl WfArgsRequired, db)
      else if actor = 0 then (Inl ErrActorNotFound, db)
      else WithTenantTx WfTxTenant t (transition_tx E now eid t runID action actor) db)"

definition GetRun :: "uuid \<Rightarrow> uuid \<Rightarrow> 'a workflow_db_scheme \<Rightarrow> wf_error + workflowRun" where
  "GetRun t runID db =
     fst (WithTenantTx WfTxTenant t (\<lambda>db. map_sum id (\<lambda>r. (r, db)) (loadRunTx t runID db)) db)"

definition GetRunByRecord :: "uuid \<Rightarrow> uuid \<Rightarrow> 'a workflow_db_scheme \<Rightarrow> wf_error + workflowRun" where
  "GetRunByRecord t record db =
     fst (WithTenantTx WfTxTenant t
       (\<lambda>db. let rows = sort_key run_Updated (filter (\<lambda>r. run_tenant r = t \<and> run_Record r = record) (workflow_runs db))
             in if rows = [] then Inl ErrRunNotFound else Inr (last rows, db)) db)"


lemma kernel_only_selectors:
  fixes db db' :: "'a workflow_db_scheme"
  assumes "kernel_only db db'"
  shows "workflows db' = workflows db" "workflow_runs db' = workflow_runs db"
proof -
  have "workflows db' = workflows (db\<lparr>events := events db', audit_log := audit_log db', audit_seq := audit_seq db'\<rparr>)"
    "workflow_runs db' = workflow_runs (db\<lparr>events := events db', audit_log := audit_log db', audit_seq := audit_seq db'\<rparr>)"
    using assms unfolding kernel_only_def by metis+
  then show "workflows db' = workflows db" "workflow_runs db' = workflow_runs db" by simp_all
qed


section \<open>The invariant\<close>

text \<open>The entries of a history lead from one state to another.\<close>

fun connected :: "string \<Rightarrow> historyEntry list \<Rightarrow> string \<Rightarrow> bool" where
  "connected s [] s' \<longleftrightarrow> s = s'"
| "connected s (h # hs) s' \<longleftrightarrow> FromState h = s \<and> connected (ToState h) hs s'"

lemma connected_snoc: "connected s (hs @ [h]) s' \<longleftrightarrow> connected s hs (FromState h) \<and> s' = ToState h"
  by (induction hs arbitrary: s) auto

text \<open>\<open>D\<close> is the set of all definitions that were ever registered, with tenant and name.\<close>

type_synonym registered = "(uuid \<times> string \<times> definition_def) set"

definition legal_entry :: "registered \<Rightarrow> uuid \<Rightarrow> string \<Rightarrow> historyEntry \<Rightarrow> bool" where
  "legal_entry D t w h \<longleftrightarrow>
     (\<exists>def tr. (t, w, def) \<in> D \<and> tr \<in> set (Transitions def) \<and> tr_Action tr = he_Action h
        \<and> FromState h \<in> set (tr_From tr) \<and> ToState h = tr_To tr)"

definition run_ok :: "registered \<Rightarrow> workflowRun \<Rightarrow> bool" where
  "run_ok D r \<longleftrightarrow>
     (\<exists>def s0. (run_tenant r, run_Workflow r, def) \<in> D \<and> s0 \<in> set (States def)
        \<and> connected s0 (run_History r) (run_State r))
     \<and> (\<forall>h \<in> set (run_History r). legal_entry D (run_tenant r) (run_Workflow r) h)"

definition run_record :: "workflowRun \<Rightarrow> uuid \<times> uuid" where
  "run_record r = (run_tenant r, run_Record r)"

definition wd_item :: "workflowDef \<Rightarrow> uuid \<times> string \<times> definition_def" where
  "wd_item d = (wd_tenant d, wd_Name d, wd_Definition d)"

definition wf_inv :: "'a workflow_db_scheme \<times> registered \<Rightarrow> bool" where
  "wf_inv s \<longleftrightarrow>
     (let (db, D) = s in
       distinct (map wd_key (workflows db)) \<and> wd_item ` set (workflows db) \<subseteq> D
       \<and> (\<forall>(t, n, def) \<in> D. validateDefinition def = Inr ())
       \<and> distinct (map run_key (workflow_runs db)) \<and> distinct (map run_record (workflow_runs db))
       \<and> (\<forall>r \<in> set (workflow_runs db). run_ok D r))"

lemma wf_invI:
  "distinct (map wd_key (workflows db)) \<Longrightarrow> wd_item ` set (workflows db) \<subseteq> D \<Longrightarrow>
   (\<And>t n def. (t, n, def) \<in> D \<Longrightarrow> validateDefinition def = Inr ()) \<Longrightarrow>
   distinct (map run_key (workflow_runs db)) \<Longrightarrow> distinct (map run_record (workflow_runs db)) \<Longrightarrow>
   (\<And>r. r \<in> set (workflow_runs db) \<Longrightarrow> run_ok D r) \<Longrightarrow> wf_inv (db, D)"
  by (auto simp: wf_inv_def)

lemma wf_invD:
  assumes "wf_inv (db, D)"
  shows "distinct (map wd_key (workflows db))" "wd_item ` set (workflows db) \<subseteq> D"
    "(t, n, def) \<in> D \<Longrightarrow> validateDefinition def = Inr ()"
    "distinct (map run_key (workflow_runs db))" "distinct (map run_record (workflow_runs db))"
    "r \<in> set (workflow_runs db) \<Longrightarrow> run_ok D r"
  using assms by (auto simp: wf_inv_def)

lemma run_ok_mono: "run_ok D r \<Longrightarrow> D \<subseteq> D' \<Longrightarrow> run_ok D' r"
  unfolding run_ok_def legal_entry_def by blast

lemma upsert_keys:
  assumes "distinct (map wd_key rows)"
  shows "distinct (map wd_key (upsert_workflow d rows))"
    and "wd_item ` set (upsert_workflow d rows) \<subseteq> insert (wd_item d) (wd_item ` set rows)"
proof -
  have "map wd_key (update_rows (\<lambda>r. wd_key r = wd_key d) (\<lambda>r. r\<lparr>wd_Definition := wd_Definition d\<rparr>) rows) = map wd_key rows"
    by (rule map_update_rows) (simp add: wd_key_def)
  with assms show "distinct (map wd_key (upsert_workflow d rows))"
    by (simp add: upsert_workflow_def)
  show "wd_item ` set (upsert_workflow d rows) \<subseteq> insert (wd_item d) (wd_item ` set rows)"
    by (auto simp: upsert_workflow_def set_update_rows wd_item_def wd_key_def)
qed

lemma register_ok:
  assumes "RegisterWorkflow def db = (Inr (), db')"
  obtains d where "wd_item d = wd_item def" "validateDefinition (wd_Definition def) = Inr ()"
    "db' = db\<lparr>workflows := upsert_workflow d (workflows db)\<rparr>"
proof -
  let ?d = "if wd_Version def \<le> 0 then def\<lparr>wd_Version := 1\<rparr> else def"
  have "wd_item ?d = wd_item def" "wd_Definition ?d = wd_Definition def" by (simp_all add: wd_item_def)
  then show ?thesis
    using assms that[of ?d]
    by (auto simp: RegisterWorkflow_def Let_def tx_commit split: if_splits sum.splits)
qed

lemma RegisterWorkflow_inv:
  assumes "wf_inv (db, D)" "RegisterWorkflow def db = (Inr (), db')"
  shows "wf_inv (db', insert (wd_item def) D)"
proof -
  note W = wf_invD[OF assms(1)]
  obtain d where d: "wd_item d = wd_item def" "validateDefinition (wd_Definition def) = Inr ()"
    "db' = db\<lparr>workflows := upsert_workflow d (workflows db)\<rparr>"
    using register_ok[OF assms(2)] by metis
  show ?thesis
  proof (rule wf_invI)
    show "distinct (map wd_key (workflows db'))" using upsert_keys(1)[OF W(1)] by (simp add: d(3))
    show "wd_item ` set (workflows db') \<subseteq> insert (wd_item def) D"
      using upsert_keys(2)[OF W(1), of d] W(2) by (auto simp: d(1,3))
    show "\<And>t n de. (t, n, de) \<in> insert (wd_item def) D \<Longrightarrow> validateDefinition de = Inr ()"
      using W(3) d(2) by (auto simp: wd_item_def)
    show "\<And>r. r \<in> set (workflow_runs db') \<Longrightarrow> run_ok (insert (wd_item def) D) r"
      using run_ok_mono[OF W(6), of _ "insert (wd_item def) D"] by (auto simp: d(3))
  qed (use W d(3) in auto)
qed

lemma loadDefinition_in:
  assumes "loadDefinitionTx t n db = Inr def"
  shows "def \<in> set (workflows db)" "wd_tenant def = t" "wd_Name def = n"
proof -
  let ?rows = "sort_key wd_Version (filter (\<lambda>d. wd_tenant d = t \<and> wd_Name d = n) (workflows db))"
  have "?rows \<noteq> []" "def = last ?rows" using assms by (auto simp: loadDefinitionTx_def Let_def split: if_splits)
  then have "def \<in> set ?rows" by (metis last_in_set)
  then show "def \<in> set (workflows db)" "wd_tenant def = t" "wd_Name def = n" by auto
qed

lemma GetDefinition_load: "GetDefinition t n db = Inr def \<Longrightarrow> loadDefinitionTx t n db = Inr def"
  by (cases "loadDefinitionTx t n db") (auto simp: GetDefinition_def tx_fst split: if_splits)

lemma pg_run_fields [simp]:
  "run_ID (pg_run r) = run_ID r" "run_tenant (pg_run r) = run_tenant r" "run_Workflow (pg_run r) = run_Workflow r"
  "run_Record (pg_run r) = run_Record r" "run_State (pg_run r) = run_State r" "run_History (pg_run r) = run_History r"
  "run_key (pg_run r) = run_key r" "run_record (pg_run r) = run_record r"
  by (simp_all add: pg_run_def run_key_def run_record_def)

lemma start_tx_ok:
  assumes "start_tx E now eid run actor db = Inr (u, db')"
  shows "run_key run \<notin> run_key ` set (workflow_runs db)"
    and "run_record run \<notin> run_record ` set (workflow_runs db)"
    and "kernel_only (db\<lparr>workflow_runs := workflow_runs db @ [pg_run run]\<rparr>) db'"
    and "jsonb_law (eng_audit E) \<Longrightarrow> kernel_inv E db \<Longrightarrow> kernel_inv E db'"
    and "eng_events E \<Longrightarrow> \<exists>ev. events db' = events db @ [ev] \<and> ev_tenant ev = run_tenant run \<and> ev_type ev = ''workflow.started''"
    and "eng_auditor E \<Longrightarrow> \<exists>r. audit_log db' = audit_log db @ [r] \<and> al_tenant r = run_tenant run
           \<and> al_action r = ''workflow.started'' \<and> al_actor r = Some actor \<and> al_target r = Some (run_Record run)"
proof -
  from assms have 1: "\<not> (\<exists>r \<in> set (workflow_runs db). run_tenant r = run_tenant run \<and> run_Record r = run_Record run)"
    and 2: "run_key run \<notin> set (map run_key (workflow_runs db))"
    by (auto simp: start_tx_def split: if_splits)
  show "run_key run \<notin> run_key ` set (workflow_runs db)" using 2 by simp
  show "run_record run \<notin> run_record ` set (workflow_runs db)" using 1 by (auto simp: run_record_def)
  let ?db = "db\<lparr>workflow_runs := workflow_runs db @ [pg_run run]\<rparr>"
  have "start_tx E now eid run actor db = map_sum WfKernel (\<lambda>db'. ((), db'))
      (emit_and_log E now eid (run_tenant run) ''workflow.started'' (started_payload E run actor) actor
        ''workflow.started'' (run_Workflow run) (Some (run_Record run)) None (started_after run) ?db)"
    unfolding start_tx_def using 1 2 by (auto simp del: map_sum.simps)
  with assms have el: "emit_and_log E now eid (run_tenant run) ''workflow.started'' (started_payload E run actor) actor
        ''workflow.started'' (run_Workflow run) (Some (run_Record run)) None (started_after run) ?db = Inr db'"
    by (auto elim!: map_sum_InrE)
  have j: "unmarshal_any (started_after run) \<noteq> None" by (simp add: started_after_def)
  show "kernel_only ?db db'" using emit_and_log_ok(1)[OF el] .
  have "kernel_inv E ?db = kernel_inv E db"
    by (simp add: kernel_inv_def outbox_inv_def audit_inv_def tenant_rows_def)
  then show "jsonb_law (eng_audit E) \<Longrightarrow> kernel_inv E db \<Longrightarrow> kernel_inv E db'"
    using emit_and_log_inv[OF _ _ el j] by simp
  show "eng_events E \<Longrightarrow> \<exists>ev. events db' = events db @ [ev] \<and> ev_tenant ev = run_tenant run \<and> ev_type ev = ''workflow.started''"
    using emit_and_log_ok(2)[OF el] by simp
  show "eng_auditor E \<Longrightarrow> \<exists>r. audit_log db' = audit_log db @ [r] \<and> al_tenant r = run_tenant run
           \<and> al_action r = ''workflow.started'' \<and> al_actor r = Some actor \<and> al_target r = Some (run_Record run)"
    using emit_and_log_ok(3)[OF el] by simp
qed

lemma StartRun_ok:
  assumes "StartRun E now rid eid t n record ini actor db = (Inr run, db')"
  obtains def where "loadDefinitionTx t n db = Inr def" "run_State run \<in> set (States (wd_Definition def))"
    "run_ID run = rid" "run_tenant run = t" "run_Workflow run = n" "run_Record run = record" "run_History run = []"
    "start_tx E now eid run actor db = Inr ((), db')"
    "run_State run = (if ini = [] then InitialState (wd_Definition def) else ini)"
proof -
  from assms obtain def where def: "GetDefinition t n db = Inr def"
    by (auto simp: StartRun_def split: if_splits sum.splits)
  with assms that[OF GetDefinition_load[OF def]] show ?thesis
    by (auto simp: StartRun_def Let_def tx_commit containsState_def list_ex_iff split: if_splits sum.splits prod.splits)
qed

lemma StartRun_error: "StartRun E now rid eid t n record ini actor db = (Inl e, db') \<Longrightarrow> db' = db"
  by (auto simp: StartRun_def Let_def dest: tx_error_rolls_back split: if_splits sum.splits prod.splits)

lemma run_keys_snoc:
  assumes "distinct (map f xs)" "f y \<notin> f ` set xs"
  shows "distinct (map f (xs @ [y]))"
  using assms by simp

lemma StartRun_inv:
  assumes "wf_inv (db, D)" "StartRun E now rid eid t n record ini actor db = (Inr run, db')"
  shows "wf_inv (db', D)"
proof -
  note W = wf_invD[OF assms(1)]
  obtain def where L: "loadDefinitionTx t n db = Inr def" "run_State run \<in> set (States (wd_Definition def))"
    and run: "run_tenant run = t" "run_Workflow run = n" "run_History run = []"
    and tx: "start_tx E now eid run actor db = Inr ((), db')"
    using StartRun_ok[OF assms(2)] by metis
  note S = start_tx_ok[OF tx] and K = kernel_only_selectors[OF start_tx_ok(3)[OF tx]]
  have "wd_item def \<in> D" using loadDefinition_in(1)[OF L(1)] W(2) by auto
  then have "(t, n, wd_Definition def) \<in> D" using loadDefinition_in(2,3)[OF L(1)] by (simp add: wd_item_def)
  then have ok: "run_ok D (pg_run run)" using L(2) run by (auto simp: run_ok_def)
  show ?thesis
  proof (rule wf_invI)
    show "distinct (map run_key (workflow_runs db'))" "distinct (map run_record (workflow_runs db'))"
      using run_keys_snoc[OF W(4), of "pg_run run"] run_keys_snoc[OF W(5), of "pg_run run"] S(1,2) K(2) by simp_all
    show "\<And>r. r \<in> set (workflow_runs db') \<Longrightarrow> run_ok D r" using W(6) ok K(2) by auto
  qed (use W K(1) in auto)
qed

lemma advance_fields [simp]:
  "run_ID (advance now a u s r) = run_ID r" "run_tenant (advance now a u s r) = run_tenant r"
  "run_Workflow (advance now a u s r) = run_Workflow r" "run_Record (advance now a u s r) = run_Record r"
  "run_State (advance now a u s r) = s" "run_Updated (advance now a u s r) = now"
  by (simp_all add: advance_def)

lemma post_json_decodable: "\<exists>y. unmarshal_any (post_json ps) = Some y"
proof -
  have "\<exists>y. unmarshal_anys (map JStr ps) = Some y" by (induction ps) auto
  then show ?thesis by (auto simp: post_json_def)
qed

lemma transition_tx_ok:
  assumes "transition_tx E now eid t rid act actor db = Inr (run', db')"
  obtains run def tr where "loadRunTx t rid db = Inr run" "loadDefinitionTx t (run_Workflow run) db = Inr def"
    "tr \<in> set (Transitions (wd_Definition def))" "tr_Action tr = act" "run_State run \<in> set (tr_From tr)"
    "run' = advance now act actor (tr_To tr) run" "kernel_only (update_run run' db) db'"
    "jsonb_law (eng_audit E) \<Longrightarrow> kernel_inv E db \<Longrightarrow> kernel_inv E db'"
    "eng_events E \<Longrightarrow> \<exists>ev. events db' = events db @ [ev] \<and> ev_tenant ev = t \<and> ev_type ev = ''workflow.transitioned''"
    "eng_auditor E \<Longrightarrow> \<exists>r. audit_log db' = audit_log db @ [r] \<and> al_tenant r = t
           \<and> al_action r = ''workflow.transitioned'' \<and> al_actor r = Some actor \<and> al_target r = Some (run_Record run)"
proof -
  from assms obtain run def target post where
    l: "loadRunTx t rid db = Inr run" "loadDefinitionTx t (run_Workflow run) db = Inr def"
      "resolveTransition def (run_State run) act = Inr (target, post)"
    and el: "emit_and_log E now eid t ''workflow.transitioned'' (transitioned_payload E run target act post actor)
         actor ''workflow.transitioned'' (run_Workflow run) (Some (run_Record run)) (Some (transitioned_before run))
         (transitioned_after target act post) (update_run (advance now act actor target run) db) = Inr db'"
    and run': "run' = advance now act actor target run"
    by (auto simp: transition_tx_def transition_read_def transition_write_def rbind_eq_Inr Let_def elim!: map_sum_InrE)
  obtain tr where tr: "tr \<in> set (Transitions (wd_Definition def))" "tr_Action tr = act"
    "run_State run \<in> set (tr_From tr)" "target = tr_To tr"
    using l(3) by (auto simp: resolveTransition_def dest!: find_SomeD split: option.splits)
  have j: "unmarshal_any (transitioned_after target act post) \<noteq> None"
    "\<And>j. Some (transitioned_before run) = Some j \<Longrightarrow> unmarshal_any j \<noteq> None"
  proof -
    obtain y where "unmarshal_any (post_json post) = Some y" using post_json_decodable by blast
    then show "unmarshal_any (transitioned_after target act post) \<noteq> None"
      by (simp add: transitioned_after_def)
  qed (simp add: transitioned_before_def)
  have "kernel_inv E (update_run run' db) = kernel_inv E db"
    by (simp add: kernel_inv_def outbox_inv_def audit_inv_def tenant_rows_def update_run_def)
  then have "jsonb_law (eng_audit E) \<Longrightarrow> kernel_inv E db \<Longrightarrow> kernel_inv E db'"
    using emit_and_log_inv[OF _ _ el j] run' by simp
  then show ?thesis
    using that[OF l(1,2) tr(1-3)] emit_and_log_ok[OF el] run' tr(4) by (simp add: update_run_def)
qed

lemma find_run_unique:
  assumes "distinct (map run_key (workflow_runs db))" "loadRunTx t rid db = Inr run"
    and "r \<in> set (workflow_runs db)" "run_tenant r = t" "run_ID r = rid"
  shows "r = run"
proof -
  have "run \<in> set (workflow_runs db)" "run_key run = run_key r"
    using assms(2,4,5) by (auto simp: loadRunTx_def run_key_def dest!: find_SomeD split: option.splits)
  with assms(1,3) show ?thesis by (metis distinct_map inj_onD)
qed

lemma loadRun_in: "loadRunTx t rid db = Inr run \<Longrightarrow> run \<in> set (workflow_runs db) \<and> run_tenant run = t \<and> run_ID run = rid"
  by (auto simp: loadRunTx_def dest!: find_SomeD split: option.splits)

lemma run_ok_advance:
  assumes "run_ok D run" "(run_tenant run, run_Workflow run, def) \<in> D" "tr \<in> set (Transitions def)"
    and "tr_Action tr = act" "run_State run \<in> set (tr_From tr)"
  shows "run_ok D (run\<lparr>run_State := tr_To tr, run_History := run_History (advance now act actor (tr_To tr) run), run_Updated := x\<rparr>)"
  using assms unfolding run_ok_def legal_entry_def by (auto simp: advance_def connected_snoc)

lemma transition_tx_inv:
  assumes "wf_inv (db, D)" "transition_tx E now eid t rid act actor db = Inr (run', db')"
  shows "wf_inv (db', D)"
proof -
  note W = wf_invD[OF assms(1)]
  obtain run def tr where l: "loadRunTx t rid db = Inr run" "loadDefinitionTx t (run_Workflow run) db = Inr def"
    and tr: "tr \<in> set (Transitions (wd_Definition def))" "tr_Action tr = act" "run_State run \<in> set (tr_From tr)"
    and run': "run' = advance now act actor (tr_To tr) run" and K: "kernel_only (update_run run' db) db'"
    using transition_tx_ok[OF assms(2)] by metis
  note sel = kernel_only_selectors[OF K]
  note R = loadRun_in[OF l(1)]
  have "wd_item def \<in> D" using loadDefinition_in(1)[OF l(2)] W(2) by auto
  then have "(run_tenant run, run_Workflow run, wd_Definition def) \<in> D"
    using loadDefinition_in(2,3)[OF l(2)] R by (simp add: wd_item_def)
  from run_ok_advance[OF W(6) this tr] R have
    ok: "run_ok D (run\<lparr>run_State := tr_To tr, run_History := run_History run', run_Updated := x\<rparr>)" for x
    unfolding run' by blast
  show ?thesis
  proof (rule wf_invI)
    have "map f (workflow_runs db') = map f (workflow_runs db)"
      if "\<And>r s h x. f (r\<lparr>run_State := s, run_History := h, run_Updated := x\<rparr>) = f r" for f :: "workflowRun \<Rightarrow> uuid \<times> uuid"
      unfolding sel(2) update_run_def by (simp add: map_update_rows that)
    then show "distinct (map run_key (workflow_runs db'))" "distinct (map run_record (workflow_runs db'))"
      using W(4,5) by (simp_all add: run_key_def run_record_def)
    show "run_ok D r" if "r \<in> set (workflow_runs db')" for r
    proof -
      from that obtain r0 where r0: "r0 \<in> set (workflow_runs db)"
        "r = (if run_tenant r0 = t \<and> run_ID r0 = rid
              then r0\<lparr>run_State := tr_To tr, run_History := run_History run', run_Updated := pg_time now\<rparr> else r0)"
        using R by (auto simp: sel(2) update_run_def set_update_rows run')
      then show ?thesis
        using W(6) ok[of "pg_time now"] find_run_unique[OF W(4) l(1), of r0] by (cases "run_tenant r0 = t \<and> run_ID r0 = rid") auto
    qed
  qed (use W sel(1) in \<open>auto simp: update_run_def\<close>)
qed

lemma Transition_effect:
  assumes "Transition E now eid t rid act actor db = (r, db')"
  shows "(\<exists>e. r = Inl e \<and> db' = db) \<or> (\<exists>run'. r = Inr run' \<and> transition_tx E now eid t rid act actor db = Inr (run', db'))"
  using assms by (auto simp: Transition_def dest!: tx_effect split: if_splits)


lemma update_run_rows:
  assumes "distinct (map run_key (workflow_runs db))" "loadRunTx t rid db = Inr run" "run_tenant r = t" "run_ID r = rid"
  shows "workflow_runs (update_run r db) = map (\<lambda>x. if x = run
     then run\<lparr>run_State := run_State r, run_History := run_History r, run_Updated := pg_time (run_Updated r)\<rparr> else x)
     (workflow_runs db)"
proof -
  have "run_tenant x = t \<and> run_ID x = rid \<longleftrightarrow> x = run" if "x \<in> set (workflow_runs db)" for x
    using find_run_unique[OF assms(1,2) that] loadRun_in[OF assms(2)] by blast
  then show ?thesis
    using assms(3,4) by (simp add: update_run_def update_rows_def)
qed

lemma loadRun_update:
  assumes "loadRunTx t rid db = Inr run" "run_tenant r = t" "run_ID r = rid" "kernel_only (update_run r db) db'"
  shows "loadRunTx t rid db' =
    Inr (run\<lparr>run_State := run_State r, run_History := run_History r, run_Updated := pg_time (run_Updated r)\<rparr>)"
proof -
  let ?p = "\<lambda>x. run_tenant x = t \<and> run_ID x = rid"
  have "List.find ?p (workflow_runs db) = Some run"
    using assms(1) by (simp add: loadRunTx_def split: option.splits)
  from find_update_rows[OF this, of "\<lambda>x. x\<lparr>run_State := run_State r, run_History := run_History r, run_Updated := pg_time (run_Updated r)\<rparr>"]
  show ?thesis
    unfolding loadRunTx_def kernel_only_selectors(2)[OF assms(4)] update_run_def using assms(2,3) by simp
qed


lemma transition_tx_stored:
  assumes "transition_tx E now eid t rid act actor db = Inr (run', db')" and "eng_events E"
  shows "kernel_only (update_run run' db) db' \<and> length (events db') = Suc (length (events db))
    \<and> run_tenant run' = t \<and> run_ID run' = rid"
  by (rule transition_tx_ok[OF assms(1)]) (use assms(2) loadRun_in in fastforce)


section \<open>The engine as an atomic component\<close>

datatype wf_op =
    RegisterOp workflowDef
  | StartOp gotime uuid uuid uuid string uuid string uuid
  | TransitionOp gotime uuid uuid uuid string uuid

fun wf_step ::
  "engine \<Rightarrow> wf_op \<Rightarrow> 'a workflow_db_scheme \<times> registered
   \<Rightarrow> (wf_error + workflowRun option) \<times> 'a workflow_db_scheme \<times> registered" where
  "wf_step E (RegisterOp d) (db, D) =
     (case RegisterWorkflow d db of
        (Inl e, db') \<Rightarrow> (Inl e, (db', D))
      | (Inr _, db') \<Rightarrow> (Inr None, (db', insert (wd_item d) D)))"
| "wf_step E (StartOp now rid eid t n record ini actor) (db, D) =
     (case StartRun E now rid eid t n record ini actor db of (r, db') \<Rightarrow> (map_sum id Some r, (db', D)))"
| "wf_step E (TransitionOp now eid t rid act actor) (db, D) =
     (case Transition E now eid t rid act actor db of (r, db') \<Rightarrow> (map_sum id Some r, (db', D)))"

lemma RegisterWorkflow_error: "RegisterWorkflow d db = (Inl e, db') \<Longrightarrow> db' = db"
  by (auto simp: RegisterWorkflow_def Let_def dest: tx_error_rolls_back split: if_splits sum.splits)

lemma map_sum_InlE: "map_sum f g x = Inl y \<Longrightarrow> (\<And>z. x = Inl z \<Longrightarrow> y = f z \<Longrightarrow> P) \<Longrightarrow> P"
  by (cases x) auto

interpretation wf: atomic_component wf_inv "wf_step E" for E :: engine
proof
  fix s s' :: "'a workflow_db_scheme \<times> registered" and x a
  assume inv: "wf_inv s" and st: "wf_step E x s = (Inr a, s')"
  obtain db D where s: "s = (db, D)" by fastforce
  show "wf_inv s'"
  proof (cases x)
    case (RegisterOp d)
    with st s inv RegisterWorkflow_inv show ?thesis
      by (auto split: prod.splits sum.splits)
  next
    case (StartOp now rid eid t n rc ini actor)
    with st s inv StartRun_inv show ?thesis
      by (fastforce split: prod.splits elim!: map_sum_InrE)
  next
    case (TransitionOp now eid t rid act actor)
    with st s obtain run' db' where "Transition E now eid t rid act actor db = (Inr run', db')" "s' = (db', D)"
      by (auto split: prod.splits elim!: map_sum_InrE)
    with Transition_effect[OF this(1)] inv transition_tx_inv s show ?thesis by blast
  qed
next
  fix s s' :: "'a workflow_db_scheme \<times> registered" and x e
  assume st: "wf_step E x s = (Inl e, s')"
  obtain db D where s: "s = (db, D)" by fastforce
  show "s' = s"
    using st s RegisterWorkflow_error StartRun_error Transition_effect
    by (cases x) (fastforce split: prod.splits sum.splits elim!: map_sum_InlE)+
qed


section \<open>Examples\<close>

definition edge :: "string \<Rightarrow> string \<Rightarrow> string \<Rightarrow> wf_transition" where
  "edge f a t = \<lparr>tr_From = [f], tr_To = t, tr_Action = a, tr_Post = []\<rparr>"

definition deal_v1 :: workflowDef where
  "deal_v1 = \<lparr>wd_tenant = 1, wd_Name = ''deal'', wd_Version = 1,
     wd_Definition = \<lparr>InitialState = ''open'', States = [''open'', ''won'', ''lost''],
       Transitions = [edge ''open'' ''close'' ''won'', edge ''open'' ''drop'' ''lost'']\<rparr>\<rparr>"

definition deal_v2 :: workflowDef where
  "deal_v2 = \<lparr>wd_tenant = 1, wd_Name = ''deal'', wd_Version = 2,
     wd_Definition = \<lparr>InitialState = ''open'', States = [''open'', ''review'', ''won'', ''lost''],
       Transitions = [edge ''open'' ''close'' ''review'', edge ''review'' ''approve'' ''won'']\<rparr>\<rparr>"

definition empty_wf :: workflow_db where
  "empty_wf = \<lparr>tenants = [], events = [], audit_log = [], audit_seq = 1, workflows = [], workflow_runs = []\<rparr>"

lemma wf_inv_empty: "wf_inv (empty_wf, {})"
  by (simp add: wf_inv_def empty_wf_def)

text \<open>A store with the first version and a run of record 50 with id 40.\<close>

definition deal_db :: workflow_db where
  "deal_db = snd (StartRun toy_engine 5000 40 41 1 ''deal'' 50 [] 7 (snd (RegisterWorkflow deal_v1 empty_wf)))"

definition wf_ops :: "wf_op list" where
  "wf_ops = [RegisterOp deal_v1, StartOp 5000 40 41 1 ''deal'' 50 [] 7, StartOp 5500 42 43 1 ''deal'' 50 [] 7,
     TransitionOp 6000 44 1 40 ''close'' 7, TransitionOp 6500 45 1 40 ''drop'' 7]"


section \<open>Properties\<close>

definition wf_run :: "engine \<Rightarrow> wf_op list \<Rightarrow> 'a workflow_db_scheme \<times> registered \<Rightarrow> 'a workflow_db_scheme \<times> registered" where
  "wf_run E xs s = fold (\<lambda>x s. snd (wf_step E x s)) xs s"

lemma wf_run_exec: "wf_run E xs s = fold (wf.exec E) xs s"
  unfolding wf_run_def by (rule fold_cong) (auto simp: wf.exec_def)

lemma connected_states:
  "connected s0 hs s \<Longrightarrow> s0 \<in> S \<Longrightarrow> (\<And>h. h \<in> set hs \<Longrightarrow> ToState h \<in> S) \<Longrightarrow> s \<in> S"
  by (induction hs arbitrary: s0) auto

text \<open>
  C12: Runs follow their definitions. After any sequence of registrations, starts and transitions,
  with any outcomes, every record has at most one run in its tenant, and the history of a
  run is a path: it begins in a state of a definition registered under the run's workflow
  name, each entry starts where the one before ended and is an edge (action, from, to) of some
  such definition, and the last one ends in the run's state. All these definitions passed
  validation.
\<close>

theorem runs_follow_definitions:
  assumes "wf_inv (db, D)" and "wf_run E xs (db, D) = (db', D')"
  shows "distinct (map run_record (workflow_runs db'))
    \<and> (\<forall>r \<in> set (workflow_runs db').
         (\<exists>def s0. (run_tenant r, run_Workflow r, def) \<in> D' \<and> s0 \<in> set (States def)
            \<and> connected s0 (run_History r) (run_State r))
         \<and> (\<forall>h \<in> set (run_History r). legal_entry D' (run_tenant r) (run_Workflow r) h))
    \<and> (\<forall>(t, n, def) \<in> D'. validateDefinition def = Inr ())"
proof -
  have "wf_inv (db', D')" using wf.run_keeps[OF assms(1), of E xs] assms(2) by (simp add: wf_run_exec)
  note W = wf_invD[OF this]
  show ?thesis using W(3,5,6) unfolding run_ok_def by blast
qed

theorem runs_follow_definitions_witness:
  "\<exists>db' D'. wf_run toy_engine wf_ops (empty_wf, {}) = (db', D') \<and> distinct (map run_record (workflow_runs db'))
     \<and> map (\<lambda>r. (run_State r, length (run_History r))) (workflow_runs db') = [(''won'', 1)]"
proof -
  obtain db' D' where r: "wf_run toy_engine wf_ops (empty_wf, {}) = (db', D')" by fastforce
  have "map (\<lambda>r. (run_State r, length (run_History r))) (workflow_runs (fst (wf_run toy_engine wf_ops (empty_wf, {})))) = [(''won'', 1)]"
    by code_simp
  with r runs_follow_definitions[OF wf_inv_empty r] show ?thesis by auto
qed

text \<open>
  C23: The effect of a transition. A call either fails and leaves the store as it was, or the run
  exists, the newest definition of its workflow has an edge with the action from the run's
  state, and afterwards the run's row has the edge's target as its state and one more history
  entry, every other run is unchanged, and, with a publisher and an auditor, exactly one event
  and one audit row have been appended.
\<close>

theorem transition_effect:
  assumes "distinct (map run_key (workflow_runs db))" and "eng_events E" and "eng_auditor E"
  shows "case Transition E now eid t rid act actor db of
      (Inl e, db') \<Rightarrow> db' = db
    | (Inr run', db') \<Rightarrow>
        \<exists>run def tr. run \<in> set (workflow_runs db) \<and> run_tenant run = t \<and> run_ID run = rid
          \<and> loadDefinitionTx t (run_Workflow run) db = Inr def \<and> tr \<in> set (Transitions (wd_Definition def))
          \<and> tr_Action tr = act \<and> run_State run \<in> set (tr_From tr)
          \<and> run_State run' = tr_To tr
          \<and> run_History run' = run_History run @
              [\<lparr>FromState = run_State run, ToState = tr_To tr, he_Action = act, he_Actor = actor, he_Timestamp = now\<rparr>]
          \<and> workflow_runs db' = map (\<lambda>r. if r = run then pg_run run'\<lparr>run_Created := run_Created run\<rparr> else r) (workflow_runs db)
          \<and> (\<exists>ev. events db' = events db @ [ev] \<and> ev_tenant ev = t \<and> ev_type ev = ''workflow.transitioned'')
          \<and> (\<exists>r. audit_log db' = audit_log db @ [r] \<and> al_tenant r = t \<and> al_actor r = Some actor
               \<and> al_target r = Some (run_Record run))"
proof (cases "Transition E now eid t rid act actor db")
  case (Pair r db')
  show ?thesis
  proof (cases r)
    case (Inl e)
    with Pair Transition_effect[OF Pair] show ?thesis by simp
  next
    case (Inr run')
    with Pair Transition_effect[OF Pair] have tx: "transition_tx E now eid t rid act actor db = Inr (run', db')" by blast
    from transition_tx_ok[OF tx] obtain run def tr where
      l: "loadRunTx t rid db = Inr run" "loadDefinitionTx t (run_Workflow run) db = Inr def"
      and tr: "tr \<in> set (Transitions (wd_Definition def))" "tr_Action tr = act" "run_State run \<in> set (tr_From tr)"
      and run': "run' = advance now act actor (tr_To tr) run" and K: "kernel_only (update_run run' db) db'"
      and ev: "\<exists>ev. events db' = events db @ [ev] \<and> ev_tenant ev = t \<and> ev_type ev = ''workflow.transitioned''"
      and al: "\<exists>r. audit_log db' = audit_log db @ [r] \<and> al_tenant r = t \<and> al_actor r = Some actor \<and> al_target r = Some (run_Record run)"
      using assms(2,3) by metis
    note R = loadRun_in[OF l(1)]
    have "workflow_runs db' = map (\<lambda>r. if r = run then pg_run run'\<lparr>run_Created := run_Created run\<rparr> else r) (workflow_runs db)"
      using update_run_rows[OF assms(1) l(1), of run'] kernel_only_selectors(2)[OF K] R
      by (simp add: run' advance_def pg_run_def)
    moreover have "run_State run' = tr_To tr" "run_History run' = run_History run @
        [\<lparr>FromState = run_State run, ToState = tr_To tr, he_Action = act, he_Actor = actor, he_Timestamp = now\<rparr>]"
      by (simp_all add: run' advance_def)
    ultimately show ?thesis
      unfolding Pair Inr prod.case sum.case using R l(2) tr ev al by blast
  qed
qed

theorem transition_effect_witness:
  "\<exists>run'. fst (Transition toy_engine 6000 44 1 40 ''close'' 7 deal_db) = Inr run' \<and> run_State run' = ''won''
     \<and> length (events (snd (Transition toy_engine 6000 44 1 40 ''close'' 7 deal_db))) = Suc (length (events deal_db))"
proof -
  have d: "distinct (map run_key (workflow_runs deal_db))" by code_simp
  have e: "eng_events toy_engine" "eng_auditor toy_engine" by (simp_all add: toy_engine_def)
  obtain r db' where t: "Transition toy_engine 6000 44 1 40 ''close'' 7 deal_db = (r, db')" by fastforce
  have "map_sum id run_State (fst (Transition toy_engine 6000 44 1 40 ''close'' 7 deal_db)) = Inr ''won''" by code_simp
  then obtain run' where "r = Inr run'" "run_State run' = ''won''" using t by (auto elim!: map_sum_InrE)
  with transition_effect[OF d e, where now = 6000 and eid = 44 and t = 1 and rid = 40 and act = "''close''" and actor = 7] t show ?thesis by auto
qed

text \<open>
  A live run is not pinned to the version it was started under. Registering a second version
  of its workflow changes what the same action does to it: \<open>close\<close> leads to \<open>won\<close> under the
  first version and to \<open>review\<close> once the second one is registered.
\<close>

theorem live_run_switches_version:
  "map_sum id run_State (fst (Transition toy_engine 6000 44 1 40 ''close'' 7 deal_db)) = Inr ''won''
   \<and> map_sum id run_State (fst (Transition toy_engine 6000 44 1 40 ''close'' 7 (snd (RegisterWorkflow deal_v2 deal_db))))
       = Inr ''review''"
  by code_simp

text \<open>
  Concurrent transitions can lose one. If a transition reads the run, another transition
  commits, and the first one then writes, the run's row ends with the first one's state
  and history; the entry of the other is gone, while both events stay in the outbox.
\<close>

theorem concurrent_transition_lost:
  assumes "transition_read t rid act1 db = Inr x" and "transition_tx E now eid t rid act2 actor2 db = Inr (run2, db2)"
    and "transition_write E now' eid' t act1 actor1 x db2 = Inr (run1, db')"
    and "distinct (map run_key (workflow_runs db))" and "eng_events E"
  shows "loadRunTx t rid db' = Inr (pg_run run1\<lparr>run_Created := run_Created (fst x)\<rparr>)
    \<and> run_History run1 = run_History (fst x) @ [last (run_History run1)] \<and> he_Action (last (run_History run1)) = act1
    \<and> length (events db') = length (events db) + 2"
proof -
  obtain run target post where x: "x = (run, target, post)" by (metis prod_cases3)
  have l: "loadRunTx t rid db = Inr run" using assms(1) x
    by (auto simp: transition_read_def rbind_eq_Inr split: prod.splits)
  note T2 = transition_tx_stored[OF assms(2,5)]
  have K2: "kernel_only (update_run run2 db) db2" and ev2: "length (events db2) = Suc (length (events db))"
    and r2: "run_tenant run2 = t" "run_ID run2 = rid" using T2 by auto
  have el: "run1 = advance now' act1 actor1 target run"
    and el': "emit_and_log E now' eid' t ''workflow.transitioned'' (transitioned_payload E run target act1 post actor1)
         actor1 ''workflow.transitioned'' (run_Workflow run) (Some (run_Record run)) (Some (transitioned_before run))
         (transitioned_after target act1 post) (update_run run1 db2) = Inr db'"
    using assms(3) by (auto simp: transition_write_def x Let_def elim!: map_sum_InrE)
  note K1 = emit_and_log_ok(1)[OF el'] and ev1 = emit_and_log_ok(2)[OF el' assms(5)]
  note R = loadRun_in[OF l]
  have r1: "run_tenant run1 = t" "run_ID run1 = rid" using R by (simp_all add: el)
  note 2 = loadRun_update[OF l r2 K2] and 1 = loadRun_update[OF loadRun_update[OF l r2 K2] r1 K1]
  show ?thesis
  proof (intro conjI)
    show "loadRunTx t rid db' = Inr (pg_run run1\<lparr>run_Created := run_Created (fst x)\<rparr>)"
      using 1 R by (simp add: x el advance_def pg_run_def)
    show "length (events db') = length (events db) + 2" using ev1 ev2 by (auto simp: update_run_def)
  qed (simp_all add: el x advance_def)
qed

theorem concurrent_transition_lost_witness:
  "\<exists>x run2 db2 run1 db'. transition_read 1 40 ''close'' deal_db = Inr x
     \<and> transition_tx toy_engine 6000 44 1 40 ''drop'' 8 deal_db = Inr (run2, db2)
     \<and> transition_write toy_engine 6100 45 1 ''close'' 7 x db2 = Inr (run1, db')
     \<and> run_State run2 = ''lost'' \<and> map_sum id (\<lambda>r. (run_State r, length (run_History r))) (loadRunTx 1 40 db') = Inr (''won'', 1)"
proof -
  have "rbind (transition_read 1 40 ''close'' deal_db) (\<lambda>x.
     rbind (transition_tx toy_engine 6000 44 1 40 ''drop'' 8 deal_db) (\<lambda>y.
     rbind (transition_write toy_engine 6100 45 1 ''close'' 7 x (snd y)) (\<lambda>z.
       Inr (run_State (fst y), run_State (fst z), length (run_History (fst z)))))) = Inr (''lost'', ''won'', 1)"
    by code_simp
  then obtain x run2 db2 run1 db' where r: "transition_read 1 40 ''close'' deal_db = Inr x"
    "transition_tx toy_engine 6000 44 1 40 ''drop'' 8 deal_db = Inr (run2, db2)"
    "transition_write toy_engine 6100 45 1 ''close'' 7 x db2 = Inr (run1, db')"
    and st: "run_State run2 = ''lost''" "run_State run1 = ''won''" "length (run_History run1) = 1"
    by (auto simp: rbind_eq_Inr)
  have "distinct (map run_key (workflow_runs deal_db))" by code_simp
  moreover have "eng_events toy_engine" by (simp add: toy_engine_def)
  ultimately have "loadRunTx 1 40 db' = Inr (pg_run run1\<lparr>run_Created := run_Created (fst x)\<rparr>)"
    using concurrent_transition_lost[OF r] by blast
  with r st show ?thesis by (intro exI conjI) (auto simp: pg_run_def)
qed

end
