(* ===== verification/Approvals.thy ===== *)
theory Approvals
  imports Workflow
begin

text \<open>
  Approval chains (internal/workflow/approvals.go): steps decided one after the other, each with
  a quorum of approvers; one rejection ends the approval.

  \<open>approval_db\<close> extends the workflow store by the table \<open>approvals\<close>, whose chain column holds the
  decoded structure. The quorum argument rests on \<open>votes_ok\<close>: decisions in the history are by
  approvers of their step, at most one per approver and step, and every closed step has its
  quorum. It holds of every approval that was requested with an empty history.
\<close>

record approvalStep =
  Approvers :: "uuid list"
  RequiredCount :: int
  Timeout :: int

record approvalAction =
  StepIndex :: int
  aa_Actor :: uuid
  Decision :: string
  aa_Timestamp :: gotime

record approvalChain =
  RequestedBy :: uuid
  CurrentStep :: int
  Steps :: "approvalStep list"
  ch_History :: "approvalAction list"

record approval =
  ap_ID :: uuid
  ap_tenant :: uuid
  RecordKType :: string
  RecordID :: uuid
  Chain :: approvalChain
  ap_State :: string
  ap_Created :: gotime

record approval_db = workflow_db +
  approvals :: "approval list"

definition ApprovalStatePending :: string where "ApprovalStatePending = ''pending''"
definition ApprovalStateApproved :: string where "ApprovalStateApproved = ''approved''"
definition ApprovalStateRejected :: string where "ApprovalStateRejected = ''rejected''"
definition DecisionApprove :: string where "DecisionApprove = ''approve''"
definition DecisionReject :: string where "DecisionReject = ''reject''"

lemmas approval_consts = ApprovalStatePending_def ApprovalStateApproved_def ApprovalStateRejected_def
  DecisionApprove_def DecisionReject_def

datatype approval_error =
    ApArgsRequired
  | ApTxTenant
  | ErrApprovalNotFound
  | ErrApprovalInvalidChain
  | ErrApprovalFinalized
  | ErrApprovalNotAuthorized
  | ErrApprovalInvalidAction
  | ErrApprovalDuplicate
  | ApKernel kernel_error

definition containsUUID :: "uuid list \<Rightarrow> uuid \<Rightarrow> bool" where
  "containsUUID xs target = list_ex (\<lambda>x. x = target) xs"

definition countDecisionsForStep :: "approvalAction list \<Rightarrow> int \<Rightarrow> string \<Rightarrow> int" where
  "countDecisionsForStep history step decision =
     int (length (filter (\<lambda>a. StepIndex a = step \<and> Decision a = decision) history))"

definition int_json :: "int \<Rightarrow> json" where
  "int_json n = JNum (Some (f64_of_int n))"

definition step_valid :: "approvalStep \<Rightarrow> bool" where
  "step_valid s \<longleftrightarrow> Approvers s \<noteq> [] \<and> 0 \<le> RequiredCount s \<and> RequiredCount s \<le> int (length (Approvers s))"

definition ap_key :: "approval \<Rightarrow> uuid \<times> uuid" where
  "ap_key a = (ap_tenant a, ap_ID a)"

definition requested_payload :: "engine \<Rightarrow> approval \<Rightarrow> uuid \<Rightarrow> json" where
  "requested_payload E a requestedBy =
     JObj [(''approval_id'', uuid_json E (ap_ID a)), (''record_ktype'', JStr (RecordKType a)),
           (''record_id'', uuid_json E (RecordID a)), (''requested_by'', uuid_json E requestedBy),
           (''current_step'', int_json (CurrentStep (Chain a))),
           (''step_approvers'', JArr (map (uuid_json E) (Approvers (Steps (Chain a) ! nat (CurrentStep (Chain a))))))]"

definition requested_after :: "approval \<Rightarrow> json" where
  "requested_after a =
     JObj [(''state'', JStr (ap_State a)), (''current_step'', int_json (CurrentStep (Chain a))),
           (''steps'', int_json (int (length (Steps (Chain a)))))]"

definition request_tx ::
  "engine \<Rightarrow> gotime \<Rightarrow> uuid \<Rightarrow> approval \<Rightarrow> uuid \<Rightarrow> 'a approval_db_scheme \<Rightarrow> approval_error + unit \<times> 'a approval_db_scheme" where
  "request_tx E now eid a requestedBy db =
     (if ap_key a \<in> set (map ap_key (approvals db)) then Inl (ApKernel UniqueViolation)
      else map_sum ApKernel (\<lambda>db'. ((), db'))
             (emit_and_log E now eid (ap_tenant a) ''approval.requested'' (requested_payload E a requestedBy)
                requestedBy ''approval.requested'' (RecordKType a) (Some (RecordID a)) None (requested_after a)
                (db\<lparr>approvals := approvals db @ [a\<lparr>ap_Created := pg_time (ap_Created a)\<rparr>]\<rparr>)))"

definition RequestApproval ::
  "engine \<Rightarrow> gotime \<Rightarrow> uuid \<Rightarrow> uuid \<Rightarrow> uuid \<Rightarrow> string \<Rightarrow> uuid \<Rightarrow> approvalChain \<Rightarrow> uuid \<Rightarrow> 'a approval_db_scheme
   \<Rightarrow> (approval_error + approval) \<times> 'a approval_db_scheme" where
  "RequestApproval E now aid eid t ktype record chain requestedBy db =
     (if t = 0 \<or> ktype = [] \<or> record = 0 then (Inl ApArgsRequired, db)
      else if requestedBy = 0 then (Inl ApArgsRequired, db)
      else if Steps chain = [] then (Inl ErrApprovalInvalidChain, db)
      else if \<not> list_all step_valid (Steps chain) then (Inl ErrApprovalInvalidChain, db)
      else let a = \<lparr>ap_ID = aid, ap_tenant = t, RecordKType = ktype, RecordID = record,
                    Chain = chain\<lparr>RequestedBy := requestedBy, CurrentStep := 0\<rparr>,
                    ap_State = ApprovalStatePending, ap_Created = now\<rparr>
           in case WithTenantTx ApTxTenant t (request_tx E now eid a requestedBy) db of
                (Inl e, db') \<Rightarrow> (Inl e, db')
              | (Inr _, db') \<Rightarrow> (Inr a, db'))"

definition loadApprovalTx :: "uuid \<Rightarrow> uuid \<Rightarrow> 'a approval_db_scheme \<Rightarrow> approval_error + approval" where
  "loadApprovalTx t aid db =
     (case List.find (\<lambda>a. ap_tenant a = t \<and> ap_ID a = aid) (approvals db) of
        None \<Rightarrow> Inl ErrApprovalNotFound
      | Some a \<Rightarrow> Inr a)"

text \<open>The decision on a loaded approval: the new approval, the final state and the event type.\<close>

definition required_of :: "approvalStep \<Rightarrow> int" where
  "required_of s = (if RequiredCount s = 0 then int (length (Approvers s)) else RequiredCount s)"

definition decide_approval ::
  "gotime \<Rightarrow> string \<Rightarrow> uuid \<Rightarrow> approval \<Rightarrow> approval_error + approval \<times> string \<times> string" where
  "decide_approval now decision actor a =
     (if ap_State a \<noteq> ApprovalStatePending then Inl ErrApprovalFinalized
      else if CurrentStep (Chain a) \<ge> int (length (Steps (Chain a))) then Inl ErrApprovalFinalized
      else let cur = CurrentStep (Chain a); step = Steps (Chain a) ! nat cur
           in if \<not> containsUUID (Approvers step) actor then Inl ErrApprovalNotAuthorized
              else if list_ex (\<lambda>p. StepIndex p = cur \<and> aa_Actor p = actor) (ch_History (Chain a)) then Inl ErrApprovalDuplicate
              else let hist = ch_History (Chain a) @ [\<lparr>StepIndex = cur, aa_Actor = actor, Decision = decision, aa_Timestamp = now\<rparr>];
                       a1 = a\<lparr>Chain := (Chain a)\<lparr>ch_History := hist\<rparr>\<rparr>
                   in if decision = DecisionReject
                      then Inr (a1\<lparr>ap_State := ApprovalStateRejected\<rparr>, ApprovalStateRejected, ''approval.rejected'')
                      else if countDecisionsForStep hist cur DecisionApprove \<ge> required_of step
                      then let a2 = a1\<lparr>Chain := (Chain a1)\<lparr>CurrentStep := cur + 1\<rparr>\<rparr>
                           in if cur + 1 \<ge> int (length (Steps (Chain a)))
                              then Inr (a2\<lparr>ap_State := ApprovalStateApproved\<rparr>, ApprovalStateApproved, ''approval.granted'')
                              else Inr (a2, [], ''approval.step_advanced'')
                      else Inr (a1, [], ''approval.decision_recorded''))"

definition update_approval :: "approval \<Rightarrow> 'a approval_db_scheme \<Rightarrow> 'a approval_db_scheme" where
  "update_approval a db =
     db\<lparr>approvals := update_rows (\<lambda>r. ap_tenant r = ap_tenant a \<and> ap_ID r = ap_ID a)
          (\<lambda>r. r\<lparr>Chain := Chain a, ap_State := ap_State a\<rparr>) (approvals db)\<rparr>"

definition decided_payload :: "engine \<Rightarrow> approval \<Rightarrow> string \<Rightarrow> string \<Rightarrow> uuid \<Rightarrow> json" where
  "decided_payload E a decision final actor =
     JObj [(''approval_id'', uuid_json E (ap_ID a)), (''record_ktype'', JStr (RecordKType a)),
           (''record_id'', uuid_json E (RecordID a)), (''actor_id'', uuid_json E actor),
           (''decision'', JStr decision), (''state'', JStr (ap_State a)),
           (''current_step'', int_json (CurrentStep (Chain a))), (''final_state'', JStr final)]"

definition decided_after :: "approval \<Rightarrow> string \<Rightarrow> json" where
  "decided_after a decision =
     JObj [(''state'', JStr (ap_State a)), (''decision'', JStr decision),
           (''step'', int_json (StepIndex (last (ch_History (Chain a)))))]"

text \<open>\<open>Decide\<close> reads the approval without locking its row, computes, and writes.\<close>

definition decide_write ::
  "engine \<Rightarrow> gotime \<Rightarrow> uuid \<Rightarrow> uuid \<Rightarrow> string \<Rightarrow> uuid \<Rightarrow> approval \<times> string \<times> string \<Rightarrow> 'a approval_db_scheme
   \<Rightarrow> approval_error + approval \<times> 'a approval_db_scheme" where
  "decide_write E now eid t decision actor x db =
     (case x of (a, final, ty) \<Rightarrow>
        map_sum ApKernel (\<lambda>db'. (a, db'))
          (emit_and_log E now eid t ty (decided_payload E a decision final actor)
             actor (''approval.'' @ decision) (RecordKType a) (Some (RecordID a)) None (decided_after a decision)
             (update_approval a db)))"

definition decide_tx ::
  "engine \<Rightarrow> gotime \<Rightarrow> uuid \<Rightarrow> uuid \<Rightarrow> uuid \<Rightarrow> string \<Rightarrow> uuid \<Rightarrow> 'a approval_db_scheme
   \<Rightarrow> approval_error + approval \<times> 'a approval_db_scheme" where
  "decide_tx E now eid t aid decision actor db =
     rbind (loadApprovalTx t aid db) (\<lambda>a.
     rbind (decide_approval now decision actor a) (\<lambda>x.
       decide_write E now eid t decision actor x db))"

definition Decide ::
  "engine \<Rightarrow> gotime \<Rightarrow> uuid \<Rightarrow> uuid \<Rightarrow> uuid \<Rightarrow> string \<Rightarrow> uuid \<Rightarrow> 'a approval_db_scheme
   \<Rightarrow> (approval_error + approval) \<times> 'a approval_db_scheme" where
  "Decide E now eid t aid decision actor db =
     (if t = 0 \<or> aid = 0 then (Inl ApArgsRequired, db)
      else if actor = 0 then (Inl ApArgsRequired, db)
      else if decision \<noteq> DecisionApprove \<and> decision \<noteq> DecisionReject then (Inl ErrApprovalInvalidAction, db)
      else WithTenantTx ApTxTenant t (decide_tx E now eid t aid decision actor) db)"

definition GetApproval :: "uuid \<Rightarrow> uuid \<Rightarrow> 'a approval_db_scheme \<Rightarrow> approval_error + approval" where
  "GetApproval t aid db =
     fst (WithTenantTx ApTxTenant t (\<lambda>db. map_sum id (\<lambda>a. (a, db)) (loadApprovalTx t aid db)) db)"

definition ListPendingApprovals :: "uuid \<Rightarrow> uuid \<Rightarrow> 'a approval_db_scheme \<Rightarrow> approval_error + approval list" where
  "ListPendingApprovals t approver db =
     (if t = 0 then Inl ApArgsRequired
      else if approver = 0 then Inl ApArgsRequired
      else fst (WithTenantTx ApTxTenant t
        (\<lambda>db. let rows = sort_key ap_Created (filter (\<lambda>a. ap_tenant a = t \<and> ap_State a = ApprovalStatePending) (approvals db))
              in Inr (filter (\<lambda>a. CurrentStep (Chain a) < int (length (Steps (Chain a)))
                          \<and> containsUUID (Approvers (Steps (Chain a) ! nat (CurrentStep (Chain a)))) approver) rows, db)) db))"


section \<open>Votes\<close>

definition vote_key :: "approvalAction \<Rightarrow> int \<times> uuid" where
  "vote_key h = (StepIndex h, aa_Actor h)"

definition votes_ok :: "approval \<Rightarrow> bool" where
  "votes_ok a \<longleftrightarrow>
     (let c = Chain a; n = int (length (Steps c)) in
       0 \<le> CurrentStep c \<and> CurrentStep c \<le> n
       \<and> (\<forall>h \<in> set (ch_History c). 0 \<le> StepIndex h \<and> StepIndex h < n
            \<and> aa_Actor h \<in> set (Approvers (Steps c ! nat (StepIndex h))))
       \<and> distinct (map vote_key (ch_History c))
       \<and> (\<forall>i. 0 \<le> i \<and> i < CurrentStep c \<longrightarrow> required_of (Steps c ! nat i) \<le> countDecisionsForStep (ch_History c) i DecisionApprove)
       \<and> (if ap_State a = ApprovalStatePending
          then CurrentStep c < n \<and> (\<forall>h \<in> set (ch_History c). Decision h = DecisionApprove)
          else if ap_State a = ApprovalStateApproved
          then CurrentStep c = n \<and> (\<forall>h \<in> set (ch_History c). Decision h = DecisionApprove)
          else ap_State a = ApprovalStateRejected \<and> (\<exists>h \<in> set (ch_History c). Decision h = DecisionReject)))"

lemma count_snoc:
  "countDecisionsForStep (hs @ [h]) i d = countDecisionsForStep hs i d + (if StepIndex h = i \<and> Decision h = d then 1 else 0)"
  by (simp add: countDecisionsForStep_def)

lemma state_consts_distinct [simp]:
  "ApprovalStateApproved \<noteq> ApprovalStatePending" "ApprovalStateRejected \<noteq> ApprovalStatePending"
  "ApprovalStateRejected \<noteq> ApprovalStateApproved" "DecisionReject \<noteq> DecisionApprove"
  "ApprovalStatePending \<noteq> ApprovalStateApproved" "ApprovalStatePending \<noteq> ApprovalStateRejected"
  "ApprovalStateApproved \<noteq> ApprovalStateRejected" "DecisionApprove \<noteq> DecisionReject"
  by (simp_all add: approval_consts)

text \<open>What a successful decision requires and does, branch by branch.\<close>

lemma decide_approval_cases:
  assumes "decide_approval now d actor a = Inr (a', final, ty)"
  defines "c \<equiv> Chain a"
  defines "cur \<equiv> CurrentStep c"
  defines "step \<equiv> Steps c ! nat cur"
  defines "h \<equiv> \<lparr>StepIndex = cur, aa_Actor = actor, Decision = d, aa_Timestamp = now\<rparr>"
  defines "hist \<equiv> ch_History c @ [h]"
  shows "ap_State a = ApprovalStatePending" "cur < int (length (Steps c))" "actor \<in> set (Approvers step)"
    "(cur, actor) \<notin> vote_key ` set (ch_History c)"
    and "(d = DecisionReject \<and> a' = a\<lparr>Chain := c\<lparr>ch_History := hist\<rparr>, ap_State := ApprovalStateRejected\<rparr>
           \<and> final = ApprovalStateRejected \<and> ty = ''approval.rejected'')
      \<or> (d \<noteq> DecisionReject \<and> required_of step \<le> countDecisionsForStep hist cur DecisionApprove
           \<and> cur + 1 = int (length (Steps c))
           \<and> a' = a\<lparr>Chain := c\<lparr>ch_History := hist, CurrentStep := cur + 1\<rparr>, ap_State := ApprovalStateApproved\<rparr>
           \<and> final = ApprovalStateApproved \<and> ty = ''approval.granted'')
      \<or> (d \<noteq> DecisionReject \<and> required_of step \<le> countDecisionsForStep hist cur DecisionApprove
           \<and> cur + 1 < int (length (Steps c))
           \<and> a' = a\<lparr>Chain := c\<lparr>ch_History := hist, CurrentStep := cur + 1\<rparr>\<rparr> \<and> final = [] \<and> ty = ''approval.step_advanced'')
      \<or> (d \<noteq> DecisionReject \<and> countDecisionsForStep hist cur DecisionApprove < required_of step
           \<and> a' = a\<lparr>Chain := c\<lparr>ch_History := hist\<rparr>\<rparr> \<and> final = [] \<and> ty = ''approval.decision_recorded'')"
proof -
  have p: "ap_State a = ApprovalStatePending" and l: "cur < int (length (Steps c))"
    and m: "containsUUID (Approvers step) actor"
    and nd: "\<not> list_ex (\<lambda>p. StepIndex p = cur \<and> aa_Actor p = actor) (ch_History c)"
    using assms(1) unfolding decide_approval_def c_def cur_def step_def Let_def by (auto split: if_splits)
  show "ap_State a = ApprovalStatePending" "cur < int (length (Steps c))" by (fact p l)+
  show "actor \<in> set (Approvers step)" using m by (simp add: containsUUID_def list_ex_iff)
  show "(cur, actor) \<notin> vote_key ` set (ch_History c)" using nd by (auto simp: list_ex_iff vote_key_def)
  have "decide_approval now d actor a =
    (if d = DecisionReject then Inr (a\<lparr>Chain := c\<lparr>ch_History := hist\<rparr>, ap_State := ApprovalStateRejected\<rparr>, ApprovalStateRejected, ''approval.rejected'')
     else if countDecisionsForStep hist cur DecisionApprove \<ge> required_of step
     then if cur + 1 \<ge> int (length (Steps c))
          then Inr (a\<lparr>Chain := c\<lparr>ch_History := hist, CurrentStep := cur + 1\<rparr>, ap_State := ApprovalStateApproved\<rparr>, ApprovalStateApproved, ''approval.granted'')
          else Inr (a\<lparr>Chain := c\<lparr>ch_History := hist, CurrentStep := cur + 1\<rparr>\<rparr>, [], ''approval.step_advanced'')
     else Inr (a\<lparr>Chain := c\<lparr>ch_History := hist\<rparr>\<rparr>, [], ''approval.decision_recorded''))"
    using p l m nd unfolding decide_approval_def hist_def h_def step_def cur_def c_def by (simp add: Let_def)
  then show "(d = DecisionReject \<and> a' = a\<lparr>Chain := c\<lparr>ch_History := hist\<rparr>, ap_State := ApprovalStateRejected\<rparr>
           \<and> final = ApprovalStateRejected \<and> ty = ''approval.rejected'')
      \<or> (d \<noteq> DecisionReject \<and> required_of step \<le> countDecisionsForStep hist cur DecisionApprove
           \<and> cur + 1 = int (length (Steps c))
           \<and> a' = a\<lparr>Chain := c\<lparr>ch_History := hist, CurrentStep := cur + 1\<rparr>, ap_State := ApprovalStateApproved\<rparr>
           \<and> final = ApprovalStateApproved \<and> ty = ''approval.granted'')
      \<or> (d \<noteq> DecisionReject \<and> required_of step \<le> countDecisionsForStep hist cur DecisionApprove
           \<and> cur + 1 < int (length (Steps c))
           \<and> a' = a\<lparr>Chain := c\<lparr>ch_History := hist, CurrentStep := cur + 1\<rparr>\<rparr> \<and> final = [] \<and> ty = ''approval.step_advanced'')
      \<or> (d \<noteq> DecisionReject \<and> countDecisionsForStep hist cur DecisionApprove < required_of step
           \<and> a' = a\<lparr>Chain := c\<lparr>ch_History := hist\<rparr>\<rparr> \<and> final = [] \<and> ty = ''approval.decision_recorded'')"
    using assms(1) l by (auto split: if_splits)
qed

lemma votes_okD:
  assumes "votes_ok a"
  shows "0 \<le> CurrentStep (Chain a)" "CurrentStep (Chain a) \<le> int (length (Steps (Chain a)))"
    "\<And>h. h \<in> set (ch_History (Chain a)) \<Longrightarrow> 0 \<le> StepIndex h \<and> StepIndex h < int (length (Steps (Chain a)))
        \<and> aa_Actor h \<in> set (Approvers (Steps (Chain a) ! nat (StepIndex h)))"
    "distinct (map vote_key (ch_History (Chain a)))"
    "\<And>i. 0 \<le> i \<Longrightarrow> i < CurrentStep (Chain a) \<Longrightarrow>
        required_of (Steps (Chain a) ! nat i) \<le> countDecisionsForStep (ch_History (Chain a)) i DecisionApprove"
    "ap_State a = ApprovalStatePending \<Longrightarrow> CurrentStep (Chain a) < int (length (Steps (Chain a)))"
    "ap_State a = ApprovalStateApproved \<Longrightarrow> CurrentStep (Chain a) = int (length (Steps (Chain a)))"
    "ap_State a \<in> {ApprovalStatePending, ApprovalStateApproved} \<Longrightarrow> h' \<in> set (ch_History (Chain a)) \<Longrightarrow> Decision h' = DecisionApprove"
    "ap_State a \<in> {ApprovalStatePending, ApprovalStateApproved, ApprovalStateRejected}"
    "ap_State a = ApprovalStateRejected \<Longrightarrow> \<exists>h \<in> set (ch_History (Chain a)). Decision h = DecisionReject"
  using assms unfolding votes_ok_def Let_def by (auto split: if_splits)

text \<open>\<open>tail_ok\<close>: the part of \<open>votes_ok\<close> about the history, for a chain with one more vote.\<close>

definition tail_ok :: "approvalStep list \<Rightarrow> int \<Rightarrow> approvalAction list \<Rightarrow> bool" where
  "tail_ok steps cur hist \<longleftrightarrow>
     (\<forall>h \<in> set hist. 0 \<le> StepIndex h \<and> StepIndex h < int (length steps)
        \<and> aa_Actor h \<in> set (Approvers (steps ! nat (StepIndex h))))
     \<and> distinct (map vote_key hist)
     \<and> (\<forall>i. 0 \<le> i \<and> i < cur \<longrightarrow> required_of (steps ! nat i) \<le> countDecisionsForStep hist i DecisionApprove)"

lemma votes_ok_tail:
  "votes_ok a \<longleftrightarrow>
     (let c = Chain a; n = int (length (Steps c)) in
       0 \<le> CurrentStep c \<and> CurrentStep c \<le> n \<and> tail_ok (Steps c) (CurrentStep c) (ch_History c)
       \<and> (if ap_State a = ApprovalStatePending
          then CurrentStep c < n \<and> (\<forall>h \<in> set (ch_History c). Decision h = DecisionApprove)
          else if ap_State a = ApprovalStateApproved
          then CurrentStep c = n \<and> (\<forall>h \<in> set (ch_History c). Decision h = DecisionApprove)
          else ap_State a = ApprovalStateRejected \<and> (\<exists>h \<in> set (ch_History c). Decision h = DecisionReject)))"
  unfolding votes_ok_def tail_ok_def Let_def by blast

lemma tail_ok_snoc:
  assumes "tail_ok steps cur hs" "0 \<le> cur" "cur < int (length steps)" "actor \<in> set (Approvers (steps ! nat cur))"
    and "(cur, actor) \<notin> vote_key ` set hs" and "h = \<lparr>StepIndex = cur, aa_Actor = actor, Decision = d, aa_Timestamp = now\<rparr>"
  shows "tail_ok steps cur (hs @ [h])"
    and "required_of (steps ! nat cur) \<le> countDecisionsForStep (hs @ [h]) cur DecisionApprove \<Longrightarrow> tail_ok steps (cur + 1) (hs @ [h])"
proof -
  have mem: "\<forall>x \<in> set (hs @ [h]). 0 \<le> StepIndex x \<and> StepIndex x < int (length steps)
        \<and> aa_Actor x \<in> set (Approvers (steps ! nat (StepIndex x)))"
    using assms(1-4,6) by (auto simp: tail_ok_def)
  have dist: "distinct (map vote_key (hs @ [h]))"
    using assms(1,5,6) by (auto simp: tail_ok_def vote_key_def)
  have cnt: "required_of (steps ! nat i) \<le> countDecisionsForStep (hs @ [h]) i DecisionApprove" if "0 \<le> i" "i < cur" for i
  proof -
    have "required_of (steps ! nat i) \<le> countDecisionsForStep hs i DecisionApprove"
      using assms(1) that by (simp add: tail_ok_def)
    then show ?thesis by (simp add: count_snoc)
  qed
  show "tail_ok steps cur (hs @ [h])" using mem dist cnt unfolding tail_ok_def by blast
  show "tail_ok steps (cur + 1) (hs @ [h])" if r: "required_of (steps ! nat cur) \<le> countDecisionsForStep (hs @ [h]) cur DecisionApprove"
  proof -
    have "required_of (steps ! nat i) \<le> countDecisionsForStep (hs @ [h]) i DecisionApprove" if "0 \<le> i" "i < cur + 1" for i
      using cnt[OF that(1)] r that(2) by (cases "i = cur") auto
    with mem dist show ?thesis unfolding tail_ok_def by blast
  qed
qed

lemma votes_ok_decide:
  assumes "votes_ok a" "d \<in> {DecisionApprove, DecisionReject}" "decide_approval now d actor a = Inr (a', final, ty)"
  shows "votes_ok a'"
proof -
  let ?c = "Chain a"
  let ?cur = "CurrentStep ?c"
  let ?h = "\<lparr>StepIndex = ?cur, aa_Actor = actor, Decision = d, aa_Timestamp = now\<rparr>"
  note D = decide_approval_cases[OF assms(3)]
  have V: "0 \<le> ?cur" "tail_ok (Steps ?c) ?cur (ch_History ?c)"
    "\<forall>h \<in> set (ch_History ?c). Decision h = DecisionApprove"
    using assms(1) D(1) unfolding votes_ok_tail Let_def by auto
  note T = tail_ok_snoc[OF V(2,1) D(2) D(3) D(4), of ?h d now, OF refl]
  from D(5) show ?thesis
  proof (elim disjE conjE)
    assume "d = DecisionReject" "a' = a\<lparr>Chain := ?c\<lparr>ch_History := ch_History ?c @ [?h]\<rparr>, ap_State := ApprovalStateRejected\<rparr>"
    then show ?thesis using V(1) D(2) T(1) by (simp add: votes_ok_tail)
  next
    assume "d \<noteq> DecisionReject" "required_of (Steps ?c ! nat ?cur) \<le> countDecisionsForStep (ch_History ?c @ [?h]) ?cur DecisionApprove"
      "?cur + 1 = int (length (Steps ?c))"
      "a' = a\<lparr>Chain := ?c\<lparr>ch_History := ch_History ?c @ [?h], CurrentStep := ?cur + 1\<rparr>, ap_State := ApprovalStateApproved\<rparr>"
    then show ?thesis using V D(2) T(2) assms(2) by (simp add: votes_ok_tail)
  next
    assume "d \<noteq> DecisionReject" "required_of (Steps ?c ! nat ?cur) \<le> countDecisionsForStep (ch_History ?c @ [?h]) ?cur DecisionApprove"
      "?cur + 1 < int (length (Steps ?c))"
      "a' = a\<lparr>Chain := ?c\<lparr>ch_History := ch_History ?c @ [?h], CurrentStep := ?cur + 1\<rparr>\<rparr>"
    then show ?thesis using V D(1,2) T(2) assms(2) by (simp add: votes_ok_tail)
  next
    assume "d \<noteq> DecisionReject" "a' = a\<lparr>Chain := ?c\<lparr>ch_History := ch_History ?c @ [?h]\<rparr>\<rparr>"
    then show ?thesis using V D(1,2) T(1) assms(2) by (simp add: votes_ok_tail)
  qed
qed

text \<open>The quorum: the approving votes of a step come from distinct approvers of the step.\<close>

definition supporters :: "approval \<Rightarrow> int \<Rightarrow> uuid set" where
  "supporters a i = {aa_Actor h | h. h \<in> set (ch_History (Chain a)) \<and> StepIndex h = i \<and> Decision h = DecisionApprove}"

lemma card_supporters:
  assumes "votes_ok a"
  shows "int (card (supporters a i)) = countDecisionsForStep (ch_History (Chain a)) i DecisionApprove"
proof -
  let ?hs = "filter (\<lambda>h. StepIndex h = i \<and> Decision h = DecisionApprove) (ch_History (Chain a))"
  have "distinct (map vote_key ?hs)" by (rule distinct_map_filter[OF votes_okD(4)[OF assms]])
  moreover have "inj_on snd (vote_key ` set ?hs)" by (auto simp: inj_on_def vote_key_def)
  ultimately have "distinct (map snd (map vote_key ?hs))" by (simp add: distinct_map comp_inj_on)
  then have "distinct (map aa_Actor ?hs)" by (simp add: vote_key_def comp_def)
  moreover have "supporters a i = set (map aa_Actor ?hs)" by (auto simp: supporters_def)
  ultimately have "card (supporters a i) = length (map aa_Actor ?hs)" using distinct_card by fastforce
  then show ?thesis by (simp add: countDecisionsForStep_def)
qed

lemma supporters_authorised:
  assumes "votes_ok a" and "0 \<le> i"
  shows "supporters a i \<subseteq> set (Approvers (Steps (Chain a) ! nat i))"
  using votes_okD(3)[OF assms(1)] by (auto simp: supporters_def)


section \<open>The table of approvals\<close>

lemma kernel_only_approvals:
  fixes db db' :: "'a approval_db_scheme"
  assumes "kernel_only db db'"
  shows "approvals db' = approvals db"
proof -
  have "approvals db' = approvals (db\<lparr>events := events db', audit_log := audit_log db', audit_seq := audit_seq db'\<rparr>)"
    using assms unfolding kernel_only_def by metis
  then show ?thesis by simp
qed

lemma int_json_decodable [simp]: "unmarshal_any (int_json n) = Some (AFloat (f64_of_int n))"
  by (simp add: int_json_def)

lemma request_tx_ok:
  assumes "request_tx E now eid a by db = Inr (u, db')"
  shows "ap_key a \<notin> ap_key ` set (approvals db)"
    and "approvals db' = approvals db @ [a\<lparr>ap_Created := pg_time (ap_Created a)\<rparr>]"
    and "jsonb_law (eng_audit E) \<Longrightarrow> kernel_inv E db \<Longrightarrow> kernel_inv E db'"
proof -
  let ?db = "db\<lparr>approvals := approvals db @ [a\<lparr>ap_Created := pg_time (ap_Created a)\<rparr>]\<rparr>"
  from assms show "ap_key a \<notin> ap_key ` set (approvals db)" by (auto simp: request_tx_def split: if_splits)
  from assms have el: "emit_and_log E now eid (ap_tenant a) ''approval.requested'' (requested_payload E a by)
      by ''approval.requested'' (RecordKType a) (Some (RecordID a)) None (requested_after a) ?db = Inr db'"
    by (auto simp: request_tx_def split: if_splits elim!: map_sum_InrE)
  show "approvals db' = approvals db @ [a\<lparr>ap_Created := pg_time (ap_Created a)\<rparr>]"
    using kernel_only_approvals[OF emit_and_log_ok(1)[OF el]] by simp
  have "kernel_inv E ?db = kernel_inv E db"
    by (simp add: kernel_inv_def outbox_inv_def audit_inv_def tenant_rows_def)
  moreover have "unmarshal_any (requested_after a) \<noteq> None" by (simp add: requested_after_def)
  ultimately show "jsonb_law (eng_audit E) \<Longrightarrow> kernel_inv E db \<Longrightarrow> kernel_inv E db'"
    using emit_and_log_inv[OF _ _ el] by simp
qed

lemma RequestApproval_ok:
  assumes "RequestApproval E now aid eid t ktype rc chain by db = (Inr a, db')"
  shows "a = \<lparr>ap_ID = aid, ap_tenant = t, RecordKType = ktype, RecordID = rc,
              Chain = chain\<lparr>RequestedBy := by, CurrentStep := 0\<rparr>, ap_State = ApprovalStatePending, ap_Created = now\<rparr>"
    and "Steps chain \<noteq> []" "list_all step_valid (Steps chain)" "request_tx E now eid a by db = Inr ((), db')"
  using assms by (auto simp: RequestApproval_def Let_def tx_commit split: if_splits prod.splits sum.splits)

lemma RequestApproval_error: "RequestApproval E now aid eid t ktype rc chain by db = (Inl e, db') \<Longrightarrow> db' = db"
  by (auto simp: RequestApproval_def Let_def dest: tx_error_rolls_back split: if_splits prod.splits sum.splits)

lemma votes_ok_request:
  assumes "RequestApproval E now aid eid t ktype rc chain by db = (Inr a, db')" and "ch_History chain = []"
  shows "votes_ok (a\<lparr>ap_Created := x\<rparr>)"
  using RequestApproval_ok(1,2)[OF assms(1)] assms(2) by (simp add: votes_ok_def Let_def)

lemma loadApproval_in:
  "loadApprovalTx t aid db = Inr a \<Longrightarrow> a \<in> set (approvals db) \<and> ap_tenant a = t \<and> ap_ID a = aid"
  by (auto simp: loadApprovalTx_def dest!: find_SomeD split: option.splits)

lemma decide_keeps_identity:
  assumes "decide_approval now d actor a = Inr (a', final, ty)"
  shows "ap_ID a' = ap_ID a" "ap_tenant a' = ap_tenant a" "RecordKType a' = RecordKType a" "RecordID a' = RecordID a"
    "ap_Created a' = ap_Created a" "Steps (Chain a') = Steps (Chain a)" "ap_key a' = ap_key a"
  using decide_approval_cases(5)[OF assms] by (auto simp: ap_key_def)

lemma decide_write_ok:
  assumes "decide_write E now eid t d actor (a', final, ty) db = Inr (a'', db')"
  shows "a'' = a'" "kernel_only (update_approval a' db) db'"
    and "jsonb_law (eng_audit E) \<Longrightarrow> kernel_inv E db \<Longrightarrow> kernel_inv E db'"
    and "eng_events E \<Longrightarrow> \<exists>ev. events db' = events db @ [ev] \<and> ev_tenant ev = t \<and> ev_type ev = ty"
proof -
  from assms have el: "emit_and_log E now eid t ty (decided_payload E a' d final actor) actor (''approval.'' @ d)
      (RecordKType a') (Some (RecordID a')) None (decided_after a' d) (update_approval a' db) = Inr db'" and "a'' = a'"
    by (auto simp: decide_write_def elim!: map_sum_InrE)
  then show "a'' = a'" "kernel_only (update_approval a' db) db'" using emit_and_log_ok(1)[OF el] by auto
  have "kernel_inv E (update_approval a' db) = kernel_inv E db"
    by (simp add: kernel_inv_def outbox_inv_def audit_inv_def tenant_rows_def update_approval_def)
  moreover have "unmarshal_any (decided_after a' d) \<noteq> None" by (simp add: decided_after_def)
  ultimately show "jsonb_law (eng_audit E) \<Longrightarrow> kernel_inv E db \<Longrightarrow> kernel_inv E db'"
    using emit_and_log_inv[OF _ _ el] by simp
  show "eng_events E \<Longrightarrow> \<exists>ev. events db' = events db @ [ev] \<and> ev_tenant ev = t \<and> ev_type ev = ty"
    using emit_and_log_ok(2)[OF el] by (simp add: update_approval_def)
qed

lemma decide_tx_ok:
  assumes "decide_tx E now eid t aid d actor db = Inr (a', db')"
  obtains a final ty where "loadApprovalTx t aid db = Inr a" "decide_approval now d actor a = Inr (a', final, ty)"
    "decide_write E now eid t d actor (a', final, ty) db = Inr (a', db')"
proof -
  from assms obtain a x where l: "loadApprovalTx t aid db = Inr a" and dec: "decide_approval now d actor a = Inr x"
    and w: "decide_write E now eid t d actor x db = Inr (a', db')"
    by (auto simp: decide_tx_def rbind_eq_Inr)
  obtain a1 final ty where x: "x = (a1, final, ty)" by (metis prod_cases3)
  have "a1 = a'" using decide_write_ok(1)[OF w[unfolded x]] by simp
  with that[OF l] dec w x show ?thesis by simp
qed

lemma update_approval_rows:
  assumes "distinct (map ap_key (approvals db))" "loadApprovalTx t aid db = Inr a"
    and "ap_key a' = ap_key a"
  shows "approvals (update_approval a' db) =
    map (\<lambda>x. if x = a then a\<lparr>Chain := Chain a', ap_State := ap_State a'\<rparr> else x) (approvals db)"
proof -
  have inj: "inj_on ap_key (set (approvals db))" using assms(1) by (simp add: distinct_map)
  have "ap_tenant x = ap_tenant a' \<and> ap_ID x = ap_ID a' \<longleftrightarrow> x = a" if "x \<in> set (approvals db)" for x
    using that loadApproval_in[OF assms(2)] assms(3) inj_onD[OF inj, of x a] by (auto simp: ap_key_def)
  then show ?thesis by (simp add: update_approval_def update_rows_def)
qed

lemma decided_row:
  assumes "decide_approval now d actor a = Inr (a', final, ty)"
  shows "a\<lparr>Chain := Chain a', ap_State := ap_State a'\<rparr> = a'"
  using decide_approval_cases(5)[OF assms] by auto

lemma decide_tx_rows:
  assumes "distinct (map ap_key (approvals db))" "decide_tx E now eid t aid d actor db = Inr (a', db')"
  obtains a final ty where "loadApprovalTx t aid db = Inr a" "decide_approval now d actor a = Inr (a', final, ty)"
    "approvals db' = map (\<lambda>x. if x = a then a' else x) (approvals db)"
proof -
  obtain a final ty where l: "loadApprovalTx t aid db = Inr a" and dec: "decide_approval now d actor a = Inr (a', final, ty)"
    and w: "decide_write E now eid t d actor (a', final, ty) db = Inr (a', db')"
    using decide_tx_ok[OF assms(2)] by metis
  have "approvals db' = map (\<lambda>x. if x = a then a' else x) (approvals db)"
    using kernel_only_approvals[OF decide_write_ok(2)[OF w]] update_approval_rows[OF assms(1) l decide_keeps_identity(7)[OF dec]]
      decided_row[OF dec] by simp
  with that[OF l dec] show ?thesis by simp
qed

lemma loadApproval_update:
  assumes "loadApprovalTx t aid db = Inr a" "ap_tenant r = t" "ap_ID r = aid" "kernel_only (update_approval r db) db'"
  shows "loadApprovalTx t aid db' = Inr (a\<lparr>Chain := Chain r, ap_State := ap_State r\<rparr>)"
proof -
  let ?p = "\<lambda>x. ap_tenant x = t \<and> ap_ID x = aid"
  have "List.find ?p (approvals db) = Some a"
    using assms(1) by (simp add: loadApprovalTx_def split: option.splits)
  from find_update_rows[OF this, of "\<lambda>x. x\<lparr>Chain := Chain r, ap_State := ap_State r\<rparr>"] show ?thesis
    unfolding loadApprovalTx_def kernel_only_approvals[OF assms(4)] update_approval_def using assms(2,3) by simp
qed

lemma Decide_effect:
  assumes "Decide E now eid t aid d actor db = (r, db')"
  shows "(\<exists>e. r = Inl e \<and> db' = db)
    \<or> (\<exists>a. r = Inr a \<and> d \<in> {DecisionApprove, DecisionReject} \<and> decide_tx E now eid t aid d actor db = Inr (a, db'))"
  using assms by (auto simp: Decide_def dest!: tx_effect split: if_splits)


section \<open>Approvals as an atomic component\<close>

datatype ap_op =
    RequestOp gotime uuid uuid uuid string uuid approvalChain uuid
  | DecideOp gotime uuid uuid uuid string uuid

text \<open>\<open>F\<close> collects the approvals that were requested with a history already in them.\<close>

fun ap_step ::
  "engine \<Rightarrow> ap_op \<Rightarrow> 'a approval_db_scheme \<times> (uuid \<times> uuid) set
   \<Rightarrow> (approval_error + approval) \<times> 'a approval_db_scheme \<times> (uuid \<times> uuid) set" where
  "ap_step E (RequestOp now aid eid t ktype rc chain requestedBy) (db, F) =
     (case RequestApproval E now aid eid t ktype rc chain requestedBy db of
        (Inl e, db') \<Rightarrow> (Inl e, (db', F))
      | (Inr a, db') \<Rightarrow> (Inr a, (db', if ch_History chain = [] then F else insert (ap_key a) F)))"
| "ap_step E (DecideOp now eid t aid d actor) (db, F) =
     (case Decide E now eid t aid d actor db of (r, db') \<Rightarrow> (r, (db', F)))"

definition ap_inv :: "'a approval_db_scheme \<times> (uuid \<times> uuid) set \<Rightarrow> bool" where
  "ap_inv s \<longleftrightarrow>
     distinct (map ap_key (approvals (fst s)))
     \<and> (\<forall>a \<in> set (approvals (fst s)). ap_key a \<notin> snd s \<longrightarrow> votes_ok a)"

lemma ap_key_created [simp]: "ap_key (a\<lparr>ap_Created := x\<rparr>) = ap_key a"
  by (simp add: ap_key_def)

lemma ap_inv_request:
  assumes "ap_inv (db, F)" "RequestApproval E now aid eid t ktype rc chain by db = (Inr a, db')"
  shows "ap_inv (db', if ch_History chain = [] then F else insert (ap_key a) F)"
proof -
  note R = request_tx_ok[OF RequestApproval_ok(4)[OF assms(2)]]
  have "votes_ok (a\<lparr>ap_Created := pg_time (ap_Created a)\<rparr>)" if "ch_History chain = []"
    using votes_ok_request[OF assms(2) that] .
  with assms(1) R(1,2) show ?thesis by (auto simp: ap_inv_def)
qed

lemma ap_inv_decide:
  assumes "ap_inv (db, F)" "d \<in> {DecisionApprove, DecisionReject}" "decide_tx E now eid t aid d actor db = Inr (a', db')"
  shows "ap_inv (db', F)"
proof -
  have dist: "distinct (map ap_key (approvals db))" using assms(1) by (simp add: ap_inv_def)
  obtain a final ty where l: "loadApprovalTx t aid db = Inr a" and dec: "decide_approval now d actor a = Inr (a', final, ty)"
    and rows: "approvals db' = map (\<lambda>x. if x = a then a' else x) (approvals db)"
    by (rule decide_tx_rows[OF dist assms(3)])
  have key: "ap_key a' = ap_key a" using decide_keeps_identity(7)[OF dec] .
  have "map ap_key (approvals db') = map ap_key (approvals db)" unfolding rows by (simp add: key)
  moreover have "votes_ok a'" if "ap_key a' \<notin> F"
    using assms(1) that key loadApproval_in[OF l] votes_ok_decide[OF _ assms(2) dec] by (simp add: ap_inv_def)
  moreover have "x = a' \<or> x \<in> set (approvals db)" if "x \<in> set (approvals db')" for x
    using that unfolding rows by (auto split: if_splits)
  ultimately show ?thesis using assms(1) dist unfolding ap_inv_def by (metis fst_conv snd_conv)
qed

interpretation ap: atomic_component ap_inv "ap_step E" for E :: engine
proof
  fix s s' :: "'a approval_db_scheme \<times> (uuid \<times> uuid) set" and x a
  assume inv: "ap_inv s" and st: "ap_step E x s = (Inr a, s')"
  obtain db F where s: "s = (db, F)" by fastforce
  show "ap_inv s'"
  proof (cases x)
    case (RequestOp now aid eid t ktype rc chain req)
    then obtain db' where "RequestApproval E now aid eid t ktype rc chain req db = (Inr a, db')"
      "s' = (db', if ch_History chain = [] then F else insert (ap_key a) F)"
      using st s by (auto split: prod.split_asm sum.split_asm)
    with ap_inv_request inv s show ?thesis by blast
  next
    case (DecideOp now eid t aid d actor)
    then obtain db' where d: "Decide E now eid t aid d actor db = (Inr a, db')" "s' = (db', F)"
      using st s by (auto split: prod.split_asm)
    from Decide_effect[OF d(1)] d(2) inv s ap_inv_decide show ?thesis by blast
  qed
next
  fix s s' :: "'a approval_db_scheme \<times> (uuid \<times> uuid) set" and x e
  assume st: "ap_step E x s = (Inl e, s')"
  obtain db F where s: "s = (db, F)" by fastforce
  show "s' = s"
  proof (cases x)
    case (RequestOp now aid eid t ktype rc chain req)
    with st s show ?thesis by (auto dest: RequestApproval_error split: prod.split_asm sum.split_asm)
  next
    case (DecideOp now eid t aid d actor)
    with st s show ?thesis by (auto dest: Decide_effect split: prod.split_asm)
  qed
qed

definition ap_run :: "engine \<Rightarrow> ap_op list \<Rightarrow> 'a approval_db_scheme \<times> (uuid \<times> uuid) set \<Rightarrow> 'a approval_db_scheme \<times> (uuid \<times> uuid) set" where
  "ap_run E xs s = fold (\<lambda>x s. snd (ap_step E x s)) xs s"

lemma ap_run_exec: "ap_run E xs s = fold (ap.exec E) xs s"
  unfolding ap_run_def by (rule fold_cong) (auto simp: ap.exec_def)

text \<open>A finalised approval stays in the table as it is.\<close>

lemma final_step:
  assumes "ap_inv s" "a \<in> set (approvals (fst s))" "ap_State a \<noteq> ApprovalStatePending"
  shows "a \<in> set (approvals (fst (snd (ap_step E x s))))"
proof -
  obtain db F where s: "s = (db, F)" by fastforce
  have dist: "distinct (map ap_key (approvals db))" using assms(1) s by (simp add: ap_inv_def)
  show ?thesis
  proof (cases x)
    case (RequestOp now aid eid t ktype rc chain req)
    obtain r db' where r: "RequestApproval E now aid eid t ktype rc chain req db = (r, db')" by fastforce
    show ?thesis
    proof (cases r)
      case (Inl e)
      with r RequestApproval_error have "db' = db" by blast
      with Inl r assms(2) s RequestOp show ?thesis by simp
    next
      case (Inr b)
      with r have "set (approvals db) \<subseteq> set (approvals db')"
        using request_tx_ok(2)[OF RequestApproval_ok(4)[OF r[unfolded Inr]]] by auto
      with Inr r assms(2) s RequestOp show ?thesis by auto
    qed
  next
    case (DecideOp now eid t aid d actor)
    obtain r db' where r: "Decide E now eid t aid d actor db = (r, db')" by fastforce
    from Decide_effect[OF r] show ?thesis
    proof (elim disjE exE conjE)
      fix a' assume tx: "decide_tx E now eid t aid d actor db = Inr (a', db')"
      obtain b final ty where "loadApprovalTx t aid db = Inr b"
        and dec: "decide_approval now d actor b = Inr (a', final, ty)"
        and rows: "approvals db' = map (\<lambda>x. if x = b then a' else x) (approvals db)"
        by (rule decide_tx_rows[OF dist tx])
      have "a \<noteq> b" using decide_approval_cases(1)[OF dec] assms(3) by auto
      then have "a \<in> set (approvals db')" using assms(2) s by (auto simp: image_iff rows)
      then show ?thesis using s r DecideOp by simp
    qed (use assms(2) s r DecideOp in auto)
  qed
qed


section \<open>Examples\<close>

definition vote :: "int \<Rightarrow> uuid \<Rightarrow> string \<Rightarrow> approvalAction" where
  "vote i u d = \<lparr>StepIndex = i, aa_Actor = u, Decision = d, aa_Timestamp = 0\<rparr>"

definition both_of :: "uuid list \<Rightarrow> approvalStep" where
  "both_of us = \<lparr>Approvers = us, RequiredCount = 0, Timeout = 0\<rparr>"

definition one_step :: "uuid list \<Rightarrow> approvalAction list \<Rightarrow> approvalChain" where
  "one_step us hist = \<lparr>RequestedBy = 0, CurrentStep = 0, Steps = [both_of us], ch_History = hist\<rparr>"

definition empty_ap :: approval_db where
  "empty_ap = \<lparr>tenants = [], events = [], audit_log = [], audit_seq = 1, workflows = [], workflow_runs = [], approvals = []\<rparr>"

lemma ap_inv_empty: "ap_inv (empty_ap, {})"
  by (simp add: ap_inv_def empty_ap_def)

text \<open>Approval 60 of tenant 1 needs users 7 and 8.\<close>

definition request_op :: "approvalAction list \<Rightarrow> ap_op" where
  "request_op hist = RequestOp 1000 60 61 1 ''finance.bill'' 50 (one_step [7, 8] hist) 5"

definition requested :: "approvalAction list \<Rightarrow> approval_db \<times> (uuid \<times> uuid) set" where
  "requested hist = ap_run toy_engine [request_op hist] (empty_ap, {})"

lemma approved_states:
  "map ap_State (approvals (fst (ap_run toy_engine
     [DecideOp 2000 62 1 60 ''approve'' 7, DecideOp 3000 63 1 60 ''approve'' 8] (requested [])))) = [''approved'']"
  "map ap_State (approvals (fst (ap_run toy_engine
     [DecideOp 2000 62 1 60 ''approve'' 7, DecideOp 3000 63 1 60 ''approve'' 7] (requested [])))) = [''pending'']"
  by code_simp+


section \<open>Properties\<close>

text \<open>
  C3: No approval without its quorum. After any sequence of requests and decisions, an approved
  approval that was requested with an empty history has, for every step, at least the required
  number of different approvers of that step who approved (all of them when the count is 0)
  and no rejection; a rejected one has a rejection by an approver of the step it was made in.
\<close>

theorem approved_needs_quorum:
  assumes "ap_inv s" and "ap_run E xs s = (db, F)" and "a \<in> set (approvals db)" and "ap_key a \<notin> F"
  shows "(ap_State a = ApprovalStateApproved \<longrightarrow>
       (\<forall>i. 0 \<le> i \<and> i < int (length (Steps (Chain a))) \<longrightarrow>
          supporters a i \<subseteq> set (Approvers (Steps (Chain a) ! nat i))
          \<and> required_of (Steps (Chain a) ! nat i) \<le> int (card (supporters a i)))
       \<and> (\<forall>h \<in> set (ch_History (Chain a)). Decision h \<noteq> DecisionReject))
    \<and> (ap_State a = ApprovalStateRejected \<longrightarrow>
         (\<exists>h \<in> set (ch_History (Chain a)). Decision h = DecisionReject
            \<and> aa_Actor h \<in> set (Approvers (Steps (Chain a) ! nat (StepIndex h)))))"
proof -
  have "ap_inv (db, F)" using ap.run_keeps[OF assms(1), of E xs] assms(2) by (simp add: ap_run_exec)
  with assms(3,4) have v: "votes_ok a" by (simp add: ap_inv_def)
  note V = votes_okD[OF v]
  have "supporters a i \<subseteq> set (Approvers (Steps (Chain a) ! nat i))
      \<and> required_of (Steps (Chain a) ! nat i) \<le> int (card (supporters a i))"
    if "ap_State a = ApprovalStateApproved" "0 \<le> i" "i < int (length (Steps (Chain a)))" for i
    using V(5)[of i] V(7) that supporters_authorised[OF v] card_supporters[OF v] by auto
  moreover have "Decision h \<noteq> DecisionReject"
    if "ap_State a = ApprovalStateApproved" "h \<in> set (ch_History (Chain a))" for h
    using V(8)[of h] that by auto
  ultimately show ?thesis using V(3,10) by blast
qed

theorem approved_needs_quorum_witness:
  "\<exists>db F a. ap_run toy_engine [DecideOp 2000 62 1 60 ''approve'' 7, DecideOp 3000 63 1 60 ''approve'' 8] (requested []) = (db, F)
     \<and> approvals db = [a] \<and> ap_State a = ApprovalStateApproved \<and> 2 \<le> card (supporters a 0)"
proof -
  let ?xs = "[DecideOp 2000 62 1 60 ''approve'' 7, DecideOp 3000 63 1 60 ''approve'' 8]"
  obtain db F where r: "ap_run toy_engine ?xs (requested []) = (db, F)" by fastforce
  have inv: "ap_inv (requested [])"
    using ap.run_keeps[OF ap_inv_empty, of toy_engine "[request_op []]"] by (simp add: requested_def ap_run_exec)
  have "map (\<lambda>a. (ap_State a, Steps (Chain a))) (approvals (fst (ap_run toy_engine ?xs (requested [])))) = [(''approved'', [both_of [7, 8]])]"
    by code_simp
  then obtain a where a: "approvals db = [a]" "ap_State a = ''approved''" "Steps (Chain a) = [both_of [7, 8]]"
    unfolding r by (auto simp: map_eq_Cons_conv)
  have F: "snd (ap_run toy_engine ?xs (requested [])) = {}"
    by (auto simp: ap_run_def requested_def request_op_def one_step_def split: prod.splits sum.splits)
  have "required_of (both_of [7, 8]) = 2" by code_simp
  with approved_needs_quorum[OF inv r, of a] a F r show ?thesis
    by (auto simp: approval_consts)
qed

text \<open>
  Final decisions stay. An approval that is approved or rejected is never changed again by any
  sequence of requests and decisions.
\<close>

theorem final_is_final:
  assumes "ap_inv s" and "a \<in> set (approvals (fst s))" and "ap_State a \<noteq> ApprovalStatePending"
  shows "a \<in> set (approvals (fst (ap_run E xs s)))"
  using assms
proof (induction xs arbitrary: s)
  case (Cons x xs)
  have "ap_inv (snd (ap_step E x s))" using ap.exec_keeps[OF Cons.prems(1), of E x] by (simp add: ap.exec_def)
  from Cons.IH[OF this final_step[OF Cons.prems] Cons.prems(3)] show ?case by (simp add: ap_run_def)
qed (simp add: ap_run_def)

theorem final_is_final_witness:
  "\<exists>a. ap_State a = ''rejected''
     \<and> a \<in> set (approvals (fst (ap_run toy_engine [DecideOp 3000 63 1 60 ''approve'' 8]
                 (ap_run toy_engine [DecideOp 2000 62 1 60 ''reject'' 7] (requested [])))))"
proof -
  let ?s = "ap_run toy_engine [DecideOp 2000 62 1 60 ''reject'' 7] (requested [])"
  have inv: "ap_inv ?s"
    using ap.run_keeps[OF ap.run_keeps[OF ap_inv_empty, of toy_engine "[request_op []]"], of toy_engine "[DecideOp 2000 62 1 60 ''reject'' 7]"]
    by (simp add: requested_def ap_run_exec)
  have "map ap_State (approvals (fst ?s)) = [''rejected'']" by code_simp
  then obtain a where a: "approvals (fst ?s) = [a]" "ap_State a = ''rejected''" by (auto simp: map_eq_Cons_conv)
  with final_is_final[OF inv, of a toy_engine "[DecideOp 3000 63 1 60 ''approve'' 8]"] show ?thesis
    by (auto simp: approval_consts)
qed

text \<open>
  The history is taken from the request. A chain submitted with a forged approval of user 8
  in its history, which needs both 7 and 8, is approved by the decision of user 7 alone.
\<close>

theorem forged_history_counts:
  "map ap_State (approvals (fst (ap_run toy_engine [DecideOp 2000 62 1 60 ''approve'' 7] (requested [vote 0 8 ''approve''])))) = [''approved'']
   \<and> map ap_State (approvals (fst (ap_run toy_engine [DecideOp 2000 62 1 60 ''approve'' 7] (requested [])))) = [''pending'']"
  by code_simp

text \<open>
  A step that asks for all approvers (count 0) and names one of them twice can never be
  passed: an approval with such a step is never approved.
\<close>

theorem repeated_approver_blocks:
  assumes "ap_inv s" and "ap_run E xs s = (db, F)" and "a \<in> set (approvals db)" and "ap_key a \<notin> F"
    and "step \<in> set (Steps (Chain a))" and "RequiredCount step = 0" and "\<not> distinct (Approvers step)"
  shows "ap_State a \<noteq> ApprovalStateApproved"
proof
  assume ap: "ap_State a = ApprovalStateApproved"
  have "ap_inv (db, F)" using ap.run_keeps[OF assms(1), of E xs] assms(2) by (simp add: ap_run_exec)
  with assms(3,4) have v: "votes_ok a" by (simp add: ap_inv_def)
  obtain i where i: "i < length (Steps (Chain a))" "step = Steps (Chain a) ! i"
    using assms(5) by (metis in_set_conv_nth)
  have "int (length (Approvers step)) \<le> int (card (supporters a (int i)))"
    using votes_okD(5)[OF v, of "int i"] votes_okD(7)[OF v ap] i assms(6) card_supporters[OF v]
    by (simp add: required_of_def)
  moreover have "card (supporters a (int i)) \<le> card (set (Approvers step))"
    using supporters_authorised[OF v, of "int i"] i by (auto intro: card_mono)
  ultimately have "card (set (Approvers step)) = length (Approvers step)"
    using card_length[of "Approvers step"] by linarith
  with assms(7) card_distinct show False by blast
qed

theorem repeated_approver_blocks_witness:
  "\<exists>db F a. ap_run toy_engine [RequestOp 1000 60 61 1 ''finance.bill'' 50 (one_step [7, 7] []) 5, DecideOp 2000 62 1 60 ''approve'' 7]
       (empty_ap, {}) = (db, F) \<and> approvals db = [a] \<and> ap_State a \<noteq> ApprovalStateApproved"
proof -
  let ?xs = "[RequestOp 1000 60 61 1 ''finance.bill'' 50 (one_step [7, 7] []) 5, DecideOp 2000 62 1 60 ''approve'' 7]"
  obtain db F where r: "ap_run toy_engine ?xs (empty_ap, {}) = (db, F)" by fastforce
  have "map (\<lambda>a. Steps (Chain a)) (approvals (fst (ap_run toy_engine ?xs (empty_ap, {})))) = [[both_of [7, 7]]]"
    by code_simp
  then obtain a where a: "approvals db = [a]" "Steps (Chain a) = [both_of [7, 7]]" unfolding r by (auto simp: map_eq_Cons_conv)
  have "snd (ap_run toy_engine ?xs (empty_ap, {})) = {}"
    by (auto simp: ap_run_def one_step_def split: prod.splits sum.splits)
  with a r repeated_approver_blocks[OF ap_inv_empty r, of a "both_of [7, 7]"] show ?thesis
    by (auto simp: both_of_def)
qed

text \<open>
  A concurrent approval can undo a rejection. When an approver reads a pending approval,
  another approver's rejection commits, and the first one then writes, the approval is back to
  what the first one computed: the rejection is no longer in the table.
\<close>

theorem concurrent_reject_lost:
  assumes "distinct (map ap_key (approvals db))" and "loadApprovalTx t aid db = Inr a"
    and "decide_approval now DecisionApprove actor a = Inr x"
    and "decide_tx E now2 eid2 t aid DecisionReject actor2 db = Inr (rejected, db2)"
    and "decide_write E now eid t DecisionApprove actor x db2 = Inr (a', db')"
  shows "ap_State rejected = ApprovalStateRejected \<and> loadApprovalTx t aid db' = Inr a'
    \<and> ap_State a' \<noteq> ApprovalStateRejected
    \<and> (\<exists>h. ch_History (Chain a') = ch_History (Chain a) @ [h] \<and> aa_Actor h = actor \<and> Decision h = DecisionApprove)"
proof -
  obtain a1 final ty where x: "x = (a1, final, ty)" by (metis prod_cases3)
  note dec = assms(3)[unfolded x] and w = decide_write_ok[OF assms(5)[unfolded x]]
  obtain b f2 ty2 where b: "loadApprovalTx t aid db = Inr b"
    and dec2: "decide_approval now2 DecisionReject actor2 b = Inr (rejected, f2, ty2)"
    and w2: "decide_write E now2 eid2 t DecisionReject actor2 (rejected, f2, ty2) db = Inr (rejected, db2)"
    by (rule decide_tx_ok[OF assms(4)])
  have ba: "b = a" using b assms(2) by simp
  have id2: "ap_tenant rejected = t" "ap_ID rejected = aid" and id1: "ap_tenant a1 = t" "ap_ID a1 = aid"
    using decide_keeps_identity[OF dec2] decide_keeps_identity[OF dec] loadApproval_in[OF b] ba by auto
  have "loadApprovalTx t aid db' = Inr (a\<lparr>Chain := Chain a1, ap_State := ap_State a1\<rparr>)"
    using loadApproval_update[OF loadApproval_update[OF b id2 decide_write_ok(2)[OF w2]] id1 w(2)] ba by simp
  then have "loadApprovalTx t aid db' = Inr a'" using decided_row[OF dec] w(1) by simp
  moreover have "ap_State rejected = ApprovalStateRejected" using decide_approval_cases(5)[OF dec2] by auto
  moreover have "ap_State a1 \<noteq> ApprovalStateRejected
      \<and> (\<exists>h. ch_History (Chain a1) = ch_History (Chain a) @ [h] \<and> aa_Actor h = actor \<and> Decision h = DecisionApprove)"
    using decide_approval_cases(1,5)[OF dec] by auto
  ultimately show ?thesis using w(1) by simp
qed

theorem concurrent_reject_lost_witness:
  "\<exists>a x rejected db2 a' db'. loadApprovalTx 1 60 (fst (requested [])) = Inr a
     \<and> decide_approval 2000 DecisionApprove 7 a = Inr x
     \<and> decide_tx toy_engine 1500 62 1 60 DecisionReject 8 (fst (requested [])) = Inr (rejected, db2)
     \<and> decide_write toy_engine 2000 63 1 DecisionApprove 7 x db2 = Inr (a', db')
     \<and> ap_State rejected = ''rejected'' \<and> map_sum id ap_State (loadApprovalTx 1 60 db') = Inr ''pending''"
proof -
  have "rbind (loadApprovalTx 1 60 (fst (requested []))) (\<lambda>a.
      rbind (decide_approval 2000 DecisionApprove 7 a) (\<lambda>x.
      rbind (decide_tx toy_engine 1500 62 1 60 DecisionReject 8 (fst (requested []))) (\<lambda>y.
      rbind (decide_write toy_engine 2000 63 1 DecisionApprove 7 x (snd y)) (\<lambda>z. Inr (ap_State (fst z)))))) = Inr ''pending''"
    by code_simp
  then obtain a x rejected db2 a' db' where r: "loadApprovalTx 1 60 (fst (requested [])) = Inr a"
    "decide_approval 2000 DecisionApprove 7 a = Inr x"
    "decide_tx toy_engine 1500 62 1 60 DecisionReject 8 (fst (requested [])) = Inr (rejected, db2)"
    "decide_write toy_engine 2000 63 1 DecisionApprove 7 x db2 = Inr (a', db')" and st: "ap_State a' = ''pending''"
    by (auto simp: rbind_eq_Inr)
  have "distinct (map ap_key (approvals (fst (requested []))))" by code_simp
  from concurrent_reject_lost[OF this r] have "ap_State rejected = ''rejected''" "loadApprovalTx 1 60 db' = Inr a'"
    by (auto simp: ApprovalStateRejected_def)
  with r st show ?thesis by (intro exI conjI) auto
qed

end
