(* ===== verification/Ledger_Currency.thy ===== *)
theory Ledger_Currency
  imports Approvals
begin

text \<open>
  The tables of the finance ledger and the exchange-rate store (internal/ledger/types.go,
  internal/ledger/currency.go).

  \<open>decimal.Decimal\<close> of shopspring is a rational number: addition, subtraction and multiplication are
  exact there; division rounds and is a parameter, as is the text of a decimal. A NUMERIC(p, s)
  column rounds to s decimals, ties away from zero, and refuses more than p - s digits before the
  point. A DATE column keeps the day; all times are in UTC. Text is ordered by its bytes.
\<close>

section \<open>Decimals and dates\<close>

type_synonym decimal = rat

record decimal_lib =
  dec_div :: "decimal \<Rightarrow> decimal \<Rightarrow> decimal"
  dec_string :: "decimal \<Rightarrow> string"

definition round_dec :: "nat \<Rightarrow> decimal \<Rightarrow> decimal" where
  "round_dec s x = sgn x * of_int \<lfloor>\<bar>x\<bar> * 10 ^ s + 1 / 2\<rfloor> / 10 ^ s"

definition pg_numeric :: "nat \<Rightarrow> nat \<Rightarrow> decimal \<Rightarrow> decimal option" where
  "pg_numeric p s x = (let y = round_dec s x in if \<bar>y\<bar> < 10 ^ (p - s) then Some y else None)"

definition day_ns :: int where
  "day_ns = 86400 * 1000000000"

text \<open>\<open>Truncate(24 * time.Hour)\<close>, and the value a DATE column returns.\<close>

definition Truncate_day :: "gotime \<Rightarrow> gotime" where
  "Truncate_day t = t div day_ns * day_ns"

text \<open>The number of characters of a text in UTF-8.\<close>

definition char_length :: "string \<Rightarrow> nat" where
  "char_length s = length (filter (\<lambda>c. \<not> (CHR 0x80 \<le> c \<and> c < CHR 0xC0)) s)"


section \<open>Tables\<close>

record account =
  ac_tenant :: uuid
  ac_Code :: string
  ac_Name :: string
  ac_Type :: string
  ParentCode :: string
  ac_Active :: bool

record journalLine =
  jl_ID :: int
  jl_tenant :: uuid
  EntryID :: uuid
  AccountCode :: string
  Debit :: decimal
  Credit :: decimal
  jl_Currency :: string
  jl_Memo :: string
  BaseAmount :: "decimal option"

record journalEntry =
  je_ID :: uuid
  je_tenant :: uuid
  PostedAt :: gotime
  je_Memo :: string
  SourceKType :: string
  SourceID :: "uuid option"
  je_CreatedBy :: uuid
  je_CreatedAt :: gotime
  Lines :: "journalLine list"

record fiscalPeriod =
  fp_tenant :: uuid
  PeriodStart :: gotime
  PeriodEnd :: gotime
  Locked :: bool
  LockedAt :: "gotime option"
  LockedBy :: "uuid option"

record exchangeRate =
  er_tenant :: uuid
  FromCurrency :: string
  ToCurrency :: string
  RateDate :: gotime
  Rate :: decimal
  Provider :: string
  er_CreatedBy :: "uuid option"
  er_CreatedAt :: gotime
  er_UpdatedAt :: gotime

text \<open>Rows whose columns differ from the struct: a NULL memo, source type or parent code.\<close>

record account_row =
  acr_tenant :: uuid
  acr_code :: string
  acr_name :: string
  acr_type :: string
  acr_parent :: "string option"
  acr_active :: bool

record entry_row =
  jer_id :: uuid
  jer_tenant :: uuid
  jer_posted :: gotime
  jer_memo :: "string option"
  jer_ktype :: "string option"
  jer_source :: "uuid option"
  jer_by :: uuid
  jer_created :: gotime

record line_row =
  jlr_id :: int
  jlr_tenant :: uuid
  jlr_entry :: uuid
  jlr_account :: string
  jlr_debit :: decimal
  jlr_credit :: decimal
  jlr_currency :: string
  jlr_memo :: "string option"
  jlr_base :: "decimal option"

text \<open>\<open>base_currencies\<close> is the column of that name of the table \<open>tenants\<close>.\<close>

record ledger_db = approval_db +
  base_currencies :: "(uuid \<times> string) list"
  accounts :: "account_row list"
  journal_entries :: "entry_row list"
  journal_lines :: "line_row list"
  line_seq :: int
  fiscal_periods :: "fiscalPeriod list"
  exchange_rates :: "exchangeRate list"

datatype ledger_error =
    LedgerArgs
  | LedgerTxTenant
  | InvalidAccountType
  | ErrAccountNotFound
  | ErrEntryNotFound
  | ErrUnbalancedEntry
  | ErrEmptyEntry
  | ErrInactiveAccount
  | ErrInvalidLine
  | ErrPeriodLocked
  | ErrPeriodNotFound
  | ErrCurrencyMismatch
  | ErrDuplicateSourceEntry
  | ErrExchangeRateNotFound
  | ErrInvalidCurrency
  | SameCurrency
  | RateNotPositive
  | PeriodBounds
  | NumericOverflow
  | ForeignKeyViolation
  | OffsetNegative
  | LedgerKernel kernel_error


definition numeric_column :: "nat \<Rightarrow> nat \<Rightarrow> decimal \<Rightarrow> ledger_error + decimal" where
  "numeric_column p s x = (case pg_numeric p s x of None \<Rightarrow> Inl NumericOverflow | Some y \<Rightarrow> Inr y)"


section \<open>Exchange rates\<close>

definition validateCurrencyPair :: "string \<Rightarrow> string \<Rightarrow> ledger_error + unit" where
  "validateCurrencyPair from to =
     (if length from \<noteq> 3 \<or> length to \<noteq> 3 then Inl ErrInvalidCurrency
      else if from = to then Inl SameCurrency
      else Inr ())"

definition er_key :: "exchangeRate \<Rightarrow> uuid \<times> string \<times> string \<times> gotime" where
  "er_key r = (er_tenant r, FromCurrency r, ToCurrency r, RateDate r)"

definition upsert_rate_row :: "gotime \<Rightarrow> exchangeRate \<Rightarrow> exchangeRate list \<Rightarrow> exchangeRate list" where
  "upsert_rate_row now r rows =
     (if er_key r \<in> set (map er_key rows)
      then update_rows (\<lambda>x. er_key x = er_key r) (\<lambda>x. x\<lparr>Rate := Rate r, Provider := Provider r, er_UpdatedAt := now\<rparr>) rows
      else rows @ [r\<lparr>er_CreatedAt := now, er_UpdatedAt := now\<rparr>])"

text \<open>The statement of \<open>UpsertRate\<close> with the checks of the table: foreign key, lengths, NUMERIC(20,10), positive rate.\<close>

definition upsert_rate_tx :: "gotime \<Rightarrow> exchangeRate \<Rightarrow> 'a ledger_db_scheme \<Rightarrow> ledger_error + exchangeRate \<times> 'a ledger_db_scheme" where
  "upsert_rate_tx now rate db =
     (if er_tenant rate \<notin> set (map fst (tenants db)) then Inl ForeignKeyViolation
      else if char_length (FromCurrency rate) \<noteq> 3 \<or> char_length (ToCurrency rate) \<noteq> 3 then Inl (LedgerKernel CheckViolation)
      else case pg_numeric 20 10 (Rate rate) of
             None \<Rightarrow> Inl NumericOverflow
           | Some q \<Rightarrow>
               if q \<le> 0 then Inl (LedgerKernel CheckViolation)
               else let rows = upsert_rate_row (pg_time now) (rate\<lparr>Rate := q\<rparr>) (exchange_rates db);
                        db' = db\<lparr>exchange_rates := rows\<rparr>
                    in case List.find (\<lambda>x. er_key x = er_key rate) rows of
                         None \<Rightarrow> Inl ErrExchangeRateNotFound
                       | Some x \<Rightarrow> Inr (rate\<lparr>er_CreatedAt := er_CreatedAt x, er_UpdatedAt := er_UpdatedAt x\<rparr>, db'))"

definition UpsertRate :: "gotime \<Rightarrow> exchangeRate \<Rightarrow> 'a ledger_db_scheme \<Rightarrow> (ledger_error + exchangeRate) \<times> 'a ledger_db_scheme" where
  "UpsertRate now rate db =
     (if er_tenant rate = 0 then (Inl LedgerArgs, db)
      else case validateCurrencyPair (FromCurrency rate) (ToCurrency rate) of
             Inl e \<Rightarrow> (Inl e, db)
           | Inr _ \<Rightarrow>
               if Rate rate \<le> 0 then (Inl RateNotPositive, db)
               else let rate1 = (if RateDate rate = 0 then rate\<lparr>RateDate := now\<rparr> else rate);
                        rate2 = rate1\<lparr>RateDate := Truncate_day (RateDate rate1)\<rparr>
                    in WithTenantTx LedgerTxTenant (er_tenant rate2) (upsert_rate_tx now rate2) db)"

text \<open>\<open>ORDER BY rate_date DESC LIMIT 1\<close>.\<close>

definition latest_rate :: "uuid \<Rightarrow> string \<Rightarrow> string \<Rightarrow> gotime \<Rightarrow> 'a ledger_db_scheme \<Rightarrow> exchangeRate option" where
  "latest_rate t from to asOf db =
     (let rows = sort_key RateDate (filter (\<lambda>r. er_tenant r = t \<and> FromCurrency r = from \<and> ToCurrency r = to
                                              \<and> RateDate r \<le> asOf) (exchange_rates db))
      in if rows = [] then None else Some (last rows))"

definition get_rate_tx :: "decimal_lib \<Rightarrow> uuid \<Rightarrow> string \<Rightarrow> string \<Rightarrow> gotime \<Rightarrow> 'a ledger_db_scheme \<Rightarrow> ledger_error + decimal \<times> 'a ledger_db_scheme" where
  "get_rate_tx D t from to asOf db =
     (case latest_rate t from to asOf db of
        Some r \<Rightarrow> Inr (Rate r, db)
      | None \<Rightarrow>
          (case latest_rate t to from asOf db of
             None \<Rightarrow> Inl ErrExchangeRateNotFound
           | Some r \<Rightarrow> if Rate r \<le> 0 then Inl ErrExchangeRateNotFound else Inr (dec_div D 1 (Rate r), db)))"

definition GetRate :: "decimal_lib \<Rightarrow> gotime \<Rightarrow> uuid \<Rightarrow> string \<Rightarrow> string \<Rightarrow> gotime \<Rightarrow> 'a ledger_db_scheme \<Rightarrow> ledger_error + decimal" where
  "GetRate D now t from to asOf db =
     (if t = 0 then Inl LedgerArgs
      else if from = to then (if length from \<noteq> 3 then Inl ErrInvalidCurrency else Inr 1)
      else rbind (validateCurrencyPair from to) (\<lambda>_.
             let asOf1 = Truncate_day (if asOf = 0 then now else asOf)
             in fst (WithTenantTx LedgerTxTenant t (get_rate_tx D t from to asOf1) db)))"

definition Convert :: "decimal_lib \<Rightarrow> gotime \<Rightarrow> uuid \<Rightarrow> decimal \<Rightarrow> string \<Rightarrow> string \<Rightarrow> gotime \<Rightarrow> 'a ledger_db_scheme \<Rightarrow> ledger_error + decimal" where
  "Convert D now t amount from to asOf db =
     (if from = to then (if length from \<noteq> 3 then Inl ErrInvalidCurrency else Inr amount)
      else rbind (GetRate D now t from to asOf db) (\<lambda>rate. Inr (amount * rate)))"

text \<open>Newest first; rows of equal date in table order.\<close>

definition ListRates :: "uuid \<Rightarrow> string \<Rightarrow> string \<Rightarrow> int \<Rightarrow> 'a ledger_db_scheme \<Rightarrow> ledger_error + exchangeRate list" where
  "ListRates t from to limit db =
     (if t = 0 then Inl LedgerArgs
      else let limit1 = (if limit \<le> 0 \<or> limit > 1000 then 200 else limit)
           in fst (WithTenantTx LedgerTxTenant t (\<lambda>db.
                if from \<noteq> [] \<or> to \<noteq> []
                then rbind (validateCurrencyPair from to) (\<lambda>_.
                       Inr (take (nat limit1) (sort_key (\<lambda>r. - RateDate r)
                              (filter (\<lambda>r. er_tenant r = t \<and> FromCurrency r = from \<and> ToCurrency r = to) (exchange_rates db))), db))
                else Inr (take (nat limit1) (sort_key (\<lambda>r. - RateDate r) (filter (\<lambda>r. er_tenant r = t) (exchange_rates db))), db)) db))"

definition UnrealizedGainLoss ::
  "decimal_lib \<Rightarrow> gotime \<Rightarrow> uuid \<Rightarrow> decimal \<Rightarrow> string \<Rightarrow> string \<Rightarrow> decimal \<Rightarrow> gotime \<Rightarrow> 'a ledger_db_scheme \<Rightarrow> ledger_error + decimal" where
  "UnrealizedGainLoss D now t foreignAmount foreignCurrency functionalCurrency originalRate asOf db =
     (if originalRate \<le> 0 then Inl RateNotPositive
      else rbind (GetRate D now t foreignCurrency functionalCurrency asOf db) (\<lambda>currentRate.
             Inr (foreignAmount * currentRate - foreignAmount * originalRate)))"


section \<open>Rounding\<close>

definition scaled :: "nat \<Rightarrow> decimal \<Rightarrow> bool" where
  "scaled s x \<longleftrightarrow> x * 10 ^ s \<in> \<int>"

lemma scaled_code [code]: "scaled s x \<longleftrightarrow> of_int \<lfloor>x * 10 ^ s\<rfloor> = x * 10 ^ s"
  unfolding scaled_def by (auto simp: Ints_def)

lemma round_dec_0 [simp]: "round_dec s 0 = 0"
  by (simp add: round_dec_def)

lemma round_dec_nonneg: "0 \<le> x \<Longrightarrow> 0 \<le> round_dec s x"
  by (cases "x = 0") (auto simp: round_dec_def intro!: divide_nonneg_nonneg)

lemma round_dec_error:
  assumes "0 \<le> x"
  shows "\<bar>round_dec s x - x\<bar> \<le> 1 / (2 * 10 ^ s)"
proof (cases "x = 0")
  case False
  with assms have "0 < x" by simp
  then have eq: "round_dec s x = of_int \<lfloor>x * 10 ^ s + 1 / 2\<rfloor> / 10 ^ s" by (simp add: round_dec_def)
  have le: "\<bar>of_int \<lfloor>x * 10 ^ s + 1 / 2\<rfloor> - x * 10 ^ s\<bar> \<le> (1 / 2 :: rat)" by linarith
  have "round_dec s x - x = (of_int \<lfloor>x * 10 ^ s + 1 / 2\<rfloor> - x * 10 ^ s) / 10 ^ s"
    unfolding eq by (simp add: field_simps)
  then have "\<bar>round_dec s x - x\<bar> = \<bar>of_int \<lfloor>x * 10 ^ s + 1 / 2\<rfloor> - x * 10 ^ s\<bar> / 10 ^ s" by (simp only: abs_divide) simp
  also have "\<dots> \<le> (1 / 2) / 10 ^ s" using le by (intro divide_right_mono) simp_all
  finally show ?thesis by simp
qed simp

lemma round_dec_scaled: "0 \<le> x \<Longrightarrow> scaled s x \<Longrightarrow> round_dec s x = x"
proof -
  assume "0 \<le> x" "scaled s x"
  then obtain k :: int where k: "x * 10 ^ s = of_int k" by (auto simp: scaled_def Ints_def)
  have "\<lfloor>x * 10 ^ s + 1 / 2\<rfloor> = k" unfolding k by linarith
  with \<open>0 \<le> x\<close> have "round_dec s x = (if x = 0 then 0 else of_int k / 10 ^ s)" by (simp add: round_dec_def)
  then show ?thesis using k by (auto simp: field_simps)
qed

lemma pg_numeric_Some: "pg_numeric p s x = Some y \<longleftrightarrow> y = round_dec s x \<and> \<bar>y\<bar> < 10 ^ (p - s)"
  by (auto simp: pg_numeric_def Let_def)

lemma numeric_column_ok: "numeric_column p s x = Inr y \<longleftrightarrow> y = round_dec s x \<and> \<bar>y\<bar> < 10 ^ (p - s)"
  by (auto simp: numeric_column_def pg_numeric_def Let_def)

lemma Truncate_day_le: "Truncate_day t \<le> t"
proof -
  have "t div day_ns * day_ns = t - t mod day_ns" using minus_mod_eq_div_mult by metis
  moreover have "0 \<le> t mod day_ns" by (simp add: day_ns_def)
  ultimately show ?thesis by (simp add: Truncate_day_def)
qed

lemma Truncate_day_mono: "t \<le> u \<Longrightarrow> Truncate_day t \<le> Truncate_day u"
  by (simp add: Truncate_day_def day_ns_def zdiv_mono1)

lemma Truncate_day_idem [simp]: "Truncate_day (Truncate_day t) = Truncate_day t"
  by (simp add: Truncate_day_def day_ns_def)


section \<open>The rate table\<close>

definition rates_inv :: "'a ledger_db_scheme \<Rightarrow> bool" where
  "rates_inv db \<longleftrightarrow>
     distinct (map er_key (exchange_rates db))
     \<and> (\<forall>r \<in> set (exchange_rates db). 0 < Rate r \<and> FromCurrency r \<noteq> ToCurrency r \<and> length (FromCurrency r) = 3
          \<and> length (ToCurrency r) = 3 \<and> Truncate_day (RateDate r) = RateDate r)"

lemma er_key_upd [simp]:
  "er_key (r\<lparr>Rate := x\<rparr>) = er_key r" "er_key (r\<lparr>Provider := pv\<rparr>) = er_key r"
  "er_key (r\<lparr>er_UpdatedAt := u\<rparr>) = er_key r" "er_key (r\<lparr>er_CreatedAt := u\<rparr>) = er_key r"
  by (simp_all add: er_key_def)

lemma upsert_rate_row_keys:
  "map er_key (upsert_rate_row now r rows) =
     (if er_key r \<in> set (map er_key rows) then map er_key rows else map er_key rows @ [er_key r])"
  by (simp add: upsert_rate_row_def map_update_rows)

lemma upsert_rate_row_set:
  assumes "x \<in> set (upsert_rate_row now r rows)"
  obtains "x \<in> set rows" "er_key x \<noteq> er_key r"
  | "er_key x = er_key r" "Rate x = Rate r" "Provider x = Provider r"
proof (cases "er_key x = er_key r")
  case True
  show ?thesis
  proof (rule that(2))
    show "Rate x = Rate r" "Provider x = Provider r"
      using assms True by (auto simp: upsert_rate_row_def set_update_rows rev_image_eqI split: if_splits)
  qed fact
next
  case False
  then show ?thesis using assms that(1) by (auto simp: upsert_rate_row_def set_update_rows split: if_splits)
qed

lemma UpsertRate_ok:
  assumes "UpsertRate now rate db = (Inr out, db')"
  obtains rate' where "upsert_rate_tx now rate' db = Inr (out, db')" "er_tenant rate' = er_tenant rate"
    "FromCurrency rate' = FromCurrency rate" "ToCurrency rate' = ToCurrency rate" "Rate rate' = Rate rate"
    "RateDate rate' = Truncate_day (if RateDate rate = 0 then now else RateDate rate)"
    "er_tenant rate \<noteq> 0" "validateCurrencyPair (FromCurrency rate) (ToCurrency rate) = Inr ()" "0 < Rate rate"
proof -
  let ?r1 = "if RateDate rate = 0 then rate\<lparr>RateDate := now\<rparr> else rate"
  let ?r2 = "?r1\<lparr>RateDate := Truncate_day (RateDate ?r1)\<rparr>"
  have "upsert_rate_tx now ?r2 db = Inr (out, db')" "er_tenant rate \<noteq> 0"
    "validateCurrencyPair (FromCurrency rate) (ToCurrency rate) = Inr ()" "0 < Rate rate"
    using assms by (auto simp: UpsertRate_def Let_def tx_commit split: if_splits sum.splits)
  then show ?thesis by (intro that[of ?r2]) auto
qed

lemma upsert_rate_tx_ok:
  assumes "upsert_rate_tx now rate db = Inr (out, db')"
  obtains q where "db' = db\<lparr>exchange_rates := upsert_rate_row (pg_time now) (rate\<lparr>Rate := q\<rparr>) (exchange_rates db)\<rparr>"
    "q = round_dec 10 (Rate rate)" "0 < q"
  using assms by (auto simp: upsert_rate_tx_def Let_def pg_numeric_Some not_le split: if_splits option.splits)

lemma UpsertRate_error: "UpsertRate now rate db = (Inl e, db') \<Longrightarrow> db' = db"
  by (auto simp: UpsertRate_def Let_def dest: tx_error_rolls_back split: if_splits sum.splits)

lemma UpsertRate_inv:
  assumes "rates_inv db" "UpsertRate now rate db = (Inr out, db')"
  shows "rates_inv db'"
proof -
  obtain r' where r': "upsert_rate_tx now r' db = Inr (out, db')"
    "FromCurrency r' = FromCurrency rate" "ToCurrency r' = ToCurrency rate" 
    "RateDate r' = Truncate_day (if RateDate rate = 0 then now else RateDate rate)"
    "validateCurrencyPair (FromCurrency rate) (ToCurrency rate) = Inr ()"
    using UpsertRate_ok[OF assms(2)] by metis
  obtain q where q: "db' = db\<lparr>exchange_rates := upsert_rate_row (pg_time now) (r'\<lparr>Rate := q\<rparr>) (exchange_rates db)\<rparr>" "0 < q"
    using upsert_rate_tx_ok[OF r'(1)] by metis
  have "distinct (map er_key (exchange_rates db'))"
    using assms(1) by (auto simp: q(1) rates_inv_def upsert_rate_row_keys)
  moreover have "0 < Rate x \<and> FromCurrency x \<noteq> ToCurrency x \<and> length (FromCurrency x) = 3 \<and> length (ToCurrency x) = 3
      \<and> Truncate_day (RateDate x) = RateDate x" if x: "x \<in> set (exchange_rates db')" for x
  proof -
    from x have "x \<in> set (upsert_rate_row (pg_time now) (r'\<lparr>Rate := q\<rparr>) (exchange_rates db))" by (simp add: q(1))
    then show ?thesis
    proof (cases rule: upsert_rate_row_set)
      case 1
      with assms(1) show ?thesis by (simp add: rates_inv_def)
    next
      case 2
      with r' q(2) show ?thesis by (auto simp: er_key_def validateCurrencyPair_def split: if_splits)
    qed
  qed
  ultimately show ?thesis by (simp add: rates_inv_def)
qed

text \<open>\<open>r\<close> is the newest quote of the pair on or before a day.\<close>

definition quoted :: "uuid \<Rightarrow> string \<Rightarrow> string \<Rightarrow> gotime \<Rightarrow> 'a ledger_db_scheme \<Rightarrow> exchangeRate set" where
  "quoted t from to d db = {r \<in> set (exchange_rates db). er_tenant r = t \<and> FromCurrency r = from \<and> ToCurrency r = to \<and> RateDate r \<le> d}"

definition newest :: "exchangeRate set \<Rightarrow> exchangeRate \<Rightarrow> bool" where
  "newest Q r \<longleftrightarrow> r \<in> Q \<and> (\<forall>x \<in> Q. x \<noteq> r \<longrightarrow> RateDate x < RateDate r)"

lemma sort_key_Nil_iff [simp]: "sort_key f xs = [] \<longleftrightarrow> xs = []"
  using set_sort[of f xs] by (metis set_empty)

lemma last_sort_key_max:
  fixes f :: "'b \<Rightarrow> int"
  assumes "xs \<noteq> []"
  shows "last (sort_key f xs) \<in> set xs" and "\<And>x. x \<in> set xs \<Longrightarrow> f x \<le> f (last (sort_key f xs))"
proof -
  have ne: "sort_key f xs \<noteq> []" using assms by simp
  then show "last (sort_key f xs) \<in> set xs" by (metis last_in_set set_sort)
  fix x assume "x \<in> set xs"
  then have "x \<in> set (sort_key f xs)" by simp
  then obtain i where i: "i < length (sort_key f xs)" "x = sort_key f xs ! i"
    unfolding in_set_conv_nth by metis
  have "map f (sort_key f xs) ! i \<le> map f (sort_key f xs) ! (length (sort_key f xs) - 1)"
    using i(1) by (intro sorted_nth_mono sorted_sort_key) (simp_all del: length_sort)
  with i ne show "f x \<le> f (last (sort_key f xs))" by (simp add: last_conv_nth del: length_sort)
qed

lemma latest_rate_None: "latest_rate t from to d db = None \<longleftrightarrow> quoted t from to d db = {}"
proof -
  let ?xs = "filter (\<lambda>r. er_tenant r = t \<and> FromCurrency r = from \<and> ToCurrency r = to \<and> RateDate r \<le> d) (exchange_rates db)"
  have "sort_key RateDate ?xs = [] \<longleftrightarrow> ?xs = []" by (rule sort_key_Nil_iff)
  also have "\<dots> \<longleftrightarrow> quoted t from to d db = {}" by (auto simp: quoted_def filter_empty_conv)
  finally show ?thesis by (simp add: latest_rate_def Let_def)
qed

lemma latest_rate_Some:
  assumes "rates_inv db" "latest_rate t from to d db = Some r"
  shows "newest (quoted t from to d db) r"
proof -
  let ?xs = "filter (\<lambda>r. er_tenant r = t \<and> FromCurrency r = from \<and> ToCurrency r = to \<and> RateDate r \<le> d) (exchange_rates db)"
  have Q: "quoted t from to d db = set ?xs" by (auto simp: quoted_def)
  have r: "?xs \<noteq> []" "r = last (sort_key RateDate ?xs)"
    using assms(2) by (auto simp: latest_rate_def Let_def split: if_splits)
  have "RateDate x < RateDate r" if "x \<in> set ?xs" "x \<noteq> r" for x
  proof -
    have "er_key x \<noteq> er_key r" using that last_sort_key_max(1)[OF r(1), of RateDate, folded r(2)] assms(1)
      by (auto simp: rates_inv_def distinct_map inj_on_def)
    then have "RateDate x \<noteq> RateDate r" using that last_sort_key_max(1)[OF r(1), of RateDate, folded r(2)]
      by (auto simp: er_key_def)
    with last_sort_key_max(2)[OF r(1) that(1), of RateDate, folded r(2)] show ?thesis by simp
  qed
  with last_sort_key_max(1)[OF r(1), of RateDate, folded r(2)] show ?thesis by (simp add: newest_def Q)
qed

lemma newest_unique: "newest Q r \<Longrightarrow> newest Q r' \<Longrightarrow> r' = r"
  unfolding newest_def by (metis less_asym)

lemma latest_rate_newest:
  assumes "rates_inv db" "newest (quoted t from to d db) r"
  shows "latest_rate t from to d db = Some r"
proof (cases "latest_rate t from to d db")
  case None
  with assms(2) show ?thesis by (auto simp: latest_rate_None newest_def)
next
  case (Some x)
  then show ?thesis using latest_rate_Some[OF assms(1) Some] assms(2) newest_unique by metis
qed

text \<open>What a successful \<open>UpsertRate\<close> leaves is the newest quote on its day.\<close>

lemma upserted_newest:
  assumes "rates_inv db" "UpsertRate now rate db = (Inr out, db')"
    and "d = Truncate_day (if RateDate rate = 0 then now else RateDate rate)"
  shows "\<exists>r. newest (quoted (er_tenant rate) (FromCurrency rate) (ToCurrency rate) d db') r \<and> Rate r = round_dec 10 (Rate rate)"
proof -
  obtain r' where r': "upsert_rate_tx now r' db = Inr (out, db')" "er_tenant r' = er_tenant rate"
    "FromCurrency r' = FromCurrency rate" "ToCurrency r' = ToCurrency rate" "Rate r' = Rate rate" "RateDate r' = d"
    using UpsertRate_ok[OF assms(2)] assms(3) by metis
  obtain q where q: "db' = db\<lparr>exchange_rates := upsert_rate_row (pg_time now) (r'\<lparr>Rate := q\<rparr>) (exchange_rates db)\<rparr>"
    "q = round_dec 10 (Rate rate)"
    using upsert_rate_tx_ok[OF r'(1)] r'(5) by metis
  have "er_key r' \<in> set (map er_key (exchange_rates db'))"
    using upsert_rate_row_keys[of "pg_time now" "r'\<lparr>Rate := q\<rparr>" "exchange_rates db"] by (simp add: q(1))
  then obtain x where x: "x \<in> set (exchange_rates db')" "er_key x = er_key r'" by auto
  have "Rate x = q"
    using x unfolding q(1) by (auto elim: upsert_rate_row_set)
  moreover have "x \<in> quoted (er_tenant rate) (FromCurrency rate) (ToCurrency rate) d db'"
    using x r' by (simp add: quoted_def er_key_def)
  moreover have "RateDate y < RateDate x"
    if "y \<in> quoted (er_tenant rate) (FromCurrency rate) (ToCurrency rate) d db'" "y \<noteq> x" for y
  proof -
    have "er_key y \<noteq> er_key x"
      using that x(1) UpsertRate_inv[OF assms(1,2)] by (auto simp: quoted_def rates_inv_def distinct_map inj_on_def)
    with that(1) x r' show ?thesis by (auto simp: quoted_def er_key_def)
  qed
  ultimately show ?thesis using q(2) unfolding newest_def by blast
qed

lemma GetRate_direct:
  assumes "rates_inv db" "newest (quoted t from to (Truncate_day asOf) db) r" "t \<noteq> 0" "asOf \<noteq> 0"
  shows "GetRate D now t from to asOf db = Inr (Rate r)"
proof -
  have "r \<in> set (exchange_rates db)" "FromCurrency r = from" "ToCurrency r = to"
    using assms(2) by (auto simp: newest_def quoted_def)
  then have "validateCurrencyPair from to = Inr ()" "from \<noteq> to"
    using assms(1) by (auto simp: rates_inv_def validateCurrencyPair_def)
  then show ?thesis using assms latest_rate_newest[OF assms(1,2)]
    by (simp add: GetRate_def tx_fst get_rate_tx_def)
qed


section \<open>Examples\<close>

definition toy_decimal :: decimal_lib where
  "toy_decimal = \<lparr>dec_div = (\<lambda>a b. round_dec 16 (a / b)), dec_string = (\<lambda>_. ''1'')\<rparr>"

definition empty_ledger :: ledger_db where
  "empty_ledger = \<lparr>tenants = [(1, ''active'')], events = [], audit_log = [], audit_seq = 1, workflows = [], workflow_runs = [], approvals = [],
     base_currencies = [(1, ''USD'')],
     accounts = [], journal_entries = [], journal_lines = [], line_seq = 1, fiscal_periods = [], exchange_rates = []\<rparr>"

definition day :: "int \<Rightarrow> gotime" where
  "day n = n * day_ns"

definition quote_of :: "string \<Rightarrow> string \<Rightarrow> gotime \<Rightarrow> decimal \<Rightarrow> exchangeRate" where
  "quote_of f t d q = \<lparr>er_tenant = 1, FromCurrency = f, ToCurrency = t, RateDate = d, Rate = q, Provider = ''ecb'',
     er_CreatedBy = None, er_CreatedAt = 0, er_UpdatedAt = 0\<rparr>"

lemma rates_inv_empty: "rates_inv empty_ledger"
  by (simp add: rates_inv_def empty_ledger_def)


section \<open>Properties\<close>

text \<open>
  Rate lookup. On a table that was filled by \<open>UpsertRate\<close>, \<open>GetRate\<close> for two different currencies gives the
  newest direct quote on or before the requested day; without one, 1 divided by the newest quote of the
  inverse pair; without either, \<open>ErrExchangeRateNotFound\<close>. A quote just stored is what the lookup for its
  own day gives, rounded to ten decimals.
\<close>

theorem rate_lookup:
  assumes "rates_inv db" and "t \<noteq> 0" and "from \<noteq> to" and "length from = 3" and "length to = 3" and "asOf \<noteq> 0"
  shows "(\<forall>r. newest (quoted t from to (Truncate_day asOf) db) r \<longrightarrow> GetRate D now t from to asOf db = Inr (Rate r))
    \<and> (quoted t from to (Truncate_day asOf) db = {} \<longrightarrow>
         (\<forall>r. newest (quoted t to from (Truncate_day asOf) db) r \<longrightarrow> GetRate D now t from to asOf db = Inr (dec_div D 1 (Rate r)))
       \<and> (quoted t to from (Truncate_day asOf) db = {} \<longrightarrow> GetRate D now t from to asOf db = Inl ErrExchangeRateNotFound))
    \<and> (\<forall>clock rate out db'. UpsertRate clock rate db = (Inr out, db') \<longrightarrow> RateDate rate \<noteq> 0 \<longrightarrow>
         GetRate D now (er_tenant rate) (FromCurrency rate) (ToCurrency rate) (RateDate rate) db' = Inr (round_dec 10 (Rate rate)))"
proof (intro conjI allI impI)
  have G: "GetRate D now t from to asOf db = map_sum id fst (get_rate_tx D t from to (Truncate_day asOf) db)"
    using assms by (simp add: GetRate_def validateCurrencyPair_def tx_fst)
  show "GetRate D now t from to asOf db = Inr (Rate r)" if "newest (quoted t from to (Truncate_day asOf) db) r" for r
    using GetRate_direct[OF assms(1) that assms(2,6)] .
  show "GetRate D now t from to asOf db = Inl ErrExchangeRateNotFound"
    if "quoted t from to (Truncate_day asOf) db = {}" "quoted t to from (Truncate_day asOf) db = {}"
    using that by (simp add: G get_rate_tx_def latest_rate_None[THEN iffD2])
  show "GetRate D now t from to asOf db = Inr (dec_div D 1 (Rate r))"
    if "quoted t from to (Truncate_day asOf) db = {}" "newest (quoted t to from (Truncate_day asOf) db) r" for r
  proof -
    have "0 < Rate r" using that(2) assms(1) by (auto simp: newest_def quoted_def rates_inv_def)
    with that latest_rate_newest[OF assms(1) that(2)] show ?thesis
      by (simp add: G get_rate_tx_def latest_rate_None[THEN iffD2])
  qed
  fix clock :: gotime and rate out :: exchangeRate and db'
  assume up: "UpsertRate clock rate db = (Inr out, db')" "RateDate rate \<noteq> 0"
  then obtain r where r: "newest (quoted (er_tenant rate) (FromCurrency rate) (ToCurrency rate) (Truncate_day (RateDate rate)) db') r"
    "Rate r = round_dec 10 (Rate rate)" using upserted_newest[OF assms(1) up(1) refl] by auto
  have "er_tenant rate \<noteq> 0" using UpsertRate_ok[OF up(1)] by metis
  with GetRate_direct[OF UpsertRate_inv[OF assms(1) up(1)] r(1)] r(2) up(2)
  show "GetRate D now (er_tenant rate) (FromCurrency rate) (ToCurrency rate) (RateDate rate) db' = Inr (round_dec 10 (Rate rate))" by simp
qed

theorem rate_lookup_witness:
  "\<exists>out db. UpsertRate 5000 (quote_of ''EUR'' ''USD'' (day 100) (27 / 25)) empty_ledger = (Inr out, db)
     \<and> GetRate toy_decimal 0 1 ''EUR'' ''USD'' (day 100) db = Inr (27 / 25)
     \<and> GetRate toy_decimal 0 1 ''USD'' ''EUR'' (day 99) db = Inl ErrExchangeRateNotFound"
proof -
  let ?q = "quote_of ''EUR'' ''USD'' (day 100) (27 / 25)"
  obtain r db where u: "UpsertRate 5000 ?q empty_ledger = (r, db)" by fastforce
  have "isl (fst (UpsertRate 5000 ?q empty_ledger)) = False" by code_simp
  then obtain out where r: "r = Inr out" using u by (cases r) auto
  have rd: "round_dec 10 (27 / 25) = 27 / 25" "RateDate ?q \<noteq> 0" by code_simp+
  have q: "er_tenant ?q = 1" "FromCurrency ?q = ''EUR''" "ToCurrency ?q = ''USD''" "RateDate ?q = day 100" "Rate ?q = 27 / 25"
    by (simp_all add: quote_of_def)
  note all = rate_lookup[OF rates_inv_empty, of 1 "''EUR''" "''USD''" "day 100" toy_decimal 0]
  have "day 100 \<noteq> 0" by (simp add: day_def day_ns_def)
  with all have "\<forall>clock rate out db'. UpsertRate clock rate empty_ledger = (Inr out, db') \<longrightarrow> RateDate rate \<noteq> 0 \<longrightarrow>
      GetRate toy_decimal 0 (er_tenant rate) (FromCurrency rate) (ToCurrency rate) (RateDate rate) db' = Inr (round_dec 10 (Rate rate))"
    by simp
  from this[rule_format, OF u[unfolded r] rd(2)]
  have "GetRate toy_decimal 0 1 ''EUR'' ''USD'' (day 100) db = Inr (27 / 25)" unfolding q rd(1) .
  moreover have "GetRate toy_decimal 0 1 ''USD'' ''EUR'' (day 99) (snd (UpsertRate 5000 ?q empty_ledger)) = Inl ErrExchangeRateNotFound"
    by code_simp
  ultimately show ?thesis using u r by auto
qed

end
