(* ===== verification/Ledger.thy ===== *)
theory Ledger
  imports Ledger_Currency
begin

text \<open>
  The double-entry posting engine (internal/ledger/store.go, internal/ledger/period.go): chart of
  accounts, journal entries and fiscal periods, over the tables of \<open>Ledger_Currency\<close>.

  \<open>pgstore\<close> carries what \<open>PGStore\<close> holds besides the pool: publisher and auditor (\<open>engine\<close>) and whether a
  rate store is wired. \<open>PostJournalEntry\<close> is split where its transaction is: \<open>post_check\<close> reads the period
  locks and the accounts, \<open>post_write\<close> inserts, emits and logs. Each operation takes one clock reading and
  its fresh UUIDs as arguments.
\<close>

record pgstore =
  ps_engine :: engine
  ps_decimal :: decimal_lib
  ps_rates :: bool


section \<open>Chart of accounts\<close>

record accountFilter =
  af_Type :: string
  af_Active :: "bool option"
  af_Limit :: int
  af_Offset :: int

definition validAccountType :: "string \<Rightarrow> bool" where
  "validAccountType t \<longleftrightarrow> t \<in> {''asset'', ''liability'', ''equity'', ''revenue'', ''expense''}"

definition account_key :: "account_row \<Rightarrow> uuid \<times> string" where
  "account_key r = (acr_tenant r, acr_code r)"

definition account_to_row :: "account \<Rightarrow> account_row" where
  "account_to_row a = \<lparr>acr_tenant = ac_tenant a, acr_code = ac_Code a, acr_name = ac_Name a, acr_type = ac_Type a,
     acr_parent = nullIfEmpty (ParentCode a), acr_active = ac_Active a\<rparr>"

definition account_of_row :: "account_row \<Rightarrow> account" where
  "account_of_row r = \<lparr>ac_tenant = acr_tenant r, ac_Code = acr_code r, ac_Name = acr_name r, ac_Type = acr_type r,
     ParentCode = (case acr_parent r of None \<Rightarrow> [] | Some p \<Rightarrow> p), ac_Active = acr_active r\<rparr>"

definition upsert_account :: "account_row \<Rightarrow> account_row list \<Rightarrow> account_row list" where
  "upsert_account r rows =
     (if account_key r \<in> set (map account_key rows) then update_rows (\<lambda>x. account_key x = account_key r) (\<lambda>_. r) rows
      else rows @ [r])"

definition CreateAccount :: "account \<Rightarrow> 'a ledger_db_scheme \<Rightarrow> (ledger_error + account) \<times> 'a ledger_db_scheme" where
  "CreateAccount a db =
     (if ac_tenant a = 0 then (Inl LedgerArgs, db)
      else if ac_Code a = [] \<or> ac_Name a = [] then (Inl LedgerArgs, db)
      else if \<not> validAccountType (ac_Type a) then (Inl InvalidAccountType, db)
      else WithTenantTx LedgerTxTenant (ac_tenant a)
             (\<lambda>db. Inr (a, db\<lparr>accounts := upsert_account (account_to_row a) (accounts db)\<rparr>)) db)"

definition find_account :: "uuid \<Rightarrow> string \<Rightarrow> 'a ledger_db_scheme \<Rightarrow> account_row option" where
  "find_account t code db = List.find (\<lambda>r. acr_tenant r = t \<and> acr_code r = code) (accounts db)"

definition GetAccount :: "uuid \<Rightarrow> string \<Rightarrow> 'a ledger_db_scheme \<Rightarrow> ledger_error + account" where
  "GetAccount t code db =
     (if t = 0 \<or> code = [] then Inl LedgerArgs
      else fst (WithTenantTx LedgerTxTenant t (\<lambda>db.
             case find_account t code db of None \<Rightarrow> Inl ErrAccountNotFound | Some r \<Rightarrow> Inr (account_of_row r, db)) db))"

definition page :: "int \<Rightarrow> int \<Rightarrow> 'r list \<Rightarrow> ledger_error + 'r list" where
  "page limit offset rows = (if offset < 0 then Inl OffsetNegative else Inr (take (nat limit) (drop (nat offset) rows)))"

definition ListAccounts :: "uuid \<Rightarrow> accountFilter \<Rightarrow> 'a ledger_db_scheme \<Rightarrow> ledger_error + account list" where
  "ListAccounts t f db =
     (if t = 0 then Inl LedgerArgs
      else let limit = (if af_Limit f \<le> 0 \<or> af_Limit f > 1000 then 500 else af_Limit f)
           in fst (WithTenantTx LedgerTxTenant t (\<lambda>db.
                rbind (page limit (af_Offset f) (sort_key acr_code (filter (\<lambda>r. acr_tenant r = t
                   \<and> (af_Type f \<noteq> [] \<longrightarrow> acr_type r = af_Type f)
                   \<and> (case af_Active f of None \<Rightarrow> True | Some b \<Rightarrow> acr_active r = b)) (accounts db))))
                  (\<lambda>rows. Inr (map account_of_row rows, db))) db))"


section \<open>Fiscal periods\<close>

definition fp_key :: "fiscalPeriod \<Rightarrow> uuid \<times> gotime" where
  "fp_key p = (fp_tenant p, PeriodStart p)"

text \<open>A period as its row holds it: dates, and a timestamp of the lock.\<close>

definition pg_period :: "fiscalPeriod \<Rightarrow> fiscalPeriod" where
  "pg_period p = p\<lparr>PeriodStart := Truncate_day (PeriodStart p), PeriodEnd := Truncate_day (PeriodEnd p),
     LockedAt := map_option pg_time (LockedAt p)\<rparr>"

definition upsert_period_row :: "fiscalPeriod \<Rightarrow> fiscalPeriod list \<Rightarrow> fiscalPeriod list" where
  "upsert_period_row p rows =
     (if fp_key p \<in> set (map fp_key rows) then update_rows (\<lambda>x. fp_key x = fp_key p) (\<lambda>_. p) rows else rows @ [p])"

definition UpsertPeriod :: "fiscalPeriod \<Rightarrow> 'a ledger_db_scheme \<Rightarrow> (ledger_error + fiscalPeriod) \<times> 'a ledger_db_scheme" where
  "UpsertPeriod p db =
     (if fp_tenant p = 0 then (Inl LedgerArgs, db)
      else if PeriodStart p = 0 \<or> PeriodEnd p = 0 then (Inl PeriodBounds, db)
      else if PeriodEnd p < PeriodStart p then (Inl PeriodBounds, db)
      else WithTenantTx LedgerTxTenant (fp_tenant p)
             (\<lambda>db. Inr (p, db\<lparr>fiscal_periods := upsert_period_row (pg_period p) (fiscal_periods db)\<rparr>)) db)"

definition time_json :: "engine \<Rightarrow> gotime \<Rightarrow> json" where
  "time_json E t = JStr (rfc3339nano (eng_audit E) t)"

definition lock_payload :: "engine \<Rightarrow> gotime \<Rightarrow> fiscalPeriod \<Rightarrow> uuid \<Rightarrow> json" where
  "lock_payload E start p actor =
     JObj [(''period_start'', time_json E start), (''period_end'', time_json E (PeriodEnd p)), (''actor'', uuid_json E actor)]"

definition lock_after :: "engine \<Rightarrow> gotime \<Rightarrow> fiscalPeriod \<Rightarrow> json" where
  "lock_after E start p = JObj [(''period_start'', time_json E start), (''period_end'', time_json E (PeriodEnd p))]"

definition lock_tx ::
  "pgstore \<Rightarrow> gotime \<Rightarrow> uuid \<Rightarrow> uuid \<Rightarrow> gotime \<Rightarrow> uuid \<Rightarrow> 'a ledger_db_scheme \<Rightarrow> ledger_error + fiscalPeriod \<times> 'a ledger_db_scheme" where
  "lock_tx S now eid t start actor db =
     (let here = (\<lambda>x. fp_tenant x = t \<and> PeriodStart x = Truncate_day start)
      in case List.find here (fiscal_periods db) of
           None \<Rightarrow> Inl ErrPeriodNotFound
         | Some x \<Rightarrow>
             let lock = (\<lambda>x. x\<lparr>Locked := True, LockedAt := Some (pg_time now), LockedBy := Some actor\<rparr>); p = lock x
             in map_sum LedgerKernel (\<lambda>db'. (p, db'))
                  (emit_and_log (ps_engine S) now eid t ''finance.period.locked'' (lock_payload (ps_engine S) start p actor)
                     actor ''finance.period.locked'' [] None None (lock_after (ps_engine S) start p)
                     (db\<lparr>fiscal_periods := update_rows here lock (fiscal_periods db)\<rparr>)))"

definition LockPeriod ::
  "pgstore \<Rightarrow> gotime \<Rightarrow> uuid \<Rightarrow> uuid \<Rightarrow> gotime \<Rightarrow> uuid \<Rightarrow> 'a ledger_db_scheme \<Rightarrow> (ledger_error + fiscalPeriod) \<times> 'a ledger_db_scheme" where
  "LockPeriod S now eid t start actor db =
     (if t = 0 then (Inl LedgerArgs, db)
      else if actor = 0 then (Inl LedgerArgs, db)
      else WithTenantTx LedgerTxTenant t (lock_tx S now eid t start actor) db)"

definition isPeriodLockedTx :: "uuid \<Rightarrow> gotime \<Rightarrow> 'a ledger_db_scheme \<Rightarrow> bool" where
  "isPeriodLockedTx t date db =
     list_ex (\<lambda>p. Locked p)
       (filter (\<lambda>p. fp_tenant p = t \<and> PeriodStart p \<le> Truncate_day date \<and> Truncate_day date \<le> PeriodEnd p) (fiscal_periods db))"

definition IsPeriodLocked :: "uuid \<Rightarrow> gotime \<Rightarrow> 'a ledger_db_scheme \<Rightarrow> ledger_error + bool" where
  "IsPeriodLocked t date db =
     (if t = 0 then Inl LedgerArgs
      else fst (WithTenantTx LedgerTxTenant t (\<lambda>db. Inr (isPeriodLockedTx t date db, db)) db))"

definition ListPeriods :: "uuid \<Rightarrow> 'a ledger_db_scheme \<Rightarrow> ledger_error + fiscalPeriod list" where
  "ListPeriods t db =
     (if t = 0 then Inl LedgerArgs
      else fst (WithTenantTx LedgerTxTenant t
             (\<lambda>db. Inr (sort_key PeriodStart (filter (\<lambda>p. fp_tenant p = t) (fiscal_periods db)), db)) db))"


section \<open>Posting\<close>

fun validate_lines :: "string \<Rightarrow> decimal \<Rightarrow> decimal \<Rightarrow> journalLine list \<Rightarrow> ledger_error + unit" where
  "validate_lines cur dr cr [] = (if dr = cr then Inr () else Inl ErrUnbalancedEntry)"
| "validate_lines cur dr cr (l # ls) =
     (if AccountCode l = [] then Inl ErrInvalidLine
      else if jl_Currency l = [] then Inl ErrInvalidLine
      else if cur \<noteq> [] \<and> jl_Currency l \<noteq> cur then Inl ErrCurrencyMismatch
      else if Debit l < 0 \<or> Credit l < 0 then Inl ErrInvalidLine
      else if 0 < Debit l \<and> 0 < Credit l then Inl ErrInvalidLine
      else if Debit l = 0 \<and> Credit l = 0 then Inl ErrInvalidLine
      else validate_lines (if cur = [] then jl_Currency l else cur) (dr + Debit l) (cr + Credit l) ls)"

definition validateLines :: "journalLine list \<Rightarrow> ledger_error + unit" where
  "validateLines ls = (if ls = [] then Inl ErrEmptyEntry else validate_lines [] 0 0 ls)"

definition sumDebits :: "journalLine list \<Rightarrow> decimal" where
  "sumDebits ls = fold (\<lambda>l acc. acc + Debit l) ls 0"

fun distinct_codes :: "string set \<Rightarrow> journalLine list \<Rightarrow> string list" where
  "distinct_codes seen [] = []"
| "distinct_codes seen (l # ls) =
     (if AccountCode l \<in> seen then distinct_codes seen ls
      else AccountCode l # distinct_codes (insert (AccountCode l) seen) ls)"

definition distinctCodes :: "journalLine list \<Rightarrow> string list" where
  "distinctCodes ls = distinct_codes {} ls"

fun check_accounts :: "uuid \<Rightarrow> string list \<Rightarrow> 'a ledger_db_scheme \<Rightarrow> ledger_error + unit" where
  "check_accounts t [] db = Inr ()"
| "check_accounts t (c # cs) db =
     (case find_account t c db of
        None \<Rightarrow> Inl ErrAccountNotFound
      | Some r \<Rightarrow> if \<not> acr_active r then Inl ErrInactiveAccount else check_accounts t cs db)"

definition post_check :: "journalEntry \<Rightarrow> 'a ledger_db_scheme \<Rightarrow> ledger_error + unit" where
  "post_check e db =
     (if isPeriodLockedTx (je_tenant e) (PostedAt e) db then Inl ErrPeriodLocked
      else check_accounts (je_tenant e) (distinctCodes (Lines e)) db)"

definition entry_key :: "entry_row \<Rightarrow> uuid \<times> uuid" where
  "entry_key r = (jer_tenant r, jer_id r)"

text \<open>The columns of the partial unique index on the source; rows with a NULL in them never collide.\<close>

definition source_key :: "entry_row \<Rightarrow> (uuid \<times> string \<times> uuid) option" where
  "source_key r = (case (jer_ktype r, jer_source r) of (Some k, Some s) \<Rightarrow> Some (jer_tenant r, k, s) | _ \<Rightarrow> None)"

definition header_row :: "journalEntry \<Rightarrow> entry_row" where
  "header_row e = \<lparr>jer_id = je_ID e, jer_tenant = je_tenant e, jer_posted = pg_time (PostedAt e), jer_memo = nullIfEmpty (je_Memo e),
     jer_ktype = nullIfEmpty (SourceKType e), jer_source = SourceID e, jer_by = je_CreatedBy e, jer_created = pg_time (je_CreatedAt e)\<rparr>"

definition insert_header :: "journalEntry \<Rightarrow> 'a ledger_db_scheme \<Rightarrow> ledger_error + 'a ledger_db_scheme" where
  "insert_header e db =
     (let r = header_row e
      in if entry_key r \<in> set (map entry_key (journal_entries db)) then Inl (LedgerKernel UniqueViolation)
         else if source_key r \<noteq> None \<and> source_key r \<in> set (map source_key (journal_entries db)) then Inl ErrDuplicateSourceEntry
         else Inr (db\<lparr>journal_entries := journal_entries db @ [r]\<rparr>))"

definition resolveBaseCurrencyTx :: "uuid \<Rightarrow> 'a ledger_db_scheme \<Rightarrow> string" where
  "resolveBaseCurrencyTx t db = (case map_of (base_currencies db) t of None \<Rightarrow> [] | Some c \<Rightarrow> c)"

definition computeBaseAmount ::
  "pgstore \<Rightarrow> gotime \<Rightarrow> uuid \<Rightarrow> journalLine \<Rightarrow> string \<Rightarrow> gotime \<Rightarrow> 'a ledger_db_scheme \<Rightarrow> ledger_error + decimal option" where
  "computeBaseAmount S now t line baseCurrency asOf db =
     (if jl_Currency line = [] \<or> jl_Currency line = baseCurrency then Inr None
      else let net = Debit line - Credit line
           in if net = 0 then Inr (Some 0)
              else if \<not> ps_rates S then Inr None
              else rbind (Convert (ps_decimal S) now t net (jl_Currency line) baseCurrency (if asOf = 0 then now else asOf) db)
                     (\<lambda>c. Inr (Some c)))"

definition insert_line ::
  "pgstore \<Rightarrow> gotime \<Rightarrow> journalEntry \<Rightarrow> string \<Rightarrow> string \<Rightarrow> journalLine \<Rightarrow> 'a ledger_db_scheme
   \<Rightarrow> ledger_error + journalLine \<times> 'a ledger_db_scheme" where
  "insert_line S now e currency baseCurrency line0 db =
     (let line = line0\<lparr>jl_tenant := je_tenant e, EntryID := je_ID e,
                       jl_Currency := (if jl_Currency line0 = [] then currency else jl_Currency line0)\<rparr>
      in rbind (computeBaseAmount S now (je_tenant e) line baseCurrency (PostedAt e) db) (\<lambda>baseAmount.
         rbind (numeric_column 20 4 (Debit line)) (\<lambda>d.
         rbind (numeric_column 20 4 (Credit line)) (\<lambda>c.
         rbind (case baseAmount of None \<Rightarrow> Inr None | Some x \<Rightarrow> rbind (numeric_column 20 4 x) (\<lambda>y. Inr (Some y))) (\<lambda>b.
         if d < 0 \<or> c < 0 \<or> (0 < d \<and> 0 < c) then Inl (LedgerKernel CheckViolation)
         else Inr (line\<lparr>jl_ID := line_seq db, BaseAmount := (case baseAmount of None \<Rightarrow> BaseAmount line | Some x \<Rightarrow> Some x)\<rparr>,
                   db\<lparr>journal_lines := journal_lines db @
                        [\<lparr>jlr_id = line_seq db, jlr_tenant = je_tenant e, jlr_entry = je_ID e, jlr_account = AccountCode line,
                          jlr_debit = d, jlr_credit = c, jlr_currency = jl_Currency line, jlr_memo = nullIfEmpty (jl_Memo line),
                          jlr_base = b\<rparr>],
                      line_seq := line_seq db + 1\<rparr>))))))"

fun insert_lines ::
  "pgstore \<Rightarrow> gotime \<Rightarrow> journalEntry \<Rightarrow> string \<Rightarrow> string \<Rightarrow> journalLine list \<Rightarrow> 'a ledger_db_scheme
   \<Rightarrow> ledger_error + journalLine list \<times> 'a ledger_db_scheme" where
  "insert_lines S now e currency base [] db = Inr ([], db)"
| "insert_lines S now e currency base (l # ls) db =
     rbind (insert_line S now e currency base l db) (\<lambda>(l', db').
     rbind (insert_lines S now e currency base ls db') (\<lambda>(ls', db''). Inr (l' # ls', db'')))"

definition source_json :: "engine \<Rightarrow> journalEntry \<Rightarrow> json" where
  "source_json E e = (case SourceID e of None \<Rightarrow> JNull | Some s \<Rightarrow> uuid_json E s)"

definition count_json :: "journalLine list \<Rightarrow> json" where
  "count_json ls = JNum (Some (f64_of_int (int (length ls))))"

definition posted_payload :: "pgstore \<Rightarrow> journalEntry \<Rightarrow> string \<Rightarrow> json" where
  "posted_payload S e currency = (let E = ps_engine S in
     JObj [(''entry_id'', uuid_json E (je_ID e)), (''posted_at'', time_json E (PostedAt e)), (''memo'', JStr (je_Memo e)),
           (''source_ktype'', JStr (SourceKType e)), (''source_id'', source_json E e),
           (''total'', JStr (dec_string (ps_decimal S) (sumDebits (Lines e)))), (''currency'', JStr currency),
           (''line_count'', count_json (Lines e)), (''actor'', uuid_json E (je_CreatedBy e))])"

definition posted_after :: "pgstore \<Rightarrow> journalEntry \<Rightarrow> string \<Rightarrow> json" where
  "posted_after S e currency = (let E = ps_engine S in
     JObj [(''entry_id'', uuid_json E (je_ID e)), (''posted_at'', time_json E (PostedAt e)),
           (''total'', JStr (dec_string (ps_decimal S) (sumDebits (Lines e)))), (''currency'', JStr currency),
           (''line_count'', count_json (Lines e)), (''source_ktype'', JStr (SourceKType e)), (''source_id'', source_json E e)])"

definition post_write ::
  "pgstore \<Rightarrow> gotime \<Rightarrow> uuid \<Rightarrow> journalEntry \<Rightarrow> 'a ledger_db_scheme \<Rightarrow> ledger_error + journalEntry \<times> 'a ledger_db_scheme" where
  "post_write S now eid e db =
     (let currency = jl_Currency (hd (Lines e))
      in rbind (insert_header e db) (\<lambda>db1.
         let base = resolveBaseCurrencyTx (je_tenant e) db1; baseCurrency = (if base = [] then currency else base)
         in rbind (insert_lines S now e currency baseCurrency (Lines e) db1) (\<lambda>(ls, db2).
            let out = e\<lparr>Lines := ls\<rparr>
            in map_sum LedgerKernel (\<lambda>db3. (out, db3))
                 (emit_and_log (ps_engine S) now eid (je_tenant e) ''finance.journal.posted'' (posted_payload S out currency)
                    (je_CreatedBy e) ''finance.journal.posted'' ''finance.journal_entry'' (Some (je_ID e)) None
                    (posted_after S out currency) db2))))"

definition post_tx ::
  "pgstore \<Rightarrow> gotime \<Rightarrow> uuid \<Rightarrow> journalEntry \<Rightarrow> 'a ledger_db_scheme \<Rightarrow> ledger_error + journalEntry \<times> 'a ledger_db_scheme" where
  "post_tx S now eid e db = rbind (post_check e db) (\<lambda>_. post_write S now eid e db)"

text \<open>The entry with its defaults filled in.\<close>

definition filled :: "gotime \<Rightarrow> uuid \<Rightarrow> journalEntry \<Rightarrow> journalEntry" where
  "filled now fresh e =
     e\<lparr>je_ID := (if je_ID e = 0 then fresh else je_ID e), PostedAt := (if PostedAt e = 0 then now else PostedAt e), je_CreatedAt := now\<rparr>"

definition PostJournalEntry ::
  "pgstore \<Rightarrow> gotime \<Rightarrow> uuid \<Rightarrow> uuid \<Rightarrow> journalEntry \<Rightarrow> 'a ledger_db_scheme \<Rightarrow> (ledger_error + journalEntry) \<times> 'a ledger_db_scheme" where
  "PostJournalEntry S now fresh eid entry db =
     (if je_tenant entry = 0 then (Inl LedgerArgs, db)
      else if je_CreatedBy entry = 0 then (Inl LedgerArgs, db)
      else if Lines entry = [] then (Inl ErrEmptyEntry, db)
      else let e = filled now fresh entry
           in case validateLines (Lines e) of
                Inl err \<Rightarrow> (Inl err, db)
              | Inr _ \<Rightarrow> WithTenantTx LedgerTxTenant (je_tenant e) (post_tx S now eid e) db)"


section \<open>Reading entries\<close>

definition line_of_row :: "line_row \<Rightarrow> journalLine" where
  "line_of_row r = \<lparr>jl_ID = jlr_id r, jl_tenant = jlr_tenant r, EntryID = jlr_entry r, AccountCode = jlr_account r,
     Debit = jlr_debit r, Credit = jlr_credit r, jl_Currency = jlr_currency r,
     jl_Memo = (case jlr_memo r of None \<Rightarrow> [] | Some m \<Rightarrow> m), BaseAmount = jlr_base r\<rparr>"

definition loadLinesTx :: "uuid \<Rightarrow> uuid \<Rightarrow> 'a ledger_db_scheme \<Rightarrow> journalLine list" where
  "loadLinesTx t eid db =
     map line_of_row (sort_key jlr_id (filter (\<lambda>r. jlr_tenant r = t \<and> jlr_entry r = eid) (journal_lines db)))"

definition entry_of_row :: "entry_row \<Rightarrow> 'a ledger_db_scheme \<Rightarrow> journalEntry" where
  "entry_of_row r db = \<lparr>je_ID = jer_id r, je_tenant = jer_tenant r, PostedAt = jer_posted r,
     je_Memo = (case jer_memo r of None \<Rightarrow> [] | Some m \<Rightarrow> m), SourceKType = (case jer_ktype r of None \<Rightarrow> [] | Some k \<Rightarrow> k),
     SourceID = jer_source r, je_CreatedBy = jer_by r, je_CreatedAt = jer_created r, Lines = loadLinesTx (jer_tenant r) (jer_id r) db\<rparr>"

definition GetJournalEntry :: "uuid \<Rightarrow> uuid \<Rightarrow> 'a ledger_db_scheme \<Rightarrow> ledger_error + journalEntry" where
  "GetJournalEntry t i db =
     (if t = 0 \<or> i = 0 then Inl LedgerArgs
      else fst (WithTenantTx LedgerTxTenant t (\<lambda>db.
             case List.find (\<lambda>r. jer_tenant r = t \<and> jer_id r = i) (journal_entries db) of
               None \<Rightarrow> Inl ErrEntryNotFound
             | Some r \<Rightarrow> Inr (entry_of_row r db, db)) db))"

definition GetJournalEntryBySource :: "uuid \<Rightarrow> string \<Rightarrow> uuid \<Rightarrow> 'a ledger_db_scheme \<Rightarrow> ledger_error + journalEntry" where
  "GetJournalEntryBySource t k s db =
     (if t = 0 \<or> k = [] \<or> s = 0 then Inl LedgerArgs
      else fst (WithTenantTx LedgerTxTenant t (\<lambda>db.
             case sort_key jer_created (filter (\<lambda>r. jer_tenant r = t \<and> jer_ktype r = Some k \<and> jer_source r = Some s) (journal_entries db)) of
               [] \<Rightarrow> Inl ErrEntryNotFound
             | r # _ \<Rightarrow> Inr (entry_of_row r db, db)) db))"

record journalEntryFilter =
  jf_From :: "gotime option"
  jf_To :: "gotime option"
  jf_SourceKType :: string
  jf_SourceID :: "uuid option"
  jf_AccountCode :: string
  jf_Limit :: int
  jf_Offset :: int

definition entry_matches :: "uuid \<Rightarrow> journalEntryFilter \<Rightarrow> 'a ledger_db_scheme \<Rightarrow> entry_row \<Rightarrow> bool" where
  "entry_matches t f db r \<longleftrightarrow>
     jer_tenant r = t
     \<and> (case jf_From f of None \<Rightarrow> True | Some x \<Rightarrow> pg_time x \<le> jer_posted r)
     \<and> (case jf_To f of None \<Rightarrow> True | Some x \<Rightarrow> jer_posted r \<le> pg_time x)
     \<and> (jf_SourceKType f \<noteq> [] \<longrightarrow> jer_ktype r = Some (jf_SourceKType f))
     \<and> (case jf_SourceID f of None \<Rightarrow> True | Some s \<Rightarrow> jer_source r = Some s)
     \<and> (jf_AccountCode f \<noteq> [] \<longrightarrow> list_ex (\<lambda>l. jlr_tenant l = jer_tenant r \<and> jlr_entry l = jer_id r
                                              \<and> jlr_account l = jf_AccountCode f) (journal_lines db))"

text \<open>\<open>ORDER BY posted_at DESC, id DESC\<close>.\<close>

definition ListJournalEntries :: "uuid \<Rightarrow> journalEntryFilter \<Rightarrow> 'a ledger_db_scheme \<Rightarrow> ledger_error + journalEntry list" where
  "ListJournalEntries t f db =
     (if t = 0 then Inl LedgerArgs
      else let limit = (if jf_Limit f \<le> 0 \<or> jf_Limit f > 500 then 100 else jf_Limit f)
           in fst (WithTenantTx LedgerTxTenant t (\<lambda>db.
                rbind (page limit (jf_Offset f)
                         (sort_key (\<lambda>r. - jer_posted r) (sort_key (\<lambda>r. - uint (jer_id r)) (filter (entry_matches t f db) (journal_entries db)))))
                  (\<lambda>rows. Inr (map (\<lambda>r. entry_of_row r db) rows, db))) db))"


section \<open>What validation and the checks establish\<close>

definition line_valid :: "journalLine \<Rightarrow> bool" where
  "line_valid l \<longleftrightarrow> AccountCode l \<noteq> [] \<and> jl_Currency l \<noteq> [] \<and> 0 \<le> Debit l \<and> 0 \<le> Credit l \<and> (Debit l = 0) \<noteq> (Credit l = 0)"

definition total_of :: "('l \<Rightarrow> decimal) \<Rightarrow> 'l list \<Rightarrow> decimal" where
  "total_of f ls = sum_list (map f ls)"

lemma total_of_simps [simp]:
  "total_of f [] = 0" "total_of f (l # ls) = f l + total_of f ls" "total_of f (xs @ ys) = total_of f xs + total_of f ys"
  by (simp_all add: total_of_def)

lemma sumDebits_total: "sumDebits ls = total_of Debit ls"
proof -
  have "fold (\<lambda>l acc. acc + Debit l) ls x = x + total_of Debit ls" for x by (induction ls arbitrary: x) simp_all
  from this[of 0] show ?thesis by (simp add: sumDebits_def)
qed

lemma validate_lines_ok:
  "validate_lines cur dr cr ls = Inr () \<longleftrightarrow>
     (\<forall>l \<in> set ls. line_valid l) \<and> (\<exists>c. (cur \<noteq> [] \<longrightarrow> c = cur) \<and> (\<forall>l \<in> set ls. jl_Currency l = c))
     \<and> dr + total_of Debit ls = cr + total_of Credit ls"
proof (induction ls arbitrary: cur dr cr)
  case (Cons l ls)
  show ?case
    by (auto simp: Cons.IH line_valid_def not_less)
qed auto

lemma validateLines_ok:
  "validateLines ls = Inr () \<longleftrightarrow>
     ls \<noteq> [] \<and> (\<forall>l \<in> set ls. line_valid l \<and> jl_Currency l = jl_Currency (hd ls)) \<and> total_of Debit ls = total_of Credit ls"
proof (cases ls)
  case (Cons l ls')
  then have "validateLines ls = validate_lines [] 0 0 ls" by (simp add: validateLines_def del: validate_lines.simps)
  moreover have "(\<exists>c. \<forall>l \<in> set ls. jl_Currency l = c) \<longleftrightarrow> (\<forall>l \<in> set ls. jl_Currency l = jl_Currency (hd ls))"
    using Cons by (metis list.set_sel(1) list.discI)
  ultimately show ?thesis using Cons by (simp add: validate_lines_ok del: validate_lines.simps set_simps) blast
qed (simp add: validateLines_def)

lemma set_distinct_codes: "set (distinct_codes seen ls) = AccountCode ` set ls - seen"
  by (induction ls arbitrary: seen) auto

lemma distinct_distinct_codes: "distinct (distinct_codes seen ls)"
  by (induction ls arbitrary: seen) (auto simp: set_distinct_codes)

lemma distinctCodes_spec: "set (distinctCodes ls) = AccountCode ` set ls" "distinct (distinctCodes ls)"
  by (simp_all add: distinctCodes_def set_distinct_codes distinct_distinct_codes)

lemma check_accounts_ok:
  "check_accounts t cs db = Inr () \<longleftrightarrow> (\<forall>c \<in> set cs. \<exists>r. find_account t c db = Some r \<and> acr_active r)"
  by (induction cs) (auto split: option.splits)

lemma post_check_ok:
  "post_check e db = Inr () \<longleftrightarrow>
     \<not> isPeriodLockedTx (je_tenant e) (PostedAt e) db
     \<and> (\<forall>l \<in> set (Lines e). \<exists>r. find_account (je_tenant e) (AccountCode l) db = Some r \<and> acr_active r)"
  by (simp add: post_check_def check_accounts_ok distinctCodes_spec)

lemma isPeriodLockedTx_iff:
  "isPeriodLockedTx t d db \<longleftrightarrow> (\<exists>p \<in> set (fiscal_periods db). Locked p \<and> fp_tenant p = t
     \<and> PeriodStart p \<le> Truncate_day d \<and> Truncate_day d \<le> PeriodEnd p)"
  by (auto simp: isPeriodLockedTx_def list_ex_iff)


section \<open>What the inserts leave\<close>

definition pg_base :: "decimal option \<Rightarrow> decimal option" where
  "pg_base b = map_option (round_dec 4) b"

text \<open>The row \<open>r\<close> and the returned line \<open>l'\<close> for the submitted line \<open>l\<close> of the entry \<open>e\<close>.\<close>

definition line_stored :: "journalEntry \<Rightarrow> journalLine \<times> journalLine \<Rightarrow> line_row \<Rightarrow> bool" where
  "line_stored e = (\<lambda>(l, l') r.
     r = \<lparr>jlr_id = jlr_id r, jlr_tenant = je_tenant e, jlr_entry = je_ID e, jlr_account = AccountCode l,
          jlr_debit = round_dec 4 (Debit l), jlr_credit = round_dec 4 (Credit l), jlr_currency = jl_Currency l,
          jlr_memo = nullIfEmpty (jl_Memo l), jlr_base = jlr_base r\<rparr>
     \<and> l' = l\<lparr>jl_tenant := je_tenant e, EntryID := je_ID e, jl_ID := jlr_id r, BaseAmount := BaseAmount l'\<rparr>
     \<and> (BaseAmount l = None \<longrightarrow> jlr_base r = pg_base (BaseAmount l')))"

lemma insert_line_ok:
  assumes "insert_line S now e cur base l db = Inr (l', db')" and "jl_Currency l \<noteq> []"
  obtains r where "db' = db\<lparr>journal_lines := journal_lines db @ [r], line_seq := line_seq db + 1\<rparr>"
    "jlr_id r = line_seq db" "line_stored e (l, l') r"
proof -
  let ?l = "l\<lparr>jl_tenant := je_tenant e, EntryID := je_ID e, jl_Currency := jl_Currency l\<rparr>"
  let ?row = "\<lambda>b. \<lparr>jlr_id = line_seq db, jlr_tenant = je_tenant e, jlr_entry = je_ID e, jlr_account = AccountCode l,
    jlr_debit = round_dec 4 (Debit l), jlr_credit = round_dec 4 (Credit l), jlr_currency = jl_Currency l,
    jlr_memo = nullIfEmpty (jl_Memo l), jlr_base = b\<rparr>"
  let ?base = "\<lambda>ba. (case ba of None \<Rightarrow> Inr None | Some x \<Rightarrow> rbind (numeric_column 20 4 x) (\<lambda>y. Inr (Some y))) :: ledger_error + decimal option"
  have "\<exists>ba b. ?base ba = Inr b
     \<and> ?l\<lparr>jl_ID := line_seq db, BaseAmount := (case ba of None \<Rightarrow> BaseAmount l | Some b \<Rightarrow> Some b)\<rparr> = l'
     \<and> db\<lparr>journal_lines := journal_lines db @ [?row b], line_seq := line_seq db + 1\<rparr> = db'"
    using assms unfolding insert_line_def Let_def rbind_eq_Inr numeric_column_ok
    apply (elim exE conjE)
    subgoal for x xa xb xc by (rule exI[of _ x], rule exI[of _ xc], cases x) (simp_all split: if_split_asm)
    done
  then obtain ba b where *: "?base ba = Inr b"
    "l' = ?l\<lparr>jl_ID := line_seq db, BaseAmount := (case ba of None \<Rightarrow> BaseAmount l | Some b \<Rightarrow> Some b)\<rparr>"
    "db' = db\<lparr>journal_lines := journal_lines db @ [?row b], line_seq := line_seq db + 1\<rparr>" by metis
  have "b = pg_base ba" using *(1) by (cases ba) (auto simp: pg_base_def rbind_eq_Inr numeric_column_ok)
  then show ?thesis using that[OF *(3)] *(2) by (cases ba) (auto simp: line_stored_def pg_base_def)
qed

lemma insert_lines_ok:
  assumes "insert_lines S now e cur base ls db = Inr (ls', db')" and "\<And>l. l \<in> set ls \<Longrightarrow> jl_Currency l \<noteq> []"
  shows "\<exists>rows. db' = db\<lparr>journal_lines := journal_lines db @ rows, line_seq := line_seq db + int (length ls)\<rparr>
    \<and> map jlr_id rows = map (\<lambda>i. line_seq db + int i) [0..<length ls]
    \<and> length ls' = length ls \<and> list_all2 (line_stored e) (zip ls ls') rows"
  using assms
proof (induction ls arbitrary: db ls')
  case (Cons l ls)
  obtain l1 db1 ls2 where 1: "insert_line S now e cur base l db = Inr (l1, db1)" "insert_lines S now e cur base ls db1 = Inr (ls2, db')"
    "ls' = l1 # ls2" using Cons.prems(1) by (auto simp: rbind_eq_Inr)
  obtain r where r: "db1 = db\<lparr>journal_lines := journal_lines db @ [r], line_seq := line_seq db + 1\<rparr>"
    "jlr_id r = line_seq db" "line_stored e (l, l1) r" using insert_line_ok[OF 1(1)] Cons.prems(2) by (metis list.set_intros(1))
  obtain rows where rows: "db' = db1\<lparr>journal_lines := journal_lines db1 @ rows, line_seq := line_seq db1 + int (length ls)\<rparr>"
    "map jlr_id rows = map (\<lambda>i. line_seq db1 + int i) [0..<length ls]" "length ls2 = length ls"
    "list_all2 (line_stored e) (zip ls ls2) rows"
    using Cons.IH[OF 1(2)] Cons.prems(2) by auto
  have "map jlr_id (r # rows) = map (\<lambda>i. line_seq db + int i) [0..<length (l # ls)]"
    using rows(2) r(1,2) by (simp add: upt_conv_Cons map_Suc_upt[symmetric] del: upt_Suc)
  then show ?case using rows r 1(3) by (intro exI[of _ "r # rows"]) simp
qed simp

lemma kernel_only_ledger:
  fixes db db' :: "'a ledger_db_scheme"
  assumes "kernel_only db db'"
  shows "accounts db' = accounts db" "journal_entries db' = journal_entries db" "journal_lines db' = journal_lines db"
    "line_seq db' = line_seq db" "fiscal_periods db' = fiscal_periods db" "exchange_rates db' = exchange_rates db"
proof -
  let ?d = "db\<lparr>events := events db', audit_log := audit_log db', audit_seq := audit_seq db'\<rparr>"
  have eq: "db' = ?d" using assms by (simp only: kernel_only_def)
  show "accounts db' = accounts db" by (subst eq) simp
  show "journal_entries db' = journal_entries db" by (subst eq) simp
  show "journal_lines db' = journal_lines db" by (subst eq) simp
  show "line_seq db' = line_seq db" by (subst eq) simp
  show "fiscal_periods db' = fiscal_periods db" by (subst eq) simp
  show "exchange_rates db' = exchange_rates db" by (subst eq) simp
qed

lemma kernel_inv_tables:
  "kernel_inv E (db\<lparr>journal_entries := es\<rparr>) = kernel_inv E db" "kernel_inv E (db\<lparr>journal_lines := ls, line_seq := n\<rparr>) = kernel_inv E db"
  "kernel_inv E (db\<lparr>fiscal_periods := ps\<rparr>) = kernel_inv E db" "kernel_inv E (db\<lparr>accounts := as\<rparr>) = kernel_inv E db"
  "kernel_inv E (db\<lparr>exchange_rates := rs\<rparr>) = kernel_inv E db"
  by (simp_all add: kernel_inv_def outbox_inv_def audit_inv_def tenant_rows_def)

lemma insert_header_ok:
  "insert_header e db = Inr db1 \<longleftrightarrow>
     db1 = db\<lparr>journal_entries := journal_entries db @ [header_row e]\<rparr>
     \<and> entry_key (header_row e) \<notin> set (map entry_key (journal_entries db))
     \<and> (source_key (header_row e) = None \<or> source_key (header_row e) \<notin> set (map source_key (journal_entries db)))"
  by (auto simp: insert_header_def Let_def)

lemma posted_after_decodes: "unmarshal_any (posted_after S e cur) \<noteq> None"
  by (simp add: posted_after_def Let_def uuid_json_def time_json_def source_json_def count_json_def split: option.splits)

text \<open>The effect of the writing half of a posting.\<close>

definition written :: "pgstore \<Rightarrow> journalEntry \<Rightarrow> journalEntry \<Rightarrow> line_row list \<Rightarrow> 'a ledger_db_scheme \<Rightarrow> 'a ledger_db_scheme \<Rightarrow> bool" where
  "written S e out rows db db' \<longleftrightarrow>
     kernel_only (db\<lparr>journal_entries := journal_entries db @ [header_row e],
       journal_lines := journal_lines db @ rows, line_seq := line_seq db + int (length (Lines e))\<rparr>) db'
     \<and> map jlr_id rows = map (\<lambda>i. line_seq db + int i) [0..<length (Lines e)]
     \<and> length (Lines out) = length (Lines e) \<and> list_all2 (line_stored e) (zip (Lines e) (Lines out)) rows
     \<and> out = e\<lparr>Lines := Lines out\<rparr>"

lemma post_write_ok:
  assumes "post_write S now eid e db = Inr (out, db')" and "\<And>l. l \<in> set (Lines e) \<Longrightarrow> jl_Currency l \<noteq> []"
  obtains rows where "written S e out rows db db'"
    "entry_key (header_row e) \<notin> set (map entry_key (journal_entries db))"
    "source_key (header_row e) = None \<or> source_key (header_row e) \<notin> set (map source_key (journal_entries db))"
    "kernel_inv (ps_engine S) db \<Longrightarrow> jsonb_law (eng_audit (ps_engine S)) \<Longrightarrow> kernel_inv (ps_engine S) db'"
    "eng_events (ps_engine S) \<Longrightarrow> \<exists>ev. events db' = events db @ [ev] \<and> ev_tenant ev = je_tenant e \<and> ev_type ev = ''finance.journal.posted''"
    "eng_auditor (ps_engine S) \<Longrightarrow> \<exists>r. audit_log db' = audit_log db @ [r] \<and> al_tenant r = je_tenant e
       \<and> al_action r = ''finance.journal.posted'' \<and> al_actor r = Some (je_CreatedBy e) \<and> al_target r = Some (je_ID e)"
proof -
  let ?cur = "jl_Currency (hd (Lines e))"
  obtain db1 base ls db2 where 1: "insert_header e db = Inr db1" "insert_lines S now e ?cur base (Lines e) db1 = Inr (ls, db2)"
    "out = e\<lparr>Lines := ls\<rparr>"
    and el: "emit_and_log (ps_engine S) now eid (je_tenant e) ''finance.journal.posted'' (posted_payload S out ?cur)
        (je_CreatedBy e) ''finance.journal.posted'' ''finance.journal_entry'' (Some (je_ID e)) None (posted_after S out ?cur) db2 = Inr db'"
    using assms(1) by (auto simp: post_write_def Let_def rbind_eq_Inr elim!: map_sum_InrE)
  note h = 1(1)[unfolded insert_header_ok]
  obtain rows where rows: "db2 = db1\<lparr>journal_lines := journal_lines db1 @ rows, line_seq := line_seq db1 + int (length (Lines e))\<rparr>"
    "map jlr_id rows = map (\<lambda>i. line_seq db1 + int i) [0..<length (Lines e)]" "length ls = length (Lines e)"
    "list_all2 (line_stored e) (zip (Lines e) ls) rows"
    using insert_lines_ok[OF 1(2) assms(2)] by blast
  have db1: "db1 = db\<lparr>journal_entries := journal_entries db @ [header_row e]\<rparr>" using h by simp
  have W: "written S e out rows db db'"
    using rows emit_and_log_ok(1)[OF el] 1(3) by (simp add: written_def db1)
  have K: "kernel_inv (ps_engine S) db2 = kernel_inv (ps_engine S) db" by (simp only: rows(1) db1 kernel_inv_tables)
  show ?thesis
  proof (rule that[OF W])
    show "kernel_inv (ps_engine S) db \<Longrightarrow> jsonb_law (eng_audit (ps_engine S)) \<Longrightarrow> kernel_inv (ps_engine S) db'"
      using emit_and_log_inv[OF _ _ el posted_after_decodes] K by simp
  qed (use h emit_and_log_ok(2,3)[OF el] rows(1) db1 in auto)
qed

lemma post_write_header: "post_write S now eid e db = Inr x \<Longrightarrow> \<exists>db1. insert_header e db = Inr db1"
  by (auto simp: post_write_def Let_def rbind_eq_Inr)

lemma written_tables:
  assumes "written S e out rows db db'"
  shows "accounts db' = accounts db" "journal_entries db' = journal_entries db @ [header_row e]"
    "journal_lines db' = journal_lines db @ rows" "line_seq db' = line_seq db + int (length (Lines e))"
    "fiscal_periods db' = fiscal_periods db" "exchange_rates db' = exchange_rates db"
  using kernel_only_ledger[of _ db'] assms unfolding written_def by (elim conjE; force)+


section \<open>The invariant of the books\<close>

definition entry_lines :: "uuid \<times> uuid \<Rightarrow> 'a ledger_db_scheme \<Rightarrow> line_row list" where
  "entry_lines k db = filter (\<lambda>r. (jlr_tenant r, jlr_entry r) = k) (journal_lines db)"

text \<open>By how much the stored debits exceed the stored credits.\<close>

definition drift :: "line_row list \<Rightarrow> decimal" where
  "drift rows = total_of jlr_debit rows - total_of jlr_credit rows"

lemma drift_simps [simp]: "drift [] = 0" "drift (r # rs) = jlr_debit r - jlr_credit r + drift rs" "drift (xs @ ys) = drift xs + drift ys"
  by (simp_all add: drift_def)

definition line_ok :: "'a ledger_db_scheme \<Rightarrow> line_row \<Rightarrow> bool" where
  "line_ok db r \<longleftrightarrow>
     0 \<le> jlr_debit r \<and> 0 \<le> jlr_credit r \<and> (jlr_debit r = 0 \<or> jlr_credit r = 0)
     \<and> (jlr_tenant r, jlr_entry r) \<in> entry_key ` set (journal_entries db)
     \<and> (jlr_tenant r, jlr_account r) \<in> account_key ` set (accounts db)"

definition entry_ok :: "line_row list \<Rightarrow> bool" where
  "entry_ok rows \<longleftrightarrow> rows \<noteq> [] \<and> (\<forall>r \<in> set rows. jlr_currency r = jlr_currency (hd rows)) \<and> \<bar>drift rows\<bar> \<le> of_nat (length rows) / 20000"

definition books_inv :: "'a ledger_db_scheme \<Rightarrow> bool" where
  "books_inv db \<longleftrightarrow>
     distinct (map account_key (accounts db)) \<and> distinct (map entry_key (journal_entries db))
     \<and> distinct (filter (\<lambda>k. k \<noteq> None) (map source_key (journal_entries db)))
     \<and> sorted_wrt (<) (map jlr_id (journal_lines db)) \<and> (\<forall>r \<in> set (journal_lines db). jlr_id r < line_seq db)
     \<and> (\<forall>r \<in> set (journal_lines db). line_ok db r)
     \<and> (\<forall>h \<in> set (journal_entries db). entry_ok (entry_lines (entry_key h) db))
     \<and> distinct (map fp_key (fiscal_periods db)) \<and> (\<forall>p \<in> set (fiscal_periods db). PeriodStart p \<le> PeriodEnd p)
     \<and> rates_inv db"

lemma line_stored_forms:
  assumes "line_stored e (l, l') r"
  obtains i b b' where "r = \<lparr>jlr_id = i, jlr_tenant = je_tenant e, jlr_entry = je_ID e, jlr_account = AccountCode l,
          jlr_debit = round_dec 4 (Debit l), jlr_credit = round_dec 4 (Credit l), jlr_currency = jl_Currency l,
          jlr_memo = nullIfEmpty (jl_Memo l), jlr_base = b\<rparr>"
    "l' = l\<lparr>jl_tenant := je_tenant e, EntryID := je_ID e, jl_ID := i, BaseAmount := b'\<rparr>" "BaseAmount l = None \<Longrightarrow> b = pg_base b'"
proof -
  note L = assms[unfolded line_stored_def prod.case]
  show ?thesis by (rule that[OF conjunct1[OF L] conjunct1[OF conjunct2[OF L]]]) (use L in blast)
qed

lemma line_stored_ok:
  assumes "line_stored e (l, l') r" "line_valid l"
  shows "0 \<le> jlr_debit r" "0 \<le> jlr_credit r" "jlr_debit r = 0 \<or> jlr_credit r = 0"
    "jlr_tenant r = je_tenant e" "jlr_entry r = je_ID e" "jlr_account r = AccountCode l" "jlr_currency r = jl_Currency l"
    "jlr_debit r = round_dec 4 (Debit l)" "jlr_credit r = round_dec 4 (Credit l)"
    "\<bar>jlr_debit r - jlr_credit r - (Debit l - Credit l)\<bar> \<le> 1 / 20000"
proof -
  have r: "jlr_debit r = round_dec 4 (Debit l)" "jlr_credit r = round_dec 4 (Credit l)" "jlr_tenant r = je_tenant e"
    "jlr_entry r = je_ID e" "jlr_account r = AccountCode l" "jlr_currency r = jl_Currency l"
    by (rule line_stored_forms[OF assms(1)], simp)+
  have v: "0 \<le> Debit l" "0 \<le> Credit l" "Debit l = 0 \<or> Credit l = 0" using assms(2) by (auto simp: line_valid_def)
  show "0 \<le> jlr_debit r" "0 \<le> jlr_credit r" "jlr_debit r = 0 \<or> jlr_credit r = 0" using r v by (auto simp: round_dec_nonneg)
  show "jlr_tenant r = je_tenant e" "jlr_entry r = je_ID e" "jlr_account r = AccountCode l" "jlr_currency r = jl_Currency l"
    "jlr_debit r = round_dec 4 (Debit l)" "jlr_credit r = round_dec 4 (Credit l)" by (fact r)+
  show "\<bar>jlr_debit r - jlr_credit r - (Debit l - Credit l)\<bar> \<le> 1 / 20000"
    using v(3) round_dec_error[OF v(1), of 4] round_dec_error[OF v(2), of 4] r(1,2) by (auto simp: abs_minus_commute)
qed

lemma stored_rows:
  assumes "list_all2 (line_stored e) (zip ls ls') rows" "length ls' = length ls" "\<forall>l \<in> set ls. line_valid l"
  shows "length rows = length ls"
    and "map jlr_currency rows = map jl_Currency ls" and "map jlr_account rows = map AccountCode ls"
    and "\<forall>r \<in> set rows. 0 \<le> jlr_debit r \<and> 0 \<le> jlr_credit r \<and> (jlr_debit r = 0 \<or> jlr_credit r = 0)
           \<and> jlr_tenant r = je_tenant e \<and> jlr_entry r = je_ID e"
    and "\<bar>drift rows - (total_of Debit ls - total_of Credit ls)\<bar> \<le> of_nat (length ls) / 20000"
    and "map jlr_debit rows = map (\<lambda>l. round_dec 4 (Debit l)) ls" and "map jlr_credit rows = map (\<lambda>l. round_dec 4 (Credit l)) ls"
proof -
  have "length rows = length ls \<and> map jlr_currency rows = map jl_Currency ls \<and> map jlr_account rows = map AccountCode ls
    \<and> (\<forall>r \<in> set rows. 0 \<le> jlr_debit r \<and> 0 \<le> jlr_credit r \<and> (jlr_debit r = 0 \<or> jlr_credit r = 0)
           \<and> jlr_tenant r = je_tenant e \<and> jlr_entry r = je_ID e)
    \<and> \<bar>drift rows - (total_of Debit ls - total_of Credit ls)\<bar> \<le> of_nat (length ls) / 20000
    \<and> map jlr_debit rows = map (\<lambda>l. round_dec 4 (Debit l)) ls \<and> map jlr_credit rows = map (\<lambda>l. round_dec 4 (Credit l)) ls"
    using assms
  proof (induction ls arbitrary: ls' rows)
    case (Cons l ls)
    obtain l' ls2 where ls': "ls' = l' # ls2" "length ls2 = length ls" using Cons.prems(2) by (cases ls') auto
    obtain r rs where rows: "rows = r # rs" "line_stored e (l, l') r" "list_all2 (line_stored e) (zip ls ls2) rs"
      using Cons.prems(1) ls' by (auto simp: list_all2_Cons1)
    note IH = Cons.IH[OF rows(3) ls'(2)] and R = line_stored_ok[OF rows(2)]
    have v: "line_valid l" "\<forall>l \<in> set ls. line_valid l" using Cons.prems(3) by auto
    have "\<bar>drift rows - (total_of Debit (l # ls) - total_of Credit (l # ls))\<bar>
        \<le> \<bar>jlr_debit r - jlr_credit r - (Debit l - Credit l)\<bar> + \<bar>drift rs - (total_of Debit ls - total_of Credit ls)\<bar>"
      unfolding rows(1) by simp
    also have "\<dots> \<le> 1 / 20000 + of_nat (length ls) / 20000" using IH[OF v(2)] R(10)[OF v(1)] by linarith
    finally have "\<bar>drift rows - (total_of Debit (l # ls) - total_of Credit (l # ls))\<bar> \<le> of_nat (length (l # ls)) / 20000"
      by (simp add: add_divide_distrib)
    with IH[OF v(2)] R[OF v(1)] rows(1) show ?case by simp
  qed simp
  then show "length rows = length ls"
    and "map jlr_currency rows = map jl_Currency ls" and "map jlr_account rows = map AccountCode ls"
    and "\<forall>r \<in> set rows. 0 \<le> jlr_debit r \<and> 0 \<le> jlr_credit r \<and> (jlr_debit r = 0 \<or> jlr_credit r = 0)
           \<and> jlr_tenant r = je_tenant e \<and> jlr_entry r = je_ID e"
    and "\<bar>drift rows - (total_of Debit ls - total_of Credit ls)\<bar> \<le> of_nat (length ls) / 20000"
    and "map jlr_debit rows = map (\<lambda>l. round_dec 4 (Debit l)) ls" and "map jlr_credit rows = map (\<lambda>l. round_dec 4 (Credit l)) ls"
    by blast+
qed

lemma drift_exact:
  assumes "map jlr_debit rows = map (\<lambda>l. round_dec 4 (Debit l)) ls" "map jlr_credit rows = map (\<lambda>l. round_dec 4 (Credit l)) ls"
    and "\<forall>l \<in> set ls. line_valid l \<and> scaled 4 (Debit l) \<and> scaled 4 (Credit l)"
  shows "drift rows = total_of Debit ls - total_of Credit ls"
proof -
  have "map jlr_debit rows = map Debit ls" "map jlr_credit rows = map Credit ls"
    using assms(1,2,3) by (auto simp: line_valid_def round_dec_scaled)
  then show ?thesis by (simp add: drift_def total_of_def)
qed

lemma books_invD:
  assumes "books_inv db"
  shows "distinct (map account_key (accounts db))" "distinct (map entry_key (journal_entries db))"
    "distinct (filter (\<lambda>k. k \<noteq> None) (map source_key (journal_entries db)))"
    "sorted_wrt (<) (map jlr_id (journal_lines db))" "\<And>r. r \<in> set (journal_lines db) \<Longrightarrow> jlr_id r < line_seq db"
    "\<And>r. r \<in> set (journal_lines db) \<Longrightarrow> line_ok db r"
    "\<And>h. h \<in> set (journal_entries db) \<Longrightarrow> entry_ok (entry_lines (entry_key h) db)"
    "distinct (map fp_key (fiscal_periods db))" "\<And>p. p \<in> set (fiscal_periods db) \<Longrightarrow> PeriodStart p \<le> PeriodEnd p" "rates_inv db"
  using assms by (auto simp: books_inv_def)

text \<open>The tables that only other operations write.\<close>

lemma books_inv_cong:
  assumes "books_inv db" "map account_key (accounts db') = map account_key (accounts db) \<or>
      (\<exists>k. map account_key (accounts db') = map account_key (accounts db) @ [k] \<and> k \<notin> set (map account_key (accounts db)))"
    and "journal_entries db' = journal_entries db" "journal_lines db' = journal_lines db" "line_seq db' = line_seq db"
    and "distinct (map fp_key (fiscal_periods db'))" "\<And>p. p \<in> set (fiscal_periods db') \<Longrightarrow> PeriodStart p \<le> PeriodEnd p" "rates_inv db'"
  shows "books_inv db'"
proof -
  note B = books_invD[OF assms(1)]
  have keys: "account_key ` set (accounts db) \<subseteq> account_key ` set (accounts db')"
    using assms(2) by (metis Un_upper1 order_refl set_append set_map)
  have "distinct (map account_key (accounts db'))" using assms(2) B(1) by auto
  moreover have "line_ok db' r" if "r \<in> set (journal_lines db')" for r
    using B(6)[of r] that assms(3,4) keys by (auto simp: line_ok_def)
  ultimately show ?thesis using assms(3-8) B by (auto simp: books_inv_def entry_lines_def)
qed

lemma source_distinct_snoc:
  "distinct (filter (\<lambda>k. k \<noteq> None) (xs @ [k])) \<longleftrightarrow> distinct (filter (\<lambda>k. k \<noteq> None) xs) \<and> (k = None \<or> k \<notin> set xs)"
  by auto

lemma entry_lines_written:
  assumes "books_inv db" "written S e out rows db db'" "entry_key (header_row e) \<notin> set (map entry_key (journal_entries db))"
    and "\<forall>r \<in> set rows. jlr_tenant r = je_tenant e \<and> jlr_entry r = je_ID e"
  shows "entry_lines (je_tenant e, je_ID e) db' = rows"
    and "h \<in> set (journal_entries db) \<Longrightarrow> entry_lines (entry_key h) db' = entry_lines (entry_key h) db"
proof -
  have key: "entry_key (header_row e) = (je_tenant e, je_ID e)" by (simp add: entry_key_def header_row_def)
  have old: "(jlr_tenant r, jlr_entry r) \<noteq> (je_tenant e, je_ID e)" if "r \<in> set (journal_lines db)" for r
    using books_invD(6)[OF assms(1) that] assms(3) unfolding key line_ok_def by auto
  have app: "entry_lines k db' = entry_lines k db @ filter (\<lambda>r. (jlr_tenant r, jlr_entry r) = k) rows" for k
    by (simp add: entry_lines_def written_tables(3)[OF assms(2)])
  have "entry_lines (je_tenant e, je_ID e) db = []" using old by (auto simp: entry_lines_def filter_empty_conv)
  with app[of "(je_tenant e, je_ID e)"] assms(4) show "entry_lines (je_tenant e, je_ID e) db' = rows" by simp
  assume "h \<in> set (journal_entries db)"
  then have "entry_key h \<noteq> (je_tenant e, je_ID e)" using assms(3) unfolding key by (force simp: image_iff)
  with app[of "entry_key h"] assms(4) show "entry_lines (entry_key h) db' = entry_lines (entry_key h) db" by (simp add: filter_empty_conv)
qed

lemma books_inv_written:
  assumes inv: "books_inv db" and w: "written S e out rows db db'" and v: "validateLines (Lines e) = Inr ()"
    and keys: "entry_key (header_row e) \<notin> set (map entry_key (journal_entries db))"
      "source_key (header_row e) = None \<or> source_key (header_row e) \<notin> set (map source_key (journal_entries db))"
    and acc: "\<And>l. l \<in> set (Lines e) \<Longrightarrow> (je_tenant e, AccountCode l) \<in> account_key ` set (accounts db)"
  shows "books_inv db'"
proof -
  note B = books_invD[OF inv] and T = written_tables[OF w] and V = v[unfolded validateLines_ok]
  have la: "list_all2 (line_stored e) (zip (Lines e) (Lines out)) rows" "length (Lines out) = length (Lines e)"
    and ids: "map jlr_id rows = map (\<lambda>i. line_seq db + int i) [0..<length (Lines e)]" using w by (auto simp: written_def)
  note R = stored_rows[OF la, OF conjunct1[OF conjunct2[OF V], THEN ball_conj_distrib[THEN iffD1], THEN conjunct1]]
  have own: "\<forall>r \<in> set rows. jlr_tenant r = je_tenant e \<and> jlr_entry r = je_ID e" using R(4) by blast
  note L = entry_lines_written[OF inv w keys(1) own]
  have key: "entry_key (header_row e) = (je_tenant e, je_ID e)" by (simp add: entry_key_def header_row_def)
  have idb: "line_seq db \<le> i \<and> i < line_seq db'" if "i \<in> set (map jlr_id rows)" for i
    using that unfolding ids T(4) by auto
  have "sorted_wrt (<) (map jlr_id rows)" unfolding ids by (simp add: sorted_wrt_map sorted_wrt_upt)
  then have srt: "sorted_wrt (<) (map jlr_id (journal_lines db'))"
    using B(4,5) idb unfolding T(3) by (force simp: sorted_wrt_append)
  have lt: "jlr_id r < line_seq db'" if "r \<in> set (journal_lines db')" for r
    using that B(5)[of r] idb[of "jlr_id r"] unfolding T(3) T(4) by force
  have okl: "line_ok db' r" if "r \<in> set (journal_lines db')" for r
  proof (cases "r \<in> set rows")
    case True
    then have "jlr_account r \<in> set (map AccountCode (Lines e))" unfolding R(3)[symmetric] by simp
    then have "(je_tenant e, jlr_account r) \<in> account_key ` set (accounts db)" using acc by auto
    with True R(4) show ?thesis by (auto simp: line_ok_def T(1,2) key)
  next
    case False
    with that B(6)[of r] show ?thesis by (auto simp: line_ok_def T(1,2,3))
  qed
  have "entry_ok rows"
    unfolding entry_ok_def
  proof (intro conjI)
    show "rows \<noteq> []" using R(1) V by auto
    then have hd: "jlr_currency (hd rows) = jl_Currency (hd (Lines e))" using R(2) V by (metis hd_map)
    have "jlr_currency r \<in> set (map jl_Currency (Lines e))" if "r \<in> set rows" for r
      using that unfolding R(2)[symmetric] by simp
    then show "\<forall>r \<in> set rows. jlr_currency r = jlr_currency (hd rows)" unfolding hd set_map using V by (metis (no_types, lifting) imageE)
    show "\<bar>drift rows\<bar> \<le> of_nat (length rows) / 20000" using R(1,5) V by simp
  qed
  then have ent: "entry_ok (entry_lines (entry_key h) db')" if "h \<in> set (journal_entries db')" for h
    using that L B(7) key unfolding T(2) by auto
  have "distinct (filter (\<lambda>k. k \<noteq> None) (map source_key (journal_entries db')))"
    unfolding T(2) map_append list.map source_distinct_snoc using B(3) keys(2) by blast
  moreover have "distinct (map entry_key (journal_entries db'))" unfolding T(2) using B(2) keys(1) by simp
  moreover have "rates_inv db'" using B(10) T(6) by (simp add: rates_inv_def)
  ultimately show ?thesis unfolding books_inv_def T(1) T(5) using srt lt okl ent B(1,8,9) by blast
qed


section \<open>Sequences of operations\<close>

lemma filled_sel [simp]:
  "je_tenant (filled now fresh e) = je_tenant e" "je_CreatedBy (filled now fresh e) = je_CreatedBy e" "Lines (filled now fresh e) = Lines e"
  "SourceKType (filled now fresh e) = SourceKType e" "SourceID (filled now fresh e) = SourceID e" "je_Memo (filled now fresh e) = je_Memo e"
  by (simp_all add: filled_def)

lemma PostJournalEntry_ok:
  assumes "PostJournalEntry S now fresh eid entry db = (Inr out, db')"
  shows "je_tenant entry \<noteq> 0" "je_CreatedBy entry \<noteq> 0" "validateLines (Lines entry) = Inr ()"
    "post_check (filled now fresh entry) db = Inr ()" "post_write S now eid (filled now fresh entry) db = Inr (out, db')"
  using assms by (simp_all add: PostJournalEntry_def Let_def tx_commit post_tx_def rbind_eq_Inr split: if_split_asm sum.split_asm)

lemma PostJournalEntry_error:
  assumes "PostJournalEntry S now fresh eid entry db = (Inl err, db')"
  shows "db' = db"
proof (cases "validateLines (Lines entry)")
  case (Inr u)
  then have "db' = db \<or> WithTenantTx LedgerTxTenant (je_tenant entry) (post_tx S now eid (filled now fresh entry)) db = (Inl err, db')"
    using assms by (simp add: PostJournalEntry_def Let_def split: if_split_asm)
  then show ?thesis by (elim disjE tx_error_rolls_back)
qed (use assms in \<open>simp add: PostJournalEntry_def Let_def split: if_split_asm\<close>)

lemma valid_currency: "validateLines ls = Inr () \<Longrightarrow> l \<in> set ls \<Longrightarrow> jl_Currency l \<noteq> []"
  unfolding validateLines_ok line_valid_def by blast

lemma found_account_key: "find_account t c db = Some r \<Longrightarrow> (t, c) \<in> account_key ` set (accounts db)"
  by (auto simp: find_account_def account_key_def dest!: find_SomeD)

definition ledger_inv :: "pgstore \<Rightarrow> 'a ledger_db_scheme \<Rightarrow> bool" where
  "ledger_inv S db \<longleftrightarrow> books_inv db \<and> (jsonb_law (eng_audit (ps_engine S)) \<longrightarrow> kernel_inv (ps_engine S) db)"

lemma post_inv:
  assumes "ledger_inv S db" "PostJournalEntry S now fresh eid entry db = (Inr out, db')"
  shows "ledger_inv S db'"
proof -
  note P = PostJournalEntry_ok[OF assms(2)]
  show ?thesis
  proof (rule post_write_ok[OF P(5)])
    show "jl_Currency l \<noteq> []" if "l \<in> set (Lines (filled now fresh entry))" for l using valid_currency[OF P(3)] that by simp
    have v: "validateLines (Lines (filled now fresh entry)) = Inr ()" using P(3) by simp
    fix rows assume w: "written S (filled now fresh entry) out rows db db'"
      and keys: "entry_key (header_row (filled now fresh entry)) \<notin> set (map entry_key (journal_entries db))"
       "source_key (header_row (filled now fresh entry)) = None
          \<or> source_key (header_row (filled now fresh entry)) \<notin> set (map source_key (journal_entries db))"
      and k: "kernel_inv (ps_engine S) db \<Longrightarrow> jsonb_law (eng_audit (ps_engine S)) \<Longrightarrow> kernel_inv (ps_engine S) db'"
    have "(je_tenant (filled now fresh entry), AccountCode l) \<in> account_key ` set (accounts db)"
      if "l \<in> set (Lines (filled now fresh entry))" for l
      using P(4) that found_account_key unfolding post_check_ok by metis
    with assms(1) have "books_inv db'"
      unfolding ledger_inv_def by (intro books_inv_written[OF _ w v keys]) auto
    with k assms(1) show ?thesis by (simp add: ledger_inv_def)
  qed
qed

lemma rates_inv_cong: "exchange_rates db' = exchange_rates db \<Longrightarrow> rates_inv db \<Longrightarrow> rates_inv db'"
  by (simp add: rates_inv_def)

lemma account_inv:
  assumes "ledger_inv S db" "CreateAccount a db = (Inr out, db')"
  shows "ledger_inv S db'"
proof -
  let ?r = "account_to_row a"
  have db': "db' = db\<lparr>accounts := upsert_account ?r (accounts db)\<rparr>"
    using assms(2) by (auto simp: CreateAccount_def tx_commit split: if_splits)
  have keys: "map account_key (accounts db') = map account_key (accounts db) \<or>
      (\<exists>k. map account_key (accounts db') = map account_key (accounts db) @ [k] \<and> k \<notin> set (map account_key (accounts db)))"
    unfolding db' by (auto simp: upsert_account_def map_update_const simp del: split_paired_Ex)
  have inv: "books_inv db" using assms(1) by (simp add: ledger_inv_def)
  note B = books_invD[OF inv]
  have "books_inv db'"
    by (rule books_inv_cong[OF inv keys _ _ _ _ _ rates_inv_cong[OF _ B(10)]]) (use B(8,9) in \<open>simp_all add: db'\<close>)
  with assms(1) show ?thesis by (simp add: ledger_inv_def db' kernel_inv_tables)
qed

lemma UpsertPeriod_ok:
  assumes "UpsertPeriod p db = (Inr out, db')"
  shows "db' = db\<lparr>fiscal_periods := upsert_period_row (pg_period p) (fiscal_periods db)\<rparr>" "PeriodStart p \<le> PeriodEnd p"
  using assms by (auto simp: UpsertPeriod_def tx_commit split: if_splits)

lemma set_upsert_period: "set (upsert_period_row p rows) \<subseteq> insert p (set rows)"
  by (auto simp: upsert_period_row_def set_update_rows split: if_splits)

lemma period_inv:
  assumes "ledger_inv S db" "UpsertPeriod p db = (Inr out, db')"
  shows "ledger_inv S db'"
proof -
  note U = UpsertPeriod_ok[OF assms(2)]
  have "PeriodStart (pg_period p) \<le> PeriodEnd (pg_period p)" using U(2) by (simp add: pg_period_def Truncate_day_mono)
  moreover have "distinct (map fp_key (upsert_period_row (pg_period p) (fiscal_periods db)))"
    using books_invD(8)[of db] assms(1) by (simp add: upsert_period_row_def map_update_const ledger_inv_def)
  moreover have inv: "books_inv db" using assms(1) by (simp add: ledger_inv_def)
  note B = books_invD[OF inv]
  have "PeriodStart q \<le> PeriodEnd q" if "q \<in> set (upsert_period_row (pg_period p) (fiscal_periods db))" for q
    using that set_upsert_period[of "pg_period p" "fiscal_periods db"] B(9) \<open>PeriodStart (pg_period p) \<le> PeriodEnd (pg_period p)\<close> by auto
  ultimately have "books_inv db'"
    by (intro books_inv_cong[OF inv _ _ _ _ _ _ rates_inv_cong[OF _ B(10)]]) (simp_all add: U(1))
  with assms(1) show ?thesis by (simp add: ledger_inv_def U(1) kernel_inv_tables)
qed

lemma lock_after_decodes: "unmarshal_any (lock_after E start p) \<noteq> None"
  by (simp add: lock_after_def time_json_def)

lemma LockPeriod_ok:
  assumes "LockPeriod S now eid t start actor db = (Inr p, db')"
  obtains x where "x \<in> set (fiscal_periods db)" "fp_tenant x = t" "PeriodStart x = Truncate_day start"
    "p = x\<lparr>Locked := True, LockedAt := Some (pg_time now), LockedBy := Some actor\<rparr>"
    "kernel_only (db\<lparr>fiscal_periods := update_rows (\<lambda>x. fp_tenant x = t \<and> PeriodStart x = Truncate_day start)
       (\<lambda>x. x\<lparr>Locked := True, LockedAt := Some (pg_time now), LockedBy := Some actor\<rparr>) (fiscal_periods db)\<rparr>) db'"
    "kernel_inv (ps_engine S) db \<Longrightarrow> jsonb_law (eng_audit (ps_engine S)) \<Longrightarrow> kernel_inv (ps_engine S) db'"
proof -
  let ?here = "\<lambda>x. fp_tenant x = t \<and> PeriodStart x = Truncate_day start"
  let ?lock = "\<lambda>x. x\<lparr>Locked := True, LockedAt := Some (pg_time now), LockedBy := Some actor\<rparr>"
  let ?db = "db\<lparr>fiscal_periods := update_rows ?here ?lock (fiscal_periods db)\<rparr>"
  have tx: "lock_tx S now eid t start actor db = Inr (p, db')"
    using assms by (auto simp: LockPeriod_def tx_commit split: if_splits)
  then obtain x where f: "List.find ?here (fiscal_periods db) = Some x" and p: "p = ?lock x"
    and el: "emit_and_log (ps_engine S) now eid t ''finance.period.locked'' (lock_payload (ps_engine S) start p actor)
       actor ''finance.period.locked'' [] None None (lock_after (ps_engine S) start p) ?db = Inr db'"
    by (auto simp: lock_tx_def Let_def split: option.split_asm elim!: map_sum_InrE)
  from find_SomeD[OF f] have x: "x \<in> set (fiscal_periods db)" "fp_tenant x = t" "PeriodStart x = Truncate_day start" by auto
  show ?thesis
    by (rule that[OF x p emit_and_log_ok(1)[OF el]])
      (use emit_and_log_inv[OF _ _ el lock_after_decodes] kernel_inv_tables(3) in auto)
qed

lemma lock_inv:
  assumes "ledger_inv S db" "LockPeriod S now eid t start actor db = (Inr p, db')"
  shows "ledger_inv S db'"
  using assms(2)
proof (rule LockPeriod_ok)
  let ?ps = "update_rows (\<lambda>x. fp_tenant x = t \<and> PeriodStart x = Truncate_day start)
       (\<lambda>x. x\<lparr>Locked := True, LockedAt := Some (pg_time now), LockedBy := Some actor\<rparr>) (fiscal_periods db)"
  assume k: "kernel_only (db\<lparr>fiscal_periods := ?ps\<rparr>) db'"
    and inv: "kernel_inv (ps_engine S) db \<Longrightarrow> jsonb_law (eng_audit (ps_engine S)) \<Longrightarrow> kernel_inv (ps_engine S) db'"
  note K = kernel_only_ledger[OF k, simplified]
  have bi: "books_inv db" using assms(1) by (simp add: ledger_inv_def)
  note B = books_invD[OF bi]
  have "map fp_key ?ps = map fp_key (fiscal_periods db)" by (simp add: map_update_rows fp_key_def)
  moreover have "PeriodStart q \<le> PeriodEnd q" if "q \<in> set ?ps" for q
    using that unfolding set_update_rows by (auto dest!: B(9))
  ultimately have "books_inv db'"
    by (intro books_inv_cong[OF bi _ _ _ _ _ _ rates_inv_cong[OF _ B(10)]]) (use B(8) K in simp_all)
  with inv assms(1) show "ledger_inv S db'" by (simp add: ledger_inv_def)
qed

lemma rate_inv:
  assumes "ledger_inv S db" "UpsertRate now rate db = (Inr out, db')"
  shows "ledger_inv S db'"
proof -
  have "books_inv db" using assms(1) by (simp add: ledger_inv_def)
  obtain rs where db': "db' = db\<lparr>exchange_rates := rs\<rparr>"
    using UpsertRate_ok[OF assms(2)] upsert_rate_tx_ok by metis
  have "rates_inv db'" using UpsertRate_inv[OF _ assms(2)] books_invD(10)[OF \<open>books_inv db\<close>] by simp
  then have "books_inv db'" by (intro books_inv_cong[OF \<open>books_inv db\<close>]) (use books_invD[OF \<open>books_inv db\<close>] in \<open>auto simp: db'\<close>)
  with assms(1) show ?thesis by (simp add: ledger_inv_def db' kernel_inv_tables)
qed

datatype ledger_op =
    AccountOp account
  | PeriodOp fiscalPeriod
  | LockOp gotime uuid uuid gotime uuid
  | RateOp gotime exchangeRate
  | PostOp gotime uuid uuid journalEntry

definition forget :: "('e + 'b) \<times> 's \<Rightarrow> ('e + unit) \<times> 's" where
  "forget x = (map_sum id (\<lambda>_. ()) (fst x), snd x)"

fun ledger_step :: "pgstore \<Rightarrow> ledger_op \<Rightarrow> 'a ledger_db_scheme \<Rightarrow> (ledger_error + unit) \<times> 'a ledger_db_scheme" where
  "ledger_step S (AccountOp a) db = forget (CreateAccount a db)"
| "ledger_step S (PeriodOp p) db = forget (UpsertPeriod p db)"
| "ledger_step S (LockOp now eid t start actor) db = forget (LockPeriod S now eid t start actor db)"
| "ledger_step S (RateOp now rate) db = forget (UpsertRate now rate db)"
| "ledger_step S (PostOp now fresh eid entry) db = forget (PostJournalEntry S now fresh eid entry db)"

lemma forget_Inr: "forget x = (Inr u, s) \<longleftrightarrow> (\<exists>y. x = (Inr y, s))"
  by (cases x; cases "fst x") (auto simp: forget_def)

lemma forget_Inl: "forget x = (Inl e, s) \<longleftrightarrow> x = (Inl e, s)"
  by (cases x; cases "fst x") (auto simp: forget_def)

interpretation led: atomic_component "ledger_inv S" "ledger_step S" for S :: pgstore
proof
  fix s s' :: "'a ledger_db_scheme" and x u
  assume "ledger_inv S s" "ledger_step S x s = (Inr u, s')"
  then show "ledger_inv S s'"
    by (cases x) (auto simp: forget_Inr intro: post_inv account_inv period_inv lock_inv rate_inv)
next
  fix s s' :: "'a ledger_db_scheme" and x e
  assume "ledger_step S x s = (Inl e, s')"
  then show "s' = s"
    by (cases x) (auto simp: forget_Inl CreateAccount_def UpsertPeriod_def LockPeriod_def
        dest: PostJournalEntry_error UpsertRate_error tx_error_rolls_back split: if_splits)
qed

definition ledger_run :: "pgstore \<Rightarrow> ledger_op list \<Rightarrow> 'a ledger_db_scheme \<Rightarrow> 'a ledger_db_scheme" where
  "ledger_run S xs db = fold (\<lambda>x db. snd (ledger_step S x db)) xs db"

lemma ledger_run_exec: "ledger_run S xs db = fold (led.exec S) xs db"
  unfolding ledger_run_def by (rule fold_cong) (auto simp: led.exec_def)

lemma ledger_run_inv: "ledger_inv S db \<Longrightarrow> ledger_inv S (ledger_run S xs db)"
  unfolding ledger_run_exec by (rule led.run_keeps)


section \<open>Reading back\<close>

text \<open>A line and an entry as the database returns them.\<close>

definition pg_line :: "journalLine \<Rightarrow> journalLine" where
  "pg_line l = l\<lparr>Debit := round_dec 4 (Debit l), Credit := round_dec 4 (Credit l), BaseAmount := pg_base (BaseAmount l)\<rparr>"

definition pg_entry :: "journalEntry \<Rightarrow> journalEntry" where
  "pg_entry e = e\<lparr>PostedAt := pg_time (PostedAt e), je_CreatedAt := pg_time (je_CreatedAt e), Lines := map pg_line (Lines e)\<rparr>"

lemma null_roundtrip [simp]: "(case nullIfEmpty s of None \<Rightarrow> [] | Some m \<Rightarrow> m) = s"
  by (simp add: nullIfEmpty_def)

lemma line_of_stored: "line_stored e (l, l') r \<Longrightarrow> BaseAmount l = None \<Longrightarrow> line_of_row r = pg_line l'"
  by (erule line_stored_forms) (simp add: line_of_row_def pg_line_def)

lemma lines_of_stored:
  assumes "list_all2 (line_stored e) (zip ls ls') rows" "length ls' = length ls" "\<forall>l \<in> set ls. BaseAmount l = None"
  shows "map line_of_row rows = map pg_line ls'"
  using assms
proof (induction ls arbitrary: ls' rows)
  case (Cons l ls)
  then show ?case by (cases ls') (auto simp: list_all2_Cons1 line_of_stored)
qed simp

lemma loadLinesTx_sorted:
  assumes "sorted_wrt (<) (map jlr_id (journal_lines db))"
  shows "loadLinesTx t i db = map line_of_row (entry_lines (t, i) db)"
proof -
  have "sorted (map jlr_id (journal_lines db))" using assms strict_sorted_iff by blast
  then show ?thesis unfolding loadLinesTx_def entry_lines_def
    by (subst sort_key_id_if_sorted) (auto intro: sorted_filter)
qed

text \<open>What is known after a successful posting.\<close>

lemma post_facts:
  assumes "ledger_inv S db" "PostJournalEntry S now fresh eid entry db = (Inr out, db')" "e = filled now fresh entry"
  obtains rows where "written S e out rows db db'" "entry_key (header_row e) \<notin> set (map entry_key (journal_entries db))"
    "source_key (header_row e) = None \<or> source_key (header_row e) \<notin> set (map source_key (journal_entries db))"
    "entry_lines (je_tenant e, je_ID e) db' = rows" "\<forall>l \<in> set (Lines e). line_valid l"
    "\<forall>r \<in> set rows. jlr_tenant r = je_tenant e \<and> jlr_entry r = je_ID e"
    "eng_events (ps_engine S) \<Longrightarrow> \<exists>ev. events db' = events db @ [ev] \<and> ev_tenant ev = je_tenant e \<and> ev_type ev = ''finance.journal.posted''"
    "eng_auditor (ps_engine S) \<Longrightarrow> \<exists>r. audit_log db' = audit_log db @ [r] \<and> al_tenant r = je_tenant e
       \<and> al_action r = ''finance.journal.posted'' \<and> al_actor r = Some (je_CreatedBy e) \<and> al_target r = Some (je_ID e)"
proof -
  note P = PostJournalEntry_ok[OF assms(2), folded assms(3)]
  have v: "\<forall>l \<in> set (Lines e). line_valid l" using P(3) unfolding validateLines_ok by (simp add: assms(3))
  have cur: "jl_Currency l \<noteq> []" if "l \<in> set (Lines e)" for l using v that by (auto simp: line_valid_def)
  have inv: "books_inv db" using assms(1) by (simp add: ledger_inv_def)
  show ?thesis
  proof (rule post_write_ok[OF P(5) cur], assumption)
    fix rows assume w: "written S e out rows db db'" and k: "entry_key (header_row e) \<notin> set (map entry_key (journal_entries db))"
      and rest: "source_key (header_row e) = None \<or> source_key (header_row e) \<notin> set (map source_key (journal_entries db))"
        "eng_events (ps_engine S) \<Longrightarrow> \<exists>ev. events db' = events db @ [ev] \<and> ev_tenant ev = je_tenant e \<and> ev_type ev = ''finance.journal.posted''"
        "eng_auditor (ps_engine S) \<Longrightarrow> \<exists>r. audit_log db' = audit_log db @ [r] \<and> al_tenant r = je_tenant e
           \<and> al_action r = ''finance.journal.posted'' \<and> al_actor r = Some (je_CreatedBy e) \<and> al_target r = Some (je_ID e)"
    have "list_all2 (line_stored e) (zip (Lines e) (Lines out)) rows" "length (Lines out) = length (Lines e)"
      using w by (simp_all add: written_def)
    from stored_rows(4)[OF this v] have own: "\<forall>r \<in> set rows. jlr_tenant r = je_tenant e \<and> jlr_entry r = je_ID e" by blast
    show thesis by (rule that[OF w k rest(1) entry_lines_written(1)[OF inv w k own] v own]) (use rest in blast)+
  qed
qed

lemma written_out:
  assumes "written S e out rows db db'"
  shows "je_tenant out = je_tenant e" "je_ID out = je_ID e" "PostedAt out = PostedAt e" "SourceKType out = SourceKType e" "SourceID out = SourceID e"
proof -
  have "\<exists>ls. out = e\<lparr>Lines := ls\<rparr>" using assms unfolding written_def by blast
  then show "je_tenant out = je_tenant e" "je_ID out = je_ID e" "PostedAt out = PostedAt e" "SourceKType out = SourceKType e" "SourceID out = SourceID e"
    by auto
qed

lemma header_back:
  assumes "written S e out rows db db'" "Lines out = ls" "loadLinesTx (je_tenant e) (je_ID e) db' = map pg_line ls"
  shows "entry_of_row (header_row e) db' = pg_entry out"
proof -
  have "out = e\<lparr>Lines := ls\<rparr>" using assms(1,2) by (simp add: written_def)
  then show ?thesis using assms(3) by (simp add: entry_of_row_def header_row_def pg_entry_def)
qed

text \<open>The newly posted entry is found by its id and by its source.\<close>

lemma posted_found:
  assumes "ledger_inv S db" "PostJournalEntry S now fresh eid entry db = (Inr out, db')" "\<forall>l \<in> set (Lines entry). BaseAmount l = None"
  shows "entry_of_row (header_row (filled now fresh entry)) db' = pg_entry out"
    and "List.find (\<lambda>r. jer_tenant r = je_tenant out \<and> jer_id r = je_ID out) (journal_entries db') = Some (header_row (filled now fresh entry))"
    and "SourceKType entry \<noteq> [] \<Longrightarrow> SourceID entry = Some s \<Longrightarrow>
      filter (\<lambda>r. jer_tenant r = je_tenant out \<and> jer_ktype r = Some (SourceKType entry) \<and> jer_source r = Some s) (journal_entries db')
        = [header_row (filled now fresh entry)]"
proof -
  let ?e = "filled now fresh entry"
  obtain rows where w: "written S ?e out rows db db'" and k: "entry_key (header_row ?e) \<notin> set (map entry_key (journal_entries db))"
    and sk: "source_key (header_row ?e) = None \<or> source_key (header_row ?e) \<notin> set (map source_key (journal_entries db))"
    and el: "entry_lines (je_tenant ?e, je_ID ?e) db' = rows"
    by (rule post_facts[OF assms(1,2) refl])
  have srt: "sorted_wrt (<) (map jlr_id (journal_lines db'))"
    using post_inv[OF assms(1,2)] by (auto simp: ledger_inv_def dest: books_invD)
  have "map line_of_row rows = map pg_line (Lines out)"
    using w assms(3) by (intro lines_of_stored[of ?e "Lines ?e"]) (simp_all add: written_def)
  then show "entry_of_row (header_row ?e) db' = pg_entry out"
    using header_back[OF w refl] loadLinesTx_sorted[OF srt, of "je_tenant ?e" "je_ID ?e"] el by simp
  have out: "je_tenant out = je_tenant ?e" "je_ID out = je_ID ?e" by (rule written_out[OF w])+
  have "List.find (\<lambda>r. jer_tenant r = je_tenant out \<and> jer_id r = je_ID out) (journal_entries db) = None"
    using k out by (force simp: find_None_iff entry_key_def header_row_def image_iff)
  then show "List.find (\<lambda>r. jer_tenant r = je_tenant out \<and> jer_id r = je_ID out) (journal_entries db') = Some (header_row ?e)"
    using out by (simp add: written_tables(2)[OF w] find_append header_row_def)
  assume src: "SourceKType entry \<noteq> []" "SourceID entry = Some s"
  have "source_key (header_row ?e) = Some (je_tenant ?e, SourceKType entry, s)"
    using src by (simp add: source_key_def header_row_def nullIfEmpty_def)
  with sk have "Some (je_tenant ?e, SourceKType entry, s) \<notin> set (map source_key (journal_entries db))" by simp
  then have "filter (\<lambda>r. jer_tenant r = je_tenant out \<and> jer_ktype r = Some (SourceKType entry) \<and> jer_source r = Some s) (journal_entries db) = []"
    using out by (auto simp: filter_empty_conv source_key_def image_iff split: option.splits)
  then show "filter (\<lambda>r. jer_tenant r = je_tenant out \<and> jer_ktype r = Some (SourceKType entry) \<and> jer_source r = Some s) (journal_entries db')
        = [header_row ?e]"
    using src out by (simp add: written_tables(2)[OF w] header_row_def nullIfEmpty_def)
qed


section \<open>Exact books\<close>

definition tenant_lines :: "uuid \<Rightarrow> 'a ledger_db_scheme \<Rightarrow> line_row list" where
  "tenant_lines t db = filter (\<lambda>r. jlr_tenant r = t) (journal_lines db)"

text \<open>Every entry balances, and so does every tenant's trial balance.\<close>

definition exact_books :: "'a ledger_db_scheme \<Rightarrow> bool" where
  "exact_books db \<longleftrightarrow> (\<forall>h \<in> set (journal_entries db). drift (entry_lines (entry_key h) db) = 0) \<and> (\<forall>t. drift (tenant_lines t db) = 0)"

definition exact_entry :: "journalEntry \<Rightarrow> bool" where
  "exact_entry e \<longleftrightarrow> (\<forall>l \<in> set (Lines e). scaled 4 (Debit l) \<and> scaled 4 (Credit l))"

fun exact_op :: "ledger_op \<Rightarrow> bool" where
  "exact_op (PostOp now fresh eid entry) = exact_entry entry"
| "exact_op _ = True"

lemma exact_books_cong:
  "journal_entries db' = journal_entries db \<Longrightarrow> journal_lines db' = journal_lines db \<Longrightarrow> exact_books db' = exact_books db"
  by (simp add: exact_books_def entry_lines_def tenant_lines_def)

lemma exact_post:
  assumes "ledger_inv S db" "exact_books db" "exact_entry entry" "PostJournalEntry S now fresh eid entry db = (Inr out, db')"
  shows "exact_books db'"
proof -
  let ?e = "filled now fresh entry"
  obtain rows where w: "written S ?e out rows db db'" and k: "entry_key (header_row ?e) \<notin> set (map entry_key (journal_entries db))"
    and el: "entry_lines (je_tenant ?e, je_ID ?e) db' = rows" and v: "\<forall>l \<in> set (Lines ?e). line_valid l"
    and own: "\<forall>r \<in> set rows. jlr_tenant r = je_tenant ?e \<and> jlr_entry r = je_ID ?e"
    by (rule post_facts[OF assms(1,4) refl])
  have inv: "books_inv db" using assms(1) by (simp add: ledger_inv_def)
  have la: "list_all2 (line_stored ?e) (zip (Lines ?e) (Lines out)) rows" "length (Lines out) = length (Lines ?e)"
    using w by (simp_all add: written_def)
  note R = stored_rows[OF la v]
  have "total_of Debit (Lines ?e) = total_of Credit (Lines ?e)"
    using PostJournalEntry_ok(3)[OF assms(4)] by (simp add: validateLines_ok)
  then have d0: "drift rows = 0"
    using drift_exact[OF R(6,7)] v assms(3) by (simp add: exact_entry_def)
  have key: "entry_key (header_row ?e) = (je_tenant ?e, je_ID ?e)" by (simp add: entry_key_def header_row_def)
  have "drift (entry_lines (entry_key h) db') = 0" if "h \<in> set (journal_entries db')" for h
    using that entry_lines_written[OF inv w k own] assms(2) d0 key
    unfolding written_tables(2)[OF w] exact_books_def by auto
  moreover have "drift (tenant_lines t db') = 0" for t
  proof -
    have "filter (\<lambda>r. jlr_tenant r = t) rows = (if je_tenant ?e = t then rows else [])"
      using own by (auto simp: filter_empty_conv intro!: filter_True)
    then have "tenant_lines t db' = tenant_lines t db @ (if je_tenant ?e = t then rows else [])"
      by (simp add: tenant_lines_def written_tables(3)[OF w])
    with d0 assms(2) show ?thesis by (simp add: exact_books_def)
  qed
  ultimately show ?thesis by (simp add: exact_books_def)
qed

lemma exact_step:
  assumes "ledger_inv S db" "exact_books db" "exact_op x"
  shows "exact_books (snd (ledger_step S x db))"
proof -
  obtain r db' where st: "ledger_step S x db = (r, db')" by fastforce
  show ?thesis
  proof (cases r)
    case (Inl e)
    with st led.error_keeps have "db' = db" by blast
    with st assms(2) show ?thesis by simp
  next
    case (Inr u)
    have "exact_books db'"
    proof (cases x)
      case (LockOp now eid t start actor)
      then obtain p where "LockPeriod S now eid t start actor db = (Inr p, db')" using st Inr by (auto simp: forget_Inr)
      then show ?thesis
        by (rule LockPeriod_ok) (use exact_books_cong[of db' db] assms(2) kernel_only_ledger[of _ db'] in auto)
    next
      case (RateOp now rate)
      then obtain y where "UpsertRate now rate db = (Inr y, db')" using st Inr by (auto simp: forget_Inr)
      then obtain rs where "db' = db\<lparr>exchange_rates := rs\<rparr>" using UpsertRate_ok upsert_rate_tx_ok by metis
      then show ?thesis using exact_books_cong[of db' db] assms(2) by simp
    next
      case (PostOp now fresh eid entry)
      then show ?thesis using st Inr assms exact_post by (auto simp: forget_Inr)
    next
      case (AccountOp a)
      then show ?thesis using st Inr exact_books_cong[of db' db] assms(2)
        by (auto simp: forget_Inr CreateAccount_def tx_commit split: if_splits)
    next
      case (PeriodOp p)
      then show ?thesis using st Inr exact_books_cong[of db' db] assms(2) by (auto simp: forget_Inr dest!: UpsertPeriod_ok(1))
    qed
    with st show ?thesis by simp
  qed
qed

lemma exact_run:
  assumes "ledger_inv S db" "exact_books db" "\<forall>x \<in> set xs. exact_op x"
  shows "exact_books (ledger_run S xs db)"
  using assms
proof (induction xs arbitrary: db)
  case (Cons x xs)
  have "ledger_inv S (snd (ledger_step S x db))" using led.exec_keeps[OF Cons.prems(1), of x] by (simp add: led.exec_def)
  with Cons exact_step[OF Cons.prems(1,2)] show ?case by (simp add: ledger_run_def)
qed (simp add: ledger_run_def)


section \<open>Entries by source\<close>

lemma source_key_iff: "source_key r = Some (t, k, s) \<longleftrightarrow> jer_tenant r = t \<and> jer_ktype r = Some k \<and> jer_source r = Some s"
  by (auto simp: source_key_def split: option.splits)

lemma source_unique:
  assumes "books_inv db" "h \<in> set (journal_entries db)" "source_key h = Some x"
  shows "filter (\<lambda>r. source_key r = Some x) (journal_entries db) = [h]"
proof -
  have dj: "distinct (journal_entries db)" using books_invD(2)[OF assms(1)] by (simp add: distinct_map)
  have "h' = h" if "h' \<in> set (journal_entries db)" "source_key h' = Some x" for h'
  proof -
    have "inj_on source_key (set (filter (\<lambda>r. source_key r \<noteq> None) (journal_entries db)))"
      using books_invD(3)[OF assms(1)] by (simp only: filter_map comp_def distinct_map)
    moreover have "h \<in> set (filter (\<lambda>r. source_key r \<noteq> None) (journal_entries db))"
      "h' \<in> set (filter (\<lambda>r. source_key r \<noteq> None) (journal_entries db))"
      using that assms(2,3) unfolding set_filter mem_Collect_eq by (metis option.distinct(1))+
    ultimately show ?thesis using that(2) assms(3) by (metis inj_onD)
  qed
  then have only: "set (filter (\<lambda>r. source_key r = Some x) (journal_entries db)) = {h}"
    unfolding set_filter using assms(2,3) by blast
  then have "length (filter (\<lambda>r. source_key r = Some x) (journal_entries db)) = 1"
    using distinct_card[OF distinct_filter[OF dj]] by (metis card_1_singleton_iff One_nat_def)
  then obtain y where "filter (\<lambda>r. source_key r = Some x) (journal_entries db) = [y]" by (auto simp: length_Suc_conv)
  with only show ?thesis by (metis list.set(1,2) singleton_insert_inj_eq)
qed

lemma dup_source_rejected:
  assumes "source_key (header_row (filled now fresh entry)) = Some x" "Some x \<in> set (map source_key (journal_entries db))"
  obtains err where "PostJournalEntry S now fresh eid entry db = (Inl err, db)"
proof -
  obtain r db' where p: "PostJournalEntry S now fresh eid entry db = (r, db')" by fastforce
  show ?thesis
  proof (cases r)
    case (Inl err)
    with p PostJournalEntry_error that show ?thesis by blast
  next
    case (Inr out)
    then obtain db1 where "insert_header (filled now fresh entry) db = Inr db1"
      using p by (blast dest: PostJournalEntry_ok(5) post_write_header)
    with assms show ?thesis by (simp add: insert_header_ok)
  qed
qed

lemma dup_source_error:
  assumes "source_key (header_row (filled now fresh entry)) = Some x" "Some x \<in> set (map source_key (journal_entries db))"
    and "je_tenant entry \<noteq> 0" "je_CreatedBy entry \<noteq> 0" "validateLines (Lines entry) = Inr ()" "post_check (filled now fresh entry) db = Inr ()"
    and "entry_key (header_row (filled now fresh entry)) \<notin> set (map entry_key (journal_entries db))"
  shows "PostJournalEntry S now fresh eid entry db = (Inl ErrDuplicateSourceEntry, db)"
proof -
  have "insert_header (filled now fresh entry) db = Inl ErrDuplicateSourceEntry"
    using assms(1,2,7) by (simp add: insert_header_def Let_def)
  then have "post_tx S now eid (filled now fresh entry) db = Inl ErrDuplicateSourceEntry"
    using assms(6) by (simp add: post_tx_def post_write_def Let_def)
  moreover have "Lines entry \<noteq> []" using assms(5) by (auto simp: validateLines_def)
  ultimately show ?thesis using assms(3-5) by (simp add: PostJournalEntry_def Let_def WithTenantTx_def)
qed


section \<open>Locks\<close>

text \<open>The operations that may change the periods of a tenant otherwise than by locking them.\<close>

fun redefines :: "uuid \<Rightarrow> ledger_op \<Rightarrow> bool" where
  "redefines t (PeriodOp p) \<longleftrightarrow> fp_tenant p = t"
| "redefines t _ \<longleftrightarrow> False"

lemma lock_step:
  assumes "isPeriodLockedTx t d db" "\<not> redefines t x"
  shows "isPeriodLockedTx t d (snd (ledger_step S x db))"
proof -
  obtain r db' where st: "ledger_step S x db = (r, db')" by fastforce
  have keep: "fiscal_periods db' = fiscal_periods db \<Longrightarrow> ?thesis" using assms(1) st by (simp add: isPeriodLockedTx_def)
  show ?thesis
  proof (cases r)
    case (Inl e)
    with st led.error_keeps keep show ?thesis by blast
  next
    case (Inr u)
    show ?thesis
    proof (cases x)
      case (LockOp now eid t' start actor)
      let ?here = "\<lambda>x. fp_tenant x = t' \<and> PeriodStart x = Truncate_day start"
      let ?lock = "\<lambda>x. x\<lparr>Locked := True, LockedAt := Some (pg_time now), LockedBy := Some actor\<rparr>"
      obtain p where "LockPeriod S now eid t' start actor db = (Inr p, db')" using st Inr LockOp by (auto simp: forget_Inr)
      then have ps: "fiscal_periods db' = update_rows ?here ?lock (fiscal_periods db)"
        by (rule LockPeriod_ok) (auto dest: kernel_only_ledger(5))
      obtain q where q: "q \<in> set (fiscal_periods db)" "Locked q" "fp_tenant q = t" "PeriodStart q \<le> Truncate_day d" "Truncate_day d \<le> PeriodEnd q"
        using assms(1) by (auto simp: isPeriodLockedTx_iff)
      have "(if ?here q then ?lock q else q) \<in> set (fiscal_periods db')" unfolding ps set_update_rows using q(1) by (rule imageI)
      then have "isPeriodLockedTx t d db'"
        unfolding isPeriodLockedTx_iff by (rule bexI[rotated]) (use q in simp)
      then show ?thesis using st by simp
    next
      case (PeriodOp p)
      have "fp_tenant p \<noteq> t" using assms(2) PeriodOp by simp
      obtain out where "UpsertPeriod p db = (Inr out, db')" using st Inr PeriodOp by (auto simp: forget_Inr)
      note U = UpsertPeriod_ok(1)[OF this]
      obtain q where q: "q \<in> set (fiscal_periods db)" "Locked q" "fp_tenant q = t" "PeriodStart q \<le> Truncate_day d" "Truncate_day d \<le> PeriodEnd q"
        using assms(1) by (auto simp: isPeriodLockedTx_iff)
      then have "q \<in> set (fiscal_periods db')"
        using \<open>fp_tenant p \<noteq> t\<close> by (auto simp: U upsert_period_row_def fp_key_def pg_period_def intro!: update_rows_other)
      with q have "isPeriodLockedTx t d db'" by (auto simp: isPeriodLockedTx_iff)
      then show ?thesis using st by simp
    next
      case (AccountOp a)
      then show ?thesis using st Inr keep by (auto simp: forget_Inr CreateAccount_def tx_commit split: if_splits)
    next
      case (RateOp now rate)
      then obtain y where "UpsertRate now rate db = (Inr y, db')" using st Inr by (auto simp: forget_Inr)
      then obtain rs where "db' = db\<lparr>exchange_rates := rs\<rparr>" using UpsertRate_ok upsert_rate_tx_ok by metis
      with keep show ?thesis by simp
    next
      case (PostOp now fresh eid entry)
      then obtain out where p: "PostJournalEntry S now fresh eid entry db = (Inr out, db')" using st Inr by (auto simp: forget_Inr)
      note P = PostJournalEntry_ok[OF p]
      have "jl_Currency l \<noteq> []" if "l \<in> set (Lines (filled now fresh entry))" for l using valid_currency[OF P(3)] that by simp
      then obtain rows where "written S (filled now fresh entry) out rows db db'" by (rule post_write_ok[OF P(5)])
      then show ?thesis by (rule keep[OF written_tables(5)])
    qed
  qed
qed

lemma lock_run:
  "isPeriodLockedTx t d db \<Longrightarrow> \<forall>x \<in> set xs. \<not> redefines t x \<Longrightarrow> isPeriodLockedTx t d (ledger_run S xs db)"
proof (induction xs arbitrary: db)
  case (Cons x xs)
  then show ?case using lock_step[OF Cons.prems(1)] by (simp add: ledger_run_def)
qed (simp add: ledger_run_def)

lemma locked_rejects:
  assumes "isPeriodLockedTx (je_tenant entry) (PostedAt (filled now fresh entry)) db" "validateLines (Lines entry) = Inr ()"
    and "je_tenant entry \<noteq> 0" "je_CreatedBy entry \<noteq> 0"
  shows "PostJournalEntry S now fresh eid entry db = (Inl ErrPeriodLocked, db)"
proof -
  have "post_tx S now eid (filled now fresh entry) db = Inl ErrPeriodLocked" using assms(1) by (simp add: post_tx_def post_check_def)
  moreover have "Lines entry \<noteq> []" using assms(2) by (auto simp: validateLines_def)
  ultimately show ?thesis using assms(2-4) by (simp add: PostJournalEntry_def Let_def WithTenantTx_def)
qed

end
