(* ===== verification/Ledger_Correct.thy ===== *)
theory Ledger_Correct
  imports Ledger
begin

text \<open>
  What the posting engine guarantees and what it does not: balance of the books, the effect of a posting,
  reading back, one entry per source record, closed periods.
\<close>

section \<open>Examples\<close>

definition toy_store :: pgstore where
  "toy_store = \<lparr>ps_engine = toy_engine, ps_decimal = toy_decimal, ps_rates = True\<rparr>"

definition account_named :: "string \<Rightarrow> string \<Rightarrow> account" where
  "account_named c ty = \<lparr>ac_tenant = 1, ac_Code = c, ac_Name = c, ac_Type = ty, ParentCode = [], ac_Active = True\<rparr>"

definition leg :: "string \<Rightarrow> string \<Rightarrow> decimal \<Rightarrow> decimal \<Rightarrow> journalLine" where
  "leg cur c d k = \<lparr>jl_ID = 0, jl_tenant = 0, EntryID = 0, AccountCode = c, Debit = d, Credit = k, jl_Currency = cur, jl_Memo = [],
     BaseAmount = None\<rparr>"

definition invoice_entry :: "journalLine list \<Rightarrow> journalEntry" where
  "invoice_entry ls = \<lparr>je_ID = 0, je_tenant = 1, PostedAt = day 100 + 5000, je_Memo = [], SourceKType = ''finance.ar_invoice'',
     SourceID = Some 77, je_CreatedBy = 5, je_CreatedAt = 0, Lines = ls\<rparr>"

definition sale :: journalEntry where
  "sale = invoice_entry [leg ''USD'' ''1000'' (25 / 2) 0, leg ''USD'' ''4000'' 0 (25 / 2)]"

definition january :: "bool \<Rightarrow> fiscalPeriod" where
  "january b = \<lparr>fp_tenant = 1, PeriodStart = day 90, PeriodEnd = day 120, Locked = b, LockedAt = None, LockedBy = None\<rparr>"

definition setup_ops :: "ledger_op list" where
  "setup_ops = [AccountOp (account_named ''1000'' ''asset''), AccountOp (account_named ''4000'' ''revenue''), PeriodOp (january False)]"

definition open_ledger :: ledger_db where
  "open_ledger = ledger_run toy_store setup_ops empty_ledger"

lemma ledger_inv_empty: "ledger_inv S empty_ledger"
  by (simp add: ledger_inv_def books_inv_def kernel_inv_def outbox_inv_def audit_inv_def tenant_rows_def empty_ledger_def rates_inv_def)

lemma ledger_inv_open: "ledger_inv toy_store open_ledger"
  unfolding open_ledger_def by (rule ledger_run_inv[OF ledger_inv_empty])

lemma exact_books_empty: "exact_books empty_ledger"
  by (simp add: exact_books_def empty_ledger_def tenant_lines_def)

lemma toy_kernel [simp]: "eng_events (ps_engine toy_store)" "eng_auditor (ps_engine toy_store)"
  by (simp_all add: toy_store_def toy_engine_def)

lemma sale_posts:
  obtains out db' where "PostJournalEntry toy_store 9000 60 61 sale open_ledger = (Inr out, db')" "length (Lines out) = 2"
proof -
  have "(case fst (PostJournalEntry toy_store 9000 60 61 sale open_ledger) of Inl _ \<Rightarrow> 0 | Inr out \<Rightarrow> length (Lines out)) = 2" by code_simp
  then show ?thesis using that by (cases "PostJournalEntry toy_store 9000 60 61 sale open_ledger") (auto split: sum.splits)
qed


section \<open>Properties\<close>

text \<open>
  C1: The books balance. After any sequence of ledger operations with any outcomes every stored entry has
  lines, all in one currency, and its debits differ from its credits by at most half a unit of the fourth
  decimal per line; every line is a debit or a credit of an entry and an account that exist. If all amounts
  posted have at most four decimals, every entry balances exactly and so does every tenant's trial balance.
\<close>

theorem books_balance:
  assumes "ledger_inv S db" and "db' = ledger_run S xs db"
  shows "(\<forall>h \<in> set (journal_entries db'). let rows = entry_lines (entry_key h) db' in
            rows \<noteq> [] \<and> (\<forall>r \<in> set rows. jlr_currency r = jlr_currency (hd rows))
            \<and> \<bar>total_of jlr_debit rows - total_of jlr_credit rows\<bar> \<le> of_nat (length rows) / 20000)
    \<and> (\<forall>r \<in> set (journal_lines db'). line_ok db' r)
    \<and> (exact_books db \<and> (\<forall>x \<in> set xs. exact_op x) \<longrightarrow> exact_books db')"
proof (intro conjI impI)
  have inv: "books_inv db'" using ledger_run_inv[OF assms(1), of xs] assms(2) by (simp add: ledger_inv_def)
  show "\<forall>h \<in> set (journal_entries db'). let rows = entry_lines (entry_key h) db' in
            rows \<noteq> [] \<and> (\<forall>r \<in> set rows. jlr_currency r = jlr_currency (hd rows))
            \<and> \<bar>total_of jlr_debit rows - total_of jlr_credit rows\<bar> \<le> of_nat (length rows) / 20000"
    using books_invD(7)[OF inv] unfolding entry_ok_def drift_def Let_def by blast
  show "\<forall>r \<in> set (journal_lines db'). line_ok db' r" using books_invD(6)[OF inv] by blast
  show "exact_books db'" if "exact_books db \<and> (\<forall>x \<in> set xs. exact_op x)"
    using that exact_run[OF assms(1)] assms(2) by blast
qed

theorem books_balance_witness:
  "exact_books (ledger_run toy_store (setup_ops @ [PostOp 9000 60 61 sale]) empty_ledger)
   \<and> length (journal_lines (ledger_run toy_store (setup_ops @ [PostOp 9000 60 61 sale]) empty_ledger)) = 2"
proof
  have "list_all exact_op (setup_ops @ [PostOp 9000 60 61 sale])"
    by (simp add: setup_ops_def exact_entry_def sale_def invoice_entry_def leg_def scaled_code)
  then show "exact_books (ledger_run toy_store (setup_ops @ [PostOp 9000 60 61 sale]) empty_ledger)"
    using books_balance[OF ledger_inv_empty refl, of toy_store "setup_ops @ [PostOp 9000 60 61 sale]"] exact_books_empty
    unfolding list_all_iff by blast
qed code_simp

text \<open>
  C22: The effect of a posting. \<open>PostJournalEntry\<close> fails and changes nothing, or the submitted lines are valid, in
  one currency and balanced, no locked period covers the date, every account exists and is active, and exactly
  one header, one row per line, one event and one audit row of the caller are appended; accounts, periods and
  rates stay as they are.
\<close>

theorem post_effect:
  assumes "ledger_inv S db" and "PostJournalEntry S now fresh eid entry db = (r, db')"
    and "eng_events (ps_engine S)" and "eng_auditor (ps_engine S)" and "e = filled now fresh entry"
  shows "(\<exists>err. r = Inl err \<and> db' = db)
    \<or> (\<exists>out rows ev al. r = Inr out
         \<and> (\<forall>l \<in> set (Lines e). line_valid l \<and> jl_Currency l = jl_Currency (hd (Lines e)))
         \<and> total_of Debit (Lines e) = total_of Credit (Lines e)
         \<and> \<not> isPeriodLockedTx (je_tenant e) (PostedAt e) db
         \<and> (\<forall>l \<in> set (Lines e). \<exists>a. find_account (je_tenant e) (AccountCode l) db = Some a \<and> acr_active a)
         \<and> journal_entries db' = journal_entries db @ [header_row e] \<and> journal_lines db' = journal_lines db @ rows
         \<and> (\<forall>x \<in> set rows. jlr_tenant x = je_tenant e \<and> jlr_entry x = je_ID e)
         \<and> map (\<lambda>x. (jlr_account x, jlr_debit x, jlr_credit x)) rows
             = map (\<lambda>l. (AccountCode l, round_dec 4 (Debit l), round_dec 4 (Credit l))) (Lines e)
         \<and> events db' = events db @ [ev] \<and> ev_tenant ev = je_tenant e \<and> ev_type ev = ''finance.journal.posted''
         \<and> audit_log db' = audit_log db @ [al] \<and> al_actor al = Some (je_CreatedBy e) \<and> al_target al = Some (je_ID e)
         \<and> accounts db' = accounts db \<and> fiscal_periods db' = fiscal_periods db \<and> exchange_rates db' = exchange_rates db)"
proof (cases r)
  case (Inl err)
  with assms(2) PostJournalEntry_error show ?thesis by metis
next
  case (Inr out)
  note p = assms(2)[unfolded Inr] and P = PostJournalEntry_ok[OF assms(2)[unfolded Inr], folded assms(5)]
  have V: "validateLines (Lines e) = Inr ()" using P(3) assms(5) by simp
  obtain rows where w: "written S e out rows db db'" and v: "\<forall>l \<in> set (Lines e). line_valid l"
    and own: "\<forall>r \<in> set rows. jlr_tenant r = je_tenant e \<and> jlr_entry r = je_ID e"
    and ev: "\<exists>ev. events db' = events db @ [ev] \<and> ev_tenant ev = je_tenant e \<and> ev_type ev = ''finance.journal.posted''"
    and al: "\<exists>r. audit_log db' = audit_log db @ [r] \<and> al_tenant r = je_tenant e
       \<and> al_action r = ''finance.journal.posted'' \<and> al_actor r = Some (je_CreatedBy e) \<and> al_target r = Some (je_ID e)"
    by (rule post_facts[OF assms(1) p assms(5)]) (use assms(3,4) in blast)
  have la: "list_all2 (line_stored e) (zip (Lines e) (Lines out)) rows" "length (Lines out) = length (Lines e)"
    using w by (simp_all add: written_def)
  note R = stored_rows[OF la v]
  have cols: "map (\<lambda>x. (jlr_account x, jlr_debit x, jlr_credit x)) rows
      = map (\<lambda>l. (AccountCode l, round_dec 4 (Debit l), round_dec 4 (Credit l))) (Lines e)"
    using R(3,6,7) R(1) by (simp add: list_eq_iff_nth_eq)
  show ?thesis
    using Inr V[unfolded validateLines_ok] P(4)[unfolded post_check_ok] written_tables[OF w] own cols ev al by blast
qed

theorem post_effect_witness:
  "\<exists>out db' rows ev. PostJournalEntry toy_store 9000 60 61 sale open_ledger = (Inr out, db')
     \<and> journal_entries db' = journal_entries open_ledger @ [header_row (filled 9000 60 sale)]
     \<and> journal_lines db' = journal_lines open_ledger @ rows \<and> events db' = events open_ledger @ [ev]"
proof -
  obtain out db' where p: "PostJournalEntry toy_store 9000 60 61 sale open_ledger = (Inr out, db')" by (rule sale_posts)
  from post_effect[OF ledger_inv_open p toy_kernel refl] p show ?thesis by (elim disjE exE conjE) (simp, blast)
qed

text \<open>
  Reading back. The entry that \<open>PostJournalEntry\<close> returns is what \<open>GetJournalEntry\<close> finds under its id and
  \<open>GetJournalEntryBySource\<close> under its source, with its lines in order, up to the precision of the columns
  (microseconds and four decimals), provided the caller left the base amounts to the store.
\<close>

theorem post_roundtrip:
  assumes "ledger_inv S db" and "PostJournalEntry S now fresh eid entry db = (Inr out, db')" and "fresh \<noteq> 0"
    and "\<forall>l \<in> set (Lines entry). BaseAmount l = None"
  shows "GetJournalEntry (je_tenant out) (je_ID out) db' = Inr (pg_entry out)
    \<and> (SourceKType entry \<noteq> [] \<and> SourceID entry = Some s \<and> s \<noteq> 0 \<longrightarrow>
         GetJournalEntryBySource (je_tenant out) (SourceKType entry) s db' = Inr (pg_entry out))"
proof -
  obtain rows where w: "written S (filled now fresh entry) out rows db db'" by (rule post_facts[OF assms(1,2) refl])
  have "je_tenant out \<noteq> 0" "je_ID out \<noteq> 0"
    using written_out(1,2)[OF w] PostJournalEntry_ok(1)[OF assms(2)] assms(3) by (auto simp: filled_def)
  with posted_found[OF assms(1,2,4)] show ?thesis
    by (auto simp: GetJournalEntry_def GetJournalEntryBySource_def tx_fst)
qed

theorem post_roundtrip_witness:
  "\<exists>out db'. PostJournalEntry toy_store 9000 60 61 sale open_ledger = (Inr out, db')
     \<and> GetJournalEntryBySource (je_tenant out) ''finance.ar_invoice'' 77 db' = Inr (pg_entry out)"
proof -
  obtain out db' where p: "PostJournalEntry toy_store 9000 60 61 sale open_ledger = (Inr out, db')" by (rule sale_posts)
  have l: "\<forall>l \<in> set (Lines sale). BaseAmount l = None" by (simp add: sale_def invoice_entry_def leg_def)
  from post_roundtrip[OF ledger_inv_open p _ l, of 77] p show ?thesis by (simp add: sale_def invoice_entry_def)
qed

text \<open>
  C18: One entry per source record. After any sequence of operations the entry of a source is unique and
  \<open>GetJournalEntryBySource\<close> returns it; posting the source again fails without effect, with
  \<open>ErrDuplicateSourceEntry\<close> when nothing else is wrong with the posting.
\<close>

theorem source_posted_once:
  assumes "ledger_inv S db0" and "db = ledger_run S xs db0" and "h \<in> set (journal_entries db)"
    and "jer_ktype h = Some k" and "jer_source h = Some s" and "k \<noteq> []" and "s \<noteq> 0" and "jer_tenant h \<noteq> 0"
    and "je_tenant entry = jer_tenant h" and "SourceKType entry = k" and "SourceID entry = Some s"
  shows "(\<forall>h' \<in> set (journal_entries db). source_key h' = source_key h \<longrightarrow> h' = h)
    \<and> GetJournalEntryBySource (jer_tenant h) k s db = Inr (entry_of_row h db)
    \<and> (\<exists>err. PostJournalEntry S now fresh eid entry db = (Inl err, db)
         \<and> (je_CreatedBy entry \<noteq> 0 \<and> validateLines (Lines entry) = Inr () \<and> post_check (filled now fresh entry) db = Inr ()
            \<and> entry_key (header_row (filled now fresh entry)) \<notin> set (map entry_key (journal_entries db))
              \<longrightarrow> err = ErrDuplicateSourceEntry))"
proof -
  have inv: "books_inv db" using ledger_run_inv[OF assms(1)] assms(2) by (simp add: ledger_inv_def)
  have sk: "source_key h = Some (jer_tenant h, k, s)" using assms(4,5) by (simp add: source_key_iff)
  note one = source_unique[OF inv assms(3) sk]
  have "\<forall>h' \<in> set (journal_entries db). source_key h' = source_key h \<longrightarrow> h' = h"
    using arg_cong[OF one, of set] sk by auto
  moreover have "GetJournalEntryBySource (jer_tenant h) k s db = Inr (entry_of_row h db)"
    using assms(6-8) one[unfolded source_key_iff] by (simp add: GetJournalEntryBySource_def tx_fst)
  moreover have dup: "source_key (header_row (filled now fresh entry)) = Some (jer_tenant h, k, s)"
    using assms(6,9-11) by (simp add: source_key_iff header_row_def nullIfEmpty_def)
  have mem: "Some (jer_tenant h, k, s) \<in> set (map source_key (journal_entries db))" using assms(3) sk by force
  obtain err where "PostJournalEntry S now fresh eid entry db = (Inl err, db)" by (rule dup_source_rejected[OF dup mem])
  moreover note dup_source_error[OF dup mem, of S eid]
  ultimately show ?thesis using assms(8,9) by auto
qed

theorem source_posted_once_witness:
  "\<exists>err. PostJournalEntry toy_store 9500 62 63 sale (ledger_run toy_store [PostOp 9000 60 61 sale] open_ledger)
       = (Inl err, ledger_run toy_store [PostOp 9000 60 61 sale] open_ledger)"
proof -
  let ?db = "ledger_run toy_store [PostOp 9000 60 61 sale] open_ledger"
  have "map (\<lambda>h. (jer_tenant h, jer_ktype h, jer_source h)) (journal_entries ?db) = [(1, Some ''finance.ar_invoice'', Some 77)]" by code_simp
  then obtain h where h: "h \<in> set (journal_entries ?db)" "jer_tenant h = 1" "jer_ktype h = Some ''finance.ar_invoice''" "jer_source h = Some 77"
    by (auto simp: map_eq_Cons_conv)
  note once = source_posted_once[OF ledger_inv_open refl h(1,3,4), of sale 9500 62 63]
  have "je_tenant sale = jer_tenant h" "SourceKType sale = ''finance.ar_invoice''" "SourceID sale = Some 77"
    using h(2) by (simp_all add: sale_def invoice_entry_def)
  with once h(2) show ?thesis by simp blast
qed

text \<open>
  C29: Closed periods stay closed. Once a locked period covers a day, every valid posting dated in it is
  rejected with \<open>ErrPeriodLocked\<close> and without effect, whatever postings, locks, rates and accounts are written in
  between, as long as no period of the tenant is redefined by \<open>UpsertPeriod\<close>.
\<close>

theorem locked_period_rejects:
  assumes "isPeriodLockedTx t (PostedAt (filled now fresh entry)) db" and "\<forall>x \<in> set xs. \<not> redefines t x"
    and "je_tenant entry = t" and "t \<noteq> 0" and "je_CreatedBy entry \<noteq> 0" and "validateLines (Lines entry) = Inr ()"
  shows "PostJournalEntry S now fresh eid entry (ledger_run S xs db) = (Inl ErrPeriodLocked, ledger_run S xs db)"
  using locked_rejects lock_run[OF assms(1,2)] assms(3-6) by blast

theorem locked_period_rejects_witness:
  "PostJournalEntry toy_store 9500 60 61 sale (ledger_run toy_store [LockOp 9000 50 1 (day 90) 5, AccountOp (account_named ''5000'' ''expense'')] open_ledger)
     = (Inl ErrPeriodLocked, ledger_run toy_store [LockOp 9000 50 1 (day 90) 5, AccountOp (account_named ''5000'' ''expense'')] open_ledger)"
proof -
  let ?l = "ledger_run toy_store [LockOp 9000 50 1 (day 90) 5] open_ledger"
  let ?xs = "[AccountOp (account_named ''5000'' ''expense'')]"
  have run: "ledger_run toy_store ?xs ?l = ledger_run toy_store [LockOp 9000 50 1 (day 90) 5, AccountOp (account_named ''5000'' ''expense'')] open_ledger"
    by (simp add: ledger_run_def)
  have "isPeriodLockedTx 1 (PostedAt (filled 9500 60 sale)) ?l" "validateLines (Lines sale) = Inr ()"
    "je_tenant sale = 1" "je_CreatedBy sale \<noteq> 0" by code_simp+
  from locked_period_rejects[OF this(1) _ this(3) _ this(4,2), of ?xs toy_store 61] show ?thesis unfolding run by simp
qed

text \<open>
  A lock does not stop a posting that is under way. If the posting checks the periods before
  \<open>LockPeriod\<close> commits and writes after it, which READ COMMITTED allows since the check takes no lock,
  it succeeds, and the entry stands in a locked period.
\<close>

theorem lock_race:
  assumes "validateLines (Lines e) = Inr ()" and "post_check e db = Inr ()"
    and "LockPeriod S now' eid' (je_tenant e) start actor db = (Inr p, db1)"
    and "PeriodStart p \<le> Truncate_day (PostedAt e)" and "Truncate_day (PostedAt e) \<le> PeriodEnd p"
    and "post_write S now eid e db1 = Inr (out, db2)"
  shows "isPeriodLockedTx (je_tenant e) (PostedAt e) db1 \<and> isPeriodLockedTx (je_tenant e) (PostedAt e) db2
    \<and> header_row e \<in> set (journal_entries db2)"
  using assms(3)
proof (rule LockPeriod_ok)
  fix x
  let ?lock = "\<lambda>x. x\<lparr>Locked := True, LockedAt := Some (pg_time now'), LockedBy := Some actor\<rparr>"
  assume x: "x \<in> set (fiscal_periods db)" "fp_tenant x = je_tenant e" "PeriodStart x = Truncate_day start" "p = ?lock x"
    and k: "kernel_only (db\<lparr>fiscal_periods := update_rows (\<lambda>x. fp_tenant x = je_tenant e \<and> PeriodStart x = Truncate_day start) ?lock
       (fiscal_periods db)\<rparr>) db1"
  have "p \<in> set (fiscal_periods db1)"
    using x by (force simp: kernel_only_ledger(5)[OF k] set_update_rows)
  then have 1: "isPeriodLockedTx (je_tenant e) (PostedAt e) db1"
    unfolding isPeriodLockedTx_iff by (rule bexI[rotated]) (use x assms(4,5) in simp)
  obtain rows where w: "written S e out rows db1 db2"
    by (rule post_write_ok[OF assms(6) valid_currency[OF assms(1)]])
  show ?thesis using 1 written_tables(2,5)[OF w] by (simp add: isPeriodLockedTx_def)
qed

theorem lock_race_witness:
  "\<exists>p db1 out db2. post_check (filled 9000 60 sale) open_ledger = Inr ()
     \<and> LockPeriod toy_store 9100 50 1 (day 90) 5 open_ledger = (Inr p, db1)
     \<and> post_write toy_store 9000 61 (filled 9000 60 sale) db1 = Inr (out, db2)
     \<and> isPeriodLockedTx 1 (day 100) db2 \<and> header_row (filled 9000 60 sale) \<in> set (journal_entries db2)"
proof -
  let ?e = "filled 9000 60 sale"
  obtain r db1 where L: "LockPeriod toy_store 9100 50 1 (day 90) 5 open_ledger = (r, db1)" by fastforce
  have "(case fst (LockPeriod toy_store 9100 50 1 (day 90) 5 open_ledger) of Inl _ \<Rightarrow> None | Inr p \<Rightarrow> Some (PeriodStart p, PeriodEnd p))
      = Some (day 90, day 120)" by code_simp
  then obtain p where p: "r = Inr p" "PeriodStart p = day 90" "PeriodEnd p = day 120" using L by (auto split: sum.split_asm)
  have "isl (post_write toy_store 9000 61 ?e (snd (LockPeriod toy_store 9100 50 1 (day 90) 5 open_ledger))) = False" by code_simp
  then obtain out db2 where w: "post_write toy_store 9000 61 ?e db1 = Inr (out, db2)" using L by (cases "post_write toy_store 9000 61 ?e db1") auto
  have c: "post_check ?e open_ledger = Inr ()" "validateLines (Lines ?e) = Inr ()" "je_tenant ?e = 1"
    "Truncate_day (PostedAt ?e) = day 100" "Truncate_day (day 100) = day 100" "day 90 \<le> day 100 \<and> day 100 \<le> day 120" by code_simp+
  note race = lock_race[OF c(2,1) _ _ _ w, of 9100 50 "day 90" 5 p]
  have "isPeriodLockedTx 1 (day 100) db2 = isPeriodLockedTx 1 (PostedAt ?e) db2" by (simp add: isPeriodLockedTx_def c(4,5))
  with race L p c w show ?thesis by auto
qed

text \<open>
  \<open>UpsertPeriod\<close> reopens a locked period silently: storing a locked period again with the flag off succeeds, no
  locked period with that start is left, and neither an event nor an audit row is written.
\<close>

theorem upsert_reopens:
  assumes "ledger_inv S db" and "p \<in> set (fiscal_periods db)" and "Locked p" and "fp_tenant p \<noteq> 0"
    and "PeriodStart p \<noteq> 0" and "PeriodEnd p \<noteq> 0" and "Truncate_day (PeriodStart p) = PeriodStart p"
  shows "\<exists>out db'. UpsertPeriod (p\<lparr>Locked := False\<rparr>) db = (Inr out, db')
    \<and> (\<forall>q \<in> set (fiscal_periods db'). fp_key q = fp_key p \<longrightarrow> \<not> Locked q)
    \<and> events db' = events db \<and> audit_log db' = audit_log db"
proof -
  let ?q = "pg_period (p\<lparr>Locked := False\<rparr>)"
  let ?db = "db\<lparr>fiscal_periods := upsert_period_row ?q (fiscal_periods db)\<rparr>"
  have "PeriodStart p \<le> PeriodEnd p" using books_invD(9) assms(1,2) unfolding ledger_inv_def by blast
  then have u: "UpsertPeriod (p\<lparr>Locked := False\<rparr>) db = (Inr (p\<lparr>Locked := False\<rparr>), ?db)"
    using assms(4-6) by (simp add: UpsertPeriod_def WithTenantTx_def)
  have key: "fp_key ?q = fp_key p" "\<not> Locked ?q" using assms(7) by (simp_all add: fp_key_def pg_period_def)
  then have "\<not> Locked q" if "q \<in> set (fiscal_periods ?db)" "fp_key q = fp_key p" for q
    using that assms(2) by (auto simp: upsert_period_row_def set_update_rows image_iff split: if_splits)
  with u show ?thesis by auto
qed

theorem upsert_reopens_witness:
  "\<exists>out db'. UpsertPeriod (january False) (ledger_run toy_store [PeriodOp (january True)] open_ledger) = (Inr out, db')
     \<and> events db' = events (ledger_run toy_store [PeriodOp (january True)] open_ledger)"
proof -
  let ?db = "ledger_run toy_store [PeriodOp (january True)] open_ledger"
  have inv: "ledger_inv toy_store ?db" by (rule ledger_run_inv[OF ledger_inv_open])
  have "fiscal_periods ?db = [january True]" by code_simp
  then have m: "january True \<in> set (fiscal_periods ?db)" by simp
  have c: "Truncate_day (PeriodStart (january True)) = PeriodStart (january True)" "(january True)\<lparr>Locked := False\<rparr> = january False" by code_simp+
  have "Locked (january True)" "fp_tenant (january True) \<noteq> 0" "PeriodStart (january True) \<noteq> 0" "PeriodEnd (january True) \<noteq> 0"
    by (simp_all add: january_def day_def day_ns_def)
  from upsert_reopens[OF inv m this c(1)] show ?thesis unfolding c(2) by blast
qed

text \<open>
  Rounding can unbalance a stored entry. A posting that passes validation with debits 0.00005 and 0.00005
  against a credit of 0.0001 is accepted and stored with debits of 0.0002 against a credit of 0.0001.
\<close>

theorem rounding_unbalances:
  "validateLines [leg ''USD'' ''1000'' (1 / 20000) 0, leg ''USD'' ''1000'' (1 / 20000) 0, leg ''USD'' ''4000'' 0 (1 / 10000)] = Inr ()
   \<and> drift (journal_lines (ledger_run toy_store [PostOp 9000 60 61 (invoice_entry
       [leg ''USD'' ''1000'' (1 / 20000) 0, leg ''USD'' ''1000'' (1 / 20000) 0, leg ''USD'' ''4000'' 0 (1 / 10000)])] open_ledger)) = 1 / 10000"
  by (rule conjI) code_simp+

end
