(* ===== verification/Ledger_Reports.thy ===== *)
theory Ledger_Reports
  imports Ledger_Correct "HOL-Library.Multiset"
begin

text \<open>
  Reports over the ledger (internal/ledger/reports.go) and the tax codes (internal/ledger/tax.go): trial balance, income
  statement and the split of an amount into net, tax and gross. The aging report is not modelled.
\<close>

section \<open>Trial balance and income statement\<close>

record trialBalanceRow =
  tr_Code :: string
  tr_Name :: string
  tr_Type :: string
  tr_Debit :: decimal
  tr_Credit :: decimal
  tr_Balance :: decimal

record trialBalance =
  tb_tenant :: uuid
  tb_AsOf :: gotime
  tb_Rows :: "trialBalanceRow list"
  TotalDebit :: decimal
  TotalCredit :: decimal
  Residual :: decimal

definition in_range :: "uuid \<Rightarrow> (gotime \<Rightarrow> bool) \<Rightarrow> 'a ledger_db_scheme \<Rightarrow> uuid list" where
  "in_range t p db = map jer_id (filter (\<lambda>r. jer_tenant r = t \<and> p (jer_posted r)) (journal_entries db))"

definition account_lines :: "uuid list \<Rightarrow> account_row \<Rightarrow> 'a ledger_db_scheme \<Rightarrow> line_row list" where
  "account_lines ids a db =
     filter (\<lambda>l. jlr_tenant l = acr_tenant a \<and> jlr_account l = acr_code a \<and> jlr_entry l \<in> set ids) (journal_lines db)"

definition balance_row :: "uuid list \<Rightarrow> 'a ledger_db_scheme \<Rightarrow> account_row \<Rightarrow> trialBalanceRow" where
  "balance_row ids db a =
     (let d = total_of jlr_debit (account_lines ids a db); c = total_of jlr_credit (account_lines ids a db)
      in \<lparr>tr_Code = acr_code a, tr_Name = acr_name a, tr_Type = acr_type a, tr_Debit = d, tr_Credit = c, tr_Balance = d - c\<rparr>)"

definition chart :: "uuid \<Rightarrow> 'a ledger_db_scheme \<Rightarrow> account_row list" where
  "chart t db = sort_key acr_code (filter (\<lambda>a. acr_tenant a = t) (accounts db))"

definition TrialBalance :: "gotime \<Rightarrow> uuid \<Rightarrow> gotime \<Rightarrow> 'a ledger_db_scheme \<Rightarrow> ledger_error + trialBalance" where
  "TrialBalance now t asOf0 db =
     (if t = 0 then Inl LedgerArgs
      else let asOf = (if asOf0 = 0 then now else asOf0)
           in fst (WithTenantTx LedgerTxTenant t (\<lambda>db.
                let rows = map (balance_row (in_range t (\<lambda>p. p \<le> pg_time asOf) db) db) (chart t db);
                    d = fold (\<lambda>r acc. acc + tr_Debit r) rows 0; c = fold (\<lambda>r acc. acc + tr_Credit r) rows 0
                in Inr (\<lparr>tb_tenant = t, tb_AsOf = asOf, tb_Rows = rows, TotalDebit = d, TotalCredit = c, Residual = d - c\<rparr>, db)) db))"

record incomeStatementRow =
  is_Code :: string
  is_Name :: string
  is_Amount :: decimal

record incomeStatement =
  is_tenant :: uuid
  is_From :: gotime
  is_To :: gotime
  Revenue :: "incomeStatementRow list"
  Expense :: "incomeStatementRow list"
  TotalRevenue :: decimal
  TotalExpense :: decimal
  NetIncome :: decimal

text \<open>The loop over the rows of the query, which come ordered by type and code: expenses first, then revenue.\<close>

fun income_loop :: "trialBalanceRow list \<Rightarrow> incomeStatement \<Rightarrow> incomeStatement" where
  "income_loop [] out = out"
| "income_loop (r # rs) out =
     (if tr_Type r = ''revenue''
      then let amt = tr_Credit r - tr_Debit r
           in income_loop rs (out\<lparr>Revenue := Revenue out @ [\<lparr>is_Code = tr_Code r, is_Name = tr_Name r, is_Amount = amt\<rparr>],
                                  TotalRevenue := TotalRevenue out + amt\<rparr>)
      else let amt = tr_Debit r - tr_Credit r
           in income_loop rs (out\<lparr>Expense := Expense out @ [\<lparr>is_Code = tr_Code r, is_Name = tr_Name r, is_Amount = amt\<rparr>],
                                  TotalExpense := TotalExpense out + amt\<rparr>))"

definition profit_accounts :: "uuid \<Rightarrow> 'a ledger_db_scheme \<Rightarrow> account_row list" where
  "profit_accounts t db = sort_key acr_type (filter (\<lambda>a. acr_type a \<in> {''revenue'', ''expense''}) (chart t db))"

definition IncomeStatement :: "uuid \<Rightarrow> gotime \<Rightarrow> gotime \<Rightarrow> 'a ledger_db_scheme \<Rightarrow> ledger_error + incomeStatement" where
  "IncomeStatement t from to db =
     (if t = 0 then Inl LedgerArgs
      else if from = 0 \<or> to = 0 \<or> to < from then Inl PeriodBounds
      else fst (WithTenantTx LedgerTxTenant t (\<lambda>db.
             let rows = map (balance_row (in_range t (\<lambda>p. pg_time from \<le> p \<and> p \<le> pg_time to) db) db) (profit_accounts t db);
                 out = income_loop rows \<lparr>is_tenant = t, is_From = from, is_To = to, Revenue = [], Expense = [],
                                          TotalRevenue = 0, TotalExpense = 0, NetIncome = 0\<rparr>
             in Inr (out\<lparr>NetIncome := TotalRevenue out - TotalExpense out\<rparr>, db)) db))"


section \<open>Tax\<close>

record taxCode =
  tc_tenant :: uuid
  tc_Code :: string
  tc_Name :: string
  tc_Rate :: decimal
  tc_Type :: string
  tc_Active :: bool

definition CalculateTax :: "decimal_lib \<Rightarrow> taxCode \<Rightarrow> decimal \<Rightarrow> decimal \<times> decimal \<times> decimal" where
  "CalculateTax D tc subtotal =
     (if tc_Rate tc = 0 then (subtotal, 0, subtotal)
      else let rate = dec_div D (tc_Rate tc) 100
           in if tc_Type tc = ''exclusive'' then (let tax = subtotal * rate in (subtotal, tax, subtotal + tax))
              else if tc_Type tc = ''inclusive'' then (let net = dec_div D subtotal (1 + rate) in (net, subtotal - net, subtotal))
              else (subtotal, 0, subtotal))"


section \<open>Sums by key\<close>

lemma total_filter_key:
  assumes "distinct (map key as)"
  shows "sum_list (map (\<lambda>a. if g = key a then x else 0) as) = (if g \<in> key ` set as then x else (0 :: decimal))"
  using assms by (induction as) auto

lemma total_by_key:
  assumes "distinct (map key as)" and "\<And>l. l \<in> set ls \<Longrightarrow> P l \<Longrightarrow> g l \<in> key ` set as"
  shows "sum_list (map (\<lambda>a. total_of f (filter (\<lambda>l. P l \<and> g l = key a) ls)) as) = total_of f (filter P ls)"
  using assms(2)
proof (induction ls)
  case Nil
  show ?case by (simp add: sum_list_0)
next
  case (Cons l ls)
  have "sum_list (map (\<lambda>a. total_of f (filter (\<lambda>l. P l \<and> g l = key a) (l # ls))) as)
      = sum_list (map (\<lambda>a. (if P l \<and> g l = key a then f l else 0) + total_of f (filter (\<lambda>l. P l \<and> g l = key a) ls)) as)"
    by (intro arg_cong[where f = sum_list] map_cong) auto
  also have "\<dots> = sum_list (map (\<lambda>a. if P l \<and> g l = key a then f l else 0) as) + total_of f (filter P ls)"
    using Cons by (simp add: sum_list_addf)
  also have "sum_list (map (\<lambda>a. if P l \<and> g l = key a then f l else 0) as) = (if P l then f l else 0)"
    using total_filter_key[OF assms(1), of "g l" "f l"] Cons.prems[of l] by (cases "P l") (auto simp: sum_list_0)
  finally show ?case by simp
qed

lemma fold_add_total: "fold (\<lambda>r acc. acc + f r) rs x = x + total_of f rs"
  by (induction rs arbitrary: x) simp_all

lemma distinct_chart:
  assumes "books_inv db"
  shows "distinct (map acr_code (chart t db))" and "set (chart t db) = {a \<in> set (accounts db). acr_tenant a = t}"
proof -
  let ?as = "filter (\<lambda>a. acr_tenant a = t) (accounts db)"
  have inj: "inj_on account_key (set (accounts db))" "distinct (accounts db)" using books_invD(1)[OF assms] by (simp_all add: distinct_map)
  have "inj_on acr_code (set ?as)" using inj(1) by (auto simp: inj_on_def account_key_def)
  moreover have "distinct (sort_key acr_code ?as)" using inj(2) by simp
  ultimately show "distinct (map acr_code (chart t db))" by (simp add: chart_def distinct_map)
  show "set (chart t db) = {a \<in> set (accounts db). acr_tenant a = t}" by (auto simp: chart_def)
qed

definition posted_lines :: "uuid \<Rightarrow> uuid list \<Rightarrow> 'a ledger_db_scheme \<Rightarrow> line_row list" where
  "posted_lines t ids db = filter (\<lambda>l. jlr_tenant l = t \<and> jlr_entry l \<in> set ids) (journal_lines db)"

text \<open>Summing over the accounts of the chart gives the sum over the lines, since every line has its account.\<close>

lemma chart_sum:
  assumes "books_inv db"
  shows "sum_list (map (\<lambda>a. total_of f (account_lines ids a db)) (chart t db)) = total_of f (posted_lines t ids db)"
proof -
  have "account_lines ids a db = filter (\<lambda>l. (jlr_tenant l = t \<and> jlr_entry l \<in> set ids) \<and> jlr_account l = acr_code a) (journal_lines db)"
    if "a \<in> set (chart t db)" for a
    using that by (auto simp: account_lines_def distinct_chart(2)[OF assms] intro!: filter_cong)
  then have "sum_list (map (\<lambda>a. total_of f (account_lines ids a db)) (chart t db))
      = sum_list (map (\<lambda>a. total_of f (filter (\<lambda>l. (jlr_tenant l = t \<and> jlr_entry l \<in> set ids) \<and> jlr_account l = acr_code a) (journal_lines db))) (chart t db))"
    by (intro arg_cong[where f = sum_list] map_cong) auto
  also have "\<dots> = total_of f (filter (\<lambda>l. jlr_tenant l = t \<and> jlr_entry l \<in> set ids) (journal_lines db))"
  proof (rule total_by_key[OF distinct_chart(1)[OF assms]])
    fix l assume "l \<in> set (journal_lines db)" "jlr_tenant l = t \<and> jlr_entry l \<in> set ids"
    then show "jlr_account l \<in> acr_code ` set (chart t db)"
      using books_invD(6)[OF assms, of l] by (force simp: line_ok_def account_key_def distinct_chart(2)[OF assms])
  qed
  finally show ?thesis by (simp add: posted_lines_def)
qed

text \<open>When every entry balances, so do the lines of any selection of entries.\<close>

lemma posted_lines_balance:
  assumes "books_inv db" "exact_books db"
  shows "drift (posted_lines t (in_range t p db) db) = 0"
proof -
  let ?hs = "filter (\<lambda>r. jer_tenant r = t \<and> p (jer_posted r)) (journal_entries db)"
  have inj: "inj_on entry_key (set (journal_entries db))" "distinct (journal_entries db)"
    using books_invD(2)[OF assms(1)] by (simp_all add: distinct_map)
  have dist: "distinct (map jer_id ?hs)"
    using inj by (auto simp: distinct_map inj_on_def entry_key_def)
  let ?f = "\<lambda>l. jlr_debit l - jlr_credit l"
  have drift_f: "drift ls = total_of ?f ls" for ls by (induction ls) simp_all
  let ?P = "\<lambda>l. jlr_tenant l = t \<and> jlr_entry l \<in> jer_id ` set ?hs"
  have "total_of ?f (filter ?P (journal_lines db))
      = sum_list (map (\<lambda>h. total_of ?f (filter (\<lambda>l. ?P l \<and> jlr_entry l = jer_id h) (journal_lines db))) ?hs)"
    by (rule total_by_key[OF dist, symmetric]) simp
  also have "\<dots> = sum_list (map (\<lambda>h. 0) ?hs)"
  proof (intro arg_cong[where f = sum_list] map_cong refl)
    fix h assume h: "h \<in> set ?hs"
    then have "filter (\<lambda>l. ?P l \<and> jlr_entry l = jer_id h) (journal_lines db) = entry_lines (entry_key h) db"
      by (auto simp: entry_lines_def entry_key_def intro!: filter_cong)
    with assms(2) h show "total_of ?f (filter (\<lambda>l. ?P l \<and> jlr_entry l = jer_id h) (journal_lines db)) = 0"
      by (simp add: exact_books_def drift_f)
  qed
  finally show ?thesis by (simp add: drift_f posted_lines_def in_range_def)
qed

lemma income_loop_net:
  "TotalRevenue (income_loop rs out) - TotalExpense (income_loop rs out)
     = TotalRevenue out - TotalExpense out + total_of (\<lambda>r. tr_Credit r - tr_Debit r) rs"
  by (induction rs arbitrary: out) (auto simp: Let_def)

lemma total_of_map: "total_of f (map g xs) = total_of (\<lambda>x. f (g x)) xs"
  by (simp add: total_of_def comp_def)

lemma total_of_perm: "mset xs = mset ys \<Longrightarrow> total_of f xs = total_of f ys"
  unfolding total_of_def by (metis mset_map sum_mset_sum_list)

lemma total_of_split: "total_of f xs = total_of f (filter p xs) + total_of f (filter (\<lambda>x. \<not> p x) xs)"
  by (induction xs) auto

lemma total_of_diff: "total_of (\<lambda>x. f x - g x) xs = total_of f xs - total_of g xs"
  by (induction xs) auto

lemma run_exact:
  assumes "ledger_inv S db0" "exact_books db0" "\<forall>x \<in> set xs. exact_op x" "db = ledger_run S xs db0"
  shows "books_inv db" "exact_books db"
  using ledger_run_inv[OF assms(1)] exact_run[OF assms(1-3)] assms(4) by (simp_all add: ledger_inv_def)


section \<open>Properties\<close>

text \<open>
  C19: The trial balance closes. After any sequence of ledger operations whose posted amounts have at most four
  decimals, the trial balance of any tenant at any date has equal totals and residual 0.
\<close>

theorem trial_balance_closes:
  assumes "ledger_inv S db0" and "exact_books db0" and "\<forall>x \<in> set xs. exact_op x" and "db = ledger_run S xs db0" and "t \<noteq> 0"
  shows "\<exists>tb. TrialBalance now t asOf db = Inr tb \<and> TotalDebit tb = TotalCredit tb \<and> Residual tb = 0"
proof -
  note B = run_exact[OF assms(1-4)]
  let ?ids = "in_range t (\<lambda>p. p \<le> pg_time (if asOf = 0 then now else asOf)) db"
  have "total_of jlr_debit (posted_lines t ?ids db) = total_of jlr_credit (posted_lines t ?ids db)"
    using posted_lines_balance[OF B] by (simp add: drift_def)
  then have "sum_list (map (\<lambda>a. total_of jlr_debit (account_lines ?ids a db)) (chart t db))
      = sum_list (map (\<lambda>a. total_of jlr_credit (account_lines ?ids a db)) (chart t db))"
    unfolding chart_sum[OF B(1)] .
  with assms(5) show ?thesis
    by (cases "asOf = 0") (simp_all add: TrialBalance_def tx_fst Let_def fold_add_total total_of_map balance_row_def, simp_all add: total_of_def)
qed

theorem trial_balance_closes_witness:
  "\<exists>tb. TrialBalance 0 1 (day 200) (ledger_run toy_store (setup_ops @ [PostOp 9000 60 61 sale]) empty_ledger) = Inr tb
     \<and> Residual tb = 0 \<and> TotalDebit tb = 25 / 2"
proof -
  let ?xs = "setup_ops @ [PostOp 9000 60 61 sale]"
  have "list_all exact_op ?xs"
    by (simp add: setup_ops_def exact_entry_def sale_def invoice_entry_def leg_def scaled_code)
  then have x: "\<forall>x \<in> set ?xs. exact_op x" by (simp only: list_all_iff)
  obtain tb where tb: "TrialBalance 0 1 (day 200) (ledger_run toy_store ?xs empty_ledger) = Inr tb" "Residual tb = 0"
    using trial_balance_closes[OF ledger_inv_empty exact_books_empty x refl, of 1 0 "day 200" toy_store] by auto
  have "map_sum id TotalDebit (TrialBalance 0 1 (day 200) (ledger_run toy_store ?xs empty_ledger)) = Inr (25 / 2)" by code_simp
  with tb show ?thesis by auto
qed



end
