(* ===== verification/FX_Revaluation.thy ===== *)
theory FX_Revaluation
  imports Ledger_Reports
begin

text \<open>
  Revaluation of foreign-currency balances (internal/ledger/fx_revaluation.go, internal/ledger/unrealized_gain_loss.go):
  gather the open foreign-currency balances of asset and liability accounts, translate them at the
  current rate and post the difference to the recorded base value. Each difference is posted in a transaction of
  its own, so an error leaves the earlier ones in place; fresh UUIDs are taken from two supplies, one per posting.
  The order of the balances, which SQL leaves open, is that of the first line of each group.
\<close>

record revaluationConfig =
  GainAccount :: string
  LossAccount :: string
  AccountAllowList :: "string list"

record revaluationLine =
  rl_Account :: string
  rl_Currency :: string
  rl_Base :: string
  rl_ForeignNet :: decimal
  rl_CurrentRate :: decimal
  rl_RecordedBase :: decimal
  rl_RevaluedBase :: decimal
  rl_Delta :: decimal
  rl_GainLossAccount :: string
  rl_EntryID :: uuid

record revaluationSkip =
  rs_Account :: string
  rs_Currency :: string
  rs_Base :: string
  rs_ForeignNet :: decimal

record revaluationResult =
  rr_tenant :: uuid
  rr_AsOf :: gotime
  rr_Lines :: "revaluationLine list"
  rr_Skipped :: "revaluationSkip list"
  TotalGain :: decimal
  TotalLoss :: decimal
  rr_Net :: decimal

record fxBalance =
  fx_currency :: string
  fx_base :: string
  fx_account :: string
  foreignNet :: decimal
  recordedBaseNet :: decimal

definition withDefaults :: "revaluationConfig \<Rightarrow> revaluationConfig" where
  "withDefaults c =
     c\<lparr>GainAccount := (if GainAccount c = [] then ''4910'' else GainAccount c),
       LossAccount := (if LossAccount c = [] then ''5910'' else LossAccount c)\<rparr>"


section \<open>Gathering\<close>

definition open_line :: "uuid \<Rightarrow> string \<Rightarrow> gotime \<Rightarrow> string list \<Rightarrow> 'a ledger_db_scheme \<Rightarrow> line_row \<Rightarrow> bool" where
  "open_line t base asOf allowList db l \<longleftrightarrow>
     jlr_tenant l = t \<and> jlr_currency l \<noteq> base
     \<and> list_ex (\<lambda>a. acr_tenant a = t \<and> acr_code a = jlr_account l \<and> acr_type a \<in> {''asset'', ''liability''}) (accounts db)
     \<and> list_ex (\<lambda>h. jer_tenant h = t \<and> jer_id h = jlr_entry l \<and> jer_posted h \<le> pg_time asOf) (journal_entries db)
     \<and> (allowList = [] \<or> jlr_account l \<in> set allowList)"

definition base_value :: "line_row \<Rightarrow> decimal" where
  "base_value l = (case jlr_base l of None \<Rightarrow> jlr_debit l - jlr_credit l | Some b \<Rightarrow> b)"

definition group_balance :: "string \<Rightarrow> line_row list \<Rightarrow> string \<times> string \<Rightarrow> fxBalance" where
  "group_balance base ls k =
     (let g = filter (\<lambda>l. (jlr_account l, jlr_currency l) = k) ls
      in \<lparr>fx_currency = snd k, fx_base = base, fx_account = fst k, foreignNet = drift g, recordedBaseNet = total_of base_value g\<rparr>)"

definition group_balances :: "string \<Rightarrow> line_row list \<Rightarrow> fxBalance list" where
  "group_balances base ls =
     filter (\<lambda>b. foreignNet b \<noteq> 0) (map (group_balance base ls) (remdups (map (\<lambda>l. (jlr_account l, jlr_currency l)) ls)))"

definition gatherFXBalances :: "uuid \<Rightarrow> gotime \<Rightarrow> string list \<Rightarrow> 'a ledger_db_scheme \<Rightarrow> ledger_error + fxBalance list" where
  "gatherFXBalances t asOf allowList db =
     fst (WithTenantTx LedgerTxTenant t (\<lambda>db.
       case map_of (base_currencies db) t of
         None \<Rightarrow> Inl ErrEntryNotFound
       | Some base \<Rightarrow> Inr (group_balances base (filter (open_line t base asOf allowList db) (journal_lines db)), db)) db)"


section \<open>The run\<close>

text \<open>\<open>fmt\<close> is \<open>Time.Format\<close> with the layout of a date; the three bytes between the currencies are an arrow in UTF-8.\<close>

definition reval_memo :: "(gotime \<Rightarrow> string) \<Rightarrow> gotime \<Rightarrow> fxBalance \<Rightarrow> string" where
  "reval_memo fmt asOf b =
     ''FX-REVAL '' @ fx_account b @ '' '' @ fx_currency b @ [CHR 0xE2, CHR 0x86, CHR 0x92] @ fx_base b @ '' on '' @ fmt asOf"

definition reval_entry :: "uuid \<Rightarrow> uuid \<Rightarrow> gotime \<Rightarrow> (gotime \<Rightarrow> string) \<Rightarrow> string \<Rightarrow> fxBalance \<Rightarrow> decimal \<Rightarrow> journalEntry" where
  "reval_entry actor t asOf fmt gl b delta =
     (let leg = (\<lambda>c d k. \<lparr>jl_ID = 0, jl_tenant = t, EntryID = 0, AccountCode = c, Debit = d, Credit = k, jl_Currency = fx_base b,
                          jl_Memo = [], BaseAmount = None\<rparr>)
      in \<lparr>je_ID = 0, je_tenant = t, PostedAt = asOf, je_Memo = reval_memo fmt asOf b, SourceKType = ''finance.fx_revaluation'', SourceID = None,
          je_CreatedBy = actor, je_CreatedAt = 0,
          Lines = (if 0 < delta then [leg (fx_account b) \<bar>delta\<bar> 0, leg gl 0 \<bar>delta\<bar>]
                   else [leg gl \<bar>delta\<bar> 0, leg (fx_account b) 0 \<bar>delta\<bar>])\<rparr>)"

definition gl_account :: "revaluationConfig \<Rightarrow> decimal \<Rightarrow> string" where
  "gl_account cfg delta = (if delta < 0 then LossAccount cfg else GainAccount cfg)"

definition book :: "revaluationConfig \<Rightarrow> fxBalance \<Rightarrow> decimal \<Rightarrow> uuid \<Rightarrow> revaluationResult \<Rightarrow> revaluationResult" where
  "book cfg b rate i res =
     (let currentBase = foreignNet b * rate; delta = currentBase - recordedBaseNet b
      in res\<lparr>rr_Lines := rr_Lines res @ [\<lparr>rl_Account = fx_account b, rl_Currency = fx_currency b, rl_Base = fx_base b,
               rl_ForeignNet = foreignNet b, rl_CurrentRate = rate, rl_RecordedBase = recordedBaseNet b,
               rl_RevaluedBase = currentBase, rl_Delta = delta, rl_GainLossAccount = gl_account cfg delta, rl_EntryID = i\<rparr>],
             TotalGain := (if 0 < delta then TotalGain res + \<bar>delta\<bar> else TotalGain res),
             TotalLoss := (if 0 < delta then TotalLoss res else TotalLoss res + \<bar>delta\<bar>)\<rparr>)"

definition skip :: "fxBalance \<Rightarrow> revaluationResult \<Rightarrow> revaluationResult" where
  "skip b res = res\<lparr>rr_Skipped := rr_Skipped res @ [\<lparr>rs_Account = fx_account b, rs_Currency = fx_currency b, rs_Base = fx_base b,
                                                    rs_ForeignNet = foreignNet b\<rparr>]\<rparr>"

text \<open>The loop of \<open>runFXRevaluation\<close>; \<open>n\<close> counts the postings.\<close>

fun reval_loop ::
  "pgstore \<Rightarrow> gotime \<Rightarrow> (nat \<Rightarrow> uuid) \<Rightarrow> (nat \<Rightarrow> uuid) \<Rightarrow> uuid \<Rightarrow> uuid \<Rightarrow> gotime \<Rightarrow> (gotime \<Rightarrow> string) \<Rightarrow> revaluationConfig
   \<Rightarrow> nat \<Rightarrow> fxBalance list \<Rightarrow> revaluationResult \<Rightarrow> 'a ledger_db_scheme \<Rightarrow> (ledger_error + revaluationResult) \<times> 'a ledger_db_scheme" where
  "reval_loop S now ids eids actor t asOf fmt cfg n [] res db = (Inr (res\<lparr>rr_Net := TotalGain res - TotalLoss res\<rparr>), db)"
| "reval_loop S now ids eids actor t asOf fmt cfg n (b # bs) res db =
     (case GetRate (ps_decimal S) now t (fx_currency b) (fx_base b) asOf db of
        Inl _ \<Rightarrow> reval_loop S now ids eids actor t asOf fmt cfg n bs (skip b res) db
      | Inr rate \<Rightarrow>
          (let delta = foreignNet b * rate - recordedBaseNet b
           in if delta = 0 then reval_loop S now ids eids actor t asOf fmt cfg n bs res db
              else case PostJournalEntry S now (ids n) (eids n) (reval_entry actor t asOf fmt (gl_account cfg delta) b delta) db of
                     (Inl e, db') \<Rightarrow> (Inl e, db')
                   | (Inr posted, db') \<Rightarrow>
                       reval_loop S now ids eids actor t asOf fmt cfg (Suc n) bs (book cfg b rate (je_ID posted) res) db'))"

definition runFXRevaluation ::
  "pgstore \<Rightarrow> gotime \<Rightarrow> (nat \<Rightarrow> uuid) \<Rightarrow> (nat \<Rightarrow> uuid) \<Rightarrow> (gotime \<Rightarrow> string) \<Rightarrow> uuid \<Rightarrow> uuid \<Rightarrow> gotime \<Rightarrow> revaluationConfig
   \<Rightarrow> 'a ledger_db_scheme \<Rightarrow> (ledger_error + revaluationResult) \<times> 'a ledger_db_scheme" where
  "runFXRevaluation S now ids eids fmt actor t asOf0 cfg0 db =
     (if t = 0 then (Inl LedgerArgs, db)
      else let cfg = withDefaults cfg0; asOf = (if asOf0 = 0 then now else asOf0)
           in case gatherFXBalances t asOf (AccountAllowList cfg) db of
                Inl e \<Rightarrow> (Inl e, db)
              | Inr bs \<Rightarrow>
                  reval_loop S now ids eids actor t asOf fmt cfg 0 bs
                    \<lparr>rr_tenant = t, rr_AsOf = asOf, rr_Lines = [], rr_Skipped = [], TotalGain = 0, TotalLoss = 0, rr_Net = 0\<rparr> db)"


section \<open>Totals\<close>

definition delta_sum :: "revaluationLine list \<Rightarrow> decimal" where
  "delta_sum ls = total_of rl_Delta ls"

definition res_ok :: "revaluationResult \<Rightarrow> bool" where
  "res_ok res \<longleftrightarrow> 0 \<le> TotalGain res \<and> 0 \<le> TotalLoss res \<and> TotalGain res - TotalLoss res = delta_sum (rr_Lines res)
     \<and> (\<forall>l \<in> set (rr_Lines res). rl_Delta l = rl_ForeignNet l * rl_CurrentRate l - rl_RecordedBase l \<and> rl_Delta l \<noteq> 0)"

lemma res_ok_skip: "res_ok res \<Longrightarrow> res_ok (skip b res)"
  by (auto simp: res_ok_def skip_def)

lemma res_ok_book: "res_ok res \<Longrightarrow> foreignNet b * rate - recordedBaseNet b \<noteq> 0 \<Longrightarrow> res_ok (book cfg b rate i res)"
  by (auto simp: res_ok_def book_def Let_def delta_sum_def)

text \<open>The iterations of the loop that end without error.\<close>

lemma reval_loop_Cons:
  assumes "reval_loop S now ids eids actor t asOf fmt cfg n (b # bs) res db = (Inr out, db')"
  obtains (skip) e where "GetRate (ps_decimal S) now t (fx_currency b) (fx_base b) asOf db = Inl e"
      "reval_loop S now ids eids actor t asOf fmt cfg n bs (skip b res) db = (Inr out, db')"
  | (same) rate where "GetRate (ps_decimal S) now t (fx_currency b) (fx_base b) asOf db = Inr rate"
      "foreignNet b * rate - recordedBaseNet b = 0" "reval_loop S now ids eids actor t asOf fmt cfg n bs res db = (Inr out, db')"
  | (post) rate delta posted db1 where "GetRate (ps_decimal S) now t (fx_currency b) (fx_base b) asOf db = Inr rate"
      "delta = foreignNet b * rate - recordedBaseNet b" "delta \<noteq> 0"
      "PostJournalEntry S now (ids n) (eids n) (reval_entry actor t asOf fmt (gl_account cfg delta) b delta) db = (Inr posted, db1)"
      "reval_loop S now ids eids actor t asOf fmt cfg (Suc n) bs (book cfg b rate (je_ID posted) res) db1 = (Inr out, db')"
proof (cases "GetRate (ps_decimal S) now t (fx_currency b) (fx_base b) asOf db")
  case (Inl e)
  with assms skip show ?thesis by simp
next
  case (Inr rate)
  define delta where "delta = foreignNet b * rate - recordedBaseNet b"
  show ?thesis
  proof (cases "delta = 0")
    case True
    with assms Inr same[OF Inr] show ?thesis by (simp add: delta_def)
  next
    case False
    with assms Inr show ?thesis using post[OF Inr delta_def False]
      by (auto simp: Let_def delta_def[symmetric] split: prod.split_asm sum.split_asm)
  qed
qed

lemma reval_loop_res:
  assumes "reval_loop S now ids eids actor t asOf fmt cfg n bs res db = (Inr out, db')" "res_ok res"
  shows "res_ok out \<and> rr_Net out = TotalGain out - TotalLoss out"
  using assms
proof (induction bs arbitrary: n res db)
  case Nil
  then show ?case by (auto simp: res_ok_def)
next
  case (Cons b bs)
  from Cons.prems(1) show ?case
  proof (cases rule: reval_loop_Cons)
    case skip
    then show ?thesis using Cons.IH res_ok_skip Cons.prems(2) by blast
  next
    case same
    then show ?thesis using Cons.IH Cons.prems(2) by blast
  next
    case post
    then show ?thesis using Cons.IH res_ok_book Cons.prems(2) by blast
  qed
qed


section \<open>What a run leaves to the next\<close>

lemma written_base: "written S e out rows db db' \<Longrightarrow> base_currencies db' = base_currencies db"
proof -
  assume "written S e out rows db db'"
  then have k: "kernel_only (db\<lparr>journal_entries := journal_entries db @ [header_row e],
       journal_lines := journal_lines db @ rows, line_seq := line_seq db + int (length (Lines e))\<rparr>) db'" (is "kernel_only ?db _")
    by (simp add: written_def)
  have "db' = ?db\<lparr>events := events db', audit_log := audit_log db', audit_seq := audit_seq db'\<rparr>"
    using k by (simp only: kernel_only_def)
  from arg_cong[OF this, of base_currencies] show ?thesis by simp
qed

text \<open>Postings in the base currency are invisible to \<open>gatherFXBalances\<close>.\<close>

lemma gather_after_post:
  assumes "ledger_inv S db" "PostJournalEntry S now fresh eid entry db = (Inr out, db')"
    and "\<And>base. map_of (base_currencies db) t = Some base \<Longrightarrow> \<forall>l \<in> set (Lines entry). jl_Currency l = base"
  shows "gatherFXBalances t asOf al db' = gatherFXBalances t asOf al db" "exchange_rates db' = exchange_rates db"
    "base_currencies db' = base_currencies db"
proof -
  let ?e = "filled now fresh entry"
  obtain rows where w: "written S ?e out rows db db'" and k: "entry_key (header_row ?e) \<notin> set (map entry_key (journal_entries db))"
    and v: "\<forall>l \<in> set (Lines ?e). line_valid l"
    by (rule post_facts[OF assms(1,2) refl])
  note T = written_tables[OF w]
  have inv: "books_inv db" using assms(1) by (simp add: ledger_inv_def)
  have la: "list_all2 (line_stored ?e) (zip (Lines ?e) (Lines out)) rows" "length (Lines out) = length (Lines ?e)"
    using w by (simp_all add: written_def)
  show rates: "exchange_rates db' = exchange_rates db" by (rule T(6))
  show bc: "base_currencies db' = base_currencies db" by (rule written_base[OF w])
  have "filter (open_line t base asOf al db') (journal_lines db') = filter (open_line t base asOf al db) (journal_lines db)"
    if base: "map_of (base_currencies db) t = Some base" for base
  proof -
    have "jlr_currency r = base" if "r \<in> set rows" for r
    proof -
      have "jlr_currency r \<in> set (map jl_Currency (Lines ?e))" using that stored_rows(2)[OF la v] by (metis image_eqI set_map)
      with assms(3)[OF base] show ?thesis by auto
    qed
    then have new: "filter (open_line t base asOf al db') rows = []" by (auto simp: filter_empty_conv open_line_def)
    have old: "open_line t base asOf al db' l = open_line t base asOf al db l" if "l \<in> set (journal_lines db)" for l
    proof -
      have "(jlr_tenant l, jlr_entry l) \<in> entry_key ` set (journal_entries db)" using books_invD(6)[OF inv that] by (simp add: line_ok_def)
      with k have "(jlr_tenant l, jlr_entry l) \<noteq> entry_key (header_row ?e)" by (metis set_map)
      then have "\<not> (jlr_tenant l = t \<and> jer_tenant (header_row ?e) = t \<and> jer_id (header_row ?e) = jlr_entry l)"
        by (auto simp: entry_key_def)
      then show ?thesis unfolding open_line_def T(1) T(2) by auto
    qed
    show ?thesis unfolding T(3) filter_append new using old by (simp cong: filter_cong)
  qed
  then show "gatherFXBalances t asOf al db' = gatherFXBalances t asOf al db"
    by (simp add: gatherFXBalances_def tx_fst bc split: option.splits)
qed

lemma GetRate_cong: "exchange_rates db' = exchange_rates db \<Longrightarrow> asOf \<noteq> 0 \<Longrightarrow> GetRate D now' t f c asOf db' = GetRate D now t f c asOf db"
  by (simp add: GetRate_def tx_fst get_rate_tx_def latest_rate_def Let_def split: option.splits)

lemma reval_entry_currency: "l \<in> set (Lines (reval_entry actor t asOf fmt gl b delta)) \<Longrightarrow> jl_Currency l = fx_base b"
  by (auto simp: reval_entry_def Let_def split: if_splits)

lemma reval_loop_keeps:
  assumes "reval_loop S now ids eids actor t asOf fmt cfg n bs res db = (Inr out, db')" "ledger_inv S db"
    and "\<And>base b. map_of (base_currencies db) t = Some base \<Longrightarrow> b \<in> set bs \<Longrightarrow> fx_base b = base"
  shows "ledger_inv S db' \<and> exchange_rates db' = exchange_rates db \<and> gatherFXBalances t asOf' al db' = gatherFXBalances t asOf' al db"
  using assms
proof (induction bs arbitrary: n res db)
  case (Cons b bs)
  from Cons.prems(1) show ?case
  proof (cases rule: reval_loop_Cons)
    case skip
    show ?thesis by (rule Cons.IH[OF skip(2) Cons.prems(2)]) (use Cons.prems(3) in auto)
  next
    case same
    show ?thesis by (rule Cons.IH[OF same(3) Cons.prems(2)]) (use Cons.prems(3) in auto)
  next
    case (post rate delta posted db1)
    have "\<forall>l \<in> set (Lines (reval_entry actor t asOf fmt (gl_account cfg delta) b delta)). jl_Currency l = base"
      if "map_of (base_currencies db) t = Some base" for base
      using reval_entry_currency Cons.prems(3)[OF that] by auto
    note G = gather_after_post[OF Cons.prems(2) post(4) this]
    have "ledger_inv S db' \<and> exchange_rates db' = exchange_rates db1 \<and> gatherFXBalances t asOf' al db' = gatherFXBalances t asOf' al db1"
      by (rule Cons.IH[OF post(5) post_inv[OF Cons.prems(2) post(4)]]) (use Cons.prems(3) G(3) in auto)
    with G(1,2) show ?thesis by simp
  qed
qed simp

text \<open>The deltas that a run over given balances posts.\<close>

definition due_deltas :: "pgstore \<Rightarrow> gotime \<Rightarrow> uuid \<Rightarrow> gotime \<Rightarrow> 'a ledger_db_scheme \<Rightarrow> fxBalance list \<Rightarrow> (string \<times> string \<times> decimal) list" where
  "due_deltas S now t asOf db bs =
     concat (map (\<lambda>b. case GetRate (ps_decimal S) now t (fx_currency b) (fx_base b) asOf db of
         Inl _ \<Rightarrow> []
       | Inr rate \<Rightarrow> (if foreignNet b * rate - recordedBaseNet b = 0 then []
                      else [(fx_account b, fx_currency b, foreignNet b * rate - recordedBaseNet b)])) bs)"

definition posted_deltas :: "revaluationResult \<Rightarrow> (string \<times> string \<times> decimal) list" where
  "posted_deltas res = map (\<lambda>l. (rl_Account l, rl_Currency l, rl_Delta l)) (rr_Lines res)"

lemma due_deltas_cong:
  "exchange_rates db' = exchange_rates db \<Longrightarrow> asOf \<noteq> 0 \<Longrightarrow> due_deltas S now' t asOf db' bs = due_deltas S now t asOf db bs"
  unfolding due_deltas_def by (simp add: GetRate_cong[of db' db asOf _ now' _ _ _ now])

lemma reval_loop_deltas:
  assumes "reval_loop S now ids eids actor t asOf fmt cfg n bs res db = (Inr out, db')" "ledger_inv S db" "asOf \<noteq> 0"
    and "\<And>base b. map_of (base_currencies db) t = Some base \<Longrightarrow> b \<in> set bs \<Longrightarrow> fx_base b = base"
  shows "posted_deltas out = posted_deltas res @ due_deltas S now t asOf db bs"
  using assms
proof (induction bs arbitrary: n res db)
  case Nil
  then show ?case by (auto simp: posted_deltas_def due_deltas_def)
next
  case (Cons b bs)
  from Cons.prems(1) show ?case
  proof (cases rule: reval_loop_Cons)
    case skip
    have "posted_deltas out = posted_deltas (skip b res) @ due_deltas S now t asOf db bs"
      by (rule Cons.IH[OF skip(2) Cons.prems(2,3)]) (use Cons.prems(4) in auto)
    with skip(1) show ?thesis by (simp add: posted_deltas_def skip_def due_deltas_def)
  next
    case same
    have "posted_deltas out = posted_deltas res @ due_deltas S now t asOf db bs"
      by (rule Cons.IH[OF same(3) Cons.prems(2,3)]) (use Cons.prems(4) in auto)
    with same(1,2) show ?thesis by (simp add: due_deltas_def)
  next
    case (post rate delta posted db1)
    have "\<forall>l \<in> set (Lines (reval_entry actor t asOf fmt (gl_account cfg delta) b delta)). jl_Currency l = base"
      if "map_of (base_currencies db) t = Some base" for base
      using reval_entry_currency Cons.prems(4)[OF that] by auto
    note G = gather_after_post[OF Cons.prems(2) post(4) this]
    have "posted_deltas out = posted_deltas (book cfg b rate (je_ID posted) res) @ due_deltas S now t asOf db1 bs"
      by (rule Cons.IH[OF post(5) post_inv[OF Cons.prems(2) post(4)] Cons.prems(3)]) (use Cons.prems(4) G(3) in auto)
    with due_deltas_cong[OF G(2) Cons.prems(3), where S = S and now' = now and now = now and t = t and bs = bs] post(1-3) show ?thesis
      by (simp add: posted_deltas_def book_def Let_def due_deltas_def)
  qed
qed

lemma gathered_base:
  "gatherFXBalances t asOf al db = Inr bs \<Longrightarrow> map_of (base_currencies db) t = Some base \<Longrightarrow> b \<in> set bs \<Longrightarrow> fx_base b = base"
  by (auto simp: gatherFXBalances_def tx_fst group_balances_def group_balance_def Let_def split: if_splits)

lemma run_ok:
  assumes "runFXRevaluation S now ids eids fmt actor t asOf cfg db = (Inr r, db')" "ledger_inv S db" "asOf \<noteq> 0"
  obtains bs where "gatherFXBalances t asOf (AccountAllowList (withDefaults cfg)) db = Inr bs"
    "posted_deltas r = due_deltas S now t asOf db bs" "res_ok r" "rr_Net r = delta_sum (rr_Lines r)"
    "exchange_rates db' = exchange_rates db" "ledger_inv S db'"
    "\<forall>al. gatherFXBalances t asOf al db' = gatherFXBalances t asOf al db"
proof -
  let ?res = "\<lparr>rr_tenant = t, rr_AsOf = asOf, rr_Lines = [], rr_Skipped = [], TotalGain = 0, TotalLoss = 0, rr_Net = 0\<rparr>"
  obtain bs where g: "gatherFXBalances t asOf (AccountAllowList (withDefaults cfg)) db = Inr bs"
    and l: "reval_loop S now ids eids actor t asOf fmt (withDefaults cfg) 0 bs ?res db = (Inr r, db')"
    using assms(1,3) by (auto simp: runFXRevaluation_def Let_def split: if_split_asm sum.split_asm)
  have ok: "res_ok r \<and> rr_Net r = TotalGain r - TotalLoss r" by (rule reval_loop_res[OF l]) (simp add: res_ok_def delta_sum_def)
  note keep = reval_loop_keeps[OF l assms(2) gathered_base[OF g]]
  show ?thesis
  proof (rule that[OF g])
    show "posted_deltas r = due_deltas S now t asOf db bs"
      using reval_loop_deltas[OF l assms(2,3) gathered_base[OF g]] by (simp add: posted_deltas_def)
    show "rr_Net r = delta_sum (rr_Lines r)" using ok by (simp add: res_ok_def)
  qed (use ok keep in blast)+
qed


section \<open>Examples\<close>

definition export_entry :: journalEntry where
  "export_entry = invoice_entry [leg ''EUR'' ''1000'' 100 0, leg ''EUR'' ''4000'' 0 100]"

definition fx_ledger :: ledger_db where
  "fx_ledger = ledger_run toy_store
     (setup_ops @ [AccountOp (account_named ''4910'' ''revenue''), RateOp 5000 (quote_of ''EUR'' ''USD'' (day 100) (27 / 25)),
        PostOp 9000 60 61 export_entry, RateOp 9500 (quote_of ''EUR'' ''USD'' (day 150) (6 / 5))]) empty_ledger"

definition no_override :: revaluationConfig where
  "no_override = \<lparr>GainAccount = [], LossAccount = [], AccountAllowList = []\<rparr>"

definition first_run :: "(ledger_error + revaluationResult) \<times> ledger_db" where
  "first_run = runFXRevaluation toy_store 9600 (\<lambda>n. 70 + of_nat n) (\<lambda>n. 80 + of_nat n) (\<lambda>_. ''d'') 9 1 (day 150) no_override fx_ledger"

definition second_run :: "(ledger_error + revaluationResult) \<times> ledger_db" where
  "second_run = runFXRevaluation toy_store 9700 (\<lambda>n. 72 + of_nat n) (\<lambda>n. 82 + of_nat n) (\<lambda>_. ''d'') 9 1 (day 150) no_override (snd first_run)"

lemma ledger_inv_fx: "ledger_inv toy_store fx_ledger"
  unfolding fx_ledger_def by (rule ledger_run_inv[OF ledger_inv_empty])


section \<open>Properties\<close>

text \<open>
  Revaluation repeats itself. A run posts, for every open foreign-currency balance with a rate, the
  foreign amount at the current rate minus the recorded base value, and its net is the sum of these differences.
  But it posts them in the base currency, which the next sweep leaves out of the recorded base value: a second run
  for the same date finds the same balances and posts the same differences once more.
\<close>

theorem revaluation_repeats:
  assumes "ledger_inv S db" and "asOf \<noteq> 0"
    and "runFXRevaluation S now ids eids fmt actor t asOf cfg db = (Inr r1, db1)"
    and "runFXRevaluation S now' ids' eids' fmt actor t asOf cfg db1 = (Inr r2, db2)"
  shows "(\<forall>l \<in> set (rr_Lines r1). rl_Delta l = rl_ForeignNet l * rl_CurrentRate l - rl_RecordedBase l)
    \<and> rr_Net r1 = delta_sum (rr_Lines r1)
    \<and> posted_deltas r2 = posted_deltas r1 \<and> rr_Net r2 = rr_Net r1"
proof -
  obtain bs where r1: "gatherFXBalances t asOf (AccountAllowList (withDefaults cfg)) db = Inr bs"
    "posted_deltas r1 = due_deltas S now t asOf db bs" "res_ok r1" "rr_Net r1 = delta_sum (rr_Lines r1)"
    "exchange_rates db1 = exchange_rates db" "ledger_inv S db1" "\<forall>al. gatherFXBalances t asOf al db1 = gatherFXBalances t asOf al db"
    by (rule run_ok[OF assms(3,1,2)])
  obtain bs' where r2: "gatherFXBalances t asOf (AccountAllowList (withDefaults cfg)) db1 = Inr bs'"
    "posted_deltas r2 = due_deltas S now' t asOf db1 bs'" "rr_Net r2 = delta_sum (rr_Lines r2)"
    by (rule run_ok[OF assms(4) r1(6) assms(2)])
  have "bs' = bs" using r1(1,7) r2(1) by simp
  then have eq: "posted_deltas r2 = posted_deltas r1"
    using r1(2) r2(2) due_deltas_cong[OF r1(5) assms(2)] by simp
  have "delta_sum ls = total_of (snd \<circ> snd) (map (\<lambda>l. (rl_Account l, rl_Currency l, rl_Delta l)) ls)" for ls
    by (simp add: delta_sum_def total_of_map)
  then have "delta_sum (rr_Lines r2) = delta_sum (rr_Lines r1)" using eq by (simp add: posted_deltas_def)
  with eq r1(3,4) r2(3) show ?thesis by (simp add: res_ok_def)
qed

theorem revaluation_repeats_witness:
  "\<exists>r1 db1 r2 db2. first_run = (Inr r1, db1) \<and> second_run = (Inr r2, db2)
     \<and> posted_deltas r1 = [(''1000'', ''EUR'', 12)] \<and> posted_deltas r2 = [(''1000'', ''EUR'', 12)]"
proof -
  obtain x db1 where x: "first_run = (x, db1)" by fastforce
  have "map_sum id posted_deltas (fst first_run) = Inr [(''1000'', ''EUR'', 12)]" by code_simp
  then obtain r1 where f: "first_run = (Inr r1, db1)" "posted_deltas r1 = [(''1000'', ''EUR'', 12)]"
    unfolding x by (auto elim!: map_sum_InrE)
  have "isl (fst second_run) = False" by code_simp
  moreover obtain y db2 where y: "second_run = (y, db2)" by fastforce
  ultimately have "\<not> isl y" by (metis fst_conv)
  with y obtain r2 where g: "second_run = (Inr r2, db2)" by (cases y) auto
  have d: "day 150 \<noteq> 0" by (simp add: day_def day_ns_def)
  have snd1: "snd first_run = db1" using f(1) by (metis snd_conv)
  have "posted_deltas r2 = posted_deltas r1"
    using revaluation_repeats[OF ledger_inv_fx d f(1)[unfolded first_run_def] g[unfolded second_run_def snd1]] by blast
  then have "posted_deltas r2 = [(''1000'', ''EUR'', 12)]" by (simp only: f(2))
  with f g show ?thesis by (intro exI conjI)
qed

end
