(* ===== verification/KType_Validator.thy ===== *)
theory KType_Validator
  imports Condition
begin

text \<open>
  Record schemas and their validation (internal/ktype/validator.go). A schema is decoded from JSON into
  \<open>fieldSpec\<close>s; \<open>ValidateData\<close> checks a payload against it and reports one error per failing field,
  \<open>ValidateSchema\<close> checks the schema itself. Compiled patterns are kept in a process-wide cache, a
  state that the validator threads through. Error texts are constructors of \<open>message\<close> that carry the
  formatted values. The lemmas show that validation accepts exactly the payloads that conform to the
  schema field by field, and that the cache cannot be observed.
\<close>

section \<open>Schemas\<close>

record fieldSpec =
  f_name :: string
  f_type :: string
  f_required :: bool
  f_maxLength :: int
  f_min :: "f64 option"
  f_max :: "f64 option"
  f_pattern :: string
  f_values :: "string list"
  f_ref :: string
  f_ktype :: string
  f_default :: "json option"
  f_encrypted :: bool
  f_classification :: string
  f_path :: string
  f_indexed :: bool

record schema =
  s_name :: string
  s_version :: int
  s_fields :: "fieldSpec list"

definition zero_field :: fieldSpec where
  "zero_field =
     \<lparr>f_name = [], f_type = [], f_required = False, f_maxLength = 0, f_min = None, f_max = None, f_pattern = [],
      f_values = [], f_ref = [], f_ktype = [], f_default = None, f_encrypted = False, f_classification = [],
      f_path = [], f_indexed = False\<rparr>"

definition zero_schema :: schema where
  "zero_schema = \<lparr>s_name = [], s_version = 0, s_fields = []\<rparr>"

definition allowedClassifications :: "string list" where
  "allowedClassifications = [''public'', ''internal'', ''confidential'', ''secret'']"

definition IsSensitive :: "fieldSpec \<Rightarrow> bool" where
  "IsSensitive f \<longleftrightarrow> f_encrypted f \<or> f_classification f \<in> {''confidential'', ''secret''}"

definition splitDottedPath :: "string \<Rightarrow> string list" where
  "splitDottedPath p = split_on CHR ''.'' p"

definition PathSegments :: "fieldSpec \<Rightarrow> string list" where
  "PathSegments f = (if f_path f = [] then [f_name f] else splitDottedPath (f_path f))"

definition validPathSegment :: "string \<Rightarrow> bool" where
  "validPathSegment s \<longleftrightarrow> s \<noteq> [] \<and> list_all ident_char s"


section \<open>Decoding\<close>

text \<open>
  \<open>json.Unmarshal\<close> into the structs. A member of the wrong type makes the call fail; \<open>null\<close> leaves a
  field as it is, clears a pointer or a slice, and is stored by a raw message. A JSON number is its
  value, so that the literals 3 and 3.0 are the same integer.
\<close>

definition trunc_rat :: "rat \<Rightarrow> int" where
  "trunc_rat q = (if q < 0 then \<lceil>q\<rceil> else \<lfloor>q\<rfloor>)"

definition int64 :: "int \<Rightarrow> bool" where
  "int64 n \<longleftrightarrow> - (2 ^ 63) \<le> n \<and> n < 2 ^ 63"

fun unmarshal_int :: "int \<Rightarrow> json \<Rightarrow> int option" where
  "unmarshal_int old JNull = Some old"
| "unmarshal_int old (JNum (Some (Fin q))) =
     (if of_int (trunc_rat q) = q \<and> int64 (trunc_rat q) then Some (trunc_rat q) else None)"
| "unmarshal_int old _ = None"

fun unmarshal_flag :: "bool \<Rightarrow> json \<Rightarrow> bool option" where
  "unmarshal_flag old JNull = Some old"
| "unmarshal_flag old (JBool b) = Some b"
| "unmarshal_flag old _ = None"

fun unmarshal_float :: "json \<Rightarrow> f64 option option" where
  "unmarshal_float JNull = Some None"
| "unmarshal_float (JNum (Some n)) = Some (Some n)"
| "unmarshal_float _ = None"

definition unmarshal_strings :: "json \<Rightarrow> string list option" where
  "unmarshal_strings j =
     (case unmarshal_slice j of None \<Rightarrow> None | Some js \<Rightarrow> option_list (map (unmarshal_string []) js))"

definition decode_field_member :: "string \<times> json \<Rightarrow> fieldSpec option \<Rightarrow> fieldSpec option" where
  "decode_field_member kv acc =
     (case acc of
        None \<Rightarrow> None
      | Some f \<Rightarrow>
          (let k = map go_lower (fst kv); v = snd kv
           in if k = ''name'' then map_option (\<lambda>x. f\<lparr>f_name := x\<rparr>) (unmarshal_string (f_name f) v)
              else if k = ''type'' then map_option (\<lambda>x. f\<lparr>f_type := x\<rparr>) (unmarshal_string (f_type f) v)
              else if k = ''required'' then map_option (\<lambda>x. f\<lparr>f_required := x\<rparr>) (unmarshal_flag (f_required f) v)
              else if k = ''max_length'' then map_option (\<lambda>x. f\<lparr>f_maxLength := x\<rparr>) (unmarshal_int (f_maxLength f) v)
              else if k = ''min'' then map_option (\<lambda>x. f\<lparr>f_min := x\<rparr>) (unmarshal_float v)
              else if k = ''max'' then map_option (\<lambda>x. f\<lparr>f_max := x\<rparr>) (unmarshal_float v)
              else if k = ''pattern'' then map_option (\<lambda>x. f\<lparr>f_pattern := x\<rparr>) (unmarshal_string (f_pattern f) v)
              else if k = ''values'' then map_option (\<lambda>x. f\<lparr>f_values := x\<rparr>) (unmarshal_strings v)
              else if k = ''ref'' then map_option (\<lambda>x. f\<lparr>f_ref := x\<rparr>) (unmarshal_string (f_ref f) v)
              else if k = ''ktype'' then map_option (\<lambda>x. f\<lparr>f_ktype := x\<rparr>) (unmarshal_string (f_ktype f) v)
              else if k = ''default'' then Some (f\<lparr>f_default := Some v\<rparr>)
              else if k = ''encrypted'' then map_option (\<lambda>x. f\<lparr>f_encrypted := x\<rparr>) (unmarshal_flag (f_encrypted f) v)
              else if k = ''classification''
                then map_option (\<lambda>x. f\<lparr>f_classification := x\<rparr>) (unmarshal_string (f_classification f) v)
              else if k = ''path'' then map_option (\<lambda>x. f\<lparr>f_path := x\<rparr>) (unmarshal_string (f_path f) v)
              else if k = ''indexed'' then map_option (\<lambda>x. f\<lparr>f_indexed := x\<rparr>) (unmarshal_flag (f_indexed f) v)
              else Some f))"

definition decode_field :: "json \<Rightarrow> fieldSpec option" where
  "decode_field j =
     (case j of
        JNull \<Rightarrow> Some zero_field
      | JObj ps \<Rightarrow> fold decode_field_member ps (Some zero_field)
      | _ \<Rightarrow> None)"

definition decode_schema_member :: "string \<times> json \<Rightarrow> schema option \<Rightarrow> schema option" where
  "decode_schema_member kv acc =
     (case acc of
        None \<Rightarrow> None
      | Some s \<Rightarrow>
          (let k = map go_lower (fst kv); v = snd kv
           in if k = ''name'' then map_option (\<lambda>x. s\<lparr>s_name := x\<rparr>) (unmarshal_string (s_name s) v)
              else if k = ''version'' then map_option (\<lambda>x. s\<lparr>s_version := x\<rparr>) (unmarshal_int (s_version s) v)
              else if k = ''fields''
                then (case unmarshal_slice v of
                        None \<Rightarrow> None
                      | Some js \<Rightarrow> map_option (\<lambda>x. s\<lparr>s_fields := x\<rparr>) (option_list (map decode_field js)))
              else Some s))"

definition unmarshal_schema :: "raw_message \<Rightarrow> schema option" where
  "unmarshal_schema raw =
     (case raw_json raw of
        Some JNull \<Rightarrow> Some zero_schema
      | Some (JObj ps) \<Rightarrow> fold decode_schema_member ps (Some zero_schema)
      | _ \<Rightarrow> None)"

text \<open>Decoding into \<open>map[string]any\<close>; \<open>null\<close> gives the nil map.\<close>

definition unmarshal_object :: "json \<Rightarrow> (string \<times> any) list option" where
  "unmarshal_object j =
     (if j = JNull then Some []
      else case unmarshal_any j of Some (AMap m) \<Rightarrow> Some m | _ \<Rightarrow> None)"


section \<open>Validation\<close>

datatype message =
    IsRequired
  | MustBeBoolean
  | MustBeArray
  | MustBeObject
  | MustBeString
  | ExceedsMaxLength int
  | InvalidPattern string
  | DoesNotMatch string
  | MustBeNumber
  | MustBeInteger
  | MustBeAtLeast f64
  | MustBeAtMost f64
  | MustBeEnumString
  | MustBeOneOf "string list"
  | MustBeDateString
  | MustBeDate
  | RefMustBeUuid
  | BadClassification string
  | BadPathSegment string string

record validationError =
  ve_field :: string
  ve_message :: message

datatype ktype_error = ParseSchema | ParseData | ValidationErrors "validationError list"

text \<open>
  What the validator calls outside the repository: regular expressions, \<open>time.Parse\<close> with a layout
  (whether it succeeds), and the conversion of a float outside the range of int64, which Go leaves to
  the implementation.
\<close>

record ktype_lib =
  kl_go :: golib
  kl_date :: "string \<Rightarrow> string \<Rightarrow> bool"
  kl_int64 :: "f64 \<Rightarrow> int"

type_synonym pattern_cache = "string \<rightharpoonup> regexp"

definition patternRegexp :: "ktype_lib \<Rightarrow> string \<Rightarrow> pattern_cache \<Rightarrow> regexp option \<times> pattern_cache" where
  "patternRegexp K pat c =
     (case c pat of
        Some re \<Rightarrow> (Some re, c)
      | None \<Rightarrow>
          (case regexp_compile (kl_go K) pat of
             None \<Rightarrow> (None, c)
           | Some re \<Rightarrow> (Some re, c(pat \<mapsto> re))))"

fun toFloat64 :: "any \<Rightarrow> f64 option" where
  "toFloat64 (AFloat n) = Some n"
| "toFloat64 (AInt n) = Some (f64_of_int n)"
| "toFloat64 (AJNum f) = f"
| "toFloat64 _ = None"

definition float_to_int64 :: "ktype_lib \<Rightarrow> f64 \<Rightarrow> int" where
  "float_to_int64 K n =
     (case n of Fin q \<Rightarrow> if int64 (trunc_rat q) then trunc_rat q else kl_int64 K n | _ \<Rightarrow> kl_int64 K n)"

definition validateString ::
  "ktype_lib \<Rightarrow> fieldSpec \<Rightarrow> any \<Rightarrow> pattern_cache \<Rightarrow> message option \<times> pattern_cache" where
  "validateString K field v c =
     (case v of
        AStr s \<Rightarrow>
          (if f_maxLength field > 0 \<and> int (length s) > f_maxLength field
           then (Some (ExceedsMaxLength (f_maxLength field)), c)
           else if f_pattern field = [] then (None, c)
           else case patternRegexp K (f_pattern field) c of
                  (None, c') \<Rightarrow> (Some (InvalidPattern (f_pattern field)), c')
                | (Some re, c') \<Rightarrow>
                    (if regexp_match (kl_go K) re s then None else Some (DoesNotMatch (f_pattern field)), c'))
      | _ \<Rightarrow> (Some MustBeString, c))"

definition validateNumber :: "ktype_lib \<Rightarrow> fieldSpec \<Rightarrow> any \<Rightarrow> message option" where
  "validateNumber K field v =
     (case toFloat64 v of
        None \<Rightarrow> Some MustBeNumber
      | Some n \<Rightarrow>
          (if f_type field = ''integer'' \<and> \<not> f64_eq n (f64_of_int (float_to_int64 K n)) then Some MustBeInteger
           else case f_min field of
                  Some lo \<Rightarrow>
                    (if f64_lt n lo then Some (MustBeAtLeast lo)
                     else case f_max field of
                            Some hi \<Rightarrow> (if f64_lt hi n then Some (MustBeAtMost hi) else None)
                          | None \<Rightarrow> None)
                | None \<Rightarrow>
                    (case f_max field of
                       Some hi \<Rightarrow> (if f64_lt hi n then Some (MustBeAtMost hi) else None)
                     | None \<Rightarrow> None)))"

definition validateEnum :: "fieldSpec \<Rightarrow> any \<Rightarrow> message option" where
  "validateEnum field v =
     (case v of
        AStr s \<Rightarrow> (if s \<in> set (f_values field) then None else Some (MustBeOneOf (f_values field)))
      | _ \<Rightarrow> Some MustBeEnumString)"

definition date_layouts :: "string list" where
  "date_layouts = [''2006-01-02T15:04:05.999999999Z07:00'', ''2006-01-02T15:04:05Z07:00'', ''2006-01-02'']"

definition validateDate :: "ktype_lib \<Rightarrow> any \<Rightarrow> message option" where
  "validateDate K v =
     (case v of
        AStr s \<Rightarrow> (if list_ex (\<lambda>layout. kl_date K layout s) date_layouts then None else Some MustBeDate)
      | _ \<Rightarrow> Some MustBeDateString)"

definition validateRef :: "any \<Rightarrow> message option" where
  "validateRef v =
     (case v of AStr s \<Rightarrow> (if length s < 32 then Some RefMustBeUuid else None) | _ \<Rightarrow> Some RefMustBeUuid)"

definition validateFieldValue ::
  "ktype_lib \<Rightarrow> fieldSpec \<Rightarrow> any \<Rightarrow> pattern_cache \<Rightarrow> message option \<times> pattern_cache" where
  "validateFieldValue K field v c =
     (let t = f_type field
      in if t \<in> {''string'', ''text''} then validateString K field v c
         else if t \<in> {''number'', ''integer'', ''float'', ''decimal''} then (validateNumber K field v, c)
         else if t = ''boolean'' then (case v of ABool _ \<Rightarrow> None | _ \<Rightarrow> Some MustBeBoolean, c)
         else if t = ''enum'' then (validateEnum field v, c)
         else if t \<in> {''date'', ''datetime''} then (validateDate K v, c)
         else if t = ''ref'' then (validateRef v, c)
         else if t = ''array'' then (case v of AList _ \<Rightarrow> None | _ \<Rightarrow> Some MustBeArray, c)
         else if t = ''object'' then (case v of AMap _ \<Rightarrow> None | _ \<Rightarrow> Some MustBeObject, c)
         else (None, c))"

definition lookup_value :: "(string \<times> any) list \<Rightarrow> string \<Rightarrow> any option" where
  "lookup_value payload k = (case map_of payload k of Some ANil \<Rightarrow> None | r \<Rightarrow> r)"

definition validate_one ::
  "ktype_lib \<Rightarrow> (string \<times> any) list \<Rightarrow> fieldSpec \<Rightarrow> pattern_cache \<Rightarrow> message option \<times> pattern_cache" where
  "validate_one K payload field c =
     (case lookup_value payload (f_name field) of
        None \<Rightarrow> (if f_required field then Some IsRequired else None, c)
      | Some v \<Rightarrow> validateFieldValue K field v c)"

fun validate_loop ::
  "ktype_lib \<Rightarrow> (string \<times> any) list \<Rightarrow> fieldSpec list \<Rightarrow> pattern_cache \<Rightarrow> validationError list \<times> pattern_cache"
where
  "validate_loop K payload [] c = ([], c)"
| "validate_loop K payload (f # fs) c =
     (let (msg, c1) = validate_one K payload f c;
          (errs, c2) = validate_loop K payload fs c1
      in (case msg of None \<Rightarrow> errs | Some m \<Rightarrow> \<lparr>ve_field = f_name f, ve_message = m\<rparr> # errs, c2))"

definition validateAgainstSchema ::
  "ktype_lib \<Rightarrow> schema \<Rightarrow> (string \<times> any) list \<Rightarrow> pattern_cache \<Rightarrow> (ktype_error + unit) \<times> pattern_cache" where
  "validateAgainstSchema K s payload c =
     (let (errs, c') = validate_loop K payload (s_fields s) c
      in (if errs = [] then Inr () else Inl (ValidationErrors errs), c'))"

definition ValidateData ::
  "ktype_lib \<Rightarrow> raw_message \<Rightarrow> raw_message \<Rightarrow> pattern_cache \<Rightarrow> (ktype_error + unit) \<times> pattern_cache" where
  "ValidateData K sch data c =
     (case unmarshal_schema sch of
        None \<Rightarrow> (Inl ParseSchema, c)
      | Some s \<Rightarrow>
          (if raw_text data = [] then validateAgainstSchema K s [] c
           else case Option.bind (raw_json data) unmarshal_object of
                  None \<Rightarrow> (Inl ParseData, c)
                | Some payload \<Rightarrow> validateAgainstSchema K s payload c))"

definition schema_errors :: "fieldSpec \<Rightarrow> validationError list" where
  "schema_errors f =
     (if f_classification f = [] \<or> f_classification f \<in> set allowedClassifications then []
      else [\<lparr>ve_field = f_name f, ve_message = BadClassification (f_classification f)\<rparr>])
     @ (if f_path f = [] then []
        else case List.find (\<lambda>seg. \<not> validPathSegment seg) (splitDottedPath (f_path f)) of
               None \<Rightarrow> []
             | Some seg \<Rightarrow> [\<lparr>ve_field = f_name f, ve_message = BadPathSegment (f_path f) seg\<rparr>])"

definition ValidateSchema :: "raw_message \<Rightarrow> ktype_error + unit" where
  "ValidateSchema sch =
     (case unmarshal_schema sch of
        None \<Rightarrow> Inl ParseSchema
      | Some s \<Rightarrow>
          (let errs = concat (map schema_errors (s_fields s))
           in if errs = [] then Inr () else Inl (ValidationErrors errs)))"


section \<open>The pattern cache is transparent\<close>

definition cache_sound :: "ktype_lib \<Rightarrow> pattern_cache \<Rightarrow> bool" where
  "cache_sound K c \<longleftrightarrow> (\<forall>pat re. c pat = Some re \<longrightarrow> regexp_compile (kl_go K) pat = Some re)"

lemma cache_sound_empty [simp]: "cache_sound K Map.empty"
  by (simp add: cache_sound_def)

lemma patternRegexp_sound:
  "cache_sound K c \<Longrightarrow> fst (patternRegexp K pat c) = regexp_compile (kl_go K) pat \<and> cache_sound K (snd (patternRegexp K pat c))"
  by (auto simp: patternRegexp_def cache_sound_def split: option.splits)

text \<open>A computation over the cache that keeps it sound and whose result is \<open>r\<close> whatever it holds.\<close>

definition via_cache :: "ktype_lib \<Rightarrow> (pattern_cache \<Rightarrow> 'a \<times> pattern_cache) \<Rightarrow> 'a \<Rightarrow> bool" where
  "via_cache K m r \<longleftrightarrow> (\<forall>c. cache_sound K c \<longrightarrow> fst (m c) = r \<and> cache_sound K (snd (m c)))"

lemma via_cache_return [intro]: "via_cache K (\<lambda>c. (r, c)) r"
  by (simp add: via_cache_def)

lemma via_cacheD: "via_cache K m r \<Longrightarrow> cache_sound K c \<Longrightarrow> \<exists>c'. m c = (r, c') \<and> cache_sound K c'"
  unfolding via_cache_def by (metis prod.collapse)

definition string_msg :: "ktype_lib \<Rightarrow> fieldSpec \<Rightarrow> string \<Rightarrow> message option" where
  "string_msg K f s =
     (if f_maxLength f > 0 \<and> int (length s) > f_maxLength f then Some (ExceedsMaxLength (f_maxLength f))
      else if f_pattern f = [] then None
      else case regexp_compile (kl_go K) (f_pattern f) of
             None \<Rightarrow> Some (InvalidPattern (f_pattern f))
           | Some re \<Rightarrow> if regexp_match (kl_go K) re s then None else Some (DoesNotMatch (f_pattern f)))"

lemma validateString_cached:
  "via_cache K (validateString K f v) (case v of AStr s \<Rightarrow> string_msg K f s | _ \<Rightarrow> Some MustBeString)"
proof (cases v)
  case (AStr s)
  have "fst (validateString K f (AStr s) c) = string_msg K f s \<and> cache_sound K (snd (validateString K f (AStr s) c))"
    if "cache_sound K c" for c
    using patternRegexp_sound[OF that, of "f_pattern f"] that
    by (cases "patternRegexp K (f_pattern f) c") (auto simp: validateString_def string_msg_def split: option.splits)
  with AStr show ?thesis by (simp add: via_cache_def)
qed (simp_all add: via_cache_def validateString_def)

text \<open>The outcome for one value and for one field, without the cache.\<close>

definition value_msg :: "ktype_lib \<Rightarrow> fieldSpec \<Rightarrow> any \<Rightarrow> message option" where
  "value_msg K f v = fst (validateFieldValue K f v Map.empty)"

definition field_msg :: "ktype_lib \<Rightarrow> (string \<times> any) list \<Rightarrow> fieldSpec \<Rightarrow> message option" where
  "field_msg K p f = fst (validate_one K p f Map.empty)"

lemma via_cache_fst: "via_cache K m r \<Longrightarrow> fst (m Map.empty) = r"
  by (simp add: via_cache_def)

lemma via_cache_any: "via_cache K m r \<Longrightarrow> via_cache K m (fst (m Map.empty))"
  by (simp add: via_cache_def)

lemma validateFieldValue_cached: "via_cache K (validateFieldValue K f v) (value_msg K f v)"
proof (cases "f_type f \<in> {''string'', ''text''}")
  case True
  then have "validateFieldValue K f v = validateString K f v" by (auto simp: validateFieldValue_def)
  then show ?thesis unfolding value_msg_def using via_cache_any[OF validateString_cached] by metis
next
  case False
  then have "validateFieldValue K f v c = (value_msg K f v, c)" for c
    by (simp add: validateFieldValue_def value_msg_def Let_def)
  then show ?thesis by (simp add: via_cache_def)
qed

lemma validate_one_cached: "via_cache K (validate_one K p f) (field_msg K p f)"
proof (cases "lookup_value p (f_name f)")
  case None
  then show ?thesis by (simp add: via_cache_def validate_one_def field_msg_def)
next
  case (Some v)
  then have "validate_one K p f = validateFieldValue K f v" by (simp add: validate_one_def fun_eq_iff)
  then show ?thesis unfolding field_msg_def using via_cache_any[OF validateFieldValue_cached] by metis
qed

definition field_errors :: "ktype_lib \<Rightarrow> (string \<times> any) list \<Rightarrow> fieldSpec list \<Rightarrow> validationError list" where
  "field_errors K p fs =
     concat (map (\<lambda>f. case field_msg K p f of None \<Rightarrow> [] | Some m \<Rightarrow> [\<lparr>ve_field = f_name f, ve_message = m\<rparr>]) fs)"

lemma validate_loop_cached: "via_cache K (validate_loop K p fs) (field_errors K p fs)"
proof (induction fs)
  case (Cons f fs)
  have "fst (validate_loop K p (f # fs) c) = field_errors K p (f # fs) \<and> cache_sound K (snd (validate_loop K p (f # fs) c))"
    if c: "cache_sound K c" for c
  proof -
    obtain c1 where "validate_one K p f c = (field_msg K p f, c1)" and c1: "cache_sound K c1"
      using via_cacheD[OF validate_one_cached c] by blast
    moreover obtain c2 where "validate_loop K p fs c1 = (field_errors K p fs, c2)" "cache_sound K c2"
      using via_cacheD[OF Cons.IH c1] by blast
    ultimately show ?thesis by (auto simp: field_errors_def split: option.splits)
  qed
  then show ?case by (simp add: via_cache_def)
qed (simp add: via_cache_def field_errors_def)


section \<open>Conformance\<close>

text \<open>What a schema asks of a value and of a payload, independently of the order of the checks.\<close>

definition whole :: "ktype_lib \<Rightarrow> f64 \<Rightarrow> bool" where
  "whole K n \<longleftrightarrow> f64_eq n (f64_of_int (float_to_int64 K n))"

definition conforms :: "ktype_lib \<Rightarrow> fieldSpec \<Rightarrow> any \<Rightarrow> bool" where
  "conforms K f v \<longleftrightarrow>
     (f_type f \<in> {''string'', ''text''} \<longrightarrow>
        (\<exists>s. v = AStr s \<and> (0 < f_maxLength f \<longrightarrow> int (length s) \<le> f_maxLength f)
           \<and> (f_pattern f \<noteq> [] \<longrightarrow> (\<exists>re. regexp_compile (kl_go K) (f_pattern f) = Some re \<and> regexp_match (kl_go K) re s))))
   \<and> (f_type f \<in> {''number'', ''integer'', ''float'', ''decimal''} \<longrightarrow>
        (\<exists>n. toFloat64 v = Some n \<and> (f_type f = ''integer'' \<longrightarrow> whole K n)
           \<and> (\<forall>lo. f_min f = Some lo \<longrightarrow> \<not> f64_lt n lo) \<and> (\<forall>hi. f_max f = Some hi \<longrightarrow> \<not> f64_lt hi n)))
   \<and> (f_type f = ''boolean'' \<longrightarrow> (\<exists>b. v = ABool b))
   \<and> (f_type f = ''enum'' \<longrightarrow> (\<exists>s \<in> set (f_values f). v = AStr s))
   \<and> (f_type f \<in> {''date'', ''datetime''} \<longrightarrow> (\<exists>s layout. v = AStr s \<and> layout \<in> set date_layouts \<and> kl_date K layout s))
   \<and> (f_type f = ''ref'' \<longrightarrow> (\<exists>s. v = AStr s \<and> 32 \<le> length s))
   \<and> (f_type f = ''array'' \<longrightarrow> (\<exists>xs. v = AList xs))
   \<and> (f_type f = ''object'' \<longrightarrow> (\<exists>m. v = AMap m))"

definition field_conforms :: "ktype_lib \<Rightarrow> (string \<times> any) list \<Rightarrow> fieldSpec \<Rightarrow> bool" where
  "field_conforms K p f \<longleftrightarrow>
     (case lookup_value p (f_name f) of None \<Rightarrow> \<not> f_required f | Some v \<Rightarrow> conforms K f v)"

lemma string_msg_None:
  "string_msg K f s = None \<longleftrightarrow>
     (0 < f_maxLength f \<longrightarrow> int (length s) \<le> f_maxLength f)
     \<and> (f_pattern f \<noteq> [] \<longrightarrow> (\<exists>re. regexp_compile (kl_go K) (f_pattern f) = Some re \<and> regexp_match (kl_go K) re s))"
  by (auto simp: string_msg_def split: option.splits)

lemma validateNumber_None:
  "validateNumber K f v = None \<longleftrightarrow>
     (\<exists>n. toFloat64 v = Some n \<and> (f_type f = ''integer'' \<longrightarrow> whole K n)
        \<and> (\<forall>lo. f_min f = Some lo \<longrightarrow> \<not> f64_lt n lo) \<and> (\<forall>hi. f_max f = Some hi \<longrightarrow> \<not> f64_lt hi n))"
  by (auto simp: validateNumber_def whole_def split: option.splits)

lemma validateEnum_None: "validateEnum f v = None \<longleftrightarrow> (\<exists>s \<in> set (f_values f). v = AStr s)"
  by (cases v) (auto simp: validateEnum_def)

lemma validateDate_None:
  "validateDate K v = None \<longleftrightarrow> (\<exists>s layout. v = AStr s \<and> layout \<in> set date_layouts \<and> kl_date K layout s)"
  by (cases v) (auto simp: validateDate_def list_ex_iff)

lemma validateRef_None: "validateRef v = None \<longleftrightarrow> (\<exists>s. v = AStr s \<and> 32 \<le> length s)"
  by (cases v) (auto simp: validateRef_def)

lemma validateString_None:
  "fst (validateString K f v Map.empty) = None \<longleftrightarrow> (\<exists>s. v = AStr s \<and> string_msg K f s = None)"
  by (cases v) (simp_all add: via_cache_fst[OF validateString_cached])

lemmas check_None = validateString_None string_msg_None validateNumber_None validateEnum_None validateDate_None
  validateRef_None

lemma value_msg_None: "value_msg K f v = None \<longleftrightarrow> conforms K f v"
proof -
  have b: "(case v of ABool _ \<Rightarrow> None | _ \<Rightarrow> Some MustBeBoolean) = None \<longleftrightarrow> (\<exists>b. v = ABool b)"
    and l: "(case v of AList _ \<Rightarrow> None | _ \<Rightarrow> Some MustBeArray) = None \<longleftrightarrow> (\<exists>xs. v = AList xs)"
    and m: "(case v of AMap _ \<Rightarrow> None | _ \<Rightarrow> Some MustBeObject) = None \<longleftrightarrow> (\<exists>m. v = AMap m)"
    by (cases v; simp)+
  show ?thesis
    unfolding value_msg_def validateFieldValue_def conforms_def Let_def
    by (simp add: check_None b l m)
qed

lemma field_msg_None: "field_msg K p f = None \<longleftrightarrow> field_conforms K p f"
  by (auto simp: field_msg_def validate_one_def field_conforms_def value_msg_None[symmetric] value_msg_def
      split: option.splits)

lemma field_errors_fields:
  "map ve_field (field_errors K p fs) = map f_name (filter (\<lambda>f. \<not> field_conforms K p f) fs)"
  by (induction fs) (auto simp: field_errors_def field_msg_None[symmetric] split: option.splits)

text \<open>The payload that a raw message stands for.\<close>

definition payload_of :: "raw_message \<Rightarrow> (string \<times> any) list option" where
  "payload_of data = (if raw_text data = [] then Some [] else Option.bind (raw_json data) unmarshal_object)"

lemma ValidateData_cached:
  assumes "unmarshal_schema sch = Some s" "payload_of data = Some p"
  shows "via_cache K (ValidateData K sch data)
           (let errs = field_errors K p (s_fields s) in if errs = [] then Inr () else Inl (ValidationErrors errs))"
proof -
  have "ValidateData K sch data = validateAgainstSchema K s p"
    using assms by (auto simp: ValidateData_def payload_of_def split: if_splits)
  moreover have "fst (validateAgainstSchema K s p c) =
       (let errs = field_errors K p (s_fields s) in if errs = [] then Inr () else Inl (ValidationErrors errs))
     \<and> cache_sound K (snd (validateAgainstSchema K s p c))" if "cache_sound K c" for c
    using via_cacheD[OF validate_loop_cached that, of p "s_fields s"] by (auto simp: validateAgainstSchema_def)
  ultimately show ?thesis by (simp add: via_cache_def)
qed

lemma whole_small:
  assumes "\<bar>q\<bar> < 2 ^ 53"
  shows "whole K (Fin q) \<longleftrightarrow> q \<in> \<int>"
proof -
  have t: "\<bar>trunc_rat q\<bar> < 2 ^ 53"
    using assms by (auto simp: trunc_rat_def abs_less_iff floor_less_iff less_ceiling_iff le_floor_iff ceiling_le_iff)
      linarith+
  have "of_int (trunc_rat q) = q \<longleftrightarrow> q \<in> \<int>"
    by (auto simp: trunc_rat_def elim!: Ints_cases)
  with t show ?thesis
    by (auto simp: whole_def float_to_int64_def int64_def f64_of_int_exact)
qed

text \<open>A schema that passes \<open>ValidateSchema\<close>: known classifications, and paths of nonempty segments of letters.\<close>

definition well_formed_field :: "fieldSpec \<Rightarrow> bool" where
  "well_formed_field f \<longleftrightarrow>
     (f_classification f \<noteq> [] \<longrightarrow> f_classification f \<in> set allowedClassifications)
     \<and> (f_path f \<noteq> [] \<longrightarrow> list_all validPathSegment (PathSegments f))"

lemma schema_errors_Nil: "schema_errors f = [] \<longleftrightarrow> well_formed_field f"
  by (auto simp: schema_errors_def well_formed_field_def PathSegments_def find_None_iff list_all_iff
      dest: find_SomeD split: option.splits)

lemma ValidateSchema_iff:
  "ValidateSchema sch = Inr () \<longleftrightarrow> (\<exists>s. unmarshal_schema sch = Some s \<and> list_all well_formed_field (s_fields s))"
  by (auto simp: ValidateSchema_def list_all_iff schema_errors_Nil split: option.splits)

lemma PathSegments_join: "f_path f \<noteq> [] \<Longrightarrow> join_with CHR ''.'' (PathSegments f) = f_path f"
  by (simp add: PathSegments_def splitDottedPath_def join_split)


section \<open>Examples\<close>

definition toy_ktype_lib :: ktype_lib where
  "toy_ktype_lib =
     \<lparr>kl_go = bin_lib, kl_date = (\<lambda>layout s. s = ''2026-01-31''), kl_int64 = (\<lambda>_. - (2 ^ 63))\<rparr>"

definition as_raw :: "json \<Rightarrow> raw_message" where
  "as_raw j = \<lparr>raw_text = ''json'', raw_json = Some j\<rparr>"

definition employee_schema :: raw_message where
  "employee_schema = as_raw (JObj
     [(''name'', JStr ''hr.employee''), (''version'', JNum (Some (Fin 1))),
      (''fields'', JArr
        [JObj [(''name'', JStr ''code''), (''type'', JStr ''string''), (''required'', JBool True),
               (''max_length'', JNum (Some (Fin 4)))],
         JObj [(''name'', JStr ''grade''), (''type'', JStr ''integer''), (''min'', JNum (Some (Fin 1))),
               (''max'', JNum (Some (Fin 9)))],
         JObj [(''name'', JStr ''since''), (''type'', JStr ''date'')],
         JObj [(''name'', JStr ''iban''), (''type'', JStr ''string''), (''classification'', JStr ''secret''),
               (''path'', JStr ''bank.iban''), (''indexed'', JBool True)]])])"

definition employee :: raw_message where
  "employee = as_raw (JObj
     [(''code'', JStr ''E1''), (''grade'', JNum (Some (Fin 3))), (''since'', JStr ''2026-01-31''),
      (''bank'', JObj [(''name'', JStr ''B''), (''iban'', JStr ''DE1'')])])"

definition bad_employee :: raw_message where
  "bad_employee = as_raw (JObj [(''grade'', JNum (Some (Fin (1/2)))), (''since'', JNull)])"

lemma employee_parses:
  "\<exists>s. unmarshal_schema employee_schema = Some s"
  "\<exists>p. payload_of employee = Some p"
  "\<exists>p. payload_of bad_employee = Some p"
proof -
  have "unmarshal_schema employee_schema \<noteq> None" "payload_of employee \<noteq> None" "payload_of bad_employee \<noteq> None"
    by code_simp+
  then show "\<exists>s. unmarshal_schema employee_schema = Some s" "\<exists>p. payload_of employee = Some p"
    "\<exists>p. payload_of bad_employee = Some p" by auto
qed


section \<open>Properties\<close>

lemma validation_exact_facts:
  assumes "unmarshal_schema sch = Some s" "payload_of data = Some p" "cache_sound K c"
  shows "fst (ValidateData K sch data c) = Inr () \<longleftrightarrow> (\<forall>f \<in> set (s_fields s). field_conforms K p f)"
    and "fst (ValidateData K sch data c) \<noteq> Inr () \<Longrightarrow>
         \<exists>errs. fst (ValidateData K sch data c) = Inl (ValidationErrors errs)
           \<and> map ve_field errs = map f_name (filter (\<lambda>f. \<not> field_conforms K p f) (s_fields s))"
    and "cache_sound K (snd (ValidateData K sch data c))"
proof -
  let ?errs = "field_errors K p (s_fields s)"
  have v: "fst (ValidateData K sch data c) = (if ?errs = [] then Inr () else Inl (ValidationErrors ?errs))"
    and "cache_sound K (snd (ValidateData K sch data c))"
    using via_cacheD[OF ValidateData_cached[OF assms(1,2)] assms(3)] by (auto simp: Let_def)
  then show "cache_sound K (snd (ValidateData K sch data c))" by simp
  have "?errs = [] \<longleftrightarrow> (\<forall>f \<in> set (s_fields s). field_conforms K p f)"
    using arg_cong[OF field_errors_fields[of K p "s_fields s"], of "\<lambda>xs. xs = []"]
    by (auto simp: filter_empty_conv)
  with v show "fst (ValidateData K sch data c) = Inr () \<longleftrightarrow> (\<forall>f \<in> set (s_fields s). field_conforms K p f)" by simp
  show "\<exists>errs. fst (ValidateData K sch data c) = Inl (ValidationErrors errs)
           \<and> map ve_field errs = map f_name (filter (\<lambda>f. \<not> field_conforms K p f) (s_fields s))"
    if "fst (ValidateData K sch data c) \<noteq> Inr ()"
    using v that field_errors_fields[of K p "s_fields s"] by (auto split: if_splits)
qed



end
