(* ===== verification/Go_Strconv.thy ===== *)
theory Go_Strconv
  imports Kapp_Prelude
begin

text \<open>
  Decimal integers of Go: \<open>fmt.Sprintf("%d", n)\<close> and \<open>strconv.ParseInt(s, 10, 64)\<close>, and the nanosecond
  counter of \<open>time.Time\<close>. Printing and parsing are inverse on 64-bit integers.
\<close>

definition digit :: "nat \<Rightarrow> char" where
  "digit n = char_of (48 + n mod 10)"

function show_nat :: "nat \<Rightarrow> string" where
  "show_nat n = (if n < 10 then [digit n] else show_nat (n div 10) @ [digit (n mod 10)])"
  by pat_completeness auto
termination by (relation "measure id") auto

declare show_nat.simps [simp del]

definition show_int :: "int \<Rightarrow> string" where
  "show_int n = (if n < 0 then CHR ''-'' # show_nat (nat (- n)) else show_nat (nat n))"

definition is_digit :: "char \<Rightarrow> bool" where
  "is_digit c \<longleftrightarrow> CHR ''0'' \<le> c \<and> c \<le> CHR ''9''"

definition digits_val :: "string \<Rightarrow> nat" where
  "digits_val s = foldl (\<lambda>v c. 10 * v + (of_char c - 48)) 0 s"

text \<open>An optional sign and at least one digit; a value outside int64 is an error.\<close>

definition ParseInt :: "string \<Rightarrow> int option" where
  "ParseInt s =
     (let neg = (s \<noteq> [] \<and> hd s = CHR ''-'');
          ds = (if s \<noteq> [] \<and> hd s \<in> {CHR ''-'', CHR ''+''} then tl s else s);
          v = (if neg then - int (digits_val ds) else int (digits_val ds))
      in if ds = [] \<or> \<not> list_all is_digit ds then None
         else if - (2 ^ 63) \<le> v \<and> v < 2 ^ 63 then Some v else None)"

lemma of_char_digit: "of_char (digit n) = 48 + n mod 10"
  by (simp add: digit_def of_char_of)

lemma is_digit_digit: "is_digit (digit n)"
  by (simp add: is_digit_def less_eq_char_def of_char_digit)

lemma digits_val_snoc: "digits_val (s @ [c]) = 10 * digits_val s + (of_char c - 48)"
  by (simp add: digits_val_def)

lemma show_nat_digits: "list_all is_digit (show_nat n)"
  by (induction n rule: show_nat.induct) (subst show_nat.simps, auto simp: is_digit_digit)

lemma show_nat_nonempty: "show_nat n \<noteq> []"
  by (subst show_nat.simps) simp

lemma digits_val_show: "digits_val (show_nat n) = n"
proof (induction n rule: show_nat.induct)
  case (1 n)
  show ?case
  proof (cases "n < 10")
    case True
    then show ?thesis by (subst show_nat.simps) (simp add: digits_val_def of_char_digit)
  next
    case False
    with 1 show ?thesis by (subst show_nat.simps) (simp add: digits_val_snoc of_char_digit)
  qed
qed

lemma show_nat_head: "hd (show_nat n) \<notin> {CHR ''-'', CHR ''+''}"
  using show_nat_digits[of n] show_nat_nonempty[of n]
  by (cases "show_nat n") (auto simp: is_digit_def less_eq_char_def)

lemma ParseInt_show:
  assumes "- (2 ^ 63) \<le> n" "n < 2 ^ 63"
  shows "ParseInt (show_int n) = Some n"
proof (cases "n < 0")
  case True
  with assms show ?thesis by (simp add: ParseInt_def show_int_def show_nat_nonempty show_nat_digits digits_val_show Let_def)
next
  case False
  with assms show_nat_head[of "nat n"] show ?thesis
    by (simp add: ParseInt_def show_int_def show_nat_nonempty show_nat_digits digits_val_show Let_def)
qed

lemma show_int_chars: "set (show_int n) \<subseteq> insert (CHR ''-'') {c. is_digit c}"
  using show_nat_digits by (auto simp: show_int_def list_all_iff)

lemma not_in_show_int: "\<not> is_digit c \<Longrightarrow> c \<noteq> CHR ''-'' \<Longrightarrow> c \<notin> set (show_int n)"
  using show_int_chars by blast

lemma show_int_inj: "show_int m = show_int n \<Longrightarrow> m = n"
proof -
  have val: "n = (if hd (show_int n) = CHR ''-'' then - int (digits_val (tl (show_int n))) else int (digits_val (show_int n)))" for n
    using show_nat_head[of "nat n"] by (auto simp: show_int_def digits_val_show)
  assume "show_int m = show_int n"
  with val[of m] val[of n] show "m = n" by metis
qed


section \<open>Instants\<close>

text \<open>
  \<open>time.Time\<close> counts nanoseconds from 1 January of year 1; \<open>UnixNano\<close> counts from 1970 in an int64 and wraps
  around outside the years 1678 to 2262.
\<close>

definition unix_epoch :: gotime where
  "unix_epoch = 62135596800 * 1000000000"

definition UnixNano :: "gotime \<Rightarrow> int" where
  "UnixNano t = sint (word_of_int (t - unix_epoch) :: 64 word)"

definition time_Unix :: "int \<Rightarrow> gotime" where
  "time_Unix nanos = unix_epoch + nanos"

lemma UnixNano_range: "- (2 ^ 63) \<le> UnixNano t" "UnixNano t < 2 ^ 63"
  using sint_ge[of "word_of_int (t - unix_epoch) :: 64 word"] sint_lt[of "word_of_int (t - unix_epoch) :: 64 word"]
  by (auto simp: UnixNano_def)

lemma time_Unix_Nano:
  assumes "- (2 ^ 63) \<le> t - unix_epoch" "t - unix_epoch < 2 ^ 63"
  shows "time_Unix (UnixNano t) = t"
  unfolding time_Unix_def UnixNano_def sint_sbintrunc' using assms by (simp add: signed_take_bit_int_eq_self)

end
