(* ===== verification/KType_Registry.thy ===== *)
theory KType_Registry
  imports KType_Validator Go_Strconv LRU_Cache Ledger_Currency "HOL-Library.AList"
begin

text \<open>
  Where schemas come from. The global registry (internal/ktype/store.go) keeps versioned schemas in the
  table \<open>ktypes\<close> and reads them through the LRU cache of \<open>LRU_Cache\<close>; registering purges the cache. The
  tenant store (internal/ktype/tenant_store.go) keeps the types that a tenant authors, named
  \<open>custom.<slug>\<close>, with a lifecycle draft, active, archived that only moves forward.

  \<open>ktype_db\<close> extends the database by the two tables. The lemmas show that a lookup returns the row of the
  table after any history of the process, when the content hash that guards the boot-time registration
  is stale, and the invariants of tenant-authored types.
\<close>

section \<open>Tables\<close>

record ktype =
  kt_name :: string
  kt_version :: int
  kt_schema :: raw_message
  kt_createdAt :: gotime

record ktype_row = ktype +
  kt_contentHash :: "string option"

record tenantKType =
  tk_tenant :: uuid
  tk_name :: string
  tk_version :: int
  tk_title :: string
  tk_description :: string
  tk_schema :: raw_message
  tk_status :: string
  tk_createdAt :: gotime
  tk_updatedAt :: gotime
  tk_createdBy :: uuid

record ktype_db = ledger_db +
  ktypes :: "ktype_row list"
  tenant_ktypes :: "tenantKType list"

datatype ktype_store_error =
    NameVersionRequired
  | SchemaNotJson
  | KTypeNotFound
  | KTTenantRequired
  | InvalidCustomName
  | TooManyFields nat
  | UnsupportedFieldType string
  | InvalidSchema
  | InvalidStatus string
  | InvalidTransition string string
  | DuplicateField string
  | CreatedByRequired
  | ParseCustomSchema

definition to_ktype :: "ktype_row \<Rightarrow> ktype" where
  "to_ktype r = \<lparr>kt_name = kt_name r, kt_version = kt_version r, kt_schema = kt_schema r, kt_createdAt = kt_createdAt r\<rparr>"

text \<open>
  What the registry calls outside: the JSON text of a value, JSONB storage and SHA-256 (in hexadecimal).
\<close>

record ktype_env =
  ke_text :: "json \<Rightarrow> string"
  ke_jsonb :: "raw_message \<Rightarrow> raw_message"
  ke_sha256hex :: "string \<Rightarrow> string"


section \<open>The registry\<close>

definition ktype_cacheKey :: "string \<Rightarrow> int \<Rightarrow> string" where
  "ktype_cacheKey name version = (if version \<le> 0 then name @ '':latest'' else name @ '':'' @ show_int version)"

text \<open>Canonical text: members sorted by key, recursively; primitives as they are.\<close>

fun comma_join :: "string list \<Rightarrow> string" where
  "comma_join [] = []"
| "comma_join [x] = x"
| "comma_join (x # xs) = x @ '','' @ comma_join xs"

function canonicalJSONValue :: "(json \<Rightarrow> string) \<Rightarrow> json \<Rightarrow> string" where
  "canonicalJSONValue jt j =
     (case j of
        JObj ps \<Rightarrow>
          ''{'' @ comma_join (map (\<lambda>(k, v). jt (JStr k) @ '':'' @ canonicalJSONValue jt v) (sort_key fst (go_map ps))) @ ''}''
      | JArr js \<Rightarrow> ''['' @ comma_join (map (canonicalJSONValue jt) js) @ '']''
      | _ \<Rightarrow> jt j)"
  by pat_completeness auto

termination canonicalJSONValue
proof (relation "measure (size \<circ> snd)")
  fix jt :: "json \<Rightarrow> string" and j ps x k v
  assume "j = JObj ps" "x \<in> set (sort_key fst (go_map ps))" "(k, v) = x"
  then show "((jt, v), (jt, j)) \<in> measure (size \<circ> snd)"
    using size_member[of k v ps] set_go_map[of ps] by auto
next
  fix jt :: "json \<Rightarrow> string" and j js x
  assume "j = JArr js" "x \<in> set js"
  then show "((jt, x), (jt, j)) \<in> measure (size \<circ> snd)" using unmarshal_slice_size[of j js x] by simp
qed simp

declare canonicalJSONValue.simps [simp del]

definition contentHash :: "ktype_env \<Rightarrow> ktype \<Rightarrow> string" where
  "contentHash E kt =
     ke_sha256hex E (kt_name kt @ '':'' @ show_int (kt_version kt) @ '':''
       @ (case raw_json (kt_schema kt) of
            Some j \<Rightarrow> if raw_text (kt_schema kt) = [] then [] else canonicalJSONValue (ke_text E) j
          | None \<Rightarrow> raw_text (kt_schema kt)))"

definition find_ktype :: "string \<Rightarrow> int \<Rightarrow> 'a ktype_db_scheme \<Rightarrow> ktype_row option" where
  "find_ktype name version db = List.find (\<lambda>r. kt_name r = name \<and> kt_version r = version) (ktypes db)"

definition latest_ktype :: "string \<Rightarrow> 'a ktype_db_scheme \<Rightarrow> ktype_row option" where
  "latest_ktype name db =
     (case sort_key (\<lambda>r. - kt_version r) (filter (\<lambda>r. kt_name r = name) (ktypes db)) of
        [] \<Rightarrow> None
      | r # _ \<Rightarrow> Some r)"

text \<open>\<open>INSERT \<dots> ON CONFLICT (name, version) DO UPDATE\<close>; \<open>upd\<close> gives the hash column of a row that exists.\<close>

definition upsert_ktype ::
  "ktype_env \<Rightarrow> gotime \<Rightarrow> ktype \<Rightarrow> string option \<Rightarrow> (string option \<Rightarrow> string option) \<Rightarrow> 'a ktype_db_scheme \<Rightarrow> 'a ktype_db_scheme"
where
  "upsert_ktype E now kt h upd db =
     (if find_ktype (kt_name kt) (kt_version kt) db = None
      then db\<lparr>ktypes := ktypes db @
             [\<lparr>kt_name = kt_name kt, kt_version = kt_version kt, kt_schema = ke_jsonb E (kt_schema kt),
               kt_createdAt = pg_time now, kt_contentHash = h\<rparr>]\<rparr>
      else db\<lparr>ktypes := update_rows (\<lambda>r. kt_name r = kt_name kt \<and> kt_version r = kt_version kt)
             (\<lambda>r. r\<lparr>kt_schema := ke_jsonb E (kt_schema kt), kt_contentHash := upd (kt_contentHash r)\<rparr>) (ktypes db)\<rparr>)"

type_synonym ktype_cache = "ktype lruCache option"

definition invalidate :: "ktype_cache \<Rightarrow> ktype_cache" where
  "invalidate cache = map_option (\<lambda>c. snd (Purge c)) cache"

definition Register ::
  "ktype_env \<Rightarrow> gotime \<Rightarrow> ktype \<Rightarrow> ktype_cache \<times> 'a ktype_db_scheme
   \<Rightarrow> (ktype_store_error + unit) \<times> ktype_cache \<times> 'a ktype_db_scheme" where
  "Register E now kt s =
     (case s of (cache, db) \<Rightarrow>
        if kt_name kt = [] \<or> kt_version kt \<le> 0 then (Inl NameVersionRequired, s)
        else if \<not> valid_json (kt_schema kt) then (Inl SchemaNotJson, s)
        else (Inr (), invalidate cache, upsert_ktype E now kt None id db))"

definition RegisterIfChanged ::
  "ktype_env \<Rightarrow> gotime \<Rightarrow> ktype \<Rightarrow> ktype_cache \<times> 'a ktype_db_scheme
   \<Rightarrow> (ktype_store_error + unit) \<times> ktype_cache \<times> 'a ktype_db_scheme" where
  "RegisterIfChanged E now kt s =
     (case s of (cache, db) \<Rightarrow>
        if kt_name kt = [] \<or> kt_version kt \<le> 0 then (Inl NameVersionRequired, s)
        else if \<not> valid_json (kt_schema kt) then (Inl SchemaNotJson, s)
        else let h = contentHash E kt
             in if Option.bind (find_ktype (kt_name kt) (kt_version kt) db) kt_contentHash = Some h then (Inr (), s)
                else (Inr (), invalidate cache, upsert_ktype E now kt (Some h) (\<lambda>_. Some h) db))"

definition load_ktype :: "string \<Rightarrow> int \<Rightarrow> 'a ktype_db_scheme \<Rightarrow> ktype_store_error + ktype" where
  "load_ktype name version db =
     (case (if version \<le> 0 then latest_ktype name db else find_ktype name version db) of
        None \<Rightarrow> Inl KTypeNotFound
      | Some r \<Rightarrow> Inr (to_ktype r))"

definition registry_Get ::
  "gotime \<Rightarrow> string \<Rightarrow> int \<Rightarrow> ktype_cache \<times> 'a ktype_db_scheme
   \<Rightarrow> (ktype_store_error + ktype) \<times> ktype_cache \<times> 'a ktype_db_scheme" where
  "registry_Get now name version s =
     (case s of (cache, db) \<Rightarrow>
        case cache of
          None \<Rightarrow> (load_ktype name version db, s)
        | Some c \<Rightarrow>
            (case LRU_Cache.Get now (ktype_cacheKey name version) c of
               (Some kt, _, c') \<Rightarrow> (Inr kt, Some c', db)
             | (None, _, c') \<Rightarrow>
                 (case load_ktype name version db of
                    Inl e \<Rightarrow> (Inl e, Some c', db)
                  | Inr kt \<Rightarrow>
                      (let c1 = snd (LRU_Cache.Set now (ktype_cacheKey name version) kt c');
                           c2 = (if version \<le> 0 then snd (LRU_Cache.Set now (ktype_cacheKey name (kt_version kt)) kt c1) else c1)
                       in (Inr kt, Some c2, db)))))"

definition registry_List :: "'a ktype_db_scheme \<Rightarrow> ktype list" where
  "registry_List db = map to_ktype (sort_key (\<lambda>r. kt_name r) (sort_key (\<lambda>r. - kt_version r) (ktypes db)))"


section \<open>Tenant-authored types\<close>

definition CustomNamePrefix :: string where "CustomNamePrefix = ''custom.''"
definition DefaultCustomFieldLimit :: nat where "DefaultCustomFieldLimit = 50"

definition SafeCustomFieldTypes :: "string list" where
  "SafeCustomFieldTypes =
     [''string'', ''text'', ''number'', ''integer'', ''float'', ''decimal'', ''boolean'', ''date'', ''datetime'', ''enum'',
      ''ref'', ''email'', ''phone'', ''url'']"

definition is_lower :: "char \<Rightarrow> bool" where
  "is_lower c \<longleftrightarrow> CHR ''a'' \<le> c \<and> c \<le> CHR ''z''"

definition IsCustomName :: "string \<Rightarrow> bool" where
  "IsCustomName name \<longleftrightarrow> prefix CustomNamePrefix name"

text \<open>The pattern \<open>^custom\.[a-z][a-z0-9_]*$\<close>.\<close>

definition IsValidCustomName :: "string \<Rightarrow> bool" where
  "IsValidCustomName name \<longleftrightarrow>
     prefix CustomNamePrefix name
     \<and> (case drop (length CustomNamePrefix) name of
          [] \<Rightarrow> False
        | c # cs \<Rightarrow> is_lower c \<and> list_all (\<lambda>x. is_lower x \<or> is_digit x \<or> x = CHR ''_'') cs)"

definition statusRank :: "string \<Rightarrow> int option" where
  "statusRank s =
     (if s = ''draft'' then Some 0 else if s = ''active'' then Some 1 else if s = ''archived'' then Some 2 else None)"

definition isForwardTransition :: "string \<Rightarrow> string \<Rightarrow> bool" where
  "isForwardTransition src dst \<longleftrightarrow>
     (if src = [] then statusRank dst \<noteq> None
      else case (statusRank src, statusRank dst) of (Some a, Some b) \<Rightarrow> a \<le> b | _ \<Rightarrow> False)"

definition custom_sections :: "string list" where
  "custom_sections = [''posting_hook'', ''posting_hooks'', ''computed'', ''calculations'', ''agent_tools'', ''triggers'']"

text \<open>The sections a tenant may not use; \<open>null\<close> counts as present, a raw message keeps it.\<close>

definition has_section :: "raw_message \<Rightarrow> bool" where
  "has_section sch \<longleftrightarrow>
     (case raw_json sch of Some (JObj ps) \<Rightarrow> list_ex (\<lambda>(k, v). map go_lower k \<in> set custom_sections) ps | _ \<Rightarrow> False)"

fun check_fields :: "string list \<Rightarrow> fieldSpec list \<Rightarrow> ktype_store_error + unit" where
  "check_fields seen [] = Inr ()"
| "check_fields seen (f # fs) =
     (if f_name f = [] then Inl InvalidSchema
      else if f_name f \<in> set seen then Inl (DuplicateField (f_name f))
      else if f_type f \<notin> set SafeCustomFieldTypes then Inl (UnsupportedFieldType (f_type f))
      else if f_type f = ''enum'' \<and> f_values f = [] then Inl InvalidSchema
      else if f_type f = ''ref'' \<and> f_ref f = [] \<and> f_ktype f = [] then Inl InvalidSchema
      else check_fields (f_name f # seen) fs)"

definition validateCustomSchema :: "nat \<Rightarrow> raw_message \<Rightarrow> ktype_store_error + unit" where
  "validateCustomSchema limit sch =
     (case unmarshal_schema sch of
        None \<Rightarrow> Inl ParseCustomSchema
      | Some s \<Rightarrow>
          (if s_fields s = [] then Inl InvalidSchema
           else if length (s_fields s) > limit then Inl (TooManyFields (length (s_fields s)))
           else rbind (check_fields [] (s_fields s)) (\<lambda>_. if has_section sch then Inl InvalidSchema else Inr ())))"

definition find_custom :: "uuid \<Rightarrow> string \<Rightarrow> int \<Rightarrow> 'a ktype_db_scheme \<Rightarrow> tenantKType option" where
  "find_custom t name version db =
     List.find (\<lambda>r. tk_tenant r = t \<and> tk_name r = name \<and> tk_version r = version) (tenant_ktypes db)"

definition write_custom :: "ktype_env \<Rightarrow> gotime \<Rightarrow> tenantKType \<Rightarrow> 'a ktype_db_scheme \<Rightarrow> tenantKType \<times> 'a ktype_db_scheme" where
  "write_custom E now kt db =
     (case find_custom (tk_tenant kt) (tk_name kt) (tk_version kt) db of
        None \<Rightarrow>
          (let row = kt\<lparr>tk_schema := ke_jsonb E (tk_schema kt), tk_createdAt := pg_time now, tk_updatedAt := pg_time now\<rparr>
           in (row, db\<lparr>tenant_ktypes := tenant_ktypes db @ [row]\<rparr>))
      | Some old \<Rightarrow>
          (let row = old\<lparr>tk_title := tk_title kt, tk_description := tk_description kt,
                         tk_schema := ke_jsonb E (tk_schema kt), tk_status := tk_status kt, tk_updatedAt := pg_time now\<rparr>
           in (row, db\<lparr>tenant_ktypes :=
                 update_rows (\<lambda>r. tk_tenant r = tk_tenant kt \<and> tk_name r = tk_name kt \<and> tk_version r = tk_version kt)
                   (\<lambda>_. row) (tenant_ktypes db)\<rparr>)))"

definition Upsert ::
  "ktype_env \<Rightarrow> nat \<Rightarrow> gotime \<Rightarrow> tenantKType \<Rightarrow> 'a ktype_db_scheme
   \<Rightarrow> (ktype_store_error + tenantKType) \<times> 'a ktype_db_scheme" where
  "Upsert E limit now kt db =
     (if tk_tenant kt = 0 then (Inl KTTenantRequired, db)
      else if \<not> IsValidCustomName (tk_name kt) then (Inl InvalidCustomName, db)
      else if tk_title kt = [] then (Inl InvalidSchema, db)
      else if tk_createdBy kt = 0 then (Inl CreatedByRequired, db)
      else if \<not> valid_json (tk_schema kt) then (Inl InvalidSchema, db)
      else case validateCustomSchema limit (tk_schema kt) of
             Inl e \<Rightarrow> (Inl e, db)
           | Inr _ \<Rightarrow>
               (let kt' = kt\<lparr>tk_version := (if tk_version kt \<le> 0 then 1 else tk_version kt),
                             tk_status := (if tk_status kt = [] then ''draft'' else tk_status kt)\<rparr>
                in if statusRank (tk_status kt') = None then (Inl (InvalidStatus (tk_status kt')), db)
                   else WithTenantTx KTTenantRequired (tk_tenant kt') (\<lambda>db.
                     (let existing = (case find_custom (tk_tenant kt') (tk_name kt') (tk_version kt') db of
                                        None \<Rightarrow> [] | Some r \<Rightarrow> tk_status r)
                      in if isForwardTransition existing (tk_status kt') then Inr (write_custom E now kt' db)
                         else Inl (InvalidTransition existing (tk_status kt')))) db))"

text \<open>\<open>scanGet\<close>: a version, or the highest version, of the given status when there is one.\<close>

definition scanGet :: "uuid \<Rightarrow> string \<Rightarrow> int \<Rightarrow> string \<Rightarrow> 'a ktype_db_scheme \<Rightarrow> tenantKType option" where
  "scanGet t name version statusFilter db =
     (if version > 0 then find_custom t name version db
      else case sort_key (\<lambda>r. - tk_version r)
                  (filter (\<lambda>r. tk_tenant r = t \<and> tk_name r = name \<and> (statusFilter = [] \<or> tk_status r = statusFilter))
                     (tenant_ktypes db)) of
             [] \<Rightarrow> None
           | r # _ \<Rightarrow> Some r)"

definition GetInTx :: "uuid \<Rightarrow> string \<Rightarrow> int \<Rightarrow> 'a ktype_db_scheme \<Rightarrow> ktype_store_error + tenantKType" where
  "GetInTx t name version db =
     (if t = 0 then Inl KTTenantRequired
      else if \<not> IsValidCustomName name then Inl InvalidCustomName
      else case scanGet t name version [] db of None \<Rightarrow> Inl KTypeNotFound | Some r \<Rightarrow> Inr r)"

definition GetLatestActiveInTx :: "uuid \<Rightarrow> string \<Rightarrow> 'a ktype_db_scheme \<Rightarrow> ktype_store_error + tenantKType" where
  "GetLatestActiveInTx t name db =
     (if t = 0 then Inl KTTenantRequired
      else if \<not> IsValidCustomName name then Inl InvalidCustomName
      else case scanGet t name 0 ''active'' db of None \<Rightarrow> Inl KTypeNotFound | Some r \<Rightarrow> Inr r)"

text \<open>\<open>Get\<close> and \<open>GetLatestActive\<close> open a transaction of their own for the same query.\<close>

definition tenant_Get :: "uuid \<Rightarrow> string \<Rightarrow> int \<Rightarrow> 'a ktype_db_scheme \<Rightarrow> ktype_store_error + tenantKType" where
  "tenant_Get t name version db =
     (if t = 0 then Inl KTTenantRequired
      else if \<not> IsValidCustomName name then Inl InvalidCustomName
      else fst (WithTenantTx KTTenantRequired t (\<lambda>db.
             case scanGet t name version [] db of None \<Rightarrow> Inl KTypeNotFound | Some r \<Rightarrow> Inr (r, db)) db))"

definition GetLatestActive :: "uuid \<Rightarrow> string \<Rightarrow> 'a ktype_db_scheme \<Rightarrow> ktype_store_error + tenantKType" where
  "GetLatestActive t name db =
     (if t = 0 then Inl KTTenantRequired
      else if \<not> IsValidCustomName name then Inl InvalidCustomName
      else fst (WithTenantTx KTTenantRequired t (\<lambda>db.
             case scanGet t name 0 ''active'' db of None \<Rightarrow> Inl KTypeNotFound | Some r \<Rightarrow> Inr (r, db)) db))"

definition tenant_List :: "uuid \<Rightarrow> 'a ktype_db_scheme \<Rightarrow> ktype_store_error + tenantKType list" where
  "tenant_List t db =
     (if t = 0 then Inl KTTenantRequired
      else Inr (sort_key tk_name (sort_key (\<lambda>r. - tk_version r) (filter (\<lambda>r. tk_tenant r = t) (tenant_ktypes db)))))"

definition SetStatus ::
  "gotime \<Rightarrow> uuid \<Rightarrow> string \<Rightarrow> int \<Rightarrow> string \<Rightarrow> 'a ktype_db_scheme \<Rightarrow> (ktype_store_error + unit) \<times> 'a ktype_db_scheme"
where
  "SetStatus now t name version status db =
     (if t = 0 then (Inl KTTenantRequired, db)
      else if \<not> IsValidCustomName name then (Inl InvalidCustomName, db)
      else if statusRank status = None then (Inl (InvalidStatus status), db)
      else WithTenantTx KTTenantRequired t (\<lambda>db.
        case find_custom t name version db of
          None \<Rightarrow> Inl KTypeNotFound
        | Some r \<Rightarrow>
            (if isForwardTransition (tk_status r) status
             then Inr ((), db\<lparr>tenant_ktypes :=
                    update_rows (\<lambda>r. tk_tenant r = t \<and> tk_name r = name \<and> tk_version r = version)
                      (\<lambda>r. r\<lparr>tk_status := status, tk_updatedAt := pg_time now\<rparr>) (tenant_ktypes db)\<rparr>)
             else Inl (InvalidTransition (tk_status r) status))) db)"



section \<open>The cache of the registry is coherent\<close>

lemma last_colon:
  assumes "xs @ CHR '':'' # a = ys @ CHR '':'' # b" "CHR '':'' \<notin> set a" "CHR '':'' \<notin> set b"
  shows "xs = ys \<and> a = b"
proof -
  have "takeWhile (\<lambda>c. c \<noteq> CHR '':'') (rev (zs @ CHR '':'' # c)) = rev c" if "CHR '':'' \<notin> set c" for zs c :: string
    using that by (simp add: takeWhile_append)
  with assms have "rev a = rev b" by metis
  with assms(1) show ?thesis by simp
qed

lemma show_int_no_colon: "CHR '':'' \<notin> set (show_int n)"
  by (rule not_in_show_int) (simp_all add: is_digit_def less_eq_char_def)

lemma show_int_not_latest: "show_int n \<noteq> ''latest''"
proof
  assume "show_int n = ''latest''"
  then have "CHR ''l'' \<in> set (show_int n)" by simp
  then show False using not_in_show_int[of "CHR ''l''" n] by (simp add: is_digit_def less_eq_char_def)
qed

lemma ktype_cacheKey_inj: "ktype_cacheKey n v = ktype_cacheKey n' v' \<Longrightarrow> n = n' \<and> (v = v' \<or> v \<le> 0 \<and> v' \<le> 0)"
  using last_colon[of n "if v \<le> 0 then ''latest'' else show_int v" n' "if v' \<le> 0 then ''latest'' else show_int v'"]
  by (auto simp: ktype_cacheKey_def show_int_no_colon show_int_not_latest show_int_not_latest[symmetric] split: if_splits dest: show_int_inj)

definition ktypes_inv :: "'a ktype_db_scheme \<Rightarrow> bool" where
  "ktypes_inv db \<longleftrightarrow> distinct (map (\<lambda>r. (kt_name r, kt_version r)) (ktypes db)) \<and> (\<forall>r \<in> set (ktypes db). 0 < kt_version r)"

definition coherent :: "ktype lruCache \<Rightarrow> 'a ktype_db_scheme \<Rightarrow> bool" where
  "coherent c db \<longleftrightarrow> (\<forall>key kt e. view c key = Some (kt, e) \<longrightarrow> (\<exists>n v. key = ktype_cacheKey n v \<and> load_ktype n v db = Inr kt))"

definition registry_inv :: "ktype_cache \<times> 'a ktype_db_scheme \<Rightarrow> bool" where
  "registry_inv s \<longleftrightarrow> ktypes_inv (snd s) \<and> (\<forall>c. fst s = Some c \<longrightarrow> lru_inv c \<and> coherent c (snd s))"

lemma load_ktype_cong: "v \<le> 0 \<Longrightarrow> v' \<le> 0 \<Longrightarrow> load_ktype n v db = load_ktype n v' db"
  by (simp add: load_ktype_def)

lemma coherent_hit: "coherent c db \<Longrightarrow> view c (ktype_cacheKey n v) = Some (kt, e) \<Longrightarrow> load_ktype n v db = Inr kt"
  unfolding coherent_def using ktype_cacheKey_inj load_ktype_cong by metis

lemma coherent_Get: "lru_inv c \<Longrightarrow> coherent c db \<Longrightarrow> coherent (snd (snd (LRU_Cache.Get now k c))) db"
  by (auto simp: coherent_def view_Get(2) split: option.splits if_splits)

lemma coherent_Set:
  assumes "lru_inv c" "coherent c db" "load_ktype n v db = Inr kt"
  shows "coherent (snd (LRU_Cache.Set now (ktype_cacheKey n v) kt c)) db"
  using assms by (auto simp: coherent_def view_Set split: if_splits)

lemma latest_found:
  assumes "ktypes_inv db" "load_ktype n 0 db = Inr kt"
  shows "load_ktype n (kt_version kt) db = Inr kt" "0 < kt_version kt" "kt_name kt = n"
proof -
  let ?s = "sort_key (\<lambda>r. - kt_version r) (filter (\<lambda>r. kt_name r = n) (ktypes db))"
  obtain r where r: "latest_ktype n db = Some r" "kt = to_ktype r"
    using assms(2) by (auto simp: load_ktype_def split: option.splits)
  then obtain rs where "?s = r # rs" by (auto simp: latest_ktype_def split: list.splits)
  then have "r \<in> set ?s" by (metis list.set_intros(1))
  then have mem: "r \<in> set (ktypes db)" and name: "kt_name r = n" by simp_all
  have "find_ktype n (kt_version r) db = Some r"
    using find_key_unique[OF _ mem, of "\<lambda>r. (kt_name r, kt_version r)"] assms(1) name
    by (simp add: ktypes_inv_def find_ktype_def)
  moreover have "0 < kt_version r" using assms(1) mem by (simp add: ktypes_inv_def)
  ultimately show "load_ktype n (kt_version kt) db = Inr kt" "0 < kt_version kt" "kt_name kt = n"
    using r(2) name by (simp_all add: load_ktype_def to_ktype_def)
qed

lemma registry_Get_spec:
  assumes "registry_inv s"
  shows "fst (registry_Get now n v s) = load_ktype n v (snd s)" "registry_inv (snd (registry_Get now n v s))"
    "snd (snd (registry_Get now n v s)) = snd s"
proof -
  obtain cache db where s: "s = (cache, db)" by fastforce
  have "fst (registry_Get now n v s) = load_ktype n v (snd s) \<and> registry_inv (snd (registry_Get now n v s))
    \<and> snd (snd (registry_Get now n v s)) = snd s"
  proof (cases cache)
    case None
    with s assms show ?thesis by (simp add: registry_Get_def)
  next
    case (Some c)
    with assms s have inv: "lru_inv c" "coherent c db" "ktypes_inv db" by (auto simp: registry_inv_def)
    obtain r ev c' where g: "LRU_Cache.Get now (ktype_cacheKey n v) c = (r, ev, c')" by (metis prod_cases3)
    have c': "lru_inv c'" "coherent c' db"
      using lru_inv_Get[OF inv(1), of now "ktype_cacheKey n v"] coherent_Get[OF inv(1,2), of now "ktype_cacheKey n v"] g by auto
    show ?thesis
    proof (cases r)
      case hit: (Some kt)
      then obtain e where "view c (ktype_cacheKey n v) = Some (kt, e)"
        using view_Get(1)[OF inv(1), of now "ktype_cacheKey n v"] g by (auto split: option.splits if_splits)
      with coherent_hit[OF inv(2)] have "load_ktype n v db = Inr kt" by blast
      with s Some g hit c' inv show ?thesis by (simp add: registry_Get_def registry_inv_def)
    next
      case None
      show ?thesis
      proof (cases "load_ktype n v db")
        case (Inl e)
        with s Some g None c' inv show ?thesis by (simp add: registry_Get_def registry_inv_def)
      next
        case (Inr kt)
        let ?c1 = "snd (LRU_Cache.Set now (ktype_cacheKey n v) kt c')"
        have c1: "lru_inv ?c1" "coherent ?c1 db" using lru_inv_Set[OF c'(1)] coherent_Set[OF c' Inr] by auto
        have "v \<le> 0 \<Longrightarrow> load_ktype n 0 db = Inr kt" using Inr load_ktype_cong[of v 0 n db] by simp
        then have "v \<le> 0 \<Longrightarrow> load_ktype n (kt_version kt) db = Inr kt" using latest_found(1)[OF inv(3)] by blast
        then have c2: "v \<le> 0 \<Longrightarrow> lru_inv (snd (LRU_Cache.Set now (ktype_cacheKey n (kt_version kt)) kt ?c1))
            \<and> coherent (snd (LRU_Cache.Set now (ktype_cacheKey n (kt_version kt)) kt ?c1)) db"
          using lru_inv_Set[OF c1(1)] coherent_Set[OF c1] by blast
        define c2' where "c2' = (if v \<le> 0 then snd (LRU_Cache.Set now (ktype_cacheKey n (kt_version kt)) kt ?c1) else ?c1)"
        have "lru_inv c2'" "coherent c2' db" using c1 c2 by (simp_all add: c2'_def)
        moreover have "registry_Get now n v s = (Inr kt, Some c2', db)"
          using s Some g None Inr by (simp add: registry_Get_def Let_def c2'_def)
        ultimately show ?thesis using s Inr inv by (simp add: registry_inv_def)
      qed
    qed
  qed
  then show "fst (registry_Get now n v s) = load_ktype n v (snd s)" "registry_inv (snd (registry_Get now n v s))"
    "snd (snd (registry_Get now n v s)) = snd s" by auto
qed

lemma upsert_ktype_inv: "ktypes_inv db \<Longrightarrow> 0 < kt_version kt \<Longrightarrow> ktypes_inv (upsert_ktype E now kt h upd db)"
proof (cases "find_ktype (kt_name kt) (kt_version kt) db")
  case None
  assume "ktypes_inv db" "0 < kt_version kt"
  with None show ?thesis by (auto simp: upsert_ktype_def ktypes_inv_def find_ktype_def find_None_iff)
next
  case (Some r)
  assume inv: "ktypes_inv db"
  have "map (\<lambda>r. (kt_name r, kt_version r)) (update_rows p (\<lambda>r. r\<lparr>kt_schema := x, kt_contentHash := f (kt_contentHash r)\<rparr>) rows)
      = map (\<lambda>r. (kt_name r, kt_version r)) rows" for p x f and rows :: "ktype_row list"
    by (rule map_update_rows) simp
  with Some inv show ?thesis by (auto simp: upsert_ktype_def ktypes_inv_def set_update_rows)
qed

lemma invalidate_coherent: "registry_inv (cache, db) \<Longrightarrow> ktypes_inv db' \<Longrightarrow> registry_inv (invalidate cache, db')"
  using lru_inv_Purge by (auto simp: registry_inv_def invalidate_def coherent_def view_Purge)

lemma Register_inv: "registry_inv s \<Longrightarrow> registry_inv (snd (Register E now kt s))"
  by (cases s) (auto simp: Register_def not_le intro!: invalidate_coherent upsert_ktype_inv, auto simp: registry_inv_def)

lemma RegisterIfChanged_inv: "registry_inv s \<Longrightarrow> registry_inv (snd (RegisterIfChanged E now kt s))"
  by (cases s) (auto simp: RegisterIfChanged_def Let_def not_le intro!: invalidate_coherent upsert_ktype_inv, auto simp: registry_inv_def)

text \<open>Histories of one process.\<close>

datatype registry_op = RegisterOp gotime ktype | BootOp gotime ktype | GetOp gotime string int

fun registry_exec :: "ktype_env \<Rightarrow> registry_op \<Rightarrow> ktype_cache \<times> 'a ktype_db_scheme \<Rightarrow> ktype_cache \<times> 'a ktype_db_scheme" where
  "registry_exec E (RegisterOp now kt) s = snd (Register E now kt s)"
| "registry_exec E (BootOp now kt) s = snd (RegisterIfChanged E now kt s)"
| "registry_exec E (GetOp now n v) s = snd (registry_Get now n v s)"

lemma registry_exec_inv: "registry_inv s \<Longrightarrow> registry_inv (registry_exec E x s)"
  by (cases x) (auto simp: Register_inv RegisterIfChanged_inv registry_Get_spec(2))

lemma registry_run_inv: "registry_inv s \<Longrightarrow> registry_inv (fold (registry_exec E) xs s)"
  by (induction xs arbitrary: s) (auto simp: registry_exec_inv)



section \<open>The lifecycle of tenant-authored types\<close>

definition custom_key :: "tenantKType \<Rightarrow> uuid \<times> string \<times> int" where
  "custom_key r = (tk_tenant r, tk_name r, tk_version r)"

definition custom_row_ok :: "ktype_env \<Rightarrow> nat \<Rightarrow> tenantKType \<Rightarrow> bool" where
  "custom_row_ok E limit r \<longleftrightarrow>
     tk_tenant r \<noteq> 0 \<and> IsValidCustomName (tk_name r) \<and> 0 < tk_version r \<and> statusRank (tk_status r) \<noteq> None
     \<and> (\<exists>sch. tk_schema r = ke_jsonb E sch \<and> validateCustomSchema limit sch = Inr ())"

definition custom_inv :: "ktype_env \<Rightarrow> nat \<Rightarrow> 'a ktype_db_scheme \<Rightarrow> bool" where
  "custom_inv E limit db \<longleftrightarrow>
     distinct (map custom_key (tenant_ktypes db)) \<and> (\<forall>r \<in> set (tenant_ktypes db). custom_row_ok E limit r)"

inductive custom_step :: "ktype_env \<Rightarrow> nat \<Rightarrow> 'a ktype_db_scheme \<Rightarrow> 'a ktype_db_scheme \<Rightarrow> bool" for E limit where
  upsert: "Upsert E limit now kt db = (Inr r, db') \<Longrightarrow> custom_step E limit db db'"
| set_status: "SetStatus now t name version status db = (Inr (), db') \<Longrightarrow> custom_step E limit db db'"

text \<open>Every row is still there, and its status has not moved back.\<close>

definition moved_on :: "'a ktype_db_scheme \<Rightarrow> 'a ktype_db_scheme \<Rightarrow> bool" where
  "moved_on db db' \<longleftrightarrow>
     (\<forall>r \<in> set (tenant_ktypes db). \<exists>r' \<in> set (tenant_ktypes db').
        custom_key r' = custom_key r \<and> the (statusRank (tk_status r)) \<le> the (statusRank (tk_status r')))"

lemma moved_on_trans: "moved_on a b \<Longrightarrow> moved_on b c \<Longrightarrow> moved_on a c"
  unfolding moved_on_def by (metis order_trans)

lemma find_custom_key: "find_custom t n v db = List.find (\<lambda>r. custom_key r = (t, n, v)) (tenant_ktypes db)"
  by (simp add: find_custom_def custom_key_def)

lemma find_custom_unique:
  "distinct (map custom_key (tenant_ktypes db)) \<Longrightarrow> r \<in> set (tenant_ktypes db) \<Longrightarrow> custom_key r = (t, n, v) \<Longrightarrow>
   find_custom t n v db = Some r"
  using find_key_unique[of custom_key "tenant_ktypes db" r] by (simp add: find_custom_key)

text \<open>Replacing the row of one key by a row with the same key that is no further back.\<close>

lemma custom_replace:
  assumes inv: "custom_inv E limit db" and old: "find_custom t n v db = Some r0"
    and f: "custom_key (f r0) = (t, n, v)" "custom_row_ok E limit (f r0)"
    and fwd: "the (statusRank (tk_status r0)) \<le> the (statusRank (tk_status (f r0)))"
    and db': "db' = db\<lparr>tenant_ktypes := update_rows (\<lambda>r. tk_tenant r = t \<and> tk_name r = n \<and> tk_version r = v) f (tenant_ktypes db)\<rparr>"
  shows "custom_inv E limit db' \<and> moved_on db db'"
proof -
  have d: "distinct (map custom_key (tenant_ktypes db))" using inv by (simp add: custom_inv_def)
  have only: "r = r0" if "r \<in> set (tenant_ktypes db)" "custom_key r = (t, n, v)" for r
    using find_custom_unique[OF d that] old by simp
  have r0: "r0 \<in> set (tenant_ktypes db)" "custom_key r0 = (t, n, v)"
    using old by (auto simp: find_custom_key dest: find_SomeD)
  let ?p = "\<lambda>r. tk_tenant r = t \<and> tk_name r = n \<and> tk_version r = v"
  have p: "?p r \<longleftrightarrow> custom_key r = (t, n, v)" for r by (simp add: custom_key_def)
  have keys: "map custom_key (update_rows ?p f (tenant_ktypes db)) = map custom_key (tenant_ktypes db)"
    by (rule map_update_rows) (use only f(1) p in metis)
  have rows: "r \<in> set (tenant_ktypes db') \<Longrightarrow> custom_row_ok E limit r" for r
    using inv only f(2) p by (auto simp: db' set_update_rows custom_inv_def)
  have "\<exists>r' \<in> set (tenant_ktypes db'). custom_key r' = custom_key r
      \<and> the (statusRank (tk_status r)) \<le> the (statusRank (tk_status r'))" if r: "r \<in> set (tenant_ktypes db)" for r
  proof (cases "custom_key r = (t, n, v)")
    case True
    then have "r = r0" using only r by blast
    moreover have "f r0 \<in> set (tenant_ktypes db')" using r0 p[of r0] by (auto simp: db' set_update_rows image_iff intro!: bexI[of _ r0])
    ultimately show ?thesis using f(1) fwd r0(2) by auto
  next
    case False
    then have "r \<in> set (tenant_ktypes db')" using r p[of r] update_rows_other[of r "tenant_ktypes db" ?p f] by (simp add: db')
    then show ?thesis by auto
  qed
  then have "moved_on db db'" by (simp add: moved_on_def)
  moreover have "custom_inv E limit db'" using d keys rows by (simp add: custom_inv_def db')
  ultimately show ?thesis by blast
qed

lemma forward_rank: "isForwardTransition a b \<Longrightarrow> a \<noteq> [] \<Longrightarrow> the (statusRank a) \<le> the (statusRank b)"
  by (auto simp: isForwardTransition_def split: option.splits)

lemma rank_nonempty: "statusRank s \<noteq> None \<Longrightarrow> s \<noteq> []"
  by (auto simp: statusRank_def)

lemma SetStatus_step:
  assumes inv: "custom_inv E limit db" and step: "SetStatus now t name version status db = (Inr (), db')"
  shows "custom_inv E limit db' \<and> moved_on db db'"
proof -
  obtain r0 where r0: "find_custom t name version db = Some r0" "isForwardTransition (tk_status r0) status"
    and st: "statusRank status \<noteq> None"
    and db': "db' = db\<lparr>tenant_ktypes := update_rows (\<lambda>r. tk_tenant r = t \<and> tk_name r = name \<and> tk_version r = version)
                      (\<lambda>r. r\<lparr>tk_status := status, tk_updatedAt := pg_time now\<rparr>) (tenant_ktypes db)\<rparr>"
    using step by (auto simp: SetStatus_def tx_commit split: if_splits option.splits)
  have mem: "r0 \<in> set (tenant_ktypes db)" "custom_key r0 = (t, name, version)"
    using r0(1) by (auto simp: find_custom_key dest: find_SomeD)
  then have ok: "custom_row_ok E limit r0" using inv by (simp add: custom_inv_def)
  then have "tk_status r0 \<noteq> []" using rank_nonempty by (simp add: custom_row_ok_def)
  with forward_rank[OF r0(2)] ok mem st show ?thesis
    by (intro custom_replace[OF inv r0(1) _ _ _ db']) (auto simp: custom_key_def custom_row_ok_def)
qed

lemma write_custom_step:
  assumes inv: "custom_inv E limit db" and w: "write_custom E now kt db = (r, db')"
    and kt: "tk_tenant kt \<noteq> 0" "IsValidCustomName (tk_name kt)" "0 < tk_version kt" "statusRank (tk_status kt) \<noteq> None"
      "validateCustomSchema limit (tk_schema kt) = Inr ()"
    and fwd: "\<And>r0. find_custom (tk_tenant kt) (tk_name kt) (tk_version kt) db = Some r0 \<Longrightarrow> isForwardTransition (tk_status r0) (tk_status kt)"
  shows "custom_inv E limit db' \<and> moved_on db db'"
proof (cases "find_custom (tk_tenant kt) (tk_name kt) (tk_version kt) db")
  case None
  let ?row = "kt\<lparr>tk_schema := ke_jsonb E (tk_schema kt), tk_createdAt := pg_time now, tk_updatedAt := pg_time now\<rparr>"
  have db': "db' = db\<lparr>tenant_ktypes := tenant_ktypes db @ [?row]\<rparr>"
    using w None by (auto simp: write_custom_def Let_def)
  have "custom_key ?row = (tk_tenant kt, tk_name kt, tk_version kt)" by (simp add: custom_key_def)
  moreover have "custom_row_ok E limit ?row" using kt by (auto simp: custom_row_ok_def)
  moreover have "\<forall>r \<in> set (tenant_ktypes db). custom_key r \<noteq> (tk_tenant kt, tk_name kt, tk_version kt)"
    using None by (auto simp: find_custom_key find_None_iff)
  ultimately have "custom_inv E limit db'" using inv by (force simp: custom_inv_def db')
  moreover have "moved_on db db'" by (auto simp: moved_on_def db')
  ultimately show ?thesis by blast
next
  case (Some r0)
  let ?row = "r0\<lparr>tk_title := tk_title kt, tk_description := tk_description kt,
                 tk_schema := ke_jsonb E (tk_schema kt), tk_status := tk_status kt, tk_updatedAt := pg_time now\<rparr>"
  have db': "db' = db\<lparr>tenant_ktypes := update_rows (\<lambda>r. tk_tenant r = tk_tenant kt \<and> tk_name r = tk_name kt \<and> tk_version r = tk_version kt)
                   (\<lambda>_. ?row) (tenant_ktypes db)\<rparr>"
    using w Some by (auto simp: write_custom_def Let_def)
  have mem: "r0 \<in> set (tenant_ktypes db)" "custom_key r0 = (tk_tenant kt, tk_name kt, tk_version kt)"
    using Some by (auto simp: find_custom_key dest: find_SomeD)
  then have ok: "custom_row_ok E limit r0" using inv by (simp add: custom_inv_def)
  then have "tk_status r0 \<noteq> []" using rank_nonempty by (simp add: custom_row_ok_def)
  with forward_rank[OF fwd[OF Some]] ok mem kt show ?thesis
    by (intro custom_replace[OF inv Some _ _ _ db']) (auto simp: custom_key_def custom_row_ok_def)
qed

lemma Upsert_step:
  assumes inv: "custom_inv E limit db" and step: "Upsert E limit now kt db = (Inr r, db')"
  shows "custom_inv E limit db' \<and> moved_on db db'"
proof -
  define kt' where "kt' = kt\<lparr>tk_version := (if tk_version kt \<le> 0 then 1 else tk_version kt),
                             tk_status := (if tk_status kt = [] then ''draft'' else tk_status kt)\<rparr>"
  define ex where "ex = (case find_custom (tk_tenant kt') (tk_name kt') (tk_version kt') db of None \<Rightarrow> [] | Some r \<Rightarrow> tk_status r)"
  have guards: "tk_tenant kt \<noteq> 0" "IsValidCustomName (tk_name kt)" "validateCustomSchema limit (tk_schema kt) = Inr ()"
    "statusRank (tk_status kt') \<noteq> None" and w: "isForwardTransition ex (tk_status kt')" "write_custom E now kt' db = (r, db')"
    using step by (auto simp: Upsert_def tx_commit Let_def kt'_def ex_def split: if_split_asm sum.split_asm)
  have kt': "tk_tenant kt' \<noteq> 0" "IsValidCustomName (tk_name kt')" "0 < tk_version kt'"
    "validateCustomSchema limit (tk_schema kt') = Inr ()"
    using guards by (auto simp: kt'_def)
  show ?thesis
    by (rule write_custom_step[OF inv w(2) kt'(1-3) guards(4) kt'(4)]) (use w(1) in \<open>simp add: ex_def\<close>)
qed

lemma custom_step_inv: "custom_step E limit db db' \<Longrightarrow> custom_inv E limit db \<Longrightarrow> custom_inv E limit db' \<and> moved_on db db'"
  by (induction rule: custom_step.induct) (auto dest: Upsert_step SetStatus_step)

lemma custom_steps_inv:
  "(custom_step E limit)\<^sup>*\<^sup>* db db' \<Longrightarrow> custom_inv E limit db \<Longrightarrow> custom_inv E limit db' \<and> moved_on db db'"
proof (induction rule: rtranclp_induct)
  case base
  then show ?case by (auto simp: moved_on_def)
next
  case (step db1 db2)
  then show ?case using custom_step_inv moved_on_trans by blast
qed



section \<open>Examples\<close>

definition toy_ktype_env :: ktype_env where
  "toy_ktype_env = \<lparr>ke_text = (\<lambda>j. case j of JStr s \<Rightarrow> s | _ \<Rightarrow> ''v''), ke_jsonb = id, ke_sha256hex = id\<rparr>"

definition empty_ktypes :: ktype_db where
  "empty_ktypes = ledger_db.extend empty_ledger \<lparr>ktypes = [], tenant_ktypes = []\<rparr>"

definition schema_of :: "(string \<times> string) list \<Rightarrow> raw_message" where
  "schema_of fs = as_raw (JObj [(''fields'', JArr (map (\<lambda>(n, ty). JObj [(''name'', JStr n), (''type'', JStr ty)]) fs))])"

definition deal_type :: "(string \<times> string) list \<Rightarrow> ktype" where
  "deal_type fs = \<lparr>kt_name = ''crm.deal'', kt_version = 1, kt_schema = schema_of fs, kt_createdAt = 0\<rparr>"

lemma valid_deal: "valid_json (kt_schema (deal_type fs))"
  by (simp add: deal_type_def schema_of_def as_raw_def valid_json_def)

definition fresh_registry :: "ktype_cache \<times> ktype_db" where
  "fresh_registry = (Some (NewLRUCache 10 300), empty_ktypes)"

lemma fresh_registry_inv: "registry_inv fresh_registry"
  by (simp add: fresh_registry_def registry_inv_def ktypes_inv_def empty_ktypes_def ledger_db.defs ktype_db.defs
      lru_inv_New coherent_def view_New)

definition asset_type :: "string \<Rightarrow> (string \<times> string) list \<Rightarrow> tenantKType" where
  "asset_type status fs =
     \<lparr>tk_tenant = 1, tk_name = ''custom.asset'', tk_version = 1, tk_title = ''Asset'', tk_description = [],
      tk_schema = schema_of fs, tk_status = status, tk_createdAt = 0, tk_updatedAt = 0, tk_createdBy = 7\<rparr>"

lemma empty_custom_inv: "custom_inv E limit empty_ktypes"
  by (simp add: custom_inv_def empty_ktypes_def ledger_db.defs ktype_db.defs)


section \<open>Properties\<close>

text \<open>
  A schema lookup returns what the table holds. After any history of registrations, boot-time
  registrations and lookups of the process, with whatever evictions and expiries in its cache, a lookup of
  a version returns the row of the table (of the latest version when none is given), or not found if
  there is none.
\<close>

theorem registry_current:
  assumes "registry_inv s"
  shows "fst (registry_Get now n v (fold (registry_exec E) ops s)) = load_ktype n v (snd (fold (registry_exec E) ops s))"
  by (rule registry_Get_spec(1)[OF registry_run_inv[OF assms]])

theorem registry_current_witness:
  "map_sum id kt_schema (fst (registry_Get 9 ''crm.deal'' 0 (fold (registry_exec toy_ktype_env)
     [RegisterOp 1 (deal_type [(''title'', ''string'')]), GetOp 2 ''crm.deal'' 0, GetOp 3 ''crm.deal'' 1,
      RegisterOp 4 (deal_type [(''title'', ''text'')])] fresh_registry))) = Inr (schema_of [(''title'', ''text'')])"
proof -
  let ?s = "fold (registry_exec toy_ktype_env)
     [RegisterOp 1 (deal_type [(''title'', ''string'')]), GetOp 2 ''crm.deal'' 0, GetOp 3 ''crm.deal'' 1,
      RegisterOp 4 (deal_type [(''title'', ''text'')])] fresh_registry"
  have "map_sum id kt_schema (load_ktype ''crm.deal'' 0 (snd ?s)) = Inr (schema_of [(''title'', ''text'')])" by code_simp
  then show ?thesis unfolding registry_current[OF fresh_registry_inv] .
qed

text \<open>
  An edited schema survives the boot. Registering through the interface leaves the content hash of the
  row as it was. So after a boot-time registration of a type, an edit of the same version and
  another boot with the type of the code, the table still holds the edited schema, although the
  comment takes a matching hash to mean that the row has not changed.
\<close>

theorem boot_keeps_edit:
  assumes "kt_name kt \<noteq> []" "0 < kt_version kt" "valid_json (kt_schema kt)"
    and "kt_name edit = kt_name kt" "kt_version edit = kt_version kt" "valid_json (kt_schema edit)"
  shows "\<exists>r. find_ktype (kt_name kt) (kt_version kt)
               (snd (fold (registry_exec E) [BootOp t1 kt, RegisterOp t2 edit, BootOp t3 kt] s)) = Some r
           \<and> kt_schema r = ke_jsonb E (kt_schema edit) \<and> kt_contentHash r = Some (contentHash E kt)"
proof -
  obtain cache db where s: "s = (cache, db)" by fastforce
  let ?h = "contentHash E kt" and ?key = "\<lambda>r. kt_name r = kt_name kt \<and> kt_version r = kt_version kt"
  have boot: "\<exists>r. find_ktype (kt_name kt) (kt_version kt) (snd (snd (RegisterIfChanged E t kt (cache, db)))) = Some r
      \<and> kt_contentHash r = Some ?h" for t and cache :: ktype_cache and db
  proof (cases "find_ktype (kt_name kt) (kt_version kt) db")
    case None
    with assms show ?thesis
      by (auto simp: RegisterIfChanged_def Let_def upsert_ktype_def find_ktype_def find_append)
  next
    case (Some r)
    with find_update_rows[OF Some[unfolded find_ktype_def]] assms show ?thesis
      by (auto simp: RegisterIfChanged_def Let_def upsert_ktype_def find_ktype_def)
  qed
  obtain c1 db1 where s1: "snd (RegisterIfChanged E t1 kt s) = (c1, db1)" by fastforce
  then obtain r1 where r1: "find_ktype (kt_name kt) (kt_version kt) db1 = Some r1" "kt_contentHash r1 = Some ?h"
    using boot[of t1 cache db] s by auto
  obtain c2 db2 where s2: "snd (Register E t2 edit (c1, db1)) = (c2, db2)" by fastforce
  have r2: "find_ktype (kt_name kt) (kt_version kt) db2 = Some (r1\<lparr>kt_schema := ke_jsonb E (kt_schema edit)\<rparr>)"
    using s2 r1(1) assms find_update_rows[OF r1(1)[unfolded find_ktype_def]]
    by (auto simp: Register_def upsert_ktype_def find_ktype_def)
  then have "snd (RegisterIfChanged E t3 kt (c2, db2)) = (c2, db2)"
    using r1(2) assms by (simp add: RegisterIfChanged_def Let_def)
  with s1 s2 r1 r2 show ?thesis by simp
qed

theorem boot_keeps_edit_witness:
  "\<exists>r. find_ktype ''crm.deal'' 1 (snd (fold (registry_exec toy_ktype_env)
         [BootOp 1 (deal_type [(''title'', ''string'')]), RegisterOp 2 (deal_type [(''title'', ''text'')]),
          BootOp 3 (deal_type [(''title'', ''string'')])] fresh_registry)) = Some r
     \<and> kt_schema r = schema_of [(''title'', ''text'')]"
proof -
  have "kt_name (deal_type [(''title'', ''string'')]) \<noteq> []" "0 < kt_version (deal_type [(''title'', ''string'')])"
    "kt_name (deal_type [(''title'', ''text'')]) = kt_name (deal_type [(''title'', ''string'')])"
    "kt_version (deal_type [(''title'', ''text'')]) = kt_version (deal_type [(''title'', ''string'')])"
    by (simp_all add: deal_type_def)
  note edit = boot_keeps_edit[OF this(1,2) valid_deal this(3,4) valid_deal, of toy_ktype_env 1 2 3 fresh_registry]
  have "kt_name (deal_type fs) = ''crm.deal''" "kt_version (deal_type fs) = 1" "ke_jsonb toy_ktype_env (kt_schema (deal_type fs)) = schema_of fs" for fs
    by (simp_all add: deal_type_def toy_ktype_env_def)
  with edit show ?thesis by metis
qed

lemma custom_types_lifecycle_facts:
  assumes "custom_inv E limit db" "(custom_step E limit)\<^sup>*\<^sup>* db db'"
  shows "custom_inv E limit db'"
    and "\<forall>r \<in> set (tenant_ktypes db). \<exists>r' \<in> set (tenant_ktypes db').
           custom_key r' = custom_key r \<and> the (statusRank (tk_status r)) \<le> the (statusRank (tk_status r'))"
  using custom_steps_inv[OF assms(2,1)] by (auto simp: moved_on_def)

text \<open>
  C31: Tenant-authored types stay within their rules. After any sequence of successful upserts and status
  changes there is one row per tenant, name and version, every name has the form \<open>custom.<slug>\<close>, every
  status is known and every schema passed the restrictions (at most the allowed number of fields, distinct
  names, safe types, no developer sections); no row disappears and no status moves back.
\<close>

theorem custom_types_lifecycle:
  assumes "custom_inv E limit db" "(custom_step E limit)\<^sup>*\<^sup>* db db'"
  shows "custom_inv E limit db'
    \<and> (\<forall>r \<in> set (tenant_ktypes db). \<exists>r' \<in> set (tenant_ktypes db').
           custom_key r' = custom_key r \<and> the (statusRank (tk_status r)) \<le> the (statusRank (tk_status r')))"
  using custom_types_lifecycle_facts[OF assms] by (rule conjI)

theorem custom_types_lifecycle_witness:
  "\<exists>r db'. Upsert toy_ktype_env 50 1 (asset_type ''draft'' [(''tag'', ''string'')]) empty_ktypes = (Inr r, db')
     \<and> custom_inv toy_ktype_env 50 db' \<and> tenant_ktypes db' \<noteq> []
     \<and> fst (SetStatus 2 1 ''custom.asset'' 1 ''active'' db') = Inr ()"
proof -
  obtain x db' where u: "Upsert toy_ktype_env 50 1 (asset_type ''draft'' [(''tag'', ''string'')]) empty_ktypes = (x, db')"
    by fastforce
  have "isl (fst (Upsert toy_ktype_env 50 1 (asset_type ''draft'' [(''tag'', ''string'')]) empty_ktypes)) = False" by code_simp
  with u obtain r where x: "x = Inr r" by (cases x) auto
  have "length (tenant_ktypes (snd (Upsert toy_ktype_env 50 1 (asset_type ''draft'' [(''tag'', ''string'')]) empty_ktypes))) = 1"
    by code_simp
  then have "tenant_ktypes db' \<noteq> []" using u by auto
  moreover have "fst (SetStatus 2 1 ''custom.asset'' 1 ''active''
      (snd (Upsert toy_ktype_env 50 1 (asset_type ''draft'' [(''tag'', ''string'')]) empty_ktypes))) = Inr ()" by code_simp
  moreover have "custom_step toy_ktype_env 50 empty_ktypes db'" using u x custom_step.upsert by blast
  then have "custom_inv toy_ktype_env 50 db'"
    using custom_types_lifecycle[OF empty_custom_inv r_into_rtranclp[of "custom_step toy_ktype_env 50"]] by blast
  ultimately show ?thesis using u x by auto
qed

text \<open>An archived type is not frozen: an upsert that keeps the status replaces its schema.\<close>

lemma archived_schema_replaced:
  "map tk_schema (tenant_ktypes (snd (Upsert toy_ktype_env 50 2 (asset_type ''archived'' [(''tag'', ''number'')])
     (snd (Upsert toy_ktype_env 50 1 (asset_type ''archived'' [(''tag'', ''string'')]) empty_ktypes)))))
   = [schema_of [(''tag'', ''number'')]]"
  by code_simp

end
