(* ===== verification/Record_Paths.thy ===== *)
theory Record_Paths
  imports KType_Validator "HOL-Library.AList"
begin

text \<open>
  Decoded record payloads (internal/record/paths.go and the JSON helpers of internal/record/store.go):
  \<open>json.Marshal\<close> of a decoded value, and the walk along a dotted path that encryption, redaction, blind
  indexes and field permissions share. A Go map is an association list with distinct keys in some order.
  \<open>walkPath\<close> in Go returns the map that holds the leaf, through which the callers read, overwrite or
  delete it; here it returns the value found, and \<open>set_leaf\<close> and \<open>delete_leaf\<close> are the writes through that
  map.
\<close>

type_synonym document = "(string \<times> any) list"

section \<open>Marshalling\<close>

text \<open>
  Defined on what decoding produces; an infinite float or NaN is refused. The order of members is that
  of the model's list; the text of the result is the business of \<open>raw_of\<close>.
\<close>

fun marshal_any :: "any \<Rightarrow> json option"
  and marshal_anys :: "any list \<Rightarrow> json list option"
  and marshal_members :: "(string \<times> any) list \<Rightarrow> (string \<times> json) list option"
where
  "marshal_any ANil = Some JNull"
| "marshal_any (ABool b) = Some (JBool b)"
| "marshal_any (AStr s) = Some (JStr s)"
| "marshal_any (AFloat (Fin q)) = Some (JNum (Some (Fin q)))"
| "marshal_any (AList xs) = map_option JArr (marshal_anys xs)"
| "marshal_any (AMap m) = map_option JObj (marshal_members m)"
| "marshal_any _ = None"
| "marshal_anys [] = Some []"
| "marshal_anys (x # xs) =
     (case (marshal_any x, marshal_anys xs) of (Some j, Some js) \<Rightarrow> Some (j # js) | _ \<Rightarrow> None)"
| "marshal_members [] = Some []"
| "marshal_members ((k, x) # m) =
     (case (marshal_any x, marshal_members m) of (Some j, Some js) \<Rightarrow> Some ((k, j) # js) | _ \<Rightarrow> None)"

text \<open>The maps inside a value have distinct keys.\<close>

fun maps_ok :: "any \<Rightarrow> bool" where
  "maps_ok (AList xs) = (\<forall>x \<in> set xs. maps_ok x)"
| "maps_ok (AMap m) = (distinct (map fst m) \<and> (\<forall>(k, x) \<in> set m. maps_ok x))"
| "maps_ok _ = True"

lemma unmarshal_maps_ok:
  "unmarshal_any j = Some a \<Longrightarrow> maps_ok a"
  "unmarshal_anys js = Some as \<Longrightarrow> \<forall>a \<in> set as. maps_ok a"
  "unmarshal_members ps = Some m \<Longrightarrow> \<forall>(k, a) \<in> set m. maps_ok a"
proof (induction j and js and ps arbitrary: a and as and m rule: unmarshal_any_unmarshal_anys_unmarshal_members.induct)
  case (6 ps)
  then show ?case using set_go_map distinct_go_map by fastforce
qed (auto split: option.splits)

lemma marshal_members_keys: "marshal_members m = Some ps \<Longrightarrow> map fst ps = map fst m"
  by (induction m arbitrary: ps) (auto split: option.splits)

lemma unmarshal_marshal:
  "marshal_any a = Some j \<Longrightarrow> maps_ok a \<Longrightarrow> unmarshal_any j = Some a"
  "marshal_anys as = Some js \<Longrightarrow> \<forall>a \<in> set as. maps_ok a \<Longrightarrow> unmarshal_anys js = Some as"
  "marshal_members m = Some ps \<Longrightarrow> \<forall>(k, a) \<in> set m. maps_ok a \<Longrightarrow> unmarshal_members ps = Some m"
proof (induction a and as and m arbitrary: j and js and ps rule: marshal_any_marshal_anys_marshal_members.induct)
  case (6 m)
  then show ?case by (auto simp: go_map_distinct)
qed (auto split: option.splits)


section \<open>Paths\<close>

fun walkPath :: "document \<Rightarrow> string list \<Rightarrow> any option" where
  "walkPath doc [] = None"
| "walkPath doc [leaf] = map_of doc leaf"
| "walkPath doc (seg # rest) = (case map_of doc seg of Some (AMap m) \<Rightarrow> walkPath m rest | _ \<Rightarrow> None)"

fun set_leaf :: "document \<Rightarrow> string list \<Rightarrow> any \<Rightarrow> document" where
  "set_leaf doc [] v = doc"
| "set_leaf doc [leaf] v = AList.update leaf v doc"
| "set_leaf doc (seg # rest) v =
     (case map_of doc seg of Some (AMap m) \<Rightarrow> AList.update seg (AMap (set_leaf m rest v)) doc | _ \<Rightarrow> doc)"

fun delete_leaf :: "document \<Rightarrow> string list \<Rightarrow> document" where
  "delete_leaf doc [] = doc"
| "delete_leaf doc [leaf] = AList.delete leaf doc"
| "delete_leaf doc (seg # rest) =
     (case map_of doc seg of Some (AMap m) \<Rightarrow> AList.update seg (AMap (delete_leaf m rest)) doc | _ \<Rightarrow> doc)"

text \<open>\<open>setPath\<close> creates the maps that are missing and reports a conflict with a value that is no map.\<close>

fun setPath :: "document \<Rightarrow> string list \<Rightarrow> any \<Rightarrow> document \<times> bool" where
  "setPath doc [] v = (doc, False)"
| "setPath doc [leaf] v = (AList.update leaf v doc, True)"
| "setPath doc (seg # rest) v =
     (case map_of doc seg of
        None \<Rightarrow> (let (m, ok) = setPath [] rest v in (AList.update seg (AMap m) doc, ok))
      | Some (AMap m) \<Rightarrow> (let (m', ok) = setPath m rest v in (AList.update seg (AMap m') doc, ok))
      | Some _ \<Rightarrow> (doc, False))"

lemma update_same: "map_of m k = Some v \<Longrightarrow> AList.update k v m = m"
  by (induction m) auto

lemma update_twice [simp]: "AList.update k v (AList.update k u m) = AList.update k v m"
  by (induction m) auto

lemma update_commute:
  "k \<noteq> k' \<Longrightarrow> k \<in> fst ` set m \<Longrightarrow> k' \<in> fst ` set m \<Longrightarrow>
   AList.update k v (AList.update k' v' m) = AList.update k' v' (AList.update k v m)"
  by (induction m) (auto simp: rev_image_eqI)

lemma keys_update: "k \<in> fst ` set m \<Longrightarrow> map fst (AList.update k v m) = map fst m"
  by (induction m) auto

lemma map_of_Some_key: "map_of m k = Some v \<Longrightarrow> k \<in> fst ` set m"
  by (force dest: map_of_SomeD)

text \<open>One step of a walk; a map is entered, anything else ends it.\<close>

definition enter :: "any \<Rightarrow> document option" where
  "enter v = (case v of AMap m \<Rightarrow> Some m | _ \<Rightarrow> None)"

lemma enter_simps [simp]: "enter (AMap m) = Some m" "enter v = Some m \<longleftrightarrow> v = AMap m"
  by (cases v; simp add: enter_def)+

lemma walk_Cons:
  "walkPath doc (s # r) =
     Option.bind (map_of doc s) (\<lambda>u. if r = [] then Some u else Option.bind (enter u) (\<lambda>m. walkPath m r))"
  by (cases r) (auto simp: enter_def split: option.splits any.splits)

lemma set_leaf_Cons:
  "set_leaf doc (s # r) v =
     (if r = [] then AList.update s v doc
      else case Option.bind (map_of doc s) enter of None \<Rightarrow> doc | Some m \<Rightarrow> AList.update s (AMap (set_leaf m r v)) doc)"
  by (cases r) (auto simp: enter_def split: option.splits any.splits)

lemma delete_leaf_Cons:
  "delete_leaf doc (s # r) =
     (if r = [] then AList.delete s doc
      else case Option.bind (map_of doc s) enter of None \<Rightarrow> doc | Some m \<Rightarrow> AList.update s (AMap (delete_leaf m r)) doc)"
  by (cases r) (auto simp: enter_def split: option.splits any.splits)

declare walkPath.simps(2,3) [simp del] set_leaf.simps(2,3) [simp del] delete_leaf.simps(2,3) [simp del]

lemma map_of_update: "map_of (AList.update k v m) x = (if x = k then Some v else map_of m x)"
  by (simp add: update_conv')

lemma walk_set_same: "walkPath doc p = Some u \<Longrightarrow> walkPath (set_leaf doc p v) p = Some v"
  by (induction p arbitrary: doc) (auto simp: walk_Cons set_leaf_Cons map_of_update split: if_splits bind_splits)

lemma set_leaf_same: "walkPath doc p = Some v \<Longrightarrow> set_leaf doc p v = doc"
  by (induction p arbitrary: doc) (auto simp: walk_Cons set_leaf_Cons update_same split: if_splits bind_splits)

lemma set_leaf_twice: "walkPath doc p = Some u \<Longrightarrow> set_leaf (set_leaf doc p v) p w = set_leaf doc p w"
  by (induction p arbitrary: doc) (auto simp: walk_Cons set_leaf_Cons map_of_update split: if_splits bind_splits)

text \<open>A value that is no map: no path leads through it.\<close>

definition leafy :: "any \<Rightarrow> bool" where
  "leafy v \<longleftrightarrow> (case v of AMap _ \<Rightarrow> False | _ \<Rightarrow> True)"

lemma leafy_simps [simp]:
  "\<not> leafy (AMap m)" "leafy (AStr s)" "leafy ANil" "leafy (AList xs)" "leafy (ABool b)" "leafy (AFloat n)"
  by (simp_all add: leafy_def)

lemma leafy_not_map: "leafy v \<Longrightarrow> (case v of AMap m \<Rightarrow> f m | _ \<Rightarrow> x) = x"
  by (cases v) auto

lemma not_leafyE: "\<not> leafy v \<Longrightarrow> (\<And>m. v = AMap m \<Longrightarrow> P) \<Longrightarrow> P"
  by (cases v) (auto simp: leafy_def)

text \<open>Replacing a value that is no map by another such value: other paths find what they found, up to maps.\<close>

definition leaf_at :: "document \<Rightarrow> string list \<Rightarrow> any option" where
  "leaf_at doc p = (case walkPath doc p of Some v \<Rightarrow> if leafy v then Some v else None | None \<Rightarrow> None)"

lemma leaf_at_Some: "leaf_at doc p = Some v \<longleftrightarrow> walkPath doc p = Some v \<and> leafy v"
  by (auto simp: leaf_at_def split: option.splits)

lemma leaf_at_Cons:
  "leaf_at doc (s # r) =
     Option.bind (map_of doc s)
       (\<lambda>u. if r = [] then if leafy u then Some u else None else Option.bind (enter u) (\<lambda>m. leaf_at m r))"
  by (auto simp: leaf_at_def walk_Cons split: option.splits bind_splits)

lemma enter_leafy [simp]: "leafy v \<Longrightarrow> enter v = None"
  by (cases v) (auto simp: enter_def)

lemma leaf_at_set:
  "leaf_at doc p = Some u \<Longrightarrow> leafy v \<Longrightarrow>
   leaf_at (set_leaf doc p v) q = (if q = p then Some v else leaf_at doc q)"
proof (induction p arbitrary: doc q)
  case (Cons s r)
  show ?case
  proof (cases q)
    case (Cons s' r')
    with Cons.prems Cons.IH show ?thesis
      by (cases "s' = s") (auto simp: leaf_at_Cons set_leaf_Cons map_of_update split: if_splits bind_splits)
  qed (simp add: leaf_at_def)
qed (simp add: leaf_at_def)

lemma walk_set_present:
  "leaf_at doc p = Some u \<Longrightarrow> leafy v \<Longrightarrow> (walkPath (set_leaf doc p v) q = None) = (walkPath doc q = None)"
proof (induction p arbitrary: doc q)
  case (Cons s r)
  show ?case
  proof (cases q)
    case (Cons s' r')
    with Cons.prems Cons.IH show ?thesis
      by (cases "s' = s") (auto simp: leaf_at_Cons walk_Cons set_leaf_Cons map_of_update split: if_splits bind_splits)
  qed simp
qed (simp add: leaf_at_def)

lemma set_leaf_commute:
  "leaf_at doc p = Some u \<Longrightarrow> leaf_at doc q = Some w \<Longrightarrow> leafy u' \<Longrightarrow> leafy w' \<Longrightarrow> p \<noteq> q \<Longrightarrow>
   set_leaf (set_leaf doc p u') q w' = set_leaf (set_leaf doc q w') p u'"
proof (induction p arbitrary: doc q)
  case (Cons s r)
  show ?case
  proof (cases q)
    case (Cons s' r')
    with Cons.prems Cons.IH show ?thesis
      by (cases "s' = s")
        (auto simp: leaf_at_Cons set_leaf_Cons map_of_update update_commute map_of_Some_key split: if_splits bind_splits)
  qed (use Cons.prems in \<open>simp add: leaf_at_def\<close>)
qed (simp add: leaf_at_def)

text \<open>Writing a leaf keeps the keys of the maps distinct.\<close>

definition doc_ok :: "document \<Rightarrow> bool" where
  "doc_ok doc \<longleftrightarrow> maps_ok (AMap doc)"

lemma set_update: "set (AList.update k v m) \<subseteq> insert (k, v) (set m)"
  by (induction m) auto

lemma doc_ok_update: "doc_ok m \<Longrightarrow> maps_ok v \<Longrightarrow> doc_ok (AList.update k v m)"
  using set_update[of k v m] distinct_update[of m k v] unfolding doc_ok_def by fastforce

lemma doc_ok_nested: "doc_ok doc \<Longrightarrow> map_of doc s = Some (AMap m) \<Longrightarrow> doc_ok m"
  unfolding doc_ok_def by (drule map_of_SomeD) (force simp del: maps_ok.simps(2) simp: maps_ok.simps(2)[of doc])

lemma doc_ok_set_leaf: "doc_ok doc \<Longrightarrow> maps_ok v \<Longrightarrow> doc_ok (set_leaf doc p v)"
proof (induction p arbitrary: doc)
  case (Cons s r)
  then show ?case
    using doc_ok_nested[OF Cons.prems(1)] doc_ok_update[OF Cons.prems(1)]
    by (auto simp: set_leaf_Cons doc_ok_def[symmetric] split: option.splits bind_splits simp del: maps_ok.simps)
qed simp


section \<open>Deleting\<close>

lemma map_of_delete: "map_of (AList.delete k m) x = (if x = k then None else map_of m x)"
  by (simp add: delete_conv')

lemma walk_delete: "walkPath (delete_leaf doc p) p = None"
  by (induction p arbitrary: doc)
    (auto simp: walk_Cons delete_leaf_Cons map_of_update map_of_delete split: option.splits bind_splits)

lemma walk_delete_mono: "walkPath doc q = None \<Longrightarrow> walkPath (delete_leaf doc p) q = None"
proof (induction p arbitrary: doc q)
  case (Cons s r)
  show ?case
  proof (cases q)
    case (Cons s' r')
    with Cons.prems Cons.IH show ?thesis
      by (cases "s' = s")
        (auto simp: walk_Cons delete_leaf_Cons map_of_update map_of_delete split: if_splits option.splits bind_splits)
  qed simp
qed simp

lemma leaf_at_delete: "\<not> prefix p q \<Longrightarrow> leaf_at (delete_leaf doc p) q = leaf_at doc q"
proof (induction p arbitrary: doc q)
  case (Cons s r)
  show ?case
  proof (cases q)
    case (Cons s' r')
    with Cons.prems Cons.IH show ?thesis
      by (cases "s' = s")
        (auto simp: leaf_at_Cons delete_leaf_Cons map_of_update map_of_delete split: if_splits option.splits bind_splits)
  qed (simp add: leaf_at_def)
qed simp

lemma doc_ok_delete_leaf: "doc_ok doc \<Longrightarrow> doc_ok (delete_leaf doc p)"
proof (induction p arbitrary: doc)
  case (Cons s r)
  have "doc_ok (AList.delete s doc)"
    using Cons.prems by (auto simp: doc_ok_def AList.delete_eq distinct_map_filter)
  then show ?case
    using Cons doc_ok_nested[OF Cons.prems] doc_ok_update[OF Cons.prems]
    by (auto simp: delete_leaf_Cons doc_ok_def[symmetric] split: option.splits bind_splits simp del: maps_ok.simps)
qed simp



section \<open>Equal values\<close>

text \<open>
  Two values are the same when they differ at most in the order in which the model lists the members of
  maps (which Go does not fix, and which a JSONB column changes).
\<close>

inductive same :: "any \<Rightarrow> any \<Rightarrow> bool" where
  same_leaf: "(\<And>xs. a \<noteq> AList xs) \<Longrightarrow> (\<And>m. a \<noteq> AMap m) \<Longrightarrow> same a a"
| same_list: "list_all2 same xs ys \<Longrightarrow> same (AList xs) (AList ys)"
| same_map: "distinct (map fst m) \<Longrightarrow> distinct (map fst m') \<Longrightarrow> (\<And>k. rel_option same (map_of m k) (map_of m' k)) \<Longrightarrow>
    same (AMap m) (AMap m')"
  monos list.rel_mono option.rel_mono

inductive_simps same_str: "same (AStr s) b"
inductive_simps same_AMap: "same (AMap m) b"
inductive_simps same_AList: "same (AList xs) b"

definition same_doc :: "document \<Rightarrow> document \<Rightarrow> bool" where
  "same_doc d d' \<longleftrightarrow> same (AMap d) (AMap d')"

lemma same_doc_iff:
  "same_doc d d' \<longleftrightarrow> distinct (map fst d) \<and> distinct (map fst d') \<and> (\<forall>k. rel_option same (map_of d k) (map_of d' k))"
  by (auto simp: same_doc_def same_AMap)

lemma same_shape: "same a b \<Longrightarrow> (leafy a = leafy b) \<and> (\<forall>s. a = AStr s \<longleftrightarrow> b = AStr s) \<and> (a = ANil \<longleftrightarrow> b = ANil)"
  by (induction rule: same.induct) auto

lemma same_refl: "maps_ok a \<Longrightarrow> same a a"
proof (induction a rule: maps_ok.induct)
  case (1 xs)
  then show ?case by (auto intro!: same_list list.rel_refl_strong)
next
  case (2 m)
  then have "rel_option same (map_of m k) (map_of m k)" for k
    by (cases "map_of m k") (auto dest!: map_of_SomeD)
  with 2 show ?case by (intro same_map) auto
qed (auto intro: same_leaf)

lemma same_doc_refl: "doc_ok d \<Longrightarrow> same_doc d d"
  by (simp add: doc_ok_def same_doc_def same_refl del: maps_ok.simps)

lemma same_sym: "same a b \<Longrightarrow> same b a"
proof (induction rule: same.induct)
  case (same_list xs ys)
  then show ?case by (auto intro!: same.same_list simp: list_all2_conv_all_nth)
next
  case (same_map m m')
  have "rel_option same (map_of m' k) (map_of m k)" for k
    using same_map.IH[of k] by (auto simp: option_rel_Some1 option_rel_Some2 elim: option.rel_cases)
  with same_map show ?case by (intro same.same_map) auto
qed (auto intro: same.same_leaf)

lemma same_trans: "same a b \<Longrightarrow> same b c \<Longrightarrow> same a c"
proof (induction arbitrary: c rule: same.induct)
  case (same_list xs ys)
  then show ?case by (auto intro!: same.same_list simp: same_AList list_all2_conv_all_nth)
next
  case (same_map m m')
  then obtain m'' where c: "c = AMap m''" "distinct (map fst m'')" "\<And>k. rel_option same (map_of m' k) (map_of m'' k)"
    by (auto simp: same_AMap)
  have "rel_option same (map_of m k) (map_of m'' k)" for k
    using same_map.IH[of k] c(3)[of k] by (auto elim!: option.rel_cases)
  with same_map c show ?case by (auto intro!: same.same_map)
qed (auto elim: same.cases)

lemma same_doc_trans: "same_doc a b \<Longrightarrow> same_doc b c \<Longrightarrow> same_doc a c"
  unfolding same_doc_def by (rule same_trans)

lemma same_maps_ok: "same a b \<Longrightarrow> maps_ok a \<and> maps_ok b"
proof (induction rule: same.induct)
  case (same_leaf a)
  then show ?case by (cases a) auto
next
  case (same_list xs ys)
  then show ?case by (auto simp: list_all2_conv_all_nth in_set_conv_nth)
next
  case (same_map m m')
  have "maps_ok v" if "(k, v) \<in> set m" for k v
    using same_map.IH[of k] that same_map(1) by (auto elim: option.rel_cases)
  moreover have "maps_ok v" if "(k, v) \<in> set m'" for k v
    using same_map.IH[of k] that same_map(2) by (auto elim: option.rel_cases)
  ultimately show ?case using same_map(1,2) by auto
qed

lemma same_doc_ok: "same_doc d d' \<Longrightarrow> doc_ok d \<and> doc_ok d'"
  unfolding same_doc_def doc_ok_def by (rule same_maps_ok)

lemma leafy_enter: "leafy v \<longleftrightarrow> enter v = None"
  by (cases v) (auto simp: leafy_def enter_def)

lemma same_enter: "same u w \<Longrightarrow> rel_option same_doc (enter u) (enter w)"
proof (cases "leafy u")
  case True
  assume "same u w"
  with True have "leafy w" using same_shape by blast
  with True show ?thesis by simp
qed (auto elim!: not_leafyE simp: same_AMap same_doc_def)

lemma walk_same: "same_doc d d' \<Longrightarrow> rel_option same (walkPath d p) (walkPath d' p)"
proof (induction p arbitrary: d d')
  case (Cons s r)
  have "rel_option same (map_of d s) (map_of d' s)" using Cons.prems by (simp add: same_doc_iff)
  then show ?case
  proof (cases rule: option.rel_cases)
    case (Some u w)
    with same_enter[OF Some(3)] Cons.IH show ?thesis
      by (cases rule: option.rel_cases) (auto simp: walk_Cons)
  qed (simp add: walk_Cons)
qed simp

lemma update_same_doc: "same_doc d d' \<Longrightarrow> same v v' \<Longrightarrow> same_doc (AList.update k v d) (AList.update k v' d')"
  by (auto simp: same_doc_iff map_of_update distinct_update)

lemma set_leaf_same_doc:
  "same_doc d d' \<Longrightarrow> same v v' \<Longrightarrow> same_doc (set_leaf d p v) (set_leaf d' p v')"
proof (induction p arbitrary: d d')
  case (Cons s r)
  show ?case
  proof (cases "r = []")
    case True
    with Cons.prems show ?thesis by (simp add: set_leaf_Cons update_same_doc)
  next
    case False
    have "rel_option same_doc (Option.bind (map_of d s) enter) (Option.bind (map_of d' s) enter)"
      using Cons.prems(1) same_enter by (auto simp: same_doc_iff intro!: option_bind_transfer[THEN rel_funD, THEN rel_funD])
    then show ?thesis
    proof (cases rule: option.rel_cases)
      case (Some m m')
      have "same (AMap (set_leaf m r v)) (AMap (set_leaf m' r v'))"
        using Cons.IH[OF Some(3) Cons.prems(2)] by (simp add: same_doc_def)
      with False Some Cons.prems show ?thesis by (simp add: set_leaf_Cons update_same_doc)
    qed (use False Cons.prems in \<open>simp add: set_leaf_Cons\<close>)
  qed
qed simp

text \<open>Which values \<open>json.Marshal\<close> accepts.\<close>

fun encodable :: "any \<Rightarrow> bool" where
  "encodable ANil = True"
| "encodable (ABool b) = True"
| "encodable (AStr s) = True"
| "encodable (AFloat n) = (case n of Fin q \<Rightarrow> True | _ \<Rightarrow> False)"
| "encodable (AList xs) = (\<forall>x \<in> set xs. encodable x)"
| "encodable (AMap m) = (\<forall>(k, x) \<in> set m. encodable x)"
| "encodable _ = False"

lemma marshal_encodable:
  "marshal_any a \<noteq> None \<longleftrightarrow> encodable a"
  "marshal_anys as \<noteq> None \<longleftrightarrow> (\<forall>a \<in> set as. encodable a)"
  "marshal_members m \<noteq> None \<longleftrightarrow> (\<forall>(k, a) \<in> set m. encodable a)"
  by (induction a and as and m rule: marshal_any_marshal_anys_marshal_members.induct)
    (auto split: option.splits)

lemma same_encodable: "same a b \<Longrightarrow> encodable a = encodable b"
proof (induction rule: same.induct)
  case (same_list xs ys)
  then show ?case by (simp add: list_all2_conv_all_nth all_set_conv_all_nth)
next
  case (same_map m m')
  have "encodable (AMap m) \<longleftrightarrow> (\<forall>k v. map_of m k = Some v \<longrightarrow> encodable v)" if "distinct (map fst m)" for m
    using that by (fastforce dest: map_of_SomeD)
  moreover have "(\<forall>v. map_of m k = Some v \<longrightarrow> encodable v) = (\<forall>v. map_of m' k = Some v \<longrightarrow> encodable v)" for k
    using same_map.IH[of k] by (auto elim!: option.rel_cases)
  ultimately show ?case using same_map(1,2) by simp
qed simp

lemma encodable_set_leaf:
  "encodable (AMap doc) \<Longrightarrow> encodable v \<Longrightarrow> encodable (AMap (set_leaf doc p v))"
proof (induction p arbitrary: doc)
  case (Cons s r)
  have upd: "encodable (AMap (AList.update s w doc))" if "encodable w" for w
    using Cons.prems(1) that set_update[of s w doc] by fastforce
  have "encodable (AMap m)" if "map_of doc s = Some (AMap m)" for m
    using Cons.prems(1) map_of_SomeD[OF that] by fastforce
  with Cons upd show ?case by (auto simp: set_leaf_Cons simp del: encodable.simps split: option.splits bind_splits)
qed simp

end
