(* ===== verification/Record_Fields.thy ===== *)
theory Record_Fields
  imports Record_Paths
begin

text \<open>
  What happens to the fields of a record on its way to the database, the audit log, the event stream and
  the reader: encryption and decryption of sensitive fields, blind indexes, shallow merging of patches,
  field permissions (internal/record/store.go, internal/record/paths.go), redaction and the diff summary
  (internal/record/redact.go).

  The store sees the key manager through the interfaces \<open>FieldEncryptor\<close>, \<open>BlindIndexer\<close> and
  \<open>AuditHasher\<close>, each possibly absent. An encryptor draws a fresh nonce at every call; \<open>fe_encrypt\<close>
  takes the number of the call for it.
\<close>

section \<open>Interfaces and errors\<close>

record fieldEncryptor =
  fe_encrypt :: "nat \<Rightarrow> uuid \<Rightarrow> string \<Rightarrow> string option"
  fe_decrypt :: "uuid \<Rightarrow> string \<Rightarrow> string option"

type_synonym digester = "uuid \<Rightarrow> string \<Rightarrow> string option"

datatype field_error =
    ParseSchemaForEncryption
  | ParseRecordData
  | EncryptedMustBeString string
  | EncryptFailed string
  | DecryptFailed string
  | BlindIndexFailed string
  | MarshalFailed
  | MergeParse

text \<open>\<open>json.Marshal\<close> of a document; \<open>jt\<close> gives the text of a JSON value.\<close>

definition marshal_doc :: "(json \<Rightarrow> string) \<Rightarrow> document \<Rightarrow> raw_message option" where
  "marshal_doc jt doc = map_option (raw_of jt) (marshal_any (AMap doc))"

definition unmarshalData :: "raw_message \<Rightarrow> field_error + document" where
  "unmarshalData data = (case payload_of data of None \<Rightarrow> Inl ParseRecordData | Some m \<Rightarrow> Inr m)"

definition sensitiveFields :: "raw_message \<Rightarrow> field_error + fieldSpec list" where
  "sensitiveFields sch =
     (case unmarshal_schema sch of
        None \<Rightarrow> Inl ParseSchemaForEncryption
      | Some s \<Rightarrow> Inr (filter IsSensitive (s_fields s)))"

definition indexedSensitiveFields :: "raw_message \<Rightarrow> field_error + fieldSpec list" where
  "indexedSensitiveFields sch = rbind (sensitiveFields sch) (\<lambda>fs. Inr (filter f_indexed fs))"


section \<open>Encryption\<close>

fun encrypt_loop ::
  "fieldEncryptor \<Rightarrow> uuid \<Rightarrow> nat \<Rightarrow> fieldSpec list \<Rightarrow> document \<Rightarrow> bool \<Rightarrow> field_error + document \<times> bool"
where
  "encrypt_loop e t n [] doc changed = Inr (doc, changed)"
| "encrypt_loop e t n (f # fs) doc changed =
     (case walkPath doc (PathSegments f) of
        None \<Rightarrow> encrypt_loop e t n fs doc changed
      | Some ANil \<Rightarrow> encrypt_loop e t n fs doc changed
      | Some (AStr plaintext) \<Rightarrow>
          (case fe_encrypt e n t plaintext of
             None \<Rightarrow> Inl (EncryptFailed (f_name f))
           | Some ct \<Rightarrow> encrypt_loop e t (Suc n) fs (set_leaf doc (PathSegments f) (AStr ct)) True)
      | Some _ \<Rightarrow> Inl (EncryptedMustBeString (f_name f)))"

definition encryptFields ::
  "(json \<Rightarrow> string) \<Rightarrow> fieldEncryptor option \<Rightarrow> nat \<Rightarrow> uuid \<Rightarrow> raw_message \<Rightarrow> raw_message
   \<Rightarrow> field_error + raw_message" where
  "encryptFields jt enc n t sch data =
     (case enc of
        None \<Rightarrow> Inr data
      | Some e \<Rightarrow>
          rbind (sensitiveFields sch) (\<lambda>fs.
            if fs = [] then Inr data
            else rbind (unmarshalData data) (\<lambda>doc.
              rbind (encrypt_loop e t n fs doc False) (\<lambda>(doc', changed).
                if changed
                then (case marshal_doc jt doc' of None \<Rightarrow> Inl MarshalFailed | Some r \<Rightarrow> Inr r)
                else Inr data))))"

fun decrypt_loop ::
  "fieldEncryptor \<Rightarrow> uuid \<Rightarrow> fieldSpec list \<Rightarrow> document \<Rightarrow> bool \<Rightarrow> field_error + document \<times> bool"
where
  "decrypt_loop e t [] doc changed = Inr (doc, changed)"
| "decrypt_loop e t (f # fs) doc changed =
     (case walkPath doc (PathSegments f) of
        Some (AStr ct) \<Rightarrow>
          (case fe_decrypt e t ct of
             None \<Rightarrow> Inl (DecryptFailed (f_name f))
           | Some pt \<Rightarrow>
               (if pt \<noteq> ct then decrypt_loop e t fs (set_leaf doc (PathSegments f) (AStr pt)) True
                else decrypt_loop e t fs doc changed))
      | _ \<Rightarrow> decrypt_loop e t fs doc changed)"

definition decryptRecordWith ::
  "(json \<Rightarrow> string) \<Rightarrow> fieldEncryptor option \<Rightarrow> uuid \<Rightarrow> raw_message \<Rightarrow> raw_message \<Rightarrow> field_error + raw_message"
where
  "decryptRecordWith jt enc t sch data =
     (case enc of
        None \<Rightarrow> Inr data
      | Some e \<Rightarrow>
          rbind (sensitiveFields sch) (\<lambda>fs.
            if fs = [] then Inr data
            else rbind (unmarshalData data) (\<lambda>doc.
              rbind (decrypt_loop e t fs doc False) (\<lambda>(doc', changed).
                if changed
                then (case marshal_doc jt doc' of None \<Rightarrow> Inl MarshalFailed | Some r \<Rightarrow> Inr r)
                else Inr data))))"


section \<open>Blind indexes\<close>

fun blind_loop ::
  "digester \<Rightarrow> uuid \<Rightarrow> fieldSpec list \<Rightarrow> document \<Rightarrow> (string \<times> string) list \<Rightarrow> field_error + (string \<times> string) list"
where
  "blind_loop h t [] doc out = Inr out"
| "blind_loop h t (f # fs) doc out =
     (case walkPath doc (PathSegments f) of
        Some (AStr s) \<Rightarrow>
          (case h t s of
             None \<Rightarrow> Inl (BlindIndexFailed (f_name f))
           | Some digest \<Rightarrow>
               blind_loop h t fs doc (if digest = [] then out else AList.update (f_name f) digest out))
      | _ \<Rightarrow> blind_loop h t fs doc out)"

text \<open>The result is the JSON object of digests as the column keeps it, \<open>None\<close> for NULL.\<close>

definition computeBlindIndexes ::
  "uuid \<Rightarrow> raw_message \<Rightarrow> raw_message \<Rightarrow> digester option \<Rightarrow> field_error + (string \<times> string) list option" where
  "computeBlindIndexes t sch data indexer =
     (case indexer of
        None \<Rightarrow> Inr None
      | Some h \<Rightarrow>
          rbind (indexedSensitiveFields sch) (\<lambda>fs.
            if fs = [] \<or> raw_text data = [] then Inr None
            else case Option.bind (raw_json data) unmarshal_object of
                   None \<Rightarrow> Inr None
                 | Some doc \<Rightarrow>
                     (if raw_json data = Some JNull then Inr None
                      else rbind (blind_loop h t fs doc []) (\<lambda>out. Inr (if out = [] then None else Some out)))))"


section \<open>Merging\<close>

definition merge_docs :: "document \<Rightarrow> document \<Rightarrow> document" where
  "merge_docs base patch = fold (\<lambda>(k, v) m. AList.update k v m) patch base"

definition mergeJSON :: "(json \<Rightarrow> string) \<Rightarrow> raw_message \<Rightarrow> raw_message \<Rightarrow> field_error + raw_message" where
  "mergeJSON jt base patch =
     (let base = (if raw_text base = [] then \<lparr>raw_text = ''{}'', raw_json = Some (JObj [])\<rparr> else base)
      in if raw_text patch = [] then Inr base
         else case (Option.bind (raw_json base) unmarshal_object, Option.bind (raw_json patch) unmarshal_object) of
                (Some b, Some p) \<Rightarrow>
                  (case marshal_doc jt (merge_docs b p) of None \<Rightarrow> Inl MarshalFailed | Some r \<Rightarrow> Inr r)
              | _ \<Rightarrow> Inl MergeParse)"


section \<open>Redaction\<close>

definition redactedPlaceholder :: string where
  "redactedPlaceholder = ''<redacted>''"

definition redactedMarkerKey :: string where
  "redactedMarkerKey = ''_redacted''"

fun redact_loop :: "fieldSpec list \<Rightarrow> document \<Rightarrow> string list \<Rightarrow> document \<times> string list" where
  "redact_loop [] doc redacted = (doc, redacted)"
| "redact_loop (f # fs) doc redacted =
     (case walkPath doc (PathSegments f) of
        None \<Rightarrow> redact_loop fs doc redacted
      | Some _ \<Rightarrow> redact_loop fs (set_leaf doc (PathSegments f) (AStr redactedPlaceholder)) (redacted @ [f_name f]))"

definition RedactData :: "(json \<Rightarrow> string) \<Rightarrow> raw_message \<Rightarrow> raw_message \<Rightarrow> raw_message" where
  "RedactData jt sch data =
     (case sensitiveFields sch of
        Inl _ \<Rightarrow> data
      | Inr fs \<Rightarrow>
          (if fs = [] \<or> raw_text data = [] then data
           else case raw_json data of
                  None \<Rightarrow> data
                | Some j \<Rightarrow>
                    (if j = JNull then data
                     else case unmarshal_object j of
                            None \<Rightarrow> data
                          | Some doc \<Rightarrow>
                              (let (doc', redacted) = redact_loop fs doc []
                               in if redacted = [] then data
                                  else case marshal_doc jt
                                              (AList.update redactedMarkerKey (AList (map AStr (sort redacted))) doc') of
                                         None \<Rightarrow> data
                                       | Some r \<Rightarrow> r))))"

function (sequential) equalJSON :: "any \<Rightarrow> any \<Rightarrow> bool" where
  "equalJSON ANil b = (b = ANil)"
| "equalJSON (ABool x) b = (b = ABool x)"
| "equalJSON (AFloat x) b = (case b of AFloat y \<Rightarrow> f64_eq x y | _ \<Rightarrow> False)"
| "equalJSON (AStr x) b = (b = AStr x)"
| "equalJSON (AMap m) b =
     (case b of
        AMap m' \<Rightarrow>
          length m = length m'
          \<and> list_all (\<lambda>(k, v). equalJSON v (case map_of m' k of None \<Rightarrow> ANil | Some w \<Rightarrow> w)) m
      | _ \<Rightarrow> False)"
| "equalJSON (AList xs) b =
     (case b of
        AList ys \<Rightarrow> length xs = length ys \<and> list_all (\<lambda>(x, y). equalJSON x y) (zip xs ys)
      | _ \<Rightarrow> False)"
| "equalJSON a b = (a = b)"
  by pat_completeness auto

lemma size_zip_left: "(x, y) \<in> set (zip xs ys) \<Longrightarrow> size x < size (AList xs)"
  by (auto dest!: set_zip_leftD size_list_estimation'[where f = size and y = "size x"])

lemma size_any_member: "(k, v) \<in> set m \<Longrightarrow> size v < size (AMap m)"
  by (induction m) auto

termination equalJSON
  by (relation "measure (size \<circ> fst)") (auto simp del: any.size dest: size_zip_left size_any_member)

definition parseObject :: "raw_message \<Rightarrow> document" where
  "parseObject data = (case payload_of data of None \<Rightarrow> [] | Some m \<Rightarrow> m)"

definition prefixPaths :: "string list \<Rightarrow> string \<Rightarrow> string list" where
  "prefixPaths paths pre = map (\<lambda>p. pre @ p) paths"

lemma size_map_of: "map_of m k = Some v \<Longrightarrow> size v < size (AMap m)"
  by (blast dest: map_of_SomeD intro: size_any_member)

function changedFields :: "document \<Rightarrow> document \<Rightarrow> string list" where
  "changedFields b a =
     sort (concat (map (\<lambda>k.
       (case (map_of b k, map_of a k) of
          (Some (AMap bm), Some (AMap am)) \<Rightarrow> prefixPaths (changedFields bm am) (k @ ''.'')
        | (Some bv, Some av) \<Rightarrow> (if equalJSON bv av then [] else [k])
        | (None, None) \<Rightarrow> []
        | _ \<Rightarrow> [k])) (remdups (map fst b @ map fst a))))"
  by pat_completeness auto

termination changedFields
  by (relation "measure (size \<circ> AMap \<circ> fst)") (auto simp del: any.size dest: size_map_of[OF sym])

definition redactedPresentFields :: "fieldSpec list \<Rightarrow> document \<Rightarrow> document \<Rightarrow> string list" where
  "redactedPresentFields fs b a =
     sort (map f_name (filter (\<lambda>f. walkPath b (PathSegments f) \<noteq> None \<or> walkPath a (PathSegments f) \<noteq> None) fs))"

definition leaf_hash :: "digester \<Rightarrow> uuid \<Rightarrow> document \<Rightarrow> fieldSpec \<Rightarrow> string option" where
  "leaf_hash h t doc f =
     (case walkPath doc (PathSegments f) of
        Some (AStr v) \<Rightarrow> (case h t v of Some d \<Rightarrow> if d = [] then None else Some d | None \<Rightarrow> None)
      | _ \<Rightarrow> None)"

definition add_hashes ::
  "digester \<Rightarrow> uuid \<Rightarrow> document \<Rightarrow> document \<Rightarrow> fieldSpec \<Rightarrow> (string \<times> json) list \<Rightarrow> (string \<times> json) list" where
  "add_hashes h t b a f out =
     (let out1 = (case leaf_hash h t b f of None \<Rightarrow> out | Some d \<Rightarrow> AList.update (f_name f @ ''_hash_before'') (JStr d) out)
      in case leaf_hash h t a f of
           None \<Rightarrow> out1
         | Some d \<Rightarrow> AList.update (f_name f @ ''_hash_after'') (JStr d) out1)"

definition diff_members ::
  "raw_message \<Rightarrow> raw_message \<Rightarrow> raw_message \<Rightarrow> digester option \<Rightarrow> uuid \<Rightarrow> (string \<times> json) list" where
  "diff_members sch before after hasher t =
     (let fs = (case sensitiveFields sch of Inl _ \<Rightarrow> [] | Inr fs \<Rightarrow> fs);
          b = parseObject before;
          a = parseObject after;
          redacted = redactedPresentFields fs b a;
          out = [(''changed_fields'', JArr (map JStr (changedFields b a))), (''redacted_fields'', JArr (map JStr redacted))]
      in case hasher of
           None \<Rightarrow> out
         | Some h \<Rightarrow> fold (\<lambda>f out. if f_name f \<in> set redacted then add_hashes h t b a f out else out) fs out)"

definition DiffSummary ::
  "(json \<Rightarrow> string) \<Rightarrow> raw_message \<Rightarrow> raw_message \<Rightarrow> raw_message \<Rightarrow> digester option \<Rightarrow> uuid \<Rightarrow> raw_message" where
  "DiffSummary jt sch before after hasher t = raw_of jt (JObj (diff_members sch before after hasher t))"


section \<open>Field permissions\<close>

record fieldRule =
  fr_read :: "string list"
  fr_write :: "string list"

definition decode_rule_member :: "string \<times> json \<Rightarrow> fieldRule option \<Rightarrow> fieldRule option" where
  "decode_rule_member kv acc =
     (case acc of
        None \<Rightarrow> None
      | Some r \<Rightarrow>
          (let k = map go_lower (fst kv); v = snd kv
           in if k = ''read'' then map_option (\<lambda>x. r\<lparr>fr_read := x\<rparr>) (unmarshal_strings v)
              else if k = ''write'' then map_option (\<lambda>x. r\<lparr>fr_write := x\<rparr>) (unmarshal_strings v)
              else Some r))"

definition decode_rule :: "json \<Rightarrow> fieldRule option" where
  "decode_rule j =
     (case j of
        JNull \<Rightarrow> Some \<lparr>fr_read = [], fr_write = []\<rparr>
      | JObj ps \<Rightarrow> fold decode_rule_member ps (Some \<lparr>fr_read = [], fr_write = []\<rparr>)
      | _ \<Rightarrow> None)"

definition decode_rules :: "json \<Rightarrow> (string \<times> fieldRule) list \<Rightarrow> (string \<times> fieldRule) list option" where
  "decode_rules j old =
     (case j of
        JNull \<Rightarrow> Some []
      | JObj ps \<Rightarrow>
          map_option (\<lambda>rs. fold (\<lambda>(k, r) m. AList.update k r m) (zip (map fst ps) rs) old)
            (option_list (map (decode_rule \<circ> snd) ps))
      | _ \<Rightarrow> None)"

definition parseFieldPermissions :: "raw_message \<Rightarrow> (string \<times> fieldRule) list" where
  "parseFieldPermissions sch =
     (case raw_json sch of
        Some (JObj ps) \<Rightarrow>
          (case fold (\<lambda>(k, v) acc. if map go_lower k = ''field_permissions'' then Option.bind acc (decode_rules v) else acc)
                  ps (Some []) of
             None \<Rightarrow> []
           | Some m \<Rightarrow> m)
      | _ \<Rightarrow> [])"

definition decode_path_field :: "json \<Rightarrow> (string \<times> string) option" where
  "decode_path_field j =
     (case j of
        JNull \<Rightarrow> Some ([], [])
      | JObj ps \<Rightarrow>
          fold (\<lambda>(k, v) acc. Option.bind acc (\<lambda>(nm, pth).
              if map go_lower k = ''name'' then map_option (\<lambda>x. (x, pth)) (unmarshal_string nm v)
              else if map go_lower k = ''path'' then map_option (\<lambda>x. (nm, x)) (unmarshal_string pth v)
              else Some (nm, pth))) ps (Some ([], []))
      | _ \<Rightarrow> None)"

definition parseFieldPaths :: "raw_message \<Rightarrow> (string \<times> string list) list" where
  "parseFieldPaths sch =
     (case raw_json sch of
        Some (JObj ps) \<Rightarrow>
          (case fold (\<lambda>(k, v) acc. if map go_lower k = ''fields''
                        then Option.bind acc (\<lambda>_. Option.bind (unmarshal_slice v) (\<lambda>js. option_list (map decode_path_field js)))
                        else acc) ps (Some []) of
             None \<Rightarrow> []
           | Some fs \<Rightarrow>
               fold (\<lambda>(nm, pth) m. AList.update nm (if pth = [] then [nm] else split_on CHR ''.'' pth) m) fs [])
      | _ \<Rightarrow> [])"

definition roleSetMatchesAny :: "string list \<Rightarrow> string list \<Rightarrow> bool" where
  "roleSetMatchesAny have_roles want \<longleftrightarrow> list_ex (\<lambda>r. r \<in> set have_roles) want"

definition rule_path :: "raw_message \<Rightarrow> string \<Rightarrow> string list" where
  "rule_path sch field = (case map_of (parseFieldPaths sch) field of Some segs \<Rightarrow> segs | None \<Rightarrow> [field])"

text \<open>\<open>walkPath\<close> finding nothing leaves the document as it is, as does \<open>delete_leaf\<close>.\<close>

definition hidden_rules :: "raw_message \<Rightarrow> string list \<Rightarrow> (string \<times> fieldRule) list" where
  "hidden_rules sch roles =
     filter (\<lambda>(field, rule). fr_read rule \<noteq> [] \<and> \<not> roleSetMatchesAny roles (fr_read rule)) (parseFieldPermissions sch)"

definition FilterFields :: "(json \<Rightarrow> string) \<Rightarrow> raw_message \<Rightarrow> raw_message \<Rightarrow> string list \<Rightarrow> raw_message" where
  "FilterFields jt data sch roles =
     (if raw_text data = [] \<or> raw_text sch = [] \<or> parseFieldPermissions sch = [] then data
      else case raw_json data of
             None \<Rightarrow> data
           | Some j \<Rightarrow>
               (case unmarshal_object j of
                  None \<Rightarrow> data
                | Some doc \<Rightarrow>
                    (if j = JNull then raw_of jt JNull
                     else case marshal_doc jt
                                 (fold (\<lambda>(field, rule) d. delete_leaf d (rule_path sch field)) (hidden_rules sch roles) doc) of
                            None \<Rightarrow> data
                          | Some r \<Rightarrow> r)))"

definition FieldsForbiddenForWrite :: "raw_message \<Rightarrow> raw_message \<Rightarrow> string list \<Rightarrow> string list" where
  "FieldsForbiddenForWrite data sch roles =
     (if raw_text data = [] \<or> raw_text sch = [] then []
      else case Option.bind (raw_json data) unmarshal_object of
             None \<Rightarrow> []
           | Some doc \<Rightarrow>
               map fst (filter (\<lambda>(field, rule). fr_write rule \<noteq> [] \<and> \<not> roleSetMatchesAny roles (fr_write rule)
                                  \<and> walkPath doc (rule_path sch field) \<noteq> None) (parseFieldPermissions sch)))"

end
