(* ===== verification/Record_Protection.thy ===== *)
theory Record_Protection
  imports Record_Fields
begin

text \<open>
  What the operations of \<open>Record_Fields\<close> achieve. The locale \<open>field_cipher\<close> states what the store relies on
  in a field encryptor; in it, decryption of an encrypted payload gives back the payload, also when the
  database has reordered the members of objects in between. For redaction: the result does not depend
  on the values of sensitive fields. For field permissions: what a reader without the role sees, and
  how a write protection is bypassed.
\<close>

section \<open>Decryption undoes encryption\<close>

definition str_at :: "document \<Rightarrow> string list \<Rightarrow> string option" where
  "str_at doc p = (case walkPath doc p of Some (AStr s) \<Rightarrow> Some s | _ \<Rightarrow> None)"

lemma str_at_Some: "str_at doc p = Some s \<longleftrightarrow> walkPath doc p = Some (AStr s)"
  by (auto simp: str_at_def split: option.splits any.splits)

lemma str_at_leaf: "str_at doc p = (case leaf_at doc p of Some (AStr s) \<Rightarrow> Some s | _ \<Rightarrow> None)"
  by (auto simp: str_at_def leaf_at_def split: option.splits any.splits)

lemma str_at_set:
  assumes "str_at doc p = Some u"
  shows "str_at (set_leaf doc p (AStr v)) q = (if q = p then Some v else str_at doc q)"
proof -
  have "leaf_at doc p = Some (AStr u)" using assms by (simp add: str_at_Some leaf_at_Some)
  then show ?thesis by (simp add: str_at_leaf leaf_at_set)
qed

text \<open>One step of the decryption loop, as a partial function.\<close>

definition strip :: "fieldEncryptor \<Rightarrow> uuid \<Rightarrow> fieldSpec \<Rightarrow> document \<Rightarrow> document option" where
  "strip e t f doc =
     (case str_at doc (PathSegments f) of
        None \<Rightarrow> Some doc
      | Some ct \<Rightarrow> map_option (\<lambda>pt. set_leaf doc (PathSegments f) (AStr pt)) (fe_decrypt e t ct))"

fun strips :: "fieldEncryptor \<Rightarrow> uuid \<Rightarrow> fieldSpec list \<Rightarrow> document \<Rightarrow> document option" where
  "strips e t [] doc = Some doc"
| "strips e t (f # fs) doc = Option.bind (strip e t f doc) (strips e t fs)"

lemma strip_commute:
  assumes "strip e t f doc = Some d1" "strip e t g d1 = Some d2"
  shows "\<exists>d. strip e t g doc = Some d \<and> strip e t f d = Some d2"
proof (cases "PathSegments f = PathSegments g")
  case True
  with assms show ?thesis by (auto simp: strip_def split: option.splits)
next
  case ne: False
  show ?thesis
  proof (cases "str_at doc (PathSegments f)")
    case None
    with assms ne show ?thesis by (auto simp: strip_def str_at_set split: option.splits)
  next
    case f: (Some u)
    show ?thesis
    proof (cases "str_at doc (PathSegments g)")
      case None
      with f assms ne show ?thesis by (auto simp: strip_def str_at_set split: option.splits)
    next
      case g: (Some w)
      have "leaf_at doc (PathSegments f) = Some (AStr u)" "leaf_at doc (PathSegments g) = Some (AStr w)"
        using f g by (auto simp: str_at_Some leaf_at_Some)
      from set_leaf_commute[OF this] f g assms ne show ?thesis
        by (auto simp: strip_def str_at_set split: option.splits)
    qed
  qed
qed

lemma strips_commute:
  "strips e t fs doc = Some d1 \<Longrightarrow> strip e t f d1 = Some d2 \<Longrightarrow> \<exists>d. strip e t f doc = Some d \<and> strips e t fs d = Some d2"
proof (induction fs arbitrary: doc)
  case (Cons g fs)
  obtain d' where d': "strip e t g doc = Some d'" "strips e t fs d' = Some d1"
    using Cons.prems(1) by (auto split: bind_splits)
  obtain d'' where d'': "strip e t f d' = Some d''" "strips e t fs d'' = Some d2"
    using Cons.IH[OF d'(2) Cons.prems(2)] by blast
  with strip_commute[OF d'(1) d''(1)] show ?case by auto
qed simp

lemma decrypt_loop_strips:
  "strips e t fs doc = Some d \<Longrightarrow> \<exists>ch'. decrypt_loop e t fs doc ch = Inr (d, ch') \<and> (ch' = ch \<or> ch') \<and> (\<not> ch' \<longrightarrow> d = doc)"
proof (induction fs arbitrary: doc ch)
  case (Cons f fs)
  then obtain d1 where d1: "strip e t f doc = Some d1" "strips e t fs d1 = Some d" by (auto split: bind_splits)
  show ?case
  proof (cases "str_at doc (PathSegments f)")
    case None
    with d1 Cons.IH[OF d1(2), of ch] show ?thesis
      by (auto simp: strip_def str_at_def split: option.splits any.splits)
  next
    case (Some ct)
    then obtain pt where pt: "fe_decrypt e t ct = Some pt" "d1 = set_leaf doc (PathSegments f) (AStr pt)"
      using d1(1) by (auto simp: strip_def)
    have "pt = ct \<Longrightarrow> d1 = doc" using pt Some by (simp add: str_at_Some set_leaf_same)
    with pt Some Cons.IH[OF d1(2), of ch] Cons.IH[OF d1(2), of True] show ?thesis
      by (auto simp: str_at_Some)
  qed
qed simp

lemma str_at_same:
  assumes "same_doc d d'"
  shows "str_at d p = str_at d' p"
proof -
  have "walkPath d p = Some (AStr s) \<longleftrightarrow> walkPath d' p = Some (AStr s)" for s
    using walk_same[OF assms, of p] by (cases rule: option.rel_cases) (auto dest: same_shape)
  then show ?thesis by (metis str_at_Some option.exhaust)
qed

lemma strips_same:
  "same_doc d d' \<Longrightarrow> strips e t fs d = Some x \<Longrightarrow> \<exists>x'. strips e t fs d' = Some x' \<and> same_doc x x'"
proof (induction fs arbitrary: d d')
  case (Cons f fs)
  then obtain d1 where d1: "strip e t f d = Some d1" "strips e t fs d1 = Some x" by (auto split: bind_splits)
  have "\<exists>d1'. strip e t f d' = Some d1' \<and> same_doc d1 d1'"
    using d1(1) Cons.prems(1) set_leaf_same_doc[OF Cons.prems(1) same_leaf]
    by (auto simp: strip_def str_at_same[OF Cons.prems(1), symmetric] split: option.splits)
  with Cons.IH d1(2) show ?case by fastforce
qed simp

lemma strips_encodable: "strips e t fs d = Some x \<Longrightarrow> encodable (AMap d) \<Longrightarrow> encodable (AMap x)"
proof (induction fs arbitrary: d)
  case (Cons f fs)
  then obtain d1 where d1: "strip e t f d = Some d1" "strips e t fs d1 = Some x" by (auto split: bind_splits)
  have "encodable (AMap d1)"
    using d1(1) Cons.prems(2) encodable_set_leaf[of d "AStr u" "PathSegments f" for u]
    by (auto simp: strip_def simp del: encodable.simps(6) split: option.splits)
  with Cons.IH d1(2) show ?case by blast
qed simp

lemma encrypt_changed: "encrypt_loop e t n fs doc True = Inr (doc', ch') \<Longrightarrow> ch'"
  by (induction fs arbitrary: n doc) (auto split: option.splits any.splits)

lemma encrypt_unchanged:
  "encrypt_loop e t n fs doc False = Inr (doc', False) \<Longrightarrow> doc' = doc \<and> (\<forall>f \<in> set fs. str_at doc (PathSegments f) = None)"
proof (induction fs arbitrary: n)
  case (Cons f fs)
  then have "str_at doc (PathSegments f) = None \<and> encrypt_loop e t n fs doc False = Inr (doc', False)"
    by (auto simp: str_at_def dest: encrypt_changed split: option.splits any.splits)
  with Cons.IH show ?case by auto
qed simp

lemma encrypt_doc_ok: "encrypt_loop e t n fs doc ch = Inr (doc', ch') \<Longrightarrow> doc_ok doc \<Longrightarrow> doc_ok doc'"
proof (induction fs arbitrary: n doc ch)
  case (Cons f fs)
  then show ?case using doc_ok_set_leaf[of doc "AStr u" for u]
    by (auto split: option.splits any.splits)
qed simp

lemma decrypt_idle:
  "\<forall>f \<in> set fs. str_at doc (PathSegments f) = None \<Longrightarrow> decrypt_loop e t fs doc ch = Inr (doc, ch)"
  by (induction fs) (auto simp: str_at_def split: option.splits any.splits)

text \<open>Two raw messages with the same payload; \<open>jt\<close> never renders a JSON value as the empty text.\<close>

definition same_payload :: "raw_message \<Rightarrow> raw_message \<Rightarrow> bool" where
  "same_payload r r' \<longleftrightarrow> (\<exists>d d'. payload_of r = Some d \<and> payload_of r' = Some d' \<and> same_doc d d')"

definition text_law :: "(json \<Rightarrow> string) \<Rightarrow> bool" where
  "text_law jt \<longleftrightarrow> (\<forall>j. jt j \<noteq> [])"

lemma payload_ok: "payload_of r = Some d \<Longrightarrow> doc_ok d"
  by (auto simp: payload_of_def unmarshal_object_def doc_ok_def maps_ok.simps(2)[of "[]"] simp del: maps_ok.simps(2) dest: unmarshal_maps_ok(1)
      split: if_splits bind_splits option.splits any.splits)

lemma payload_marshal:
  assumes "text_law jt" "doc_ok d" "marshal_doc jt d = Some r"
  shows "payload_of r = Some d"
proof -
  obtain j where j: "marshal_any (AMap d) = Some j" "r = raw_of jt j"
    using assms(3) by (auto simp: marshal_doc_def)
  have "unmarshal_any j = Some (AMap d)" using unmarshal_marshal(1)[OF j(1)] assms(2) by (simp add: doc_ok_def)
  moreover have "j \<noteq> JNull" using j(1) by auto
  ultimately show ?thesis using assms(1) j(2)
    by (simp add: payload_of_def raw_of_def text_law_def unmarshal_object_def)
qed

lemma marshal_doc_encodable: "marshal_doc jt d \<noteq> None \<longleftrightarrow> encodable (AMap d)"
  using marshal_encodable(1)[of "AMap d"] by (simp add: marshal_doc_def del: encodable.simps)

text \<open>
  What the record store relies on in its encryptor; \<open>lawful\<close> is the condition under which the provider
  promises it (the laws of the ciphers it uses, the soundness of its key cache).
\<close>

locale field_cipher =
  fixes e :: fieldEncryptor and lawful :: bool
  assumes decrypt_encrypt: "lawful \<Longrightarrow> fe_encrypt e n t p = Some c \<Longrightarrow> fe_decrypt e t c = Some p"
begin

lemma strips_encrypt:
  "lawful \<Longrightarrow> encrypt_loop e t n fs doc ch = Inr (doc', ch') \<Longrightarrow> strips e t fs doc' = Some doc"
proof (induction fs arbitrary: n doc ch)
  case (Cons f fs)
  let ?p = "PathSegments f"
  have skip: ?case if "encrypt_loop e t n fs doc ch = Inr (doc', ch')" "str_at doc ?p = None"
  proof -
    have "strip e t f doc = Some doc" using that(2) by (simp add: strip_def)
    from strips_commute[OF Cons.IH[OF Cons.prems(1) that(1)] this] show ?thesis by auto
  qed
  show ?case
  proof (cases "walkPath doc ?p")
    case None
    with Cons.prems skip show ?thesis by (simp add: str_at_def)
  next
    case (Some v)
    show ?thesis
    proof (cases "str_at doc ?p")
      case None
      with Some Cons.prems skip show ?thesis by (cases v) (auto simp: str_at_def)
    next
      case str: (Some s)
      then obtain ct where ct: "fe_encrypt e n t s = Some ct"
        and rest: "encrypt_loop e t (Suc n) fs (set_leaf doc ?p (AStr ct)) True = Inr (doc', ch')"
        using Cons.prems by (auto simp: str_at_Some split: option.splits)
      have w: "walkPath doc ?p = Some (AStr s)" using str by (simp add: str_at_Some)
      then have "strip e t f (set_leaf doc ?p (AStr ct)) = Some doc"
        using decrypt_encrypt[OF Cons.prems(1) ct] by (simp add: strip_def str_at_def walk_set_same set_leaf_twice set_leaf_same)
      from strips_commute[OF Cons.IH[OF Cons.prems(1) rest] this] show ?thesis by auto
    qed
  qed
qed simp

lemma decrypt_stored:
  assumes law: "lawful" and jt: "text_law jt" and enc: "encryptFields jt (Some e) n t sch data = Inr data'"
    and st: "same_payload data' stored"
  shows "\<exists>out. decryptRecordWith jt (Some e) t sch stored = Inr out \<and> same_payload data out"
proof -
  obtain fs where fs: "sensitiveFields sch = Inr fs" using enc by (auto simp: encryptFields_def rbind_eq_Inr)
  obtain d1 d2 where d: "payload_of data' = Some d1" "payload_of stored = Some d2" "same_doc d1 d2"
    using st by (auto simp: same_payload_def)
  show ?thesis
  proof (cases "fs = []")
    case True
    with fs enc st show ?thesis by (auto simp: encryptFields_def decryptRecordWith_def)
  next
    case False
    with fs enc obtain doc doc' ch where doc: "payload_of data = Some doc"
      and loop: "encrypt_loop e t n fs doc False = Inr (doc', ch)"
      and out: "if ch then marshal_doc jt doc' = Some data' else data' = data"
      by (auto simp: encryptFields_def unmarshalData_def rbind_eq_Inr split: option.splits if_splits)
    have un: "unmarshalData stored = Inr d2" using d by (simp add: unmarshalData_def)
    show ?thesis
    proof (cases ch)
      case False
      then have "doc' = doc" and none: "\<forall>f \<in> set fs. str_at doc (PathSegments f) = None"
        using encrypt_unchanged loop by auto
      have "data' = data" using out False by simp
      then have "same_doc doc d2" using d doc by simp
      then have "decrypt_loop e t fs d2 False = Inr (d2, False)" using decrypt_idle none str_at_same by metis
      with fs un st \<open>fs \<noteq> []\<close> \<open>data' = data\<close> show ?thesis by (simp add: decryptRecordWith_def)
    next
      case True
      then have m: "marshal_doc jt doc' = Some data'" using out by simp
      have "strips e t fs doc' = Some doc" by (rule strips_encrypt[OF law loop])
      moreover have enc': "encodable (AMap doc')" using m marshal_doc_encodable by (metis option.simps(3))
      ultimately have encdoc: "encodable (AMap doc)" using strips_encodable by blast
      have "doc_ok doc'" using encrypt_doc_ok[OF loop] payload_ok[OF doc] by blast
      then have "d1 = doc'" using payload_marshal[OF jt _ m] d(1) by simp
      then obtain x where x: "strips e t fs d2 = Some x" "same_doc doc x"
        using strips_same[OF d(3)] \<open>strips e t fs doc' = Some doc\<close> by blast
      obtain c where c: "decrypt_loop e t fs d2 False = Inr (x, c)" "\<not> c \<longrightarrow> x = d2"
        using decrypt_loop_strips[OF x(1)] by blast
      have "encodable (AMap x)" using same_encodable x(2) encdoc unfolding same_doc_def by blast
      then obtain r where r: "marshal_doc jt x = Some r" using marshal_doc_encodable by blast
      have "payload_of r = Some x" using payload_marshal[OF jt _ r] same_doc_ok[OF x(2)] by blast
      with fs un c r d doc x \<open>fs \<noteq> []\<close> show ?thesis
        by (cases c) (auto simp: decryptRecordWith_def same_payload_def)
    qed
  qed
qed

end


section \<open>Redaction forgets the values\<close>

lemma set_leaf_prefix:
  "prefix q p \<Longrightarrow> q \<noteq> [] \<Longrightarrow> walkPath d p = Some u \<Longrightarrow> set_leaf (set_leaf d p v) q w = set_leaf d q w"
proof (induction p arbitrary: d q)
  case (Cons s r)
  then obtain r' where "q = s # r'" "prefix r' r" by (cases q) auto
  with Cons show ?case
    by (cases "r' = []") (auto simp: walk_Cons set_leaf_Cons map_of_update split: if_splits bind_splits)
qed simp

lemma set_leaf_disjoint:
  "\<not> prefix q p \<Longrightarrow> \<not> prefix p q \<Longrightarrow> walkPath d p = Some u \<Longrightarrow> walkPath d q = Some w \<Longrightarrow>
   set_leaf (set_leaf d p v) q x = set_leaf (set_leaf d q x) p v"
proof (induction p arbitrary: d q)
  case (Cons s r)
  obtain s' r' where "q = s' # r'" using Cons.prems(1) by (cases q) auto
  with Cons show ?case
    by (cases "s' = s")
      (auto simp: walk_Cons set_leaf_Cons map_of_update update_commute map_of_Some_key split: if_splits bind_splits)
qed simp

lemma walk_set_disjoint:
  "\<not> prefix q p \<Longrightarrow> \<not> prefix p q \<Longrightarrow> walkPath d q = Some w \<Longrightarrow> walkPath (set_leaf d q x) p = walkPath d p"
proof (induction p arbitrary: d q)
  case (Cons s r)
  obtain s' r' where "q = s' # r'" using Cons.prems(1) by (cases q) auto
  with Cons show ?case
    by (cases "s' = s") (auto simp: walk_Cons set_leaf_Cons map_of_update split: if_splits bind_splits)
qed simp

lemma walk_below_leaf: "walkPath d p = Some u \<Longrightarrow> leafy u \<Longrightarrow> prefix p q \<Longrightarrow> p \<noteq> q \<Longrightarrow> walkPath d q = None"
proof (induction p arbitrary: d q)
  case (Cons s r)
  then obtain r' where "q = s # r'" "prefix r r'" by (cases q) auto
  with Cons show ?case by (auto simp: walk_Cons split: if_splits bind_splits)
qed auto

lemma walk_set_below: "prefix q p \<Longrightarrow> q \<noteq> p \<Longrightarrow> q \<noteq> [] \<Longrightarrow> leafy x \<Longrightarrow> walkPath d q = Some w \<Longrightarrow> walkPath (set_leaf d q x) p = None"
  by (rule walk_below_leaf[where u = x]) (auto simp: walk_set_same)

lemma redact_loop_forgets:
  "leaf_at d p = Some u \<Longrightarrow> leafy v \<Longrightarrow> p \<in> PathSegments ` set fs \<Longrightarrow>
   redact_loop fs (set_leaf d p v) acc = redact_loop fs d acc"
proof (induction fs arbitrary: d acc)
  case (Cons g fs)
  let ?q = "PathSegments g" and ?x = "AStr redactedPlaceholder"
  have p: "walkPath d p = Some u" "leafy u" using Cons.prems(1) by (auto simp: leaf_at_Some)
  have pres: "walkPath (set_leaf d p v) ?q = None \<longleftrightarrow> walkPath d ?q = None"
    by (rule walk_set_present[OF Cons.prems(1,2)])
  show ?case
  proof (cases "walkPath d ?q")
    case None
    with p(1) have "p \<noteq> ?q" by auto
    with Cons.prems(3) have "p \<in> PathSegments ` set fs" by auto
    from Cons.IH[OF Cons.prems(1,2) this] None pres show ?thesis by simp
  next
    case (Some w)
    then obtain w' where w': "walkPath (set_leaf d p v) ?q = Some w'" using pres by auto
    show ?thesis
    proof (cases "prefix ?q p")
      case True
      have "?q \<noteq> []" using Some by auto
      with True p(1) Some w' show ?thesis by (simp add: set_leaf_prefix)
    next
      case False
      then have "p \<noteq> ?q" by auto
      have "\<not> prefix p ?q" using walk_below_leaf[OF p] \<open>p \<noteq> ?q\<close> Some by auto
      note dis = set_leaf_disjoint[OF False this p(1) Some] walk_set_disjoint[OF False this Some]
      have "p \<in> PathSegments ` set fs" using \<open>p \<noteq> ?q\<close> Cons.prems(3) by auto
      moreover have "leaf_at (set_leaf d ?q ?x) p = Some u" using dis(2) p by (simp add: leaf_at_Some)
      ultimately show ?thesis using Cons.IH Cons.prems(2) Some w' dis(1) by simp
    qed
  qed
qed simp

lemma walk_above:
  "walkPath d q = Some w \<Longrightarrow> prefix p q \<Longrightarrow> p \<noteq> q \<Longrightarrow> p \<noteq> [] \<Longrightarrow> \<exists>m. walkPath d p = Some (AMap m)"
proof (induction p arbitrary: d q)
  case (Cons s r)
  then obtain r' where "q = s # r'" "prefix r r'" "r \<noteq> r'" by (cases q) auto
  with Cons show ?case by (cases "r = []") (auto simp: walk_Cons split: if_splits bind_splits)
qed simp

lemma redact_loop_all:
  "redact_loop fs d acc = (d', acc') \<Longrightarrow> p \<in> PathSegments ` set fs \<or> walkPath d p \<in> {None, Some (AStr redactedPlaceholder)} \<Longrightarrow>
   walkPath d' p \<in> {None, Some (AStr redactedPlaceholder)}"
proof (induction fs arbitrary: d acc)
  case (Cons g fs)
  let ?q = "PathSegments g" and ?x = "AStr redactedPlaceholder"
  show ?case
  proof (cases "walkPath d ?q")
    case None
    with Cons show ?thesis by auto
  next
    case (Some w)
    have "walkPath (set_leaf d ?q ?x) p \<in> {None, Some ?x}" if "walkPath d p \<in> {None, Some ?x} \<or> p = ?q"
    proof (cases "p = ?q")
      case False
      have "?q \<noteq> []" using Some by auto
      consider "prefix ?q p" | "prefix p ?q" "\<not> prefix ?q p" | "\<not> prefix ?q p" "\<not> prefix p ?q" by blast
      then show ?thesis
      proof cases
        case 1
        then show ?thesis using walk_set_below[OF 1 _ \<open>?q \<noteq> []\<close> _ Some] False by auto
      next
        case 2
        then have "p = [] \<or> (\<exists>m. walkPath d p = Some (AMap m))" using walk_above[OF Some] False by auto
        with that False show ?thesis by auto
      next
        case 3
        then show ?thesis using walk_set_disjoint[OF 3 Some] that False by auto
      qed
    qed (simp add: walk_set_same[OF Some])
    with Cons Some show ?thesis by auto
  qed
qed auto

lemma redact_loop_acc: "redact_loop fs d acc = (d', acc') \<Longrightarrow> prefix acc acc'"
  by (induction fs arbitrary: d acc) (fastforce split: option.splits dest: append_prefixD)+

lemma redact_loop_hits:
  "redact_loop fs d acc = (d', acc') \<Longrightarrow> f \<in> set fs \<Longrightarrow> walkPath d (PathSegments f) \<noteq> None \<Longrightarrow> acc' \<noteq> []"
proof (induction fs arbitrary: d acc)
  case (Cons g fs)
  show ?case
  proof (cases "walkPath d (PathSegments g)")
    case None
    with Cons.prems have "redact_loop fs d acc = (d', acc')" "f \<in> set fs" by auto
    with Cons.IH Cons.prems(3) show ?thesis by blast
  qed (use Cons.prems in \<open>auto dest!: redact_loop_acc\<close>)
qed simp

lemma redact_loop_encodable:
  "redact_loop fs d acc = (d', acc') \<Longrightarrow> encodable (AMap d) \<Longrightarrow> doc_ok d \<Longrightarrow> encodable (AMap d') \<and> doc_ok d'"
proof (induction fs arbitrary: d acc)
  case (Cons g fs)
  then show ?case
    using encodable_set_leaf[OF Cons.prems(2), of "AStr redactedPlaceholder" "PathSegments g"]
      doc_ok_set_leaf[OF Cons.prems(3), of "AStr redactedPlaceholder" "PathSegments g"]
    by (auto simp del: encodable.simps(6) split: option.splits)
qed (simp del: encodable.simps)

lemma walk_empty [simp]: "walkPath [] p = None"
  by (cases p) (simp_all add: walk_Cons)

definition marked :: "string list \<Rightarrow> document \<Rightarrow> document" where
  "marked names d = AList.update redactedMarkerKey (AList (map AStr (sort names))) d"

lemma marked_ok: "encodable (AMap d) \<Longrightarrow> doc_ok d \<Longrightarrow> encodable (AMap (marked ns d)) \<and> doc_ok (marked ns d)"
  using encodable_set_leaf[of d "AList (map AStr (sort ns))" "[redactedMarkerKey]"]
    doc_ok_set_leaf[of d "AList (map AStr (sort ns))" "[redactedMarkerKey]"]
  by (auto simp: marked_def set_leaf_Cons simp del: encodable.simps(6))

lemma RedactData_present:
  assumes "sensitiveFields sch = Inr fs" "f \<in> set fs" "payload_of data = Some d" "raw_text data \<noteq> []"
    and "walkPath d (PathSegments f) \<noteq> None" "encodable (AMap d)" "redact_loop fs d [] = (d', names)"
  obtains r where "marshal_doc jt (marked names d') = Some r" "RedactData jt sch data = r"
proof -
  have "names \<noteq> []" using redact_loop_hits assms by blast
  have ok: "encodable (AMap (marked names d'))"
    using marked_ok redact_loop_encodable[OF assms(7,6)] payload_ok[OF assms(3)] by blast
  then obtain r where r: "marshal_doc jt (marked names d') = Some r" using marshal_doc_encodable by blast
  obtain j where j: "raw_json data = Some j" "unmarshal_object j = Some d"
    using assms(3,4) by (auto simp: payload_of_def split: bind_splits)
  have "j \<noteq> JNull" using j(2) assms(5) by (auto simp: unmarshal_object_def)
  moreover have "fs \<noteq> []" using assms(2) by auto
  ultimately have "RedactData jt sch data = r"
    using assms(1,4,7) j r \<open>names \<noteq> []\<close> by (simp add: RedactData_def marked_def)
  with r that show ?thesis by blast
qed


section \<open>Field permissions\<close>

lemma fold_delete_walk:
  "p \<in> set ps \<or> walkPath d p = None \<Longrightarrow> walkPath (fold (\<lambda>p d. delete_leaf d p) ps d) p = None"
  by (induction ps arbitrary: d) (auto simp: walk_delete walk_delete_mono)

lemma fold_delete_leaf_at:
  "\<forall>p \<in> set ps. \<not> prefix p q \<Longrightarrow> leaf_at (fold (\<lambda>p d. delete_leaf d p) ps d) q = leaf_at d q"
  by (induction ps arbitrary: d) (auto simp: leaf_at_delete)

lemma fold_delete_ok:
  "doc_ok d \<Longrightarrow> doc_ok (fold (\<lambda>p d. delete_leaf d p) ps d)"
  by (induction ps arbitrary: d) (auto simp: doc_ok_delete_leaf)

lemma encodable_delete_leaf: "encodable (AMap doc) \<Longrightarrow> encodable (AMap (delete_leaf doc p))"
proof (induction p arbitrary: doc)
  case (Cons s r)
  have "encodable (AMap (AList.delete s doc))" using Cons.prems by (auto simp: AList.delete_eq)
  moreover have "encodable (AMap (AList.update s (AMap (delete_leaf m r)) doc))" if "map_of doc s = Some (AMap m)" for m
  proof -
    have "encodable (AMap m)" using Cons.prems map_of_SomeD[OF that] by fastforce
    then have "encodable (AMap (delete_leaf m r))" by (rule Cons.IH)
    with Cons.prems set_update[of s "AMap (delete_leaf m r)" doc] show ?thesis by fastforce
  qed
  ultimately show ?case using Cons.prems
    by (auto simp: delete_leaf_Cons simp del: encodable.simps split: option.splits bind_splits)
qed simp

lemma fold_delete_encodable:
  "encodable (AMap d) \<Longrightarrow> encodable (AMap (fold (\<lambda>p d. delete_leaf d p) ps d))"
  by (induction ps arbitrary: d) (auto simp: encodable_delete_leaf simp del: encodable.simps)

definition hidden_paths :: "raw_message \<Rightarrow> string list \<Rightarrow> string list list" where
  "hidden_paths sch roles = map (rule_path sch \<circ> fst) (hidden_rules sch roles)"

lemma FilterFields_payload:
  assumes "text_law jt" "payload_of data = Some d" "raw_text data \<noteq> []" "raw_text sch \<noteq> []" "encodable (AMap d)"
  shows "payload_of (FilterFields jt data sch roles) = Some (fold (\<lambda>p d. delete_leaf d p) (hidden_paths sch roles) d)"
proof -
  let ?d = "fold (\<lambda>p d. delete_leaf d p) (hidden_paths sch roles) d"
  have fold_eq: "fold (\<lambda>(field, rule) d. delete_leaf d (rule_path sch field)) rs d = fold (\<lambda>p d. delete_leaf d p) (map (rule_path sch \<circ> fst) rs) d" for rs d
    by (induction rs arbitrary: d) auto
  obtain j where j: "raw_json data = Some j" "unmarshal_object j = Some d"
    using assms(2,3) by (auto simp: payload_of_def split: bind_splits)
  show ?thesis
  proof (cases "parseFieldPermissions sch = [] \<or> j = JNull")
    case True
    moreover have "fold (\<lambda>p d. delete_leaf d p) ps [] = []" for ps
    proof (induction ps)
      case (Cons p ps)
      then show ?case by (cases p) (auto simp: delete_leaf_Cons)
    qed simp
    ultimately show ?thesis using assms j
      by (auto simp: FilterFields_def hidden_paths_def hidden_rules_def unmarshal_object_def payload_of_def raw_of_def text_law_def)
  next
    case False
    obtain r where r: "marshal_doc jt ?d = Some r"
      using marshal_doc_encodable fold_delete_encodable[OF assms(5)] by blast
    have "payload_of r = Some ?d" by (rule payload_marshal[OF assms(1) fold_delete_ok[OF payload_ok[OF assms(2)]] r])
    with False r assms j show ?thesis by (auto simp: FilterFields_def hidden_paths_def fold_eq)
  qed
qed


section \<open>Merging\<close>

lemma map_of_merge:
  "distinct (map fst p) \<Longrightarrow> map_of (merge_docs b p) k = (case map_of p k of Some v \<Rightarrow> Some v | None \<Rightarrow> map_of b k)"
proof (induction p arbitrary: b)
  case (Cons kv p)
  then show ?case
    by (cases kv) (auto simp: merge_docs_def map_of_update map_of_eq_None_iff[symmetric] split: option.splits)
qed (simp add: merge_docs_def)

lemma doc_ok_merge: "doc_ok b \<Longrightarrow> doc_ok p \<Longrightarrow> doc_ok (merge_docs b p)"
proof (induction p arbitrary: b)
  case (Cons kv p)
  have "maps_ok (snd kv)" "doc_ok p" using Cons.prems(2) by (auto simp: doc_ok_def)
  with Cons.IH doc_ok_update[OF Cons.prems(1)] show ?case by (cases kv) (auto simp: merge_docs_def)
qed (simp add: merge_docs_def)

lemma mergeJSON_payload:
  assumes "text_law jt" "payload_of base = Some b" "payload_of patch = Some p" "mergeJSON jt base patch = Inr out"
  obtains m where "payload_of out = Some m" "\<forall>k. map_of m k = (case map_of p k of Some v \<Rightarrow> Some v | None \<Rightarrow> map_of b k)"
proof (cases "raw_text patch = []")
  case True
  then have "p = []" "payload_of out = Some b"
    using assms by (auto simp: payload_of_def mergeJSON_def unmarshal_object_def split: if_splits)
  with that[of b] show ?thesis by simp
next
  case False
  then have "marshal_doc jt (merge_docs b p) = Some out"
    using assms by (auto simp: payload_of_def mergeJSON_def unmarshal_object_def Let_def split: if_splits option.splits)
  moreover have ok: "doc_ok b" "doc_ok p" using payload_ok assms by auto
  ultimately have "payload_of out = Some (merge_docs b p)" using payload_marshal[OF assms(1)] doc_ok_merge by blast
  with that map_of_merge ok(2) show ?thesis by (auto simp: doc_ok_def)
qed


section \<open>Examples\<close>

definition jtext :: "json \<Rightarrow> string" where
  "jtext j = ''json''"

lemma text_law_jtext: "text_law jtext"
  by (simp add: text_law_def jtext_def)

definition iban_employee :: "string \<Rightarrow> raw_message" where
  "iban_employee iban = as_raw (JObj
     [(''code'', JStr ''E1''), (''bank'', JObj [(''name'', JStr ''B''), (''iban'', JStr iban)])])"

text \<open>The iban is readable and writable by administrators only.\<close>

definition guarded_schema :: raw_message where
  "guarded_schema = as_raw (JObj
     [(''fields'', JArr [JObj [(''name'', JStr ''iban''), (''type'', JStr ''string''), (''path'', JStr ''bank.iban'')]]),
      (''field_permissions'', JObj
        [(''iban'', JObj [(''read'', JArr [JStr ''hr.admin'']), (''write'', JArr [JStr ''hr.admin''])])])])"

definition iban_field :: fieldSpec where
  "iban_field =
     zero_field\<lparr>f_name := ''iban'', f_type := ''string'', f_classification := ''secret'', f_path := ''bank.iban'',
                f_indexed := True\<rparr>"


section \<open>Properties\<close>

lemma redaction_forgets_facts:
  assumes "text_law jt" "sensitiveFields sch = Inr fs" "f \<in> set fs"
    and "payload_of data = Some d" "raw_text data \<noteq> []" "encodable (AMap d)"
    and "payload_of data' = Some (set_leaf d (PathSegments f) v)" "raw_text data' \<noteq> []" "encodable v"
    and "leaf_at d (PathSegments f) = Some u" "leafy v"
  shows "RedactData jt sch data' = RedactData jt sch data"
    and "\<exists>d'. payload_of (RedactData jt sch data) = Some d'
           \<and> (\<forall>g \<in> set fs. PathSegments g \<noteq> [redactedMarkerKey] \<longrightarrow>
                walkPath d' (PathSegments g) \<in> {None, Some (AStr redactedPlaceholder)})"
proof -
  let ?p = "PathSegments f"
  obtain d1 names where loop: "redact_loop fs d [] = (d1, names)" by fastforce
  have "?p \<in> PathSegments ` set fs" using assms(3) by simp
  with loop have loop': "redact_loop fs (set_leaf d ?p v) [] = (d1, names)"
    using redact_loop_forgets[OF assms(10,11)] by simp
  have w: "walkPath d ?p = Some u" using assms(10) by (simp add: leaf_at_Some)
  obtain r where r: "marshal_doc jt (marked names d1) = Some r" "RedactData jt sch data = r"
    by (rule RedactData_present[OF assms(2-5) _ assms(6) loop, of jt]) (use w in auto)
  obtain r' where r': "marshal_doc jt (marked names d1) = Some r'" "RedactData jt sch data' = r'"
    by (rule RedactData_present[OF assms(2,3,7,8) _ encodable_set_leaf[OF assms(6,9)] loop', of jt])
      (use walk_set_same[OF w] in auto)
  from r r' show "RedactData jt sch data' = RedactData jt sch data" by simp
  have "doc_ok (marked names d1)"
    using marked_ok redact_loop_encodable[OF loop assms(6) payload_ok[OF assms(4)]] by blast
  then have "payload_of r = Some (marked names d1)" using payload_marshal[OF assms(1)] r(1) by blast
  moreover have "walkPath (marked names d1) (PathSegments g) \<in> {None, Some (AStr redactedPlaceholder)}"
    if g: "g \<in> set fs" "PathSegments g \<noteq> [redactedMarkerKey]" for g
  proof -
    have "walkPath d1 (PathSegments g) \<in> {None, Some (AStr redactedPlaceholder)}"
      using redact_loop_all[OF loop, of "PathSegments g"] g(1) by blast
    with g(2) show ?thesis
      by (cases "PathSegments g") (auto simp: marked_def walk_Cons map_of_update enter_def)
  qed
  ultimately show "\<exists>d'. payload_of (RedactData jt sch data) = Some d'
           \<and> (\<forall>g \<in> set fs. PathSegments g \<noteq> [redactedMarkerKey] \<longrightarrow>
                walkPath d' (PathSegments g) \<in> {None, Some (AStr redactedPlaceholder)})"
    using r(2) by blast
qed



text \<open>
  A reader sees exactly what the field permissions leave. After \<open>FilterFields\<close> the path of every field
  with a read list that names none of the reader's roles is absent, and every other value (that is no
  object and does not lie below such a path) is the one of the payload.
\<close>

theorem filter_hides:
  assumes "text_law jt" "payload_of data = Some d" "raw_text data \<noteq> []" "raw_text sch \<noteq> []" "encodable (AMap d)"
  shows "\<exists>d'. payload_of (FilterFields jt data sch roles) = Some d'
     \<and> (\<forall>(field, rule) \<in> set (parseFieldPermissions sch).
          fr_read rule \<noteq> [] \<and> set (fr_read rule) \<inter> set roles = {} \<longrightarrow> walkPath d' (rule_path sch field) = None)
     \<and> (\<forall>q. (\<forall>(field, rule) \<in> set (parseFieldPermissions sch).
              fr_read rule \<noteq> [] \<and> set (fr_read rule) \<inter> set roles = {} \<longrightarrow> \<not> prefix (rule_path sch field) q) \<longrightarrow>
            leaf_at d' q = leaf_at d q)"
proof -
  let ?d = "fold (\<lambda>p d. delete_leaf d p) (hidden_paths sch roles) d"
  have hidden: "p \<in> set (hidden_paths sch roles) \<longleftrightarrow>
      (\<exists>(field, rule) \<in> set (parseFieldPermissions sch).
         fr_read rule \<noteq> [] \<and> set (fr_read rule) \<inter> set roles = {} \<and> p = rule_path sch field)" for p
  proof -
    have "roleSetMatchesAny roles want \<longleftrightarrow> set want \<inter> set roles \<noteq> {}" for want
      by (auto simp: roleSetMatchesAny_def list_ex_iff)
    then show ?thesis by (auto simp: hidden_paths_def hidden_rules_def image_iff)
  qed
  have "payload_of (FilterFields jt data sch roles) = Some ?d" by (rule FilterFields_payload[OF assms])
  moreover have "\<forall>(field, rule) \<in> set (parseFieldPermissions sch).
          fr_read rule \<noteq> [] \<and> set (fr_read rule) \<inter> set roles = {} \<longrightarrow> walkPath ?d (rule_path sch field) = None"
    using hidden fold_delete_walk by fastforce
  moreover have "leaf_at ?d q = leaf_at d q" if "\<forall>(field, rule) \<in> set (parseFieldPermissions sch).
              fr_read rule \<noteq> [] \<and> set (fr_read rule) \<inter> set roles = {} \<longrightarrow> \<not> prefix (rule_path sch field) q" for q
    by (rule fold_delete_leaf_at) (use hidden that in fastforce)
  ultimately show ?thesis by blast
qed

theorem filter_hides_witness:
  "\<exists>d'. payload_of (FilterFields jtext (iban_employee ''DE1'') guarded_schema [''clerk'']) = Some d'
     \<and> walkPath d' [''bank'', ''iban''] = None \<and> leaf_at d' [''bank'', ''name''] = Some (AStr ''B'')"
proof -
  let ?d = "[(''code'', AStr ''E1''), (''bank'', AMap [(''name'', AStr ''B''), (''iban'', AStr ''DE1'')])]"
  have d: "payload_of (iban_employee ''DE1'') = Some ?d" by code_simp
  have p: "parseFieldPermissions guarded_schema = [(''iban'', \<lparr>fr_read = [''hr.admin''], fr_write = [''hr.admin'']\<rparr>)]"
    by code_simp
  have rp: "rule_path guarded_schema ''iban'' = [''bank'', ''iban'']" by code_simp
  have l: "leaf_at ?d [''bank'', ''name''] = Some (AStr ''B'')" by code_simp
  show ?thesis
    using filter_hides[OF text_law_jtext d, of guarded_schema "[''clerk'']"] p rp l
    by (auto simp: iban_employee_def guarded_schema_def as_raw_def)
qed

text \<open>
  The write protection of a nested field does not protect it. \<open>FieldsForbiddenForWrite\<close> looks for the
  field at its path in the patch, but a patch is merged at the top level only: a patch that sets the
  first segment of the path to null names no protected field (unless that segment is itself protected),
  and after merging it the field is gone.
\<close>

theorem nested_write_protection_bypassed:
  assumes "text_law jt" "rule_path sch field = seg # rest" "rest \<noteq> []"
    and "\<forall>(fd, rule) \<in> set (parseFieldPermissions sch). rule_path sch fd \<noteq> [seg]"
    and "payload_of base = Some b" "mergeJSON jt base (raw_of jt (JObj [(seg, JNull)])) = Inr out"
  shows "FieldsForbiddenForWrite (raw_of jt (JObj [(seg, JNull)])) sch roles = []"
    and "\<exists>m. payload_of out = Some m \<and> walkPath m (rule_path sch field) = None
           \<and> (\<forall>k. k \<noteq> seg \<longrightarrow> map_of m k = map_of b k)"
proof -
  let ?patch = "raw_of jt (JObj [(seg, JNull)])"
  have p: "payload_of ?patch = Some [(seg, ANil)]"
    using assms(1) by (simp add: payload_of_def raw_of_def text_law_def unmarshal_object_def)
  have "walkPath [(seg, ANil)] q = None" if "q \<noteq> [seg]" for q
    using that by (cases q) (auto simp: walk_Cons enter_def)
  with assms(4) show "FieldsForbiddenForWrite ?patch sch roles = []"
    using assms(1) by (auto simp: FieldsForbiddenForWrite_def raw_of_def unmarshal_object_def filter_empty_conv)
  obtain m where m: "payload_of out = Some m"
    "\<forall>k. map_of m k = (case map_of [(seg, ANil)] k of Some v \<Rightarrow> Some v | None \<Rightarrow> map_of b k)"
    by (rule mergeJSON_payload[OF assms(1,5) p assms(6)])
  then have "map_of m seg = Some ANil" by simp
  then have "walkPath m (rule_path sch field) = None" using assms(2,3) by (simp add: walk_Cons enter_def)
  with m show "\<exists>m. payload_of out = Some m \<and> walkPath m (rule_path sch field) = None
           \<and> (\<forall>k. k \<noteq> seg \<longrightarrow> map_of m k = map_of b k)" by auto
qed

theorem nested_write_protection_bypassed_witness:
  "\<exists>out m. FieldsForbiddenForWrite (raw_of jtext (JObj [(''bank'', JNull)])) guarded_schema [''clerk''] = []
     \<and> mergeJSON jtext (iban_employee ''DE1'') (raw_of jtext (JObj [(''bank'', JNull)])) = Inr out
     \<and> payload_of out = Some m \<and> walkPath m [''bank'', ''iban''] = None
     \<and> FieldsForbiddenForWrite (iban_employee ''X'') guarded_schema [''clerk''] = [''iban'']"
proof -
  have rp: "rule_path guarded_schema ''iban'' = [''bank'', ''iban'']" by code_simp
  have np: "\<forall>(fd, rule) \<in> set (parseFieldPermissions guarded_schema). rule_path guarded_schema fd \<noteq> [''bank'']" by code_simp
  have "isl (mergeJSON jtext (iban_employee ''DE1'') (raw_of jtext (JObj [(''bank'', JNull)]))) = False" by code_simp
  then obtain out where out: "mergeJSON jtext (iban_employee ''DE1'') (raw_of jtext (JObj [(''bank'', JNull)])) = Inr out"
    by (cases "mergeJSON jtext (iban_employee ''DE1'') (raw_of jtext (JObj [(''bank'', JNull)]))") auto
  have "payload_of (iban_employee ''DE1'') \<noteq> None" by code_simp
  then obtain b where b: "payload_of (iban_employee ''DE1'') = Some b" by auto
  have "FieldsForbiddenForWrite (iban_employee ''X'') guarded_schema [''clerk''] = [''iban'']" by code_simp
  moreover have "FieldsForbiddenForWrite (raw_of jtext (JObj [(''bank'', JNull)])) guarded_schema [''clerk''] = []"
    by (rule nested_write_protection_bypassed(1)[OF text_law_jtext rp _ np b out]) simp
  moreover have "\<exists>m. payload_of out = Some m \<and> walkPath m [''bank'', ''iban''] = None"
    using nested_write_protection_bypassed(2)[OF text_law_jtext rp _ np b out] rp by auto
  ultimately show ?thesis using out by blast
qed

text \<open>
  The diff summary misses a change: two arrays of objects whose members are null under different names
  count as equal.
\<close>

lemma equalJSON_null_members:
  "equalJSON (AMap [(''a'', ANil)]) (AMap [(''b'', ANil)])"
  "changedFields [(''x'', AList [AMap [(''a'', ANil)]])] [(''x'', AList [AMap [(''b'', ANil)]])] = []"
  by code_simp+

end
