(* ===== verification/Tenant_Keys.thy ===== *)
theory Tenant_Keys
  imports Record_Protection
begin

text \<open>
  Per-tenant keys and field encryption (internal/tenant/encryption.go): deriving keys from a master key,
  the key manager with its caches and the retiring master key of a rotation, the envelope of encrypted
  strings, digests for audit entries and blind indexes, and the removal of envelopes from log lines.
  HKDF, AES-GCM, HMAC and base64 are parameters. The caches are state that every call threads; the
  lemmas show that they cannot be observed, that decryption undoes encryption also across a rotation
  of the master key, and that a sanitised log line holds no envelope. The key manager is the provider
  of the interface \<open>field_cipher\<close>.
\<close>

section \<open>External functions\<close>

record crypto_lib =
  hkdf :: "string \<Rightarrow> uuid \<Rightarrow> string \<Rightarrow> string"
  gcm_seal :: "string \<Rightarrow> string \<Rightarrow> string \<Rightarrow> string"
  gcm_open :: "string \<Rightarrow> string \<Rightarrow> string \<Rightarrow> string option"
  hmac :: "string \<Rightarrow> string \<Rightarrow> string"
  b64 :: "string \<Rightarrow> string"
  unb64 :: "string \<Rightarrow> string option"

text \<open>
  Documented behaviour: HKDF yields the 32 bytes that are read, GCM opens what was sealed under the same
  key and nonce and adds a tag of 16 bytes, base64 decodes what it encoded.
\<close>

definition crypto_law :: "crypto_lib \<Rightarrow> bool" where
  "crypto_law C \<longleftrightarrow>
     (\<forall>m t l. length (hkdf C m t l) = 32)
     \<and> (\<forall>k n p. gcm_open C k n (gcm_seal C k n p) = Some p)
     \<and> (\<forall>k n p. length (gcm_seal C k n p) = length p + 16)
     \<and> (\<forall>x. unb64 C (b64 C x) = Some x)"

lemma crypto_lawD:
  assumes "crypto_law C"
  shows "length (hkdf C m t l) = 32" "gcm_open C k n (gcm_seal C k n p) = Some p"
    "length (gcm_seal C k n p) = length p + 16" "unb64 C (b64 C x) = Some x"
  using assms by (auto simp: crypto_law_def)


section \<open>Keys\<close>

datatype key_error = MasterKeyMissing | TenantIDRequired | CipherFailed | BadBase64 | CiphertextTooShort | OpenFailed

definition keySize :: nat where "keySize = 32"
definition infoLabel :: string where "infoLabel = ''kapp.krecord.field.v1''"
definition auditHMACLabel :: string where "auditHMACLabel = ''kapp.audit.hmac.v1''"
definition blindIndexLabel :: string where "blindIndexLabel = ''kapp.blind.index.v1''"
definition ciphertextPrefix :: string where "ciphertextPrefix = ''kapp:enc:v1:''"

text \<open>The master key as read from the environment: base64 when that decodes to enough bytes, else the raw text.\<close>

definition loadKeyFromEnv :: "crypto_lib \<Rightarrow> string \<Rightarrow> key_error + string" where
  "loadKeyFromEnv C raw =
     (if raw = [] then Inl MasterKeyMissing
      else case unb64 C raw of
             Some d \<Rightarrow>
               (if keySize \<le> length d then Inr d
                else if length raw < keySize then Inl MasterKeyMissing else Inr raw)
           | None \<Rightarrow> if length raw < keySize then Inl MasterKeyMissing else Inr raw)"

definition LoadPrevMasterKey :: "crypto_lib \<Rightarrow> string \<Rightarrow> key_error + string option" where
  "LoadPrevMasterKey C raw = (if raw = [] then Inr None else map_sum id Some (loadKeyFromEnv C raw))"

definition DeriveKey :: "crypto_lib \<Rightarrow> string \<Rightarrow> uuid \<Rightarrow> key_error + string" where
  "DeriveKey C master t =
     (if length master < keySize then Inl MasterKeyMissing
      else if t = 0 then Inl TenantIDRequired
      else Inr (hkdf C master t infoLabel))"

record keyCacheEntry =
  ke_key :: string
  ke_expires :: gotime

record keyManager =
  km_master :: string
  km_prev :: "string option"
  km_ttl :: int
  km_entries :: "uuid \<rightharpoonup> keyCacheEntry"
  km_prevEntries :: "uuid \<rightharpoonup> string"
  km_auditEntries :: "uuid \<rightharpoonup> keyCacheEntry"
  km_blindIndexEntries :: "uuid \<rightharpoonup> keyCacheEntry"

definition NewKeyManagerWithPrev :: "string \<Rightarrow> string option \<Rightarrow> int \<Rightarrow> key_error + keyManager" where
  "NewKeyManagerWithPrev master prev keyTTL =
     (if length master < keySize \<or> (\<exists>p. prev = Some p \<and> length p < keySize) then Inl MasterKeyMissing
      else Inr \<lparr>km_master = master, km_prev = prev, km_ttl = keyTTL, km_entries = Map.empty, km_prevEntries = Map.empty,
                km_auditEntries = Map.empty, km_blindIndexEntries = Map.empty\<rparr>)"

definition fresh_entry :: "keyManager \<Rightarrow> gotime \<Rightarrow> uuid \<Rightarrow> (uuid \<rightharpoonup> keyCacheEntry) \<Rightarrow> string option" where
  "fresh_entry km now t entries =
     (case entries t of
        Some en \<Rightarrow> if km_ttl km = 0 \<or> now < ke_expires en then Some (ke_key en) else None
      | None \<Rightarrow> None)"

definition expiry :: "keyManager \<Rightarrow> gotime \<Rightarrow> gotime" where
  "expiry km now = (if km_ttl km > 0 then now + km_ttl km else 0)"

definition Key :: "crypto_lib \<Rightarrow> gotime \<Rightarrow> uuid \<Rightarrow> keyManager \<Rightarrow> (key_error + string) \<times> keyManager" where
  "Key C now t km =
     (case fresh_entry km now t (km_entries km) of
        Some k \<Rightarrow> (Inr k, km)
      | None \<Rightarrow>
          (case DeriveKey C (km_master km) t of
             Inl e \<Rightarrow> (Inl e, km)
           | Inr k \<Rightarrow>
               (Inr k, km\<lparr>km_entries := (km_entries km)(t \<mapsto> \<lparr>ke_key = k, ke_expires = expiry km now\<rparr>)\<rparr>)))"

definition prevKey :: "crypto_lib \<Rightarrow> uuid \<Rightarrow> keyManager \<Rightarrow> (key_error + string option) \<times> keyManager" where
  "prevKey C t km =
     (case km_prev km of
        None \<Rightarrow> (Inr None, km)
      | Some prev \<Rightarrow>
          (case km_prevEntries km t of
             Some k \<Rightarrow> (Inr (Some k), km)
           | None \<Rightarrow>
               (case DeriveKey C prev t of
                  Inl e \<Rightarrow> (Inl e, km)
                | Inr k \<Rightarrow> (Inr (Some k), km\<lparr>km_prevEntries := (km_prevEntries km)(t \<mapsto> k)\<rparr>))))"

definition auditHMACKey :: "crypto_lib \<Rightarrow> gotime \<Rightarrow> uuid \<Rightarrow> keyManager \<Rightarrow> (key_error + string) \<times> keyManager" where
  "auditHMACKey C now t km =
     (case fresh_entry km now t (km_auditEntries km) of
        Some k \<Rightarrow> (Inr k, km)
      | None \<Rightarrow>
          (if length (km_master km) < keySize then (Inl MasterKeyMissing, km)
           else let k = hkdf C (km_master km) t auditHMACLabel
                in (Inr k, km\<lparr>km_auditEntries := (km_auditEntries km)(t \<mapsto> \<lparr>ke_key = k, ke_expires = expiry km now\<rparr>)\<rparr>)))"

definition blindIndexKey :: "crypto_lib \<Rightarrow> gotime \<Rightarrow> uuid \<Rightarrow> keyManager \<Rightarrow> (key_error + string) \<times> keyManager" where
  "blindIndexKey C now t km =
     (case fresh_entry km now t (km_blindIndexEntries km) of
        Some k \<Rightarrow> (Inr k, km)
      | None \<Rightarrow>
          (if length (km_master km) < keySize then (Inl MasterKeyMissing, km)
           else let k = hkdf C (km_master km) t blindIndexLabel
                in (Inr k, km\<lparr>km_blindIndexEntries :=
                                 (km_blindIndexEntries km)(t \<mapsto> \<lparr>ke_key = k, ke_expires = expiry km now\<rparr>)\<rparr>)))"


section \<open>The envelope\<close>

definition aes_key :: "string \<Rightarrow> bool" where
  "aes_key k \<longleftrightarrow> length k \<in> {16, 24, 32}"

definition nonceSize :: nat where "nonceSize = 12"
definition tagSize :: nat where "tagSize = 16"

definition encryptWithKey :: "crypto_lib \<Rightarrow> string \<Rightarrow> string \<Rightarrow> string \<Rightarrow> key_error + string" where
  "encryptWithKey C nonce key plaintext =
     (if aes_key key then Inr (ciphertextPrefix @ b64 C (nonce @ gcm_seal C key nonce plaintext)) else Inl CipherFailed)"

definition trimPrefix :: "string \<Rightarrow> string \<Rightarrow> string" where
  "trimPrefix pre s = (if prefix pre s then drop (length pre) s else s)"

definition decryptWithKey :: "crypto_lib \<Rightarrow> string \<Rightarrow> string \<Rightarrow> key_error + string" where
  "decryptWithKey C key val =
     (case unb64 C (trimPrefix ciphertextPrefix val) of
        None \<Rightarrow> Inl BadBase64
      | Some raw \<Rightarrow>
          (if \<not> aes_key key then Inl CipherFailed
           else if length raw < nonceSize + tagSize then Inl CiphertextTooShort
           else case gcm_open C key (take nonceSize raw) (drop nonceSize raw) of
                  None \<Rightarrow> Inl OpenFailed
                | Some pt \<Rightarrow> Inr pt))"

text \<open>\<open>nonce\<close> is what \<open>rand.Reader\<close> yields in the call.\<close>

definition EncryptString ::
  "crypto_lib \<Rightarrow> gotime \<Rightarrow> string \<Rightarrow> uuid \<Rightarrow> string \<Rightarrow> keyManager \<Rightarrow> (key_error + string) \<times> keyManager" where
  "EncryptString C now nonce t plaintext km =
     (case Key C now t km of
        (Inl e, km') \<Rightarrow> (Inl e, km')
      | (Inr key, km') \<Rightarrow> (encryptWithKey C nonce key plaintext, km'))"

definition DecryptString ::
  "crypto_lib \<Rightarrow> gotime \<Rightarrow> uuid \<Rightarrow> string \<Rightarrow> keyManager \<Rightarrow> (key_error + string) \<times> keyManager" where
  "DecryptString C now t val km =
     (if \<not> prefix ciphertextPrefix val then (Inr val, km)
      else case Key C now t km of
             (Inl e, km') \<Rightarrow> (Inl e, km')
           | (Inr key, km') \<Rightarrow>
               (case decryptWithKey C key val of
                  Inr out \<Rightarrow> (Inr out, km')
                | Inl e \<Rightarrow>
                    (case prevKey C t km' of
                       (Inr (Some prev), km'') \<Rightarrow> (decryptWithKey C prev val, km'')
                     | (_, km'') \<Rightarrow> (Inl e, km''))))"

definition ReencryptString ::
  "crypto_lib \<Rightarrow> gotime \<Rightarrow> string \<Rightarrow> uuid \<Rightarrow> string \<Rightarrow> keyManager \<Rightarrow> (key_error + string) \<times> keyManager" where
  "ReencryptString C now nonce t val km =
     (if \<not> prefix ciphertextPrefix val then (Inr val, km)
      else case DecryptString C now t val km of
             (Inl e, km') \<Rightarrow> (Inl e, km')
           | (Inr plain, km') \<Rightarrow> EncryptString C now nonce t plain km')"

definition IsEncrypted :: "string \<Rightarrow> bool" where
  "IsEncrypted val \<longleftrightarrow> prefix ciphertextPrefix val"

definition HMACString ::
  "crypto_lib \<Rightarrow> gotime \<Rightarrow> uuid \<Rightarrow> string \<Rightarrow> keyManager \<Rightarrow> (key_error + string) \<times> keyManager" where
  "HMACString C now t val km =
     (case auditHMACKey C now t km of
        (Inl e, km') \<Rightarrow> (Inl e, km')
      | (Inr key, km') \<Rightarrow> (Inr (b64 C (hmac C key val)), km'))"

definition BlindIndex ::
  "crypto_lib \<Rightarrow> gotime \<Rightarrow> uuid \<Rightarrow> string \<Rightarrow> keyManager \<Rightarrow> (key_error + string) \<times> keyManager" where
  "BlindIndex C now t val km =
     (case blindIndexKey C now t km of
        (Inl e, km') \<Rightarrow> (Inl e, km')
      | (Inr key, km') \<Rightarrow> (Inr (b64 C (take 16 (hmac C key val))), km'))"


section \<open>Log lines\<close>

definition isWhitespace :: "char \<Rightarrow> bool" where
  "isWhitespace b \<longleftrightarrow> b \<in> set '' '' \<union> {CHR 0x09, CHR 0x0A, CHR 0x0D, CHR 0x22, CHR 0x27, CHR '']'', CHR ''}'', CHR '','', CHR '')''}"

function stripCiphertextBlobs :: "string \<Rightarrow> string" where
  "stripCiphertextBlobs s =
     (case s of
        [] \<Rightarrow> []
      | b # bs \<Rightarrow>
          (if prefix ciphertextPrefix s
           then ''<ciphertext>'' @ stripCiphertextBlobs (dropWhile (\<lambda>b. \<not> isWhitespace b) (drop (length ciphertextPrefix) s))
           else b # stripCiphertextBlobs bs))"
  by pat_completeness auto

termination stripCiphertextBlobs
proof (relation "measure length")
  fix s bs :: string and b :: char
  assume "s = b # bs"
  then have "length (drop (length ciphertextPrefix) s) < length s" by (simp add: ciphertextPrefix_def)
  with length_dropWhile_le[of "\<lambda>b. \<not> isWhitespace b" "drop (length ciphertextPrefix) s"]
  show "(dropWhile (\<lambda>b. \<not> isWhitespace b) (drop (length ciphertextPrefix) s), s) \<in> measure length" by simp
qed auto

declare stripCiphertextBlobs.simps [simp del]

definition contains :: "string \<Rightarrow> string \<Rightarrow> bool" where
  "contains s sub \<longleftrightarrow> list_ex (prefix sub) (suffixes s)"

text \<open>\<open>strings.ReplaceAll\<close> for a nonempty old string.\<close>

function ReplaceAll :: "string \<Rightarrow> string \<Rightarrow> string \<Rightarrow> string" where
  "ReplaceAll s old new =
     (case s of
        [] \<Rightarrow> []
      | c # cs \<Rightarrow>
          (if old \<noteq> [] \<and> prefix old s then new @ ReplaceAll (drop (length old) s) old new
           else c # ReplaceAll cs old new))"
  by pat_completeness auto

termination ReplaceAll
  by (relation "measure (length \<circ> fst)") (auto simp: neq_Nil_conv)

declare ReplaceAll.simps [simp del]

definition RegisterLogSentinel :: "string \<Rightarrow> string list \<Rightarrow> string list" where
  "RegisterLogSentinel s sentinels = (if s = [] then sentinels else sentinels @ [s])"

definition SanitizeForLog :: "string list \<Rightarrow> string \<Rightarrow> string" where
  "SanitizeForLog sentinels s =
     (if s = [] then s
      else let out = (if contains s ciphertextPrefix then stripCiphertextBlobs s else s)
           in fold (\<lambda>sent out. if sent \<noteq> [] \<and> contains out sent then ReplaceAll out sent ''<redacted>'' else out)
                sentinels out)"



section \<open>The key caches are transparent\<close>

definition km_inv :: "crypto_lib \<Rightarrow> keyManager \<Rightarrow> bool" where
  "km_inv C km \<longleftrightarrow>
     (\<forall>t en. km_entries km t = Some en \<longrightarrow> DeriveKey C (km_master km) t = Inr (ke_key en))
     \<and> (\<forall>t k. km_prevEntries km t = Some k \<longrightarrow> (\<exists>p. km_prev km = Some p \<and> DeriveKey C p t = Inr k))
     \<and> (\<forall>t en. km_auditEntries km t = Some en \<longrightarrow>
          keySize \<le> length (km_master km) \<and> ke_key en = hkdf C (km_master km) t auditHMACLabel)
     \<and> (\<forall>t en. km_blindIndexEntries km t = Some en \<longrightarrow>
          keySize \<le> length (km_master km) \<and> ke_key en = hkdf C (km_master km) t blindIndexLabel)"

definition same_keys :: "keyManager \<Rightarrow> keyManager \<Rightarrow> bool" where
  "same_keys km km' \<longleftrightarrow> km_master km' = km_master km \<and> km_prev km' = km_prev km"

text \<open>A call that returns \<open>r\<close>, whatever the caches hold, and keeps the keys and the invariant.\<close>

definition keyed :: "crypto_lib \<Rightarrow> keyManager \<Rightarrow> 'a \<times> keyManager \<Rightarrow> 'a \<Rightarrow> bool" where
  "keyed C km res r \<longleftrightarrow> fst res = r \<and> km_inv C (snd res) \<and> same_keys km (snd res)"

lemma keyedE: "keyed C km res r \<Longrightarrow> (\<And>km'. res = (r, km') \<Longrightarrow> km_inv C km' \<Longrightarrow> same_keys km km' \<Longrightarrow> P) \<Longrightarrow> P"
  unfolding keyed_def by (metis prod.collapse)

lemma keyed_idle: "km_inv C km \<Longrightarrow> keyed C km (r, km) r"
  by (simp add: keyed_def same_keys_def)

lemma same_keys_trans: "same_keys a b \<Longrightarrow> same_keys b c \<Longrightarrow> same_keys a c"
  by (simp add: same_keys_def)

lemma km_inv_New: "NewKeyManagerWithPrev m p ttl = Inr km \<Longrightarrow> km_inv C km"
  by (auto simp: NewKeyManagerWithPrev_def km_inv_def split: if_splits)

lemma fresh_entryD: "fresh_entry km now t es = Some k \<Longrightarrow> \<exists>en. es t = Some en \<and> ke_key en = k"
  by (auto simp: fresh_entry_def split: option.splits if_splits)

lemma Key_keyed: "km_inv C km \<Longrightarrow> keyed C km (Key C now t km) (DeriveKey C (km_master km) t)"
proof (cases "fresh_entry km now t (km_entries km)")
  case (Some k)
  assume inv: "km_inv C km"
  with fresh_entryD[OF Some] have "DeriveKey C (km_master km) t = Inr k" by (auto simp: km_inv_def)
  with Some inv show ?thesis by (simp add: Key_def keyed_idle)
qed (auto simp: Key_def keyed_def km_inv_def same_keys_def split: sum.splits)

lemma prevKey_keyed:
  "km_inv C km \<Longrightarrow> keyed C km (prevKey C t km)
     (case km_prev km of None \<Rightarrow> Inr None | Some p \<Rightarrow> map_sum id Some (DeriveKey C p t))"
  by (auto simp: prevKey_def keyed_def km_inv_def same_keys_def split: option.splits sum.splits)

definition derived :: "crypto_lib \<Rightarrow> keyManager \<Rightarrow> uuid \<Rightarrow> string \<Rightarrow> key_error + string" where
  "derived C km t label = (if length (km_master km) < keySize then Inl MasterKeyMissing else Inr (hkdf C (km_master km) t label))"

lemma auditHMACKey_keyed: "km_inv C km \<Longrightarrow> keyed C km (auditHMACKey C now t km) (derived C km t auditHMACLabel)"
  by (auto simp: auditHMACKey_def derived_def keyed_def km_inv_def same_keys_def Let_def dest!: fresh_entryD split: option.splits)

lemma blindIndexKey_keyed: "km_inv C km \<Longrightarrow> keyed C km (blindIndexKey C now t km) (derived C km t blindIndexLabel)"
  by (auto simp: blindIndexKey_def derived_def keyed_def km_inv_def same_keys_def Let_def dest!: fresh_entryD split: option.splits)

text \<open>The operations without the caches.\<close>

definition pure_encrypt :: "crypto_lib \<Rightarrow> string \<Rightarrow> string \<Rightarrow> uuid \<Rightarrow> string \<Rightarrow> key_error + string" where
  "pure_encrypt C master nonce t p = rbind (DeriveKey C master t) (\<lambda>k. encryptWithKey C nonce k p)"

definition pure_decrypt :: "crypto_lib \<Rightarrow> string \<Rightarrow> string option \<Rightarrow> uuid \<Rightarrow> string \<Rightarrow> key_error + string" where
  "pure_decrypt C master prev t v =
     (if \<not> prefix ciphertextPrefix v then Inr v
      else rbind (DeriveKey C master t) (\<lambda>k.
        case decryptWithKey C k v of
          Inr out \<Rightarrow> Inr out
        | Inl e \<Rightarrow>
            (case prev of
               None \<Rightarrow> Inl e
             | Some p \<Rightarrow> (case DeriveKey C p t of Inl _ \<Rightarrow> Inl e | Inr k' \<Rightarrow> decryptWithKey C k' v))))"

lemma EncryptString_keyed:
  assumes "km_inv C km"
  shows "keyed C km (EncryptString C now nonce t p km) (pure_encrypt C (km_master km) nonce t p)"
  using Key_keyed[OF assms, of now t]
  by (rule keyedE) (auto simp: EncryptString_def pure_encrypt_def keyed_def split: sum.splits)

lemma DecryptString_keyed:
  assumes "km_inv C km"
  shows "keyed C km (DecryptString C now t v km) (pure_decrypt C (km_master km) (km_prev km) t v)"
proof (cases "prefix ciphertextPrefix v")
  case True
  obtain km1 where km1: "Key C now t km = (DeriveKey C (km_master km) t, km1)" "km_inv C km1" "same_keys km km1"
    using Key_keyed[OF assms] by (rule keyedE)
  obtain km2 where km2: "prevKey C t km1 = (case km_prev km1 of None \<Rightarrow> Inr None | Some p \<Rightarrow> map_sum id Some (DeriveKey C p t), km2)"
      "km_inv C km2" "same_keys km1 km2"
    using prevKey_keyed[OF km1(2)] by (rule keyedE)
  have "same_keys km km2" using same_keys_trans km1(3) km2(3) by blast
  with True km1 km2 show ?thesis
    by (auto simp: DecryptString_def pure_decrypt_def keyed_def same_keys_def split: sum.splits option.splits)
qed (use assms in \<open>simp add: DecryptString_def pure_decrypt_def keyed_idle\<close>)

lemma prefix_drop: "prefix p s \<Longrightarrow> p @ drop (length p) s = s"
  by (auto simp: prefix_def)

lemma decrypt_encrypt_key:
  assumes "crypto_law C" "length nonce = nonceSize" "encryptWithKey C nonce k p = Inr c"
  shows "prefix ciphertextPrefix c" "decryptWithKey C k c = Inr p"
proof -
  have k: "aes_key k" and c: "c = ciphertextPrefix @ b64 C (nonce @ gcm_seal C k nonce p)"
    using assms(3) by (auto simp: encryptWithKey_def split: if_splits)
  from c show "prefix ciphertextPrefix c" by simp
  with k c show "decryptWithKey C k c = Inr p"
    using assms(2) by (simp add: decryptWithKey_def trimPrefix_def crypto_lawD[OF assms(1)] tagSize_def)
qed

lemma pure_roundtrip:
  assumes "crypto_law C" "length nonce = nonceSize" "pure_encrypt C master nonce t p = Inr c"
  shows "pure_decrypt C master prev t c = Inr p"
proof -
  obtain k where k: "DeriveKey C master t = Inr k" "encryptWithKey C nonce k p = Inr c"
    using assms(3) by (auto simp: pure_encrypt_def rbind_eq_Inr)
  with decrypt_encrypt_key[OF assms(1,2) k(2)] show ?thesis by (simp add: pure_decrypt_def)
qed

text \<open>
  The key manager as the store's \<open>FieldEncryptor\<close>; \<open>nonces\<close> are what the random source yields. Since the
  caches are transparent, the interface does not mention them.
\<close>

definition right :: "'e + 'a \<Rightarrow> 'a option" where
  "right r = (case r of Inl _ \<Rightarrow> None | Inr x \<Rightarrow> Some x)"

definition km_encryptor :: "crypto_lib \<Rightarrow> gotime \<Rightarrow> (nat \<Rightarrow> string) \<Rightarrow> keyManager \<Rightarrow> fieldEncryptor" where
  "km_encryptor C now nonces km =
     \<lparr>fe_encrypt = (\<lambda>n t p. right (fst (EncryptString C now (nonces n) t p km))),
      fe_decrypt = (\<lambda>t v. right (fst (DecryptString C now t v km)))\<rparr>"

definition km_lawful :: "crypto_lib \<Rightarrow> (nat \<Rightarrow> string) \<Rightarrow> keyManager \<Rightarrow> bool" where
  "km_lawful C nonces km \<longleftrightarrow> crypto_law C \<and> km_inv C km \<and> (\<forall>n. length (nonces n) = nonceSize)"

lemma right_Some: "right r = Some x \<longleftrightarrow> r = Inr x"
  by (auto simp: right_def split: sum.splits)

lemma keyed_fst: "keyed C km res r \<Longrightarrow> fst res = r"
  by (simp add: keyed_def)

interpretation km: field_cipher "km_encryptor C now nonces km" "km_lawful C nonces km"
  for C :: crypto_lib and now :: gotime and nonces :: "nat \<Rightarrow> string" and km :: keyManager
proof
  fix n t p c
  assume law: "km_lawful C nonces km" and enc: "fe_encrypt (km_encryptor C now nonces km) n t p = Some c"
  then have inv: "km_inv C km" and crypto: "crypto_law C" "length (nonces n) = nonceSize" by (auto simp: km_lawful_def)
  have "pure_encrypt C (km_master km) (nonces n) t p = Inr c"
    using enc keyed_fst[OF EncryptString_keyed[OF inv]] by (simp add: km_encryptor_def right_Some)
  from pure_roundtrip[OF crypto this] show "fe_decrypt (km_encryptor C now nonces km) t c = Some p"
    using keyed_fst[OF DecryptString_keyed[OF inv]] by (simp add: km_encryptor_def right_Some)
qed


section \<open>Sanitised lines\<close>

lemma contains_iff: "contains s sub \<longleftrightarrow> sublist sub s"
  by (auto simp: contains_def list_ex_iff sublist_altdef')

lemma sublist_skip: "sublist sub (xs @ ys) \<Longrightarrow> sub \<noteq> [] \<Longrightarrow> hd sub \<notin> set xs \<Longrightarrow> sublist sub ys"
proof (induction xs)
  case (Cons x xs)
  then show ?case by (cases sub) (auto simp: sublist_Cons_right)
qed simp

lemma strip_Nil [simp]: "stripCiphertextBlobs [] = []"
  by (simp add: stripCiphertextBlobs.simps)

lemma strip_hit:
  "prefix ciphertextPrefix s \<Longrightarrow> stripCiphertextBlobs s =
     ''<ciphertext>'' @ stripCiphertextBlobs (dropWhile (\<lambda>b. \<not> isWhitespace b) (drop (length ciphertextPrefix) s))"
  by (subst stripCiphertextBlobs.simps) (cases s; simp add: ciphertextPrefix_def)

lemma strip_miss: "\<not> prefix ciphertextPrefix (b # bs) \<Longrightarrow> stripCiphertextBlobs (b # bs) = b # stripCiphertextBlobs bs"
  by (subst stripCiphertextBlobs.simps) simp

lemma prefix_lt: "prefix x (CHR ''<'' # zs) \<Longrightarrow> CHR ''<'' \<notin> set x \<Longrightarrow> x = []"
  by (cases x) auto

lemma strip_prefix: "prefix x (stripCiphertextBlobs s) \<Longrightarrow> CHR ''<'' \<notin> set x \<Longrightarrow> prefix x s"
proof (induction s arbitrary: x)
  case (Cons b bs)
  show ?case
  proof (cases "prefix ciphertextPrefix (b # bs)")
    case True
    with Cons.prems have "x = []" using prefix_lt by (simp add: strip_hit)
    then show ?thesis by simp
  next
    case False
    with Cons show ?thesis by (cases x) (auto simp: strip_miss)
  qed
qed simp

lemma strip_clean: "\<not> sublist ciphertextPrefix (stripCiphertextBlobs s)"
proof (induction s rule: stripCiphertextBlobs.induct)
  case (1 s)
  have facts: "hd ciphertextPrefix \<notin> set ''<ciphertext>''" "ciphertextPrefix \<noteq> []" "CHR ''<'' \<notin> set ciphertextPrefix"
    by (auto simp: ciphertextPrefix_def)
  show ?case
  proof (cases s)
    case Nil
    with facts(2) show ?thesis by simp
  next
    case (Cons b bs)
    show ?thesis
    proof (cases "prefix ciphertextPrefix s")
      case True
      from 1(1)[OF Cons True] sublist_skip[OF _ facts(2,1)] show ?thesis unfolding strip_hit[OF True] by blast
    next
      case False
      then have eq: "stripCiphertextBlobs s = b # stripCiphertextBlobs bs" using Cons by (simp add: strip_miss)
      have "\<not> prefix ciphertextPrefix (stripCiphertextBlobs s)" using strip_prefix[OF _ facts(3)] False by blast
      with 1(2)[OF Cons False] eq show ?thesis by (simp add: sublist_Cons_right)
    qed
  qed
qed

lemma replace_Nil [simp]: "ReplaceAll [] old new = []"
  by (simp add: ReplaceAll.simps)

lemma replace_hit:
  "old \<noteq> [] \<Longrightarrow> prefix old s \<Longrightarrow> ReplaceAll s old new = new @ ReplaceAll (drop (length old) s) old new"
  by (subst ReplaceAll.simps) (cases s; simp)

lemma replace_miss: "\<not> (old \<noteq> [] \<and> prefix old (c # cs)) \<Longrightarrow> ReplaceAll (c # cs) old new = c # ReplaceAll cs old new"
  by (subst ReplaceAll.simps) auto

lemma replace_prefix: "prefix x (ReplaceAll s old (CHR ''<'' # w)) \<Longrightarrow> CHR ''<'' \<notin> set x \<Longrightarrow> prefix x s"
proof (induction s arbitrary: x)
  case (Cons c cs)
  show ?case
  proof (cases "old \<noteq> [] \<and> prefix old (c # cs)")
    case True
    with Cons.prems have "x = []" using prefix_lt by (simp add: replace_hit)
    then show ?thesis by simp
  next
    case False
    with Cons show ?thesis by (cases x) (auto simp: replace_miss)
  qed
qed simp

lemma replace_clean:
  assumes "sub \<noteq> []" "CHR ''<'' \<notin> set sub" "hd sub \<notin> set w"
  shows "sublist sub (ReplaceAll s old (CHR ''<'' # w)) \<Longrightarrow> sublist sub s"
proof (induction s rule: length_induct)
  case (1 s)
  have h: "hd sub \<notin> set (CHR ''<'' # w)" using assms by (metis hd_in_set set_ConsD)
  show ?case
  proof (cases s)
    case (Cons c cs)
    show ?thesis
    proof (cases "old \<noteq> [] \<and> prefix old s")
      case True
      with 1(2) have "sublist sub (ReplaceAll (drop (length old) s) old (CHR ''<'' # w))"
        using sublist_skip[OF _ assms(1) h] by (simp add: replace_hit)
      moreover have "length (drop (length old) s) < length s" using True Cons by simp
      ultimately have "sublist sub (drop (length old) s)" using 1(1) by blast
      then show ?thesis using sublist_order.order_trans sublist_drop by blast
    next
      case False
      then have eq: "ReplaceAll s old (CHR ''<'' # w) = c # ReplaceAll cs old (CHR ''<'' # w)"
        using Cons by (simp add: replace_miss)
      have "prefix sub (ReplaceAll s old (CHR ''<'' # w)) \<Longrightarrow> prefix sub s" using replace_prefix assms(2) by blast
      with 1 eq Cons show ?thesis by (auto simp: sublist_Cons_right)
    qed
  qed (use 1(2) in simp)
qed


section \<open>Examples\<close>

text \<open>A toy cipher: the tag is the first bytes of the key.\<close>

definition toy_crypto :: crypto_lib where
  "toy_crypto =
     \<lparr>hkdf = (\<lambda>m t l. take 32 (m @ replicate 32 (CHR ''k''))),
      gcm_seal = (\<lambda>k n p. p @ take 16 (k @ replicate 16 (CHR ''t''))),
      gcm_open = (\<lambda>k n c. if drop (length c - 16) c = take 16 (k @ replicate 16 (CHR ''t'')) then Some (take (length c - 16) c) else None),
      hmac = (\<lambda>k v. take 8 k @ v), b64 = id, unb64 = Some\<rparr>"

lemma crypto_law_toy: "crypto_law toy_crypto"
  by (auto simp: crypto_law_def toy_crypto_def min_def)

definition toy_km :: "char \<Rightarrow> char option \<Rightarrow> keyManager" where
  "toy_km c prev =
     \<lparr>km_master = replicate 32 c, km_prev = map_option (replicate 32) prev, km_ttl = 3600, km_entries = Map.empty,
      km_prevEntries = Map.empty, km_auditEntries = Map.empty, km_blindIndexEntries = Map.empty\<rparr>"

lemma km_inv_toy: "km_inv C (toy_km c prev)"
  by (simp add: km_inv_def toy_km_def)

definition toy_nonce :: string where "toy_nonce = replicate 12 (CHR ''n'')"


section \<open>Properties\<close>

lemma rotation_readable_facts:
  assumes "crypto_law C" "km_inv C old" "km_inv C new" "length nonce = nonceSize" "length nonce' = nonceSize"
    and "km_prev new = Some (km_master old)"
    and "fst (EncryptString C now nonce t p old) = Inr c"
    and "DeriveKey C (km_master new) t = Inr k" "decryptWithKey C k c = Inl OpenFailed"
    and "km_inv C later" "km_master later = km_master new"
  shows "fst (DecryptString C now' t c new) = Inr p"
    and "\<exists>c'. fst (ReencryptString C now' nonce' t c new) = Inr c' \<and> fst (DecryptString C now'' t c' later) = Inr p"
proof -
  have "pure_encrypt C (km_master old) nonce t p = Inr c"
    using assms(7) keyed_fst[OF EncryptString_keyed[OF assms(2)]] by simp
  then obtain k0 where k0: "DeriveKey C (km_master old) t = Inr k0" "encryptWithKey C nonce k0 p = Inr c"
    by (auto simp: pure_encrypt_def rbind_eq_Inr)
  note c = decrypt_encrypt_key[OF assms(1,4) k0(2)]
  have "pure_decrypt C (km_master new) (km_prev new) t c = Inr p"
    using c k0(1) assms(6,8,9) by (simp add: pure_decrypt_def)
  moreover obtain km1 where km1: "DecryptString C now' t c new = (pure_decrypt C (km_master new) (km_prev new) t c, km1)"
    "km_inv C km1" "same_keys new km1"
    using DecryptString_keyed[OF assms(3)] by (rule keyedE)
  ultimately have dec: "DecryptString C now' t c new = (Inr p, km1)" by simp
  then show "fst (DecryptString C now' t c new) = Inr p" by simp
  have "aes_key k" using assms(1,8) by (auto simp: DeriveKey_def aes_key_def crypto_lawD split: if_splits)
  then obtain c' where c': "pure_encrypt C (km_master new) nonce' t p = Inr c'"
    using assms(8) by (auto simp: pure_encrypt_def encryptWithKey_def)
  have "fst (ReencryptString C now' nonce' t c new) = Inr c'"
    using c(1) dec c' keyed_fst[OF EncryptString_keyed[OF km1(2)]] km1(3)
    by (simp add: ReencryptString_def same_keys_def)
  moreover have "fst (DecryptString C now'' t c' later) = Inr p"
    using keyed_fst[OF DecryptString_keyed[OF assms(10)]] pure_roundtrip[OF assms(1,5) c'] assms(11) by simp
  ultimately show "\<exists>c'. fst (ReencryptString C now' nonce' t c new) = Inr c' \<and> fst (DecryptString C now'' t c' later) = Inr p"
    by blast
qed

text \<open>
  C33: Rotating the master key loses nothing. Let a value be encrypted by a manager with some master key.
  A manager with a new master key and that one as the previous key decrypts it (given that the
  ciphertext does not open under the new key, which authenticated encryption makes practically certain), and
  re-encrypts it into a value that every manager with the new master key decrypts, whether or not it
  still has the previous key and whatever its caches hold.
\<close>

theorem rotation_readable:
  assumes "crypto_law C" "km_inv C old" "km_inv C new" "length nonce = nonceSize" "length nonce' = nonceSize"
    and "km_prev new = Some (km_master old)"
    and "fst (EncryptString C now nonce t p old) = Inr c"
    and "DeriveKey C (km_master new) t = Inr k" "decryptWithKey C k c = Inl OpenFailed"
    and "km_inv C later" "km_master later = km_master new"
  shows "fst (DecryptString C now' t c new) = Inr p
    \<and> (\<exists>c'. fst (ReencryptString C now' nonce' t c new) = Inr c' \<and> fst (DecryptString C now'' t c' later) = Inr p)"
  using rotation_readable_facts[OF assms] by (rule conjI)

theorem rotation_readable_witness:
  "fst (DecryptString toy_crypto 5 1 (ciphertextPrefix @ toy_nonce @ ''DE1'' @ replicate 16 (CHR ''a''))
          (toy_km (CHR ''b'') (Some (CHR ''a'')))) = Inr ''DE1''
   \<and> (\<exists>c'. fst (DecryptString toy_crypto 9 1 c' (toy_km (CHR ''b'') None)) = Inr ''DE1'')"
proof -
  let ?c = "ciphertextPrefix @ toy_nonce @ ''DE1'' @ replicate 16 (CHR ''a'')"
  have n: "length toy_nonce = nonceSize" by (simp add: toy_nonce_def nonceSize_def)
  have prev: "km_prev (toy_km (CHR ''b'') (Some (CHR ''a''))) = Some (km_master (toy_km (CHR ''a'') None))"
    by (simp add: toy_km_def)
  have enc: "fst (EncryptString toy_crypto 0 toy_nonce 1 ''DE1'' (toy_km (CHR ''a'') None)) = Inr ?c" by code_simp
  have k: "DeriveKey toy_crypto (km_master (toy_km (CHR ''b'') (Some (CHR ''a'')))) 1 = Inr (replicate 32 (CHR ''b''))"
    by code_simp
  have fail: "decryptWithKey toy_crypto (replicate 32 (CHR ''b'')) ?c = Inl OpenFailed" by code_simp
  have m: "km_master (toy_km (CHR ''b'') None) = km_master (toy_km (CHR ''b'') (Some (CHR ''a'')))" by (simp add: toy_km_def)
  show ?thesis
    using rotation_readable[OF crypto_law_toy km_inv_toy km_inv_toy n n prev enc k fail km_inv_toy m, of 5 9]
    by blast
qed

text \<open>
  A sanitised line holds no encrypted value. Whatever sentinels are registered, the output of
  \<open>SanitizeForLog\<close> does not contain the prefix that marks an encrypted field; replacing one envelope or a
  sentinel never assembles a new one out of the text around it.
\<close>

theorem sanitised_has_no_envelope: "\<not> contains (SanitizeForLog sentinels s) ciphertextPrefix"
proof (cases "s = []")
  case True
  then show ?thesis by (simp add: SanitizeForLog_def contains_iff ciphertextPrefix_def)
next
  case False
  have facts: "ciphertextPrefix \<noteq> []" "CHR ''<'' \<notin> set ciphertextPrefix" "hd ciphertextPrefix \<notin> set ''redacted>''"
    by (auto simp: ciphertextPrefix_def)
  define out where "out = (if contains s ciphertextPrefix then stripCiphertextBlobs s else s)"
  have start: "\<not> sublist ciphertextPrefix out" using strip_clean by (auto simp: out_def contains_iff)
  have "\<not> sublist ciphertextPrefix
          (fold (\<lambda>sent out. if sent \<noteq> [] \<and> contains out sent then ReplaceAll out sent ''<redacted>'' else out) ss out)"
    if "\<not> sublist ciphertextPrefix out" for ss out
    using that
  proof (induction ss arbitrary: out)
    case (Cons sent ss)
    have "\<not> sublist ciphertextPrefix (ReplaceAll out sent ''<redacted>'')"
      using replace_clean[OF facts] Cons.prems by auto
    with Cons show ?case by auto
  qed simp
  with start False show ?thesis by (simp add: SanitizeForLog_def out_def contains_iff Let_def)
qed

end
