(* ===== verification/Record_Store.thy ===== *)
theory Record_Store
  imports KType_Registry Tenant_Keys Kernel_Tx
begin

text \<open>
  The record store (internal/record/store.go, internal/record/bulk.go): records of all types live in the
  table \<open>krecords\<close>, their payload validated against the schema of their type and its sensitive fields
  encrypted; every change emits an event and an audit entry in the same transaction and keeps the
  denormalised counter of internal/platform/quota.go.

  \<open>record_db\<close> extends the database by the two tables. A store \<open>rstore\<close> carries its collaborators; those
  that may be nil in the code are options, \<open>rs_registry\<close> is what \<open>PGRegistry.Get\<close> answers during the call
  (\<open>registry_Get\<close> of \<open>KType_Registry\<close>). Reads run on the primary. The columns \<open>ktype_version\<close> and
  \<open>version\<close> are 32-bit integers, \<open>data\<close> must be valid JSON. The pattern cache of the validator starts
  empty in every call; it cannot be observed (\<open>KType_Validator\<close>).
\<close>

section \<open>Tables and errors\<close>

record krecord =
  r_id :: uuid
  r_tenant :: uuid
  r_ktype :: string
  r_ktypeVersion :: int
  r_data :: raw_message
  r_status :: string
  r_version :: int
  r_createdBy :: uuid
  r_createdAt :: gotime
  r_updatedBy :: "uuid option"
  r_updatedAt :: gotime
  r_deletedAt :: "gotime option"

record krecord_row = krecord +
  r_blind :: "(string \<times> string) list option"

record record_db = ktype_db +
  krecords :: "krecord_row list"
  record_counts :: "uuid \<rightharpoonup> int"

datatype store_error =
    RKTypeRequired
  | RTenantRequired
  | RCreatedByRequired
  | RTenantAndIDRequired
  | RNotFound
  | RVersionConflict
  | RKType ktype_store_error
  | RKTypeStatus string string
  | RInvalid ktype_error
  | RField field_error
  | RKernel kernel_error
  | RUnique
  | RBadColumn
  | RKTypeFilterRequired
  | RFieldRequired
  | RInvalidCursor
  | RNotIndexed string
  | RReplicaNotReady
  | RListAllExceedsCap
  | RStopForEach
  | RCallback string

record rstore =
  rs_engine :: engine
  rs_ktype :: ktype_lib
  rs_enc :: "fieldEncryptor option"
  rs_hasher :: "digester option"
  rs_indexer :: "digester option"
  rs_custom :: bool
  rs_registry :: "string \<Rightarrow> int \<Rightarrow> ktype_store_error + ktype"

definition int4 :: "int \<Rightarrow> bool" where
  "int4 n \<longleftrightarrow> - (2 ^ 31) \<le> n \<and> n < 2 ^ 31"

definition rs_text :: "rstore \<Rightarrow> json \<Rightarrow> string" where
  "rs_text S = eng_json (rs_engine S)"

definition rs_jsonb :: "rstore \<Rightarrow> raw_message \<Rightarrow> raw_message" where
  "rs_jsonb S = jsonb (eng_audit (rs_engine S))"

definition to_record :: "krecord_row \<Rightarrow> krecord" where
  "to_record r =
     \<lparr>r_id = r_id r, r_tenant = r_tenant r, r_ktype = r_ktype r, r_ktypeVersion = r_ktypeVersion r, r_data = r_data r,
      r_status = r_status r, r_version = r_version r, r_createdBy = r_createdBy r, r_createdAt = r_createdAt r,
      r_updatedBy = r_updatedBy r, r_updatedAt = r_updatedAt r, r_deletedAt = r_deletedAt r\<rparr>"

definition row_key :: "krecord_row \<Rightarrow> uuid \<times> uuid" where
  "row_key r = (r_tenant r, r_id r)"

definition find_record :: "uuid \<Rightarrow> uuid \<Rightarrow> 'a record_db_scheme \<Rightarrow> krecord_row option" where
  "find_record t i db = List.find (\<lambda>r. row_key r = (t, i)) (krecords db)"

definition put_record :: "krecord_row \<Rightarrow> 'a record_db_scheme \<Rightarrow> 'a record_db_scheme" where
  "put_record row db = db\<lparr>krecords := update_rows (\<lambda>r. row_key r = row_key row) (\<lambda>_. row) (krecords db)\<rparr>"


section \<open>Resolving the type of a record\<close>

datatype ktypeResolveMode = ResolveForCreate | ResolveForUpdate | ResolveForRead

definition checkCustomKTypeStatus :: "tenantKType \<Rightarrow> ktypeResolveMode \<Rightarrow> store_error + unit" where
  "checkCustomKTypeStatus tkt mode =
     (case mode of
        ResolveForCreate \<Rightarrow>
          (if tk_status tkt \<noteq> ''active'' then Inl (RKTypeStatus (tk_name tkt) (tk_status tkt)) else Inr ())
      | ResolveForUpdate \<Rightarrow>
          (if tk_status tkt \<noteq> ''active'' \<and> tk_status tkt \<noteq> ''archived''
           then Inl (RKTypeStatus (tk_name tkt) (tk_status tkt)) else Inr ())
      | ResolveForRead \<Rightarrow> Inr ())"

definition materializeCustomKType :: "tenantKType \<Rightarrow> ktypeResolveMode \<Rightarrow> store_error + ktype" where
  "materializeCustomKType tkt mode =
     rbind (checkCustomKTypeStatus tkt mode) (\<lambda>_.
       Inr \<lparr>kt_name = tk_name tkt, kt_version = tk_version tkt, kt_schema = tk_schema tkt, kt_createdAt = tk_createdAt tkt\<rparr>)"

text \<open>The variants inside and outside a transaction run the same query.\<close>

definition lookupCustomKType ::
  "uuid \<Rightarrow> string \<Rightarrow> int \<Rightarrow> ktypeResolveMode \<Rightarrow> 'a ktype_db_scheme \<Rightarrow> ktype_store_error + tenantKType" where
  "lookupCustomKType t name version mode db =
     (if mode = ResolveForCreate \<and> version = 0
      then (case GetLatestActiveInTx t name db of
              Inr r \<Rightarrow> Inr r
            | Inl e \<Rightarrow> if e = KTypeNotFound then GetInTx t name version db else Inl e)
      else GetInTx t name version db)"

definition resolveKType ::
  "rstore \<Rightarrow> uuid \<Rightarrow> string \<Rightarrow> int \<Rightarrow> ktypeResolveMode \<Rightarrow> 'a ktype_db_scheme \<Rightarrow> store_error + ktype" where
  "resolveKType S t name version mode db =
     (if rs_custom S \<and> IsCustomName name
      then rbind (map_sum RKType id (lookupCustomKType t name version mode db)) (\<lambda>tkt. materializeCustomKType tkt mode)
      else map_sum RKType id (rs_registry S name version))"


section \<open>Events and audit\<close>

definition snapshotTypeFor :: "string \<Rightarrow> string" where
  "snapshotTypeFor ty =
     (if suffix ''.created'' ty then ''create''
      else if suffix ''.updated'' ty then ''update''
      else if suffix ''.deleted'' ty then ''delete''
      else ''unknown'')"

definition int_num :: "int \<Rightarrow> json" where
  "int_num n = JNum (Some (f64_of_int n))"

text \<open>The members of the payload; those of the summary are added last and would replace others of their name.\<close>

definition eventSummaryPayload ::
  "rstore \<Rightarrow> krecord \<Rightarrow> string \<Rightarrow> (string \<times> json) list \<Rightarrow> uuid option \<Rightarrow> string \<Rightarrow> (string \<times> json) list" where
  "eventSummaryPayload S r ty summary actor kind =
     (let E = rs_engine S; time = (\<lambda>t. JStr (rfc3339nano (eng_audit E) t))
      in fold (\<lambda>(k, v) m. AList.update k v m) summary
           [(''id'', uuid_json E (r_id r)), (''tenant'', uuid_json E (r_tenant r)), (''ktype'', JStr (r_ktype r)),
            (''version'', int_num (r_version r)), (''status'', JStr (r_status r)), (''updated'', time (r_updatedAt r)),
            (''created'', time (r_createdAt r)), (''actor'', case actor of None \<Rightarrow> JNull | Some a \<Rightarrow> uuid_json E a),
            (''kind'', JStr kind), (''snapshot'', JStr (snapshotTypeFor ty))])"

definition emit ::
  "rstore \<Rightarrow> gotime \<Rightarrow> uuid \<Rightarrow> krecord \<Rightarrow> string \<Rightarrow> raw_message \<Rightarrow> uuid option \<Rightarrow> string \<Rightarrow> raw_message \<Rightarrow> raw_message
   \<Rightarrow> 'a audit_store_scheme \<Rightarrow> store_error + 'a audit_store_scheme" where
  "emit S now eid r ty sch actor action before after db =
     (let jt = rs_text S;
          summary = diff_members sch before after (rs_hasher S) (r_tenant r)
      in rbind (map_sum RKernel id
            (EmitTx now eid
               \<lparr>ev_id = 0, ev_tenant = r_tenant r, ev_type = ty,
                ev_payload = raw_of jt (JObj (eventSummaryPayload S r ty summary actor ''user'')),
                ev_created = 0, ev_delivered = None\<rparr> db)) (\<lambda>db1.
          map_sum RKernel id
            (LogTx (eng_audit (rs_engine S)) now
               \<lparr>ae_tenant = r_tenant r, ae_actor = actor, ae_kind = ''user'', ae_action = action, ae_ktype = r_ktype r,
                ae_target = Some (r_id r), ae_before = RedactData jt sch before, ae_after = RedactData jt sch after,
                ae_context = raw_of jt (JObj summary)\<rparr> db1)))"

definition BumpTenantRecordCount :: "uuid \<Rightarrow> int \<Rightarrow> 'a record_db_scheme \<Rightarrow> 'a record_db_scheme" where
  "BumpTenantRecordCount t delta db =
     (if delta = 0 then db
      else db\<lparr>record_counts := (record_counts db)(t \<mapsto>
             (case record_counts db t of None \<Rightarrow> max delta 0 | Some n \<Rightarrow> max (n + delta) 0))\<rparr>)"


section \<open>Create, Get, Update, Delete\<close>

definition insert_record ::
  "rstore \<Rightarrow> gotime \<Rightarrow> krecord \<Rightarrow> raw_message \<Rightarrow> (string \<times> string) list option \<Rightarrow> 'a record_db_scheme
   \<Rightarrow> store_error + krecord_row \<times> 'a record_db_scheme" where
  "insert_record S now r data blind db =
     (let row = \<lparr>r_id = r_id r, r_tenant = r_tenant r, r_ktype = r_ktype r, r_ktypeVersion = r_ktypeVersion r,
                 r_data = rs_jsonb S data, r_status = r_status r, r_version = r_version r, r_createdBy = r_createdBy r,
                 r_createdAt = pg_time now, r_updatedBy = None, r_updatedAt = pg_time now, r_deletedAt = None,
                 r_blind = blind\<rparr>
      in if \<not> valid_json data \<or> \<not> int4 (r_ktypeVersion r) \<or> \<not> int4 (r_version r) then Inl RBadColumn
         else if find_record (r_tenant r) (r_id r) db \<noteq> None then Inl RUnique
         else Inr (row, db\<lparr>krecords := krecords db @ [row]\<rparr>))"

definition create_tx ::
  "rstore \<Rightarrow> gotime \<Rightarrow> uuid \<Rightarrow> krecord \<Rightarrow> raw_message \<Rightarrow> raw_message \<Rightarrow> raw_message \<Rightarrow> (string \<times> string) list option
   \<Rightarrow> 'a record_db_scheme \<Rightarrow> store_error + krecord \<times> 'a record_db_scheme" where
  "create_tx S now eid r sch plaintext encrypted blind db =
     rbind (insert_record S now r encrypted blind db) (\<lambda>(row, db1).
       let db2 = BumpTenantRecordCount (r_tenant row) 1 db1;
           created = (to_record row)\<lparr>r_data := plaintext\<rparr>
       in rbind (emit S now eid created ''krecord.created'' sch (Some (r_createdBy created)) (r_ktype created @ ''.create'')
                   no_json plaintext db2) (\<lambda>db3.
          Inr (created, db3)))"

text \<open>The checks before the transaction: type, payload, blind indexes, encryption; \<open>n\<close> numbers the nonces of the encryptor.\<close>

definition create_prepare ::
  "rstore \<Rightarrow> nat \<Rightarrow> krecord \<Rightarrow> 'a ktype_db_scheme \<Rightarrow> store_error + ktype \<times> (string \<times> string) list option \<times> raw_message" where
  "create_prepare S n r db =
     rbind (resolveKType S (r_tenant r) (r_ktype r) (r_ktypeVersion r) ResolveForCreate db) (\<lambda>kt.
     rbind (map_sum RInvalid id (fst (ValidateData (rs_ktype S) (kt_schema kt) (r_data r) Map.empty))) (\<lambda>_.
     rbind (map_sum RField id (computeBlindIndexes (r_tenant r) (kt_schema kt) (r_data r) (rs_indexer S))) (\<lambda>blind.
     rbind (map_sum RField id (encryptFields (rs_text S) (rs_enc S) n (r_tenant r) (kt_schema kt) (r_data r))) (\<lambda>enc.
     Inr (kt, blind, enc)))))"

text \<open>The defaults; \<open>newid\<close> is what \<open>uuid.New\<close> returns.\<close>

definition create_defaults :: "uuid \<Rightarrow> ktype \<Rightarrow> krecord \<Rightarrow> krecord" where
  "create_defaults newid kt r =
     r\<lparr>r_id := (if r_id r = 0 then newid else r_id r), r_ktypeVersion := kt_version kt,
       r_status := (if r_status r = [] then ''active'' else r_status r),
       r_version := (if r_version r = 0 then 1 else r_version r)\<rparr>"

definition Create ::
  "rstore \<Rightarrow> gotime \<Rightarrow> uuid \<Rightarrow> uuid \<Rightarrow> nat \<Rightarrow> krecord \<Rightarrow> 'a record_db_scheme
   \<Rightarrow> (store_error + krecord) \<times> 'a record_db_scheme" where
  "Create S now newid eid n r db =
     (if r_ktype r = [] then (Inl RKTypeRequired, db)
      else if r_tenant r = 0 then (Inl RTenantRequired, db)
      else if r_createdBy r = 0 then (Inl RCreatedByRequired, db)
      else case create_prepare S n r db of
             Inl e \<Rightarrow> (Inl e, db)
           | Inr (kt, blind, enc) \<Rightarrow>
               WithTenantTx RTenantRequired (r_tenant r)
                 (create_tx S now eid (create_defaults newid kt r) (kt_schema kt) (r_data r) enc blind) db)"

definition decryptRecord :: "rstore \<Rightarrow> krecord \<Rightarrow> 'a ktype_db_scheme \<Rightarrow> store_error + raw_message" where
  "decryptRecord S r db =
     (if rs_enc S = None then Inr (r_data r)
      else rbind (resolveKType S (r_tenant r) (r_ktype r) (r_ktypeVersion r) ResolveForRead db) (\<lambda>kt.
        map_sum RField id (decryptRecordWith (rs_text S) (rs_enc S) (r_tenant r) (kt_schema kt) (r_data r))))"

definition record_Get :: "rstore \<Rightarrow> uuid \<Rightarrow> uuid \<Rightarrow> 'a record_db_scheme \<Rightarrow> store_error + krecord" where
  "record_Get S t i db =
     (if t = 0 then Inl RTenantRequired
      else case find_record t i db of
             None \<Rightarrow> Inl RNotFound
           | Some row \<Rightarrow>
               rbind (decryptRecord S (to_record row) db) (\<lambda>data. Inr ((to_record row)\<lparr>r_data := data\<rparr>)))"

text \<open>
  Decrypt, merge, validate, index and encrypt: what an update does to the payload of a row before
  it writes. The result holds the old and the new plaintext.
\<close>

definition patched ::
  "rstore \<Rightarrow> nat \<Rightarrow> krecord_row \<Rightarrow> ktype \<Rightarrow> raw_message
   \<Rightarrow> store_error + raw_message \<times> raw_message \<times> (string \<times> string) list option \<times> raw_message" where
  "patched S n row kt patch =
     rbind (map_sum RField id (decryptRecordWith (rs_text S) (rs_enc S) (r_tenant row) (kt_schema kt) (r_data row))) (\<lambda>plain.
     rbind (map_sum RField id (mergeJSON (rs_text S) plain patch)) (\<lambda>merged.
     rbind (map_sum RInvalid id (fst (ValidateData (rs_ktype S) (kt_schema kt) merged Map.empty))) (\<lambda>_.
     rbind (map_sum RField id (computeBlindIndexes (r_tenant row) (kt_schema kt) merged (rs_indexer S))) (\<lambda>blind.
     rbind (map_sum RField id (encryptFields (rs_text S) (rs_enc S) n (r_tenant row) (kt_schema kt) merged)) (\<lambda>enc.
     Inr (plain, merged, blind, enc))))))"

definition write_patch ::
  "rstore \<Rightarrow> gotime \<Rightarrow> uuid option \<Rightarrow> raw_message \<Rightarrow> (string \<times> string) list option \<Rightarrow> krecord_row \<Rightarrow> 'a record_db_scheme
   \<Rightarrow> store_error + krecord_row \<times> 'a record_db_scheme" where
  "write_patch S now actor enc blind row db =
     (let row' = row\<lparr>r_data := rs_jsonb S enc, r_blind := blind, r_updatedBy := actor, r_updatedAt := pg_time now,
                     r_version := r_version row + 1\<rparr>
      in if \<not> valid_json enc \<or> \<not> int4 (r_version row + 1) then Inl RBadColumn else Inr (row', put_record row' db))"

definition update_tx ::
  "rstore \<Rightarrow> gotime \<Rightarrow> uuid \<Rightarrow> nat \<Rightarrow> krecord \<Rightarrow> 'a record_db_scheme \<Rightarrow> store_error + krecord \<times> 'a record_db_scheme" where
  "update_tx S now eid n r db =
     (case find_record (r_tenant r) (r_id r) db of
        None \<Rightarrow> Inl RNotFound
      | Some row \<Rightarrow>
          (if r_version r \<noteq> 0 \<and> r_version r \<noteq> r_version row then Inl RVersionConflict
           else
             rbind (resolveKType S (r_tenant r) (r_ktype row) (r_ktypeVersion row) ResolveForUpdate db) (\<lambda>kt.
             rbind (patched S n row kt (r_data r)) (\<lambda>(plain, merged, blind, enc).
             rbind (write_patch S now (r_updatedBy r) enc blind row db) (\<lambda>(row', db1).
             let updated = (to_record row')\<lparr>r_data := merged\<rparr>
             in rbind (emit S now eid updated ''krecord.updated'' (kt_schema kt) (r_updatedBy updated)
                         (r_ktype updated @ ''.update'') plain merged db1) (\<lambda>db2.
                Inr (updated, db2)))))))"

definition Update ::
  "rstore \<Rightarrow> gotime \<Rightarrow> uuid \<Rightarrow> nat \<Rightarrow> krecord \<Rightarrow> 'a record_db_scheme \<Rightarrow> (store_error + krecord) \<times> 'a record_db_scheme" where
  "Update S now eid n r db =
     (if r_tenant r = 0 \<or> r_id r = 0 then (Inl RTenantAndIDRequired, db)
      else WithTenantTx RTenantRequired (r_tenant r) (update_tx S now eid n r) db)"

text \<open>Marking a row as deleted, with its counter, event and audit entry; \<open>suffix\<close> is that of the audit action.\<close>

definition soft_delete ::
  "rstore \<Rightarrow> gotime \<Rightarrow> uuid \<Rightarrow> uuid option \<Rightarrow> string \<Rightarrow> krecord_row \<Rightarrow> 'a record_db_scheme
   \<Rightarrow> store_error + 'a record_db_scheme" where
  "soft_delete S now eid actor action row db =
     (let row' = row\<lparr>r_status := ''deleted'', r_deletedAt := Some (pg_time now), r_updatedAt := pg_time now,
                     r_updatedBy := actor, r_version := r_version row + 1\<rparr>
      in if \<not> int4 (r_version row + 1) then Inl RBadColumn
         else
           let db2 = BumpTenantRecordCount (r_tenant row) (- 1) (put_record row' db)
           in rbind (resolveKType S (r_tenant row) (r_ktype row) (r_ktypeVersion row) ResolveForRead db2) (\<lambda>kt.
              rbind (map_sum RField id
                      (decryptRecordWith (rs_text S) (rs_enc S) (r_tenant row) (kt_schema kt) (r_data row))) (\<lambda>plain.
              emit S now eid ((to_record row')\<lparr>r_data := plain\<rparr>) ''krecord.deleted'' (kt_schema kt) actor
                (r_ktype row @ action) plain plain db2)))"

definition actor_ptr :: "uuid \<Rightarrow> uuid option" where
  "actor_ptr actor = (if actor = 0 then None else Some actor)"

definition record_Delete ::
  "rstore \<Rightarrow> gotime \<Rightarrow> uuid \<Rightarrow> uuid \<Rightarrow> uuid \<Rightarrow> uuid \<Rightarrow> 'a record_db_scheme \<Rightarrow> (store_error + unit) \<times> 'a record_db_scheme" where
  "record_Delete S now eid t i actor db =
     WithTenantTx RTenantRequired t (\<lambda>db.
       case find_record t i db of
         None \<Rightarrow> Inl RNotFound
       | Some row \<Rightarrow>
           (if r_status row = ''deleted'' then Inl RNotFound
            else rbind (soft_delete S now eid (actor_ptr actor) ''.delete'' row db) (\<lambda>db'. Inr ((), db')))) db"


section \<open>Bulk operations\<close>

record bulkResult =
  br_succeeded :: "uuid list"
  br_failed :: "(uuid \<times> store_error) list"

definition no_result :: bulkResult where
  "no_result = \<lparr>br_succeeded = [], br_failed = []\<rparr>"

definition bulk_find :: "uuid \<Rightarrow> string \<Rightarrow> uuid \<Rightarrow> 'a record_db_scheme \<Rightarrow> krecord_row option" where
  "bulk_find t name i db = List.find (\<lambda>r. r_tenant r = t \<and> r_id r = i \<and> r_ktype r = name) (krecords db)"

definition bulkPatchOne ::
  "rstore \<Rightarrow> gotime \<Rightarrow> uuid \<Rightarrow> nat \<Rightarrow> uuid \<Rightarrow> string \<Rightarrow> uuid \<Rightarrow> raw_message \<Rightarrow> uuid option
   \<Rightarrow> bulkResult \<times> 'a record_db_scheme \<Rightarrow> store_error + bulkResult \<times> 'a record_db_scheme" where
  "bulkPatchOne S now eid n t name i patch actor st =
     (case st of (res, db) \<Rightarrow>
        case bulk_find t name i db of
          None \<Rightarrow> Inr (res\<lparr>br_failed := br_failed res @ [(i, RNotFound)]\<rparr>, db)
        | Some row \<Rightarrow>
            rbind (resolveKType S t (r_ktype row) (r_ktypeVersion row) ResolveForUpdate db) (\<lambda>kt.
              case patched S n row kt patch of
                Inl (RInvalid e) \<Rightarrow> Inr (res\<lparr>br_failed := br_failed res @ [(i, RInvalid e)]\<rparr>, db)
              | Inl e \<Rightarrow> Inl e
              | Inr (plain, merged, blind, enc) \<Rightarrow>
                  rbind (write_patch S now actor enc blind row db) (\<lambda>(row', db1).
                  let updated = (to_record row')\<lparr>r_data := merged\<rparr>
                  in rbind (emit S now eid updated ''krecord.updated'' (kt_schema kt) (r_updatedBy updated)
                              (r_ktype updated @ ''.bulk_update'') plain merged db1) (\<lambda>db2.
                     Inr (res\<lparr>br_succeeded := br_succeeded res @ [i]\<rparr>, db2)))))"

definition bulkDeleteOne ::
  "rstore \<Rightarrow> gotime \<Rightarrow> uuid \<Rightarrow> uuid \<Rightarrow> string \<Rightarrow> uuid \<Rightarrow> uuid option
   \<Rightarrow> bulkResult \<times> 'a record_db_scheme \<Rightarrow> store_error + bulkResult \<times> 'a record_db_scheme" where
  "bulkDeleteOne S now eid t name i actor st =
     (case st of (res, db) \<Rightarrow>
        case bulk_find t name i db of
          None \<Rightarrow> Inr (res\<lparr>br_failed := br_failed res @ [(i, RNotFound)]\<rparr>, db)
        | Some row \<Rightarrow>
            (if r_status row = ''deleted'' then Inr (res\<lparr>br_failed := br_failed res @ [(i, RNotFound)]\<rparr>, db)
             else rbind (soft_delete S now eid actor ''.bulk_delete'' row db) (\<lambda>db'.
                    Inr (res\<lparr>br_succeeded := br_succeeded res @ [i]\<rparr>, db'))))"

text \<open>One step per id, in order; every step draws an event id and nonces of its own.\<close>

fun bulk_loop :: "(uuid \<times> uuid \<times> nat \<Rightarrow> 'st \<Rightarrow> 'e + 'st) \<Rightarrow> (uuid \<times> uuid \<times> nat) list \<Rightarrow> 'st \<Rightarrow> 'e + 'st" where
  "bulk_loop f [] st = Inr st"
| "bulk_loop f (x # xs) st = rbind (f x st) (bulk_loop f xs)"

definition BulkPatch ::
  "rstore \<Rightarrow> gotime \<Rightarrow> uuid \<Rightarrow> string \<Rightarrow> (uuid \<times> uuid \<times> nat) list \<Rightarrow> raw_message \<Rightarrow> uuid \<Rightarrow> 'a record_db_scheme
   \<Rightarrow> (store_error + bulkResult) \<times> 'a record_db_scheme" where
  "BulkPatch S now t name ids patch actor db =
     (if t = 0 then (Inl RTenantRequired, db)
      else if name = [] then (Inl RKTypeRequired, db)
      else if ids = [] then (Inr no_result, db)
      else let p = (if raw_text patch = [] then \<lparr>raw_text = ''{}'', raw_json = Some (JObj [])\<rparr> else patch)
           in WithTenantTx RTenantRequired t (\<lambda>db.
                bulk_loop (\<lambda>(i, eid, n). bulkPatchOne S now eid n t name i p (actor_ptr actor)) ids (no_result, db)) db)"

definition BulkDelete ::
  "rstore \<Rightarrow> gotime \<Rightarrow> uuid \<Rightarrow> string \<Rightarrow> (uuid \<times> uuid \<times> nat) list \<Rightarrow> uuid \<Rightarrow> 'a record_db_scheme
   \<Rightarrow> (store_error + bulkResult) \<times> 'a record_db_scheme" where
  "BulkDelete S now t name ids actor db =
     (if t = 0 then (Inl RTenantRequired, db)
      else if name = [] then (Inl RKTypeRequired, db)
      else if ids = [] then (Inr no_result, db)
      else WithTenantTx RTenantRequired t (\<lambda>db.
             bulk_loop (\<lambda>(i, eid, n). bulkDeleteOne S now eid t name i (actor_ptr actor)) ids (no_result, db)) db)"

end
