(* ===== verification/Record_Correct.thy ===== *)
theory Record_Correct
  imports Record_Store
begin

text \<open>
  Correctness of the record store of \<open>Record_Store\<close>: the invariant of its tables under any sequence of
  operations, what is read back after a write, optimistic locking and deletion. The laws used for
  external code are those of \<open>Audit_Log\<close>, \<open>Record_Protection\<close> and \<open>Tenant_Keys\<close>, and that a JSON object stored
  as JSONB is read back with the same members (\<open>jsonb_keeps\<close>).
\<close>

section \<open>Payloads stay decodable\<close>

definition jsonb_keeps :: "audit_lib \<Rightarrow> bool" where
  "jsonb_keeps A \<longleftrightarrow> (\<forall>r. raw_text r \<noteq> [] \<longrightarrow> payload_of r \<noteq> None \<longrightarrow> same_payload r (jsonb A r))"

lemma same_payload_defined: "same_payload a b \<Longrightarrow> payload_of a \<noteq> None \<and> payload_of b \<noteq> None"
  by (auto simp: same_payload_def)

lemma payload_decoded: "payload_of r \<noteq> None \<Longrightarrow> valid_json r \<Longrightarrow> decoded r \<noteq> None"
  by (auto simp: payload_of_def valid_json_def decoded_def unmarshal_object_def split: if_splits option.splits any.splits)

lemma marshal_decodable:
  "marshal_any a = Some j \<Longrightarrow> unmarshal_any j \<noteq> None"
  "marshal_anys as = Some js \<Longrightarrow> unmarshal_anys js \<noteq> None"
  "marshal_members m = Some ps \<Longrightarrow> unmarshal_members ps \<noteq> None"
  by (induction a and as and m arbitrary: j and js and ps rule: marshal_any_marshal_anys_marshal_members.induct)
    (fastforce split: option.splits)+

lemma marshal_doc_decoded: "marshal_doc jt d = Some r \<Longrightarrow> decoded r \<noteq> None"
  using marshal_decodable(1)[of "AMap d"] by (auto simp: marshal_doc_def simp del: marshal_any.simps unmarshal_any.simps)

lemma ValidateData_payload: "fst (ValidateData K sch data c) = Inr u \<Longrightarrow> payload_of data \<noteq> None"
  by (auto simp: ValidateData_def payload_of_def split: option.splits if_splits)

lemma unmarshalData_payload: "unmarshalData data = Inr d \<longleftrightarrow> payload_of data = Some d"
  by (auto simp: unmarshalData_def split: option.splits)

lemma encryptFields_payload:
  assumes "text_law jt" "encryptFields jt enc n t sch data = Inr out" "payload_of data \<noteq> None"
  shows "payload_of out \<noteq> None"
proof (cases "out = data")
  case False
  then obtain e fs doc doc' where "unmarshalData data = Inr doc" "encrypt_loop e t n fs doc False = Inr (doc', True)"
    "marshal_doc jt doc' = Some out"
    using assms(2) by (auto simp: encryptFields_def rbind_eq_Inr split: option.split_asm if_split_asm)
  then have "payload_of out = Some doc'"
    using encrypt_doc_ok[OF _ payload_ok] payload_marshal[OF assms(1)] unmarshalData_payload by blast
  then show ?thesis by simp
qed (use assms(3) in simp)

lemma decrypt_doc_ok: "decrypt_loop e t fs doc ch = Inr (doc', ch') \<Longrightarrow> doc_ok doc \<Longrightarrow> doc_ok doc'"
proof (induction fs arbitrary: doc ch)
  case (Cons f fs)
  then show ?case using doc_ok_set_leaf[of doc "AStr u" for u]
    by (auto split: option.splits any.splits if_splits)
qed simp

lemma decryptRecordWith_payload:
  assumes "text_law jt" "decryptRecordWith jt enc t sch data = Inr out" "payload_of data \<noteq> None"
  shows "payload_of out \<noteq> None"
proof (cases "out = data")
  case False
  then obtain e fs doc doc' where "unmarshalData data = Inr doc" "decrypt_loop e t fs doc False = Inr (doc', True)"
    "marshal_doc jt doc' = Some out"
    using assms(2) by (auto simp: decryptRecordWith_def rbind_eq_Inr split: option.split_asm if_split_asm)
  then have "payload_of out = Some doc'"
    using decrypt_doc_ok[OF _ payload_ok] payload_marshal[OF assms(1)] unmarshalData_payload by blast
  then show ?thesis by simp
qed (use assms(3) in simp)

lemma RedactData_decoded:
  assumes "valid_json data \<longrightarrow> decoded data \<noteq> None"
  shows "valid_json (RedactData jt sch data) \<longrightarrow> decoded (RedactData jt sch data) \<noteq> None"
proof (cases "RedactData jt sch data = data")
  case False
  then obtain d where "marshal_doc jt d = Some (RedactData jt sch data)"
    by (auto simp: RedactData_def Let_def split: sum.split_asm if_split_asm option.split_asm prod.split_asm)
  with marshal_doc_decoded show ?thesis by blast
qed (use assms in simp)

text \<open>The members of a summary are strings and lists of strings.\<close>

lemma unmarshal_strs [simp]: "unmarshal_anys (map JStr xs) = Some (map AStr xs)"
  by (induction xs) auto

definition members_decodable :: "(string \<times> json) list \<Rightarrow> bool" where
  "members_decodable ps \<longleftrightarrow> (\<forall>p \<in> set ps. unmarshal_any (snd p) \<noteq> None)"

lemma members_decoded: "members_decodable ps \<Longrightarrow> unmarshal_any (JObj ps) \<noteq> None"
proof -
  assume "members_decodable ps"
  then have "unmarshal_members ps \<noteq> None"
    by (induction ps) (auto simp: members_decodable_def split: option.splits)
  then show ?thesis by simp
qed

lemma members_update: "members_decodable ps \<Longrightarrow> unmarshal_any v \<noteq> None \<Longrightarrow> members_decodable (AList.update k v ps)"
  by (induction ps) (auto simp: members_decodable_def)

lemma add_hashes_decodable: "members_decodable out \<Longrightarrow> members_decodable (add_hashes h t b a f out)"
  by (simp add: add_hashes_def Let_def members_update split: option.split)

lemma diff_members_decodable: "members_decodable (diff_members sch before after hasher t)"
proof -
  have "members_decodable (fold (\<lambda>f out. if p f then add_hashes h t b a f out else out) fs out)"
    if "members_decodable out" for p h b a fs and out :: "(string \<times> json) list"
    using that by (induction fs arbitrary: out) (simp_all add: add_hashes_decodable)
  moreover have "members_decodable [(x, JArr (map JStr xs)), (y, JArr (map JStr ys))]" for x xs y ys
    by (simp add: members_decodable_def)
  ultimately show ?thesis by (simp add: diff_members_def Let_def split: option.split)
qed


section \<open>Emission\<close>

lemma emit_ok:
  assumes "emit S now eid r ty sch actor act before after db = Inr db'"
  shows "kernel_only db db'"
    and "\<exists>ev. events db' = events db @ [ev] \<and> ev_tenant ev = r_tenant r \<and> ev_type ev = ty"
    and "\<exists>l. audit_log db' = audit_log db @ [l] \<and> al_tenant l = r_tenant r \<and> al_action l = act \<and> al_actor l = actor
           \<and> al_target l = Some (r_id r)"
  using assms
  by (auto simp: emit_def Let_def rbind_eq_Inr kernel_only_def elim!: map_sum_InrE EmitTx_ok LogTx_shape)

lemma emit_inv:
  assumes "kernel_inv (rs_engine S) db" "jsonb_law (eng_audit (rs_engine S))"
    and "emit S now eid r ty sch actor act before after db = Inr db'"
    and "valid_json before \<longrightarrow> decoded before \<noteq> None" "valid_json after \<longrightarrow> decoded after \<noteq> None"
  shows "kernel_inv (rs_engine S) db'"
proof -
  let ?jt = "rs_text S" and ?A = "eng_audit (rs_engine S)"
  obtain ev ent db1 where e: "EmitTx now eid ev db = Inr db1" and l: "LogTx ?A now ent db1 = Inr db'"
    and ent: "ae_before ent = RedactData ?jt sch before" "ae_after ent = RedactData ?jt sch after"
      "ae_context ent = raw_of ?jt (JObj (diff_members sch before after (rs_hasher S) (r_tenant r)))"
    using assms(3) by (auto simp: emit_def Let_def rbind_eq_Inr elim!: map_sum_InrE)
  have dec: "entry_decodable ent"
    using RedactData_decoded[OF assms(4)] RedactData_decoded[OF assms(5)] members_decoded[OF diff_members_decodable]
    by (auto simp: entry_decodable_def ent simp del: unmarshal_any.simps)
  have "outbox_inv db1" using assms(1) e step_invs by (auto simp: kernel_inv_def)
  moreover have "audit_inv ?A db1" using assms(1) e audit_inv_events by (auto simp: kernel_inv_def elim!: EmitTx_ok)
  ultimately show ?thesis
    using LogTx_inv[OF _ l assms(2) dec] LogTx_shape[OF l] outbox_inv_audit unfolding kernel_inv_def by metis
qed

lemma kernel_only_tables:
  assumes "kernel_only db db'"
  shows "krecords db' = krecords db" "record_counts db' = record_counts db" "tenant_ktypes db' = tenant_ktypes db"
    "ktypes db' = ktypes db"
proof -
  have "db' = db\<lparr>events := events db', audit_log := audit_log db', audit_seq := audit_seq db'\<rparr>"
    using assms by (simp add: kernel_only_def)
  then obtain x y z where "db' = db\<lparr>events := x, audit_log := y, audit_seq := z\<rparr>" by blast
  then show "krecords db' = krecords db" "record_counts db' = record_counts db" "tenant_ktypes db' = tenant_ktypes db"
    "ktypes db' = ktypes db" by simp_all
qed


section \<open>The invariant of the tables\<close>

text \<open>
  The counter of a tenant is the number of its rows without a deletion time; a row with one has status
  'deleted'. Keys are unique, every payload is a JSON object, times have the precision of the column.
\<close>

definition active_rows :: "uuid \<Rightarrow> 'a record_db_scheme \<Rightarrow> krecord_row list" where
  "active_rows t db = filter (\<lambda>r. r_tenant r = t \<and> r_deletedAt r = None) (krecords db)"

definition counter :: "uuid \<Rightarrow> 'a record_db_scheme \<Rightarrow> int" where
  "counter t db = (case record_counts db t of None \<Rightarrow> 0 | Some n \<Rightarrow> n)"

definition record_row_ok :: "krecord_row \<Rightarrow> bool" where
  "record_row_ok r \<longleftrightarrow>
     payload_of (r_data r) \<noteq> None \<and> (r_deletedAt r \<noteq> None \<longrightarrow> r_status r = ''deleted'') \<and> pg_time (r_updatedAt r) = r_updatedAt r"

lemma pg_time_idem [simp]: "pg_time (pg_time x) = pg_time x"
  by (simp add: pg_time_def)

definition record_inv :: "rstore \<Rightarrow> 'a record_db_scheme \<Rightarrow> bool" where
  "record_inv S db \<longleftrightarrow>
     kernel_inv (rs_engine S) db \<and> distinct (map row_key (krecords db)) \<and> list_all record_row_ok (krecords db)
     \<and> (\<forall>t. counter t db = int (length (active_rows t db)))"

definition store_law :: "rstore \<Rightarrow> bool" where
  "store_law S \<longleftrightarrow> text_law (rs_text S) \<and> jsonb_law (eng_audit (rs_engine S)) \<and> jsonb_keeps (eng_audit (rs_engine S))"

lemma kernel_inv_records [simp]:
  "kernel_inv E (db\<lparr>krecords := rows\<rparr>) = kernel_inv E db" "kernel_inv E (db\<lparr>record_counts := c\<rparr>) = kernel_inv E db"
  by (simp_all add: kernel_inv_def outbox_inv_def audit_inv_def tenant_rows_def)

lemma jsonb_payload:
  assumes "store_law S" "valid_json data" "payload_of data \<noteq> None"
  shows "same_payload data (rs_jsonb S data)"
  using assms by (auto simp: store_law_def jsonb_keeps_def rs_jsonb_def valid_json_def)

lemma count_update_row:
  assumes "distinct (map key rows)" "row \<in> set rows" "key row' = key row"
  shows "int (length (filter p (update_rows (\<lambda>r. key r = key row') (\<lambda>_. row') rows)))
           = int (length (filter p rows)) + of_bool (p row') - of_bool (p row)"
  using assms
proof (induction rows)
  case (Cons x xs)
  have other: "update_rows (\<lambda>r. key r = key row') (\<lambda>_. row') xs = xs" if "key row' \<notin> key ` set xs"
    using that unfolding update_rows_def by (intro map_idI) (metis image_eqI)
  show ?case
  proof (cases "x = row")
    case True
    with Cons.prems other show ?thesis by (auto simp: update_rows_def)
  next
    case False
    with Cons.prems have "row \<in> set xs" "key x \<noteq> key row'" by (auto simp: image_iff)
    with Cons show ?thesis by (auto simp: update_rows_def)
  qed
qed simp

lemma find_record_mem: "find_record t i db = Some row \<Longrightarrow> row \<in> set (krecords db) \<and> r_tenant row = t \<and> r_id row = i"
  by (auto simp: find_record_def row_key_def dest: find_SomeD)

lemma bulk_find_mem:
  "bulk_find t name i db = Some row \<Longrightarrow> row \<in> set (krecords db) \<and> r_tenant row = t \<and> r_id row = i \<and> r_ktype row = name"
  by (auto simp: bulk_find_def dest: find_SomeD)

lemma find_record_unique:
  "record_inv S db \<Longrightarrow> row \<in> set (krecords db) \<Longrightarrow> find_record (r_tenant row) (r_id row) db = Some row"
  using find_key_unique[of row_key "krecords db" row] by (simp add: record_inv_def find_record_def row_key_def)

lemma put_keys: "map row_key (krecords (put_record row db)) = map row_key (krecords db)"
  using map_update_const[of row_key row] by (simp add: put_record_def)

lemma put_rows_ok: "list_all record_row_ok (krecords db) \<Longrightarrow> record_row_ok row \<Longrightarrow> list_all record_row_ok (krecords (put_record row db))"
  by (auto simp: put_record_def list_all_iff set_update_rows)

lemma put_active:
  assumes "distinct (map row_key (krecords db))" "row \<in> set (krecords db)" "row_key row' = row_key row"
  shows "int (length (active_rows t (put_record row' db))) =
     int (length (active_rows t db)) + of_bool (r_tenant row' = t \<and> r_deletedAt row' = None)
       - of_bool (r_tenant row = t \<and> r_deletedAt row = None)"
  unfolding active_rows_def put_record_def by (simp add: count_update_row[OF assms])

lemma record_inv_emit:
  assumes "record_inv S db" "store_law S" "emit S now eid r ty sch actor act before after db = Inr db'"
    and "valid_json before \<longrightarrow> decoded before \<noteq> None" "valid_json after \<longrightarrow> decoded after \<noteq> None"
  shows "record_inv S db'"
proof -
  have "kernel_inv (rs_engine S) db'"
    using assms(1,2) emit_inv[OF _ _ assms(3-5)] by (simp add: record_inv_def store_law_def)
  with assms(1) kernel_only_tables[OF emit_ok(1)[OF assms(3)]] show ?thesis
    by (simp add: record_inv_def active_rows_def counter_def)
qed

lemma record_inv_put:
  assumes "record_inv S db" "row \<in> set (krecords db)" "row_key row' = row_key row" "record_row_ok row'"
    and "r_deletedAt row' = r_deletedAt row"
  shows "record_inv S (put_record row' db)"
proof -
  have d: "distinct (map row_key (krecords db))" and k: "kernel_inv (rs_engine S) db"
    and ok: "list_all record_row_ok (krecords db)" and c: "counter t db = int (length (active_rows t db))" for t
    using assms(1) by (auto simp: record_inv_def)
  have "r_tenant row' = r_tenant row" using assms(3) by (simp add: row_key_def)
  then have "counter t (put_record row' db) = int (length (active_rows t (put_record row' db)))" for t
    using put_active[OF d assms(2,3)] c assms(5) by (simp add: counter_def put_record_def)
  moreover have "kernel_inv (rs_engine S) (put_record row' db)" using k by (simp add: put_record_def)
  ultimately show ?thesis using put_keys[of row' db] put_rows_ok[OF ok assms(4)] d by (simp add: record_inv_def)
qed


lemma counter_bump:
  "counter t' (BumpTenantRecordCount t d db) = (if t' = t \<and> d \<noteq> 0 then max (counter t db + d) 0 else counter t' db)"
  by (simp add: BumpTenantRecordCount_def counter_def split: option.split)

lemma bump_tables [simp]:
  "krecords (BumpTenantRecordCount t d db) = krecords db" "active_rows t' (BumpTenantRecordCount t d db) = active_rows t' db"
  "kernel_inv E (BumpTenantRecordCount t d db) = kernel_inv E db"
  "tenant_ktypes (BumpTenantRecordCount t d db) = tenant_ktypes db"
  "events (BumpTenantRecordCount t d db) = events db" "audit_log (BumpTenantRecordCount t d db) = audit_log db"
  by (simp_all add: BumpTenantRecordCount_def active_rows_def)

lemma insert_record_ok:
  assumes "insert_record S now r data blind db = Inr (row, db1)"
  shows "db1 = db\<lparr>krecords := krecords db @ [row]\<rparr>" "find_record (r_tenant r) (r_id r) db = None" "valid_json data"
    "r_data row = rs_jsonb S data" "r_deletedAt row = None" "row_key row = (r_tenant r, r_id r)"
    "r_tenant row = r_tenant r" "r_id row = r_id r" "r_ktype row = r_ktype r" "r_ktypeVersion row = r_ktypeVersion r"
    "r_status row = r_status r" "r_version row = r_version r" "r_createdBy row = r_createdBy r" "r_updatedAt row = pg_time now"
  using assms by (auto simp: insert_record_def Let_def row_key_def split: if_splits)

lemma find_record_None: "find_record t i db = None \<longleftrightarrow> (t, i) \<notin> set (map row_key (krecords db))"
  by (auto simp: find_record_def find_None_iff image_iff)

lemma insert_record_inv:
  assumes "record_inv S db" "store_law S" "insert_record S now r data blind db = Inr (row, db1)" "payload_of data \<noteq> None"
  shows "record_inv S (BumpTenantRecordCount (r_tenant row) 1 db1)"
proof -
  note ins = insert_record_ok[OF assms(3)]
  have "record_row_ok row"
    using jsonb_payload[OF assms(2) ins(3) assms(4)] ins(4,5,14) by (auto simp: record_row_ok_def dest: same_payload_defined)
  moreover have "row_key row \<notin> set (map row_key (krecords db))" using ins(2,6) find_record_None by metis
  moreover have "active_rows t db1 = active_rows t db @ (if t = r_tenant row then [row] else [])" for t
    using ins(1,5) by (simp add: active_rows_def)
  moreover have "counter t db1 = counter t db" for t using ins(1) by (simp add: counter_def)
  ultimately show ?thesis using assms(1) ins(1) by (auto simp: record_inv_def counter_bump)
qed

lemma create_tx_inv:
  assumes "record_inv S db" "store_law S" "create_tx S now eid r sch plain enc blind db = Inr (c, db')"
    and "payload_of plain \<noteq> None" "payload_of enc \<noteq> None"
  shows "record_inv S db'"
proof -
  obtain row db1 where ins: "insert_record S now r enc blind db = Inr (row, db1)"
    and em: "emit S now eid ((to_record row)\<lparr>r_data := plain\<rparr>) ''krecord.created'' sch
        (Some (r_createdBy ((to_record row)\<lparr>r_data := plain\<rparr>))) (r_ktype ((to_record row)\<lparr>r_data := plain\<rparr>) @ ''.create'')
        no_json plain (BumpTenantRecordCount (r_tenant row) 1 db1) = Inr db'"
    using assms(3) by (auto simp: create_tx_def rbind_eq_Inr Let_def)
  show ?thesis
    by (rule record_inv_emit[OF insert_record_inv[OF assms(1,2) ins assms(5)] assms(2) em])
      (use payload_decoded[OF assms(4)] in \<open>auto simp: no_json_def valid_json_def\<close>)
qed

lemma write_patch_inv:
  assumes "record_inv S db" "store_law S" "row \<in> set (krecords db)"
    and "write_patch S now actor enc blind row db = Inr (row', db1)" "payload_of enc \<noteq> None"
  shows "record_inv S db1"
proof -
  have w: "db1 = put_record row' db" "row_key row' = row_key row" "r_deletedAt row' = r_deletedAt row"
    "r_status row' = r_status row" "r_data row' = rs_jsonb S enc" "valid_json enc" "r_updatedAt row' = pg_time now"
    using assms(4) by (auto simp: write_patch_def Let_def row_key_def split: if_splits)
  have "record_row_ok row" using assms(1,3) by (auto simp: record_inv_def list_all_iff)
  then have "record_row_ok row'"
    using w jsonb_payload[OF assms(2) w(6) assms(5)] by (auto simp: record_row_ok_def dest: same_payload_defined)
  with record_inv_put[OF assms(1,3) w(2) _ w(3)] w(1) show ?thesis by simp
qed

lemma mergeJSON_defined:
  assumes "text_law jt" "mergeJSON jt base patch = Inr out" "payload_of base \<noteq> None"
  shows "payload_of out \<noteq> None"
proof (cases "payload_of patch")
  case None
  with assms(2) show ?thesis by (auto simp: mergeJSON_def payload_of_def Let_def split: if_splits option.splits)
next
  case (Some p)
  with assms mergeJSON_payload[OF assms(1) _ Some assms(2)] show ?thesis by (metis option.exhaust option.simps(3))
qed

lemma patched_payloads:
  assumes "store_law S" "patched S n row kt patch = Inr (plain, merged, blind, enc)" "payload_of (r_data row) \<noteq> None"
  shows "payload_of plain \<noteq> None" "payload_of merged \<noteq> None" "payload_of enc \<noteq> None"
proof -
  have jt: "text_law (rs_text S)" using assms(1) by (simp add: store_law_def)
  have p: "decryptRecordWith (rs_text S) (rs_enc S) (r_tenant row) (kt_schema kt) (r_data row) = Inr plain"
    "mergeJSON (rs_text S) plain patch = Inr merged"
    "encryptFields (rs_text S) (rs_enc S) n (r_tenant row) (kt_schema kt) merged = Inr enc"
    using assms(2) by (auto simp: patched_def rbind_eq_Inr elim!: map_sum_InrE)
  show plain: "payload_of plain \<noteq> None" by (rule decryptRecordWith_payload[OF jt p(1) assms(3)])
  show merged: "payload_of merged \<noteq> None" by (rule mergeJSON_defined[OF jt p(2) plain])
  show "payload_of enc \<noteq> None" by (rule encryptFields_payload[OF jt p(3) merged])
qed

text \<open>Write and emit, the end of an update and of a step of a bulk patch.\<close>

lemma patch_inv:
  assumes inv: "record_inv S db" and law: "store_law S" and row: "row \<in> set (krecords db)"
    and p: "patched S n row kt patch = Inr (plain, merged, blind, enc)"
    and w: "write_patch S now actor enc blind row db = Inr (row', db1)"
    and e: "emit S now eid r ty sch actor' act plain merged db1 = Inr db2"
  shows "record_inv S db2"
proof -
  have "payload_of (r_data row) \<noteq> None" using inv row by (auto simp: record_inv_def list_all_iff record_row_ok_def)
  note pl = patched_payloads[OF law p this]
  show ?thesis
    by (rule record_inv_emit[OF write_patch_inv[OF inv law row w pl(3)] law e]) (use pl payload_decoded in blast)+
qed

lemma update_tx_inv:
  assumes "record_inv S db" "store_law S" "update_tx S now eid n r db = Inr (u, db')"
  shows "record_inv S db'"
  using assms
  by (auto simp: update_tx_def rbind_eq_Inr Let_def split: option.split_asm if_split_asm prod.split_asm
      dest!: find_record_mem intro: patch_inv[OF assms(1,2)])

text \<open>What a deletion makes of a row.\<close>

definition tombstone :: "gotime \<Rightarrow> uuid option \<Rightarrow> krecord_row \<Rightarrow> krecord_row" where
  "tombstone now actor row = row\<lparr>r_status := ''deleted'', r_deletedAt := Some (pg_time now), r_updatedAt := pg_time now,
     r_updatedBy := actor, r_version := r_version row + 1\<rparr>"

lemma map_sum_Inr [simp]: "map_sum f id x = Inr y \<longleftrightarrow> x = Inr y"
  by (cases x) auto

lemma soft_delete_ok:
  "soft_delete S now eid actor act row db = Inr db' \<longleftrightarrow>
     int4 (r_version row + 1) \<and>
     (\<exists>kt plain.
        let db2 = BumpTenantRecordCount (r_tenant row) (- 1) (put_record (tombstone now actor row) db)
        in resolveKType S (r_tenant row) (r_ktype row) (r_ktypeVersion row) ResolveForRead db2 = Inr kt
           \<and> decryptRecordWith (rs_text S) (rs_enc S) (r_tenant row) (kt_schema kt) (r_data row) = Inr plain
           \<and> emit S now eid ((to_record (tombstone now actor row))\<lparr>r_data := plain\<rparr>) ''krecord.deleted'' (kt_schema kt) actor
                (r_ktype row @ act) plain plain db2 = Inr db')"
  by (simp add: soft_delete_def tombstone_def Let_def rbind_eq_Inr)

lemma soft_delete_inv:
  assumes inv: "record_inv S db" and law: "store_law S" and row: "row \<in> set (krecords db)" "r_status row \<noteq> ''deleted''"
    and d: "soft_delete S now eid actor act row db = Inr db'"
  shows "record_inv S db'"
proof -
  define row' where "row' = tombstone now actor row"
  let ?db2 = "BumpTenantRecordCount (r_tenant row) (- 1) (put_record row' db)"
  obtain kt :: ktype and plain where
      plain: "decryptRecordWith (rs_text S) (rs_enc S) (r_tenant row) (kt_schema kt) (r_data row) = Inr plain"
    and em: "emit S now eid ((to_record row')\<lparr>r_data := plain\<rparr>) ''krecord.deleted'' (kt_schema kt) actor
                (r_ktype row @ act) plain plain ?db2 = Inr db'"
    using d unfolding soft_delete_ok Let_def row'_def by blast
  have ok: "record_row_ok row" and dis: "distinct (map row_key (krecords db))"
    using inv row by (auto simp: record_inv_def list_all_iff)
  have act: "r_deletedAt row = None" using ok row(2) by (auto simp: record_row_ok_def)
  have key: "row_key row' = row_key row" by (simp add: row'_def tombstone_def row_key_def)
  have "int (length (active_rows t (put_record row' db))) = int (length (active_rows t db)) - of_bool (t = r_tenant row)" for t
    using put_active[OF dis row(1) key, of t] act by (auto simp: row'_def tombstone_def)
  moreover have "counter t (put_record row' db) = int (length (active_rows t db))" for t
    using inv by (simp add: record_inv_def counter_def put_record_def)
  moreover have "record_row_ok row'" using ok by (simp add: record_row_ok_def row'_def tombstone_def)
  moreover have "1 \<le> int (length (active_rows (r_tenant row) db))"
    using length_pos_if_in_set[of row "active_rows (r_tenant row) db"] row(1) act by (auto simp: active_rows_def Suc_le_eq)
  ultimately have "record_inv S ?db2"
    using inv put_keys[of row' db] put_rows_ok[of db row'] by (auto simp: record_inv_def counter_bump put_record_def[of row' db])
  moreover have "payload_of plain \<noteq> None"
    using decryptRecordWith_payload[OF _ plain] ok law by (simp add: record_row_ok_def store_law_def)
  ultimately show ?thesis using record_inv_emit[OF _ law em] payload_decoded by blast
qed

lemma bulkPatchOne_cases:
  assumes "bulkPatchOne S now eid n t name i patch actor (res, db) = Inr (res', db')"
  obtains (failed) e where "res' = res\<lparr>br_failed := br_failed res @ [(i, e)]\<rparr>" "db' = db"
  | (ok) row kt plain merged blind enc row' db1 where
    "bulk_find t name i db = Some row"
    "resolveKType S t (r_ktype row) (r_ktypeVersion row) ResolveForUpdate db = Inr kt"
    "patched S n row kt patch = Inr (plain, merged, blind, enc)"
    "write_patch S now actor enc blind row db = Inr (row', db1)"
    "emit S now eid ((to_record row')\<lparr>r_data := merged\<rparr>) ''krecord.updated'' (kt_schema kt)
       (r_updatedBy ((to_record row')\<lparr>r_data := merged\<rparr>)) (r_ktype ((to_record row')\<lparr>r_data := merged\<rparr>) @ ''.bulk_update'')
       plain merged db1 = Inr db'"
    "res' = res\<lparr>br_succeeded := br_succeeded res @ [i]\<rparr>"
proof (cases "bulk_find t name i db")
  case None
  with assms failed show ?thesis by (auto simp: bulkPatchOne_def)
next
  case (Some row)
  with assms obtain kt where kt: "resolveKType S t (r_ktype row) (r_ktypeVersion row) ResolveForUpdate db = Inr kt"
    by (auto simp: bulkPatchOne_def rbind_eq_Inr)
  show ?thesis
  proof (cases "patched S n row kt patch")
    case (Inl e)
    with assms Some kt failed show ?thesis by (cases e) (auto simp: bulkPatchOne_def)
  next
    case (Inr p)
    obtain plain merged blind enc where p: "p = (plain, merged, blind, enc)" by (cases p)
    with assms Some kt Inr ok show ?thesis by (auto simp: bulkPatchOne_def rbind_eq_Inr Let_def)
  qed
qed

lemma bulkPatchOne_inv:
  assumes "record_inv S (snd st)" "store_law S" "bulkPatchOne S now eid n t name i patch actor st = Inr st'"
  shows "record_inv S (snd st')"
proof -
  obtain res db res' db' where st: "st = (res, db)" "st' = (res', db')" by fastforce
  with assms have inv: "record_inv S db" and step: "bulkPatchOne S now eid n t name i patch actor (res, db) = Inr (res', db')"
    by auto
  from step show ?thesis
  proof (cases rule: bulkPatchOne_cases)
    case failed
    with inv st show ?thesis by simp
  next
    case ok
    with patch_inv[OF inv assms(2)] bulk_find_mem[OF ok(1)] st show ?thesis by simp blast
  qed
qed

lemma bulkDeleteOne_inv:
  assumes "record_inv S (snd st)" "store_law S" "bulkDeleteOne S now eid t name i actor st = Inr st'"
  shows "record_inv S (snd st')"
  using assms(1,3)
  by (auto simp: bulkDeleteOne_def rbind_eq_Inr split: option.split_asm if_split_asm prod.split_asm
      dest!: bulk_find_mem intro: soft_delete_inv[OF assms(1,2)])

lemma bulk_loop_keeps:
  assumes "\<And>x s s'. I s \<Longrightarrow> f x s = Inr s' \<Longrightarrow> I s'"
  shows "I s \<Longrightarrow> bulk_loop f xs s = Inr s' \<Longrightarrow> I s'"
  by (induction xs arbitrary: s) (simp_all add: rbind_eq_Inr, metis assms)

lemma bulk_patch_inv:
  assumes "bulk_loop (\<lambda>(i, eid, n). bulkPatchOne S now eid n t name i patch actor) ids (no_result, db) = Inr (res, db')"
    and "record_inv S db" "store_law S"
  shows "record_inv S db'"
proof -
  have "record_inv S (snd (res, db'))"
    by (rule bulk_loop_keeps[where I = "\<lambda>st. record_inv S (snd st)", OF _ _ assms(1)])
      (use assms(2) bulkPatchOne_inv[OF _ assms(3)] in \<open>auto split: prod.split_asm\<close>)
  then show ?thesis by simp
qed

lemma bulk_delete_inv:
  assumes "bulk_loop (\<lambda>(i, eid, n). bulkDeleteOne S now eid t name i actor) ids (no_result, db) = Inr (res, db')"
    and "record_inv S db" "store_law S"
  shows "record_inv S db'"
proof -
  have "record_inv S (snd (res, db'))"
    by (rule bulk_loop_keeps[where I = "\<lambda>st. record_inv S (snd st)", OF _ _ assms(1)])
      (use assms(2) bulkDeleteOne_inv[OF _ assms(3)] in \<open>auto split: prod.split_asm\<close>)
  then show ?thesis by simp
qed

datatype record_op =
    ROCreate gotime uuid uuid nat krecord
  | ROUpdate gotime uuid nat krecord
  | RODelete gotime uuid uuid uuid uuid
  | ROBulkPatch gotime uuid string "(uuid \<times> uuid \<times> nat) list" raw_message uuid
  | ROBulkDelete gotime uuid string "(uuid \<times> uuid \<times> nat) list" uuid

fun record_step :: "rstore \<Rightarrow> record_op \<Rightarrow> 'a record_db_scheme \<Rightarrow> (store_error + unit) \<times> 'a record_db_scheme" where
  "record_step S (ROCreate now newid eid n r) db = map_prod (map_sum id (\<lambda>_. ())) id (Create S now newid eid n r db)"
| "record_step S (ROUpdate now eid n r) db = map_prod (map_sum id (\<lambda>_. ())) id (Update S now eid n r db)"
| "record_step S (RODelete now eid t i actor) db = record_Delete S now eid t i actor db"
| "record_step S (ROBulkPatch now t name ids patch actor) db =
     map_prod (map_sum id (\<lambda>_. ())) id (BulkPatch S now t name ids patch actor db)"
| "record_step S (ROBulkDelete now t name ids actor) db =
     map_prod (map_sum id (\<lambda>_. ())) id (BulkDelete S now t name ids actor db)"

text \<open>An operation fails with the state unchanged or keeps the invariant.\<close>

definition settled :: "rstore \<Rightarrow> 'a record_db_scheme \<Rightarrow> (store_error + 'b) \<times> 'a record_db_scheme \<Rightarrow> bool" where
  "settled S db res \<longleftrightarrow>
     (case res of (Inl _, db') \<Rightarrow> db' = db | (Inr _, db') \<Rightarrow> record_inv S db \<longrightarrow> store_law S \<longrightarrow> record_inv S db')"

lemma settled_error [intro]: "settled S db (Inl e, db)"
  by (simp add: settled_def)

lemma settled_same [intro]: "settled S db (Inr x, db)"
  by (simp add: settled_def)

lemma settled_tx:
  assumes "\<And>a db'. body db = Inr (a, db') \<Longrightarrow> record_inv S db \<Longrightarrow> store_law S \<Longrightarrow> record_inv S db'"
  shows "settled S db (WithTenantTx n t body db)"
  using assms by (auto simp: settled_def WithTenantTx_def split: sum.splits prod.splits)

lemma settled_map: "settled S db res \<Longrightarrow> settled S db (map_prod (map_sum id f) id res)"
  by (cases res; cases "fst res") (auto simp: settled_def)

lemma create_prepare_ok:
  "create_prepare S n r db = Inr (kt, blind, enc) \<longleftrightarrow>
     resolveKType S (r_tenant r) (r_ktype r) (r_ktypeVersion r) ResolveForCreate db = Inr kt
     \<and> (\<exists>u. fst (ValidateData (rs_ktype S) (kt_schema kt) (r_data r) Map.empty) = Inr u)
     \<and> computeBlindIndexes (r_tenant r) (kt_schema kt) (r_data r) (rs_indexer S) = Inr blind
     \<and> encryptFields (rs_text S) (rs_enc S) n (r_tenant r) (kt_schema kt) (r_data r) = Inr enc"
  by (auto simp: create_prepare_def rbind_eq_Inr)

lemma prepared_payloads:
  assumes "store_law S" "create_prepare S n r db = Inr (kt, blind, enc)"
  shows "payload_of (r_data r) \<noteq> None" "payload_of enc \<noteq> None"
proof -
  show p: "payload_of (r_data r) \<noteq> None" using assms(2) ValidateData_payload unfolding create_prepare_ok by blast
  then show "payload_of enc \<noteq> None"
    using encryptFields_payload[OF _ _ p] assms unfolding create_prepare_ok store_law_def by blast
qed

lemma Create_cases:
  assumes "Create S now newid eid n r db = (res, db')"
  obtains (failed) e where "res = Inl e" "db' = db"
  | (ok) kt blind enc c where "res = Inr c" "r_tenant r \<noteq> 0" "create_prepare S n r db = Inr (kt, blind, enc)"
    "create_tx S now eid (create_defaults newid kt r) (kt_schema kt) (r_data r) enc blind db = Inr (c, db')"
proof (cases "create_prepare S n r db")
  case (Inl e)
  with assms failed show ?thesis by (auto simp: Create_def split: if_split_asm)
next
  case (Inr p)
  obtain kt blind enc where p: "p = (kt, blind, enc)" by (cases p)
  let ?tx = "WithTenantTx RTenantRequired (r_tenant r)
      (create_tx S now eid (create_defaults newid kt r) (kt_schema kt) (r_data r) enc blind) db"
  consider e where "res = Inl e" "db' = db" | "?tx = (res, db')"
    using assms Inr p unfolding Create_def by (auto split: if_split_asm)
  then show ?thesis
  proof cases
    case 2
    from tx_effect[OF this] show ?thesis using failed ok Inr p by blast
  qed (rule failed)
qed

lemma Create_settled: "settled S db (Create S now newid eid n r db)"
proof -
  obtain res db' where res: "Create S now newid eid n r db = (res, db')" by fastforce
  then show ?thesis
  proof (cases rule: Create_cases)
    case ok
    with res create_tx_inv[OF _ _ ok(4)] prepared_payloads[OF _ ok(3)] show ?thesis by (simp add: settled_def)
  qed (use res in auto)
qed

lemma record_step_settled: "settled S db (record_step S x db)"
proof (cases x)
  case ROCreate
  then show ?thesis using settled_map[OF Create_settled] by simp
next
  case (ROUpdate now eid n r)
  have "settled S db (WithTenantTx RTenantRequired (r_tenant r) (update_tx S now eid n r) db)"
    by (rule settled_tx) (rule update_tx_inv)
  then have "settled S db (Update S now eid n r db)" by (simp add: Update_def settled_error)
  then show ?thesis using ROUpdate settled_map by simp
next
  case (RODelete now eid t i actor)
  then show ?thesis
    by (auto simp: record_Delete_def rbind_eq_Inr split: option.split_asm if_split_asm dest!: find_record_mem
        intro!: settled_tx intro: soft_delete_inv)
next
  case (ROBulkPatch now t name ids patch actor)
  have "settled S db (BulkPatch S now t name ids patch actor db)"
    unfolding BulkPatch_def Let_def using bulk_patch_inv by (auto intro!: settled_tx settled_same)
  then show ?thesis using ROBulkPatch settled_map by simp
next
  case (ROBulkDelete now t name ids actor)
  have "settled S db (BulkDelete S now t name ids actor db)"
    unfolding BulkDelete_def using bulk_delete_inv by (auto intro!: settled_tx settled_same)
  then show ?thesis using ROBulkDelete settled_map by simp
qed

interpretation rec: atomic_component "\<lambda>db. store_law S \<longrightarrow> record_inv S db" "record_step S" for S :: rstore
proof
  fix x a and db db' :: "'a record_db_scheme"
  assume "store_law S \<longrightarrow> record_inv S db" "record_step S x db = (Inr a, db')"
  with record_step_settled[of S db x] show "store_law S \<longrightarrow> record_inv S db'" by (auto simp: settled_def)
next
  fix x e and db db' :: "'a record_db_scheme"
  assume "record_step S x db = (Inl e, db')"
  with record_step_settled[of S db x] show "db' = db" by (simp add: settled_def)
qed

definition record_run :: "rstore \<Rightarrow> record_op list \<Rightarrow> 'a record_db_scheme \<Rightarrow> 'a record_db_scheme" where
  "record_run S ops db = fold (\<lambda>x db. snd (record_step S x db)) ops db"

lemma record_run_exec: "record_run S ops db = fold (rec.exec S) ops db"
  by (simp add: record_run_def rec.exec_def[abs_def])

lemma record_run_inv: "store_law S \<Longrightarrow> record_inv S db \<Longrightarrow> record_inv S (record_run S ops db)"
  using rec.run_keeps[of S db ops] by (simp add: record_run_exec)


section \<open>Rows only move forward\<close>

definition row_after :: "krecord_row \<Rightarrow> krecord_row \<Rightarrow> bool" where
  "row_after row row' \<longleftrightarrow>
     row_key row' = row_key row \<and> r_version row \<le> r_version row' \<and> (r_status row = ''deleted'' \<longrightarrow> r_status row' = ''deleted'')"

definition advanced :: "'a record_db_scheme \<Rightarrow> 'a record_db_scheme \<Rightarrow> bool" where
  "advanced db db' \<longleftrightarrow> (\<forall>row \<in> set (krecords db). \<exists>row' \<in> set (krecords db'). row_after row row')"

lemma row_after_trans: "row_after a b \<Longrightarrow> row_after b c \<Longrightarrow> row_after a c"
  by (auto simp: row_after_def)

lemma advanced_refl [intro]: "advanced db db"
  by (auto simp: advanced_def row_after_def)

lemma advanced_trans: "advanced a b \<Longrightarrow> advanced b c \<Longrightarrow> advanced a c"
  unfolding advanced_def using row_after_trans by meson

lemma advanced_tables: "krecords db' = krecords db \<Longrightarrow> advanced db db'"
  by (auto simp: advanced_def row_after_def)

lemma advanced_put:
  assumes "distinct (map row_key (krecords db))" "row \<in> set (krecords db)" "row_after row row'"
  shows "advanced db (put_record row' db)"
  unfolding advanced_def
proof
  fix x assume x: "x \<in> set (krecords db)"
  show "\<exists>y \<in> set (krecords (put_record row' db)). row_after x y"
  proof (cases "row_key x = row_key row'")
    case True
    then have "x = row" using assms x by (auto simp: row_after_def dest: inj_onD[of row_key] simp: distinct_map)
    with assms(3) x True show ?thesis by (auto simp: put_record_def set_update_rows)
  next
    case False
    with x show ?thesis by (auto simp: put_record_def row_after_def intro!: bexI[of _ x] update_rows_other)
  qed
qed

lemma write_patch_ok:
  assumes "write_patch S now actor enc blind row db = Inr (row', db1)"
  shows "db1 = put_record row' db" "row_after row row'" "r_version row' = r_version row + 1" "r_data row' = rs_jsonb S enc"
    "valid_json enc" "row_key row' = row_key row" "r_ktype row' = r_ktype row" "r_ktypeVersion row' = r_ktypeVersion row"
    "r_tenant row' = r_tenant row" "r_status row' = r_status row" "r_updatedBy row' = actor"
  using assms by (auto simp: write_patch_def Let_def row_key_def row_after_def split: if_splits)

lemma patch_advanced:
  assumes "record_inv S db" "row \<in> set (krecords db)" "write_patch S now actor enc blind row db = Inr (row', db1)"
    and "emit S now eid r ty sch actor' act plain merged db1 = Inr db2"
  shows "advanced db db2"
proof -
  have "advanced db db1"
    using advanced_put[of db row row'] write_patch_ok(1,2)[OF assms(3)] assms(1,2) by (simp add: record_inv_def)
  then show ?thesis by (rule advanced_trans[OF _ advanced_tables[OF kernel_only_tables(1)[OF emit_ok(1)[OF assms(4)]]]])
qed

lemma delete_advanced:
  assumes "record_inv S db" "row \<in> set (krecords db)" "soft_delete S now eid actor act row db = Inr db'"
  shows "advanced db db'"
proof -
  let ?db2 = "BumpTenantRecordCount (r_tenant row) (- 1) (put_record (tombstone now actor row) db)"
  obtain r sch plain where "emit S now eid r ''krecord.deleted'' sch actor (r_ktype row @ act) plain plain ?db2 = Inr db'"
    using assms(3) unfolding soft_delete_ok Let_def by blast
  then have "krecords db' = krecords ?db2" by (rule kernel_only_tables(1)[OF emit_ok(1)])
  moreover have "row_after row (tombstone now actor row)" by (simp add: row_after_def tombstone_def row_key_def)
  ultimately show ?thesis
    using advanced_put[of db row "tombstone now actor row"] assms(1,2) by (simp add: record_inv_def advanced_def)
qed

lemma update_tx_ok:
  assumes "update_tx S now eid n r db = Inr (u, db')"
  obtains row kt plain blind enc row' db1 where
    "find_record (r_tenant r) (r_id r) db = Some row" "r_version r = 0 \<or> r_version r = r_version row"
    "resolveKType S (r_tenant r) (r_ktype row) (r_ktypeVersion row) ResolveForUpdate db = Inr kt"
    "patched S n row kt (r_data r) = Inr (plain, r_data u, blind, enc)"
    "write_patch S now (r_updatedBy r) enc blind row db = Inr (row', db1)" "u = (to_record row')\<lparr>r_data := r_data u\<rparr>"
    "emit S now eid u ''krecord.updated'' (kt_schema kt) (r_updatedBy u) (r_ktype u @ ''.update'') plain (r_data u) db1 = Inr db'"
proof (cases "find_record (r_tenant r) (r_id r) db")
  case None
  with assms show ?thesis by (simp add: update_tx_def)
next
  case (Some row)
  with assms that show ?thesis
    by (auto simp: update_tx_def rbind_eq_Inr Let_def split: if_split_asm)
qed

lemma update_advanced:
  assumes "record_inv S db" "update_tx S now eid n r db = Inr (u, db')"
  shows "advanced db db'"
  using assms(2)
proof (cases rule: update_tx_ok)
  case (1 row)
  then show ?thesis using patch_advanced[OF assms(1) conjunct1[OF find_record_mem[OF 1(1)]]] by blast
qed

lemma create_tx_ok:
  assumes "create_tx S now eid r sch plain enc blind db = Inr (c, db')"
  obtains row where "insert_record S now r enc blind db = Inr (row, db\<lparr>krecords := krecords db @ [row]\<rparr>)"
    "c = (to_record row)\<lparr>r_data := plain\<rparr>" "krecords db' = krecords db @ [row]" "tenant_ktypes db' = tenant_ktypes db"
    "\<exists>ev. events db' = events db @ [ev] \<and> ev_tenant ev = r_tenant row \<and> ev_type ev = ''krecord.created''"
proof -
  obtain row db1 where ins: "insert_record S now r enc blind db = Inr (row, db1)" and c: "c = (to_record row)\<lparr>r_data := plain\<rparr>"
    and em: "emit S now eid c ''krecord.created'' sch (Some (r_createdBy c)) (r_ktype c @ ''.create'')
        no_json plain (BumpTenantRecordCount (r_tenant row) 1 db1) = Inr db'"
    using assms by (auto simp: create_tx_def rbind_eq_Inr Let_def)
  have db1: "db1 = db\<lparr>krecords := krecords db @ [row]\<rparr>" by (rule insert_record_ok(1)[OF ins])
  note k = kernel_only_tables[OF emit_ok(1)[OF em]]
  have "r_tenant c = r_tenant row" by (simp add: c to_record_def)
  with that[of row] ins c db1 k emit_ok(2)[OF em] show ?thesis by simp
qed


text \<open>Steps of bulk operations, with the invariant that the next step needs.\<close>

definition moved :: "rstore \<Rightarrow> 'a record_db_scheme \<Rightarrow> 'b \<times> 'a record_db_scheme \<Rightarrow> bool" where
  "moved S db st \<longleftrightarrow> record_inv S (snd st) \<and> advanced db (snd st)"

lemma bulkPatchOne_moved:
  assumes "store_law S" "moved S db st" "bulkPatchOne S now eid n t name i patch actor st = Inr st'"
  shows "moved S db st'"
proof -
  obtain res db1 res' db2 where st: "st = (res, db1)" "st' = (res', db2)" by fastforce
  have inv: "record_inv S db1" and adv: "advanced db db1" using assms(2) st by (auto simp: moved_def)
  have "bulkPatchOne S now eid n t name i patch actor (res, db1) = Inr (res', db2)" using assms(3) st by simp
  then have "advanced db1 db2"
  proof (cases rule: bulkPatchOne_cases)
    case ok
    then show ?thesis using patch_advanced[OF inv conjunct1[OF bulk_find_mem[OF ok(1)]]] by blast
  qed auto
  with bulkPatchOne_inv[OF _ assms(1,3)] inv adv st advanced_trans show ?thesis by (auto simp: moved_def)
qed

lemma bulkDeleteOne_cases:
  assumes "bulkDeleteOne S now eid t name i actor (res, db) = Inr (res', db')"
  obtains (failed) "res' = res\<lparr>br_failed := br_failed res @ [(i, RNotFound)]\<rparr>" "db' = db"
  | (ok) row where "bulk_find t name i db = Some row" "r_status row \<noteq> ''deleted''"
    "soft_delete S now eid actor ''.bulk_delete'' row db = Inr db'"
    "res' = res\<lparr>br_succeeded := br_succeeded res @ [i]\<rparr>"
  using assms by (auto simp: bulkDeleteOne_def rbind_eq_Inr split: option.split_asm if_split_asm)

lemma bulkDeleteOne_moved:
  assumes "store_law S" "moved S db st" "bulkDeleteOne S now eid t name i actor st = Inr st'"
  shows "moved S db st'"
proof -
  obtain res db1 res' db2 where st: "st = (res, db1)" "st' = (res', db2)" by fastforce
  have inv: "record_inv S db1" and adv: "advanced db db1" using assms(2) st by (auto simp: moved_def)
  have "bulkDeleteOne S now eid t name i actor (res, db1) = Inr (res', db2)" using assms(3) st by simp
  then have "advanced db1 db2"
  proof (cases rule: bulkDeleteOne_cases)
    case (ok row)
    then show ?thesis using delete_advanced[OF inv conjunct1[OF bulk_find_mem[OF ok(1)]]] by blast
  qed auto
  with bulkDeleteOne_inv[OF _ assms(1,3)] inv adv st advanced_trans show ?thesis by (auto simp: moved_def)
qed

lemma tx_advanced:
  assumes "\<And>a db'. body db = Inr (a, db') \<Longrightarrow> advanced db db'"
  shows "advanced db (snd (WithTenantTx n t body db))"
  using assms by (auto simp: WithTenantTx_def split: sum.split prod.split)

lemma bulk_advanced:
  assumes "record_inv S db" "\<And>x st st'. moved S db st \<Longrightarrow> f x st = Inr st' \<Longrightarrow> moved S db st'"
    and "bulk_loop f ids (no_result, db) = Inr (res, db')"
  shows "advanced db db'"
proof -
  have "moved S db (res, db')"
    by (rule bulk_loop_keeps[where I = "moved S db", OF assms(2) _ assms(3)]) (use assms(1) in \<open>auto simp: moved_def\<close>)
  then show ?thesis by (simp add: moved_def)
qed

lemma record_step_advanced:
  assumes "store_law S" "record_inv S db"
  shows "advanced db (snd (record_step S x db))"
proof (cases x)
  case (ROCreate now newid eid n r)
  obtain res db' where res: "Create S now newid eid n r db = (res, db')" by fastforce
  then have "advanced db db'"
  proof (cases rule: Create_cases)
    case ok
    from ok(4) show ?thesis by (cases rule: create_tx_ok) (auto simp: advanced_def row_after_def)
  qed auto
  with ROCreate res show ?thesis by simp
next
  case (ROUpdate now eid n r)
  have "advanced db (snd (WithTenantTx RTenantRequired (r_tenant r) (update_tx S now eid n r) db))"
    by (rule tx_advanced) (rule update_advanced[OF assms(2)])
  with ROUpdate show ?thesis by (auto simp: Update_def)
next
  case (RODelete now eid t i actor)
  show ?thesis unfolding RODelete record_step.simps record_Delete_def
    by (rule tx_advanced)
      (auto simp: rbind_eq_Inr split: option.split_asm if_split_asm dest!: find_record_mem intro: delete_advanced[OF assms(2)])
next
  case (ROBulkPatch now t name ids patch actor)
  have "advanced db db'"
    if "bulk_loop (\<lambda>(i, eid, n). bulkPatchOne S now eid n t name i p (actor_ptr actor)) ids (no_result, db) = Inr (res, db')" for p res db'
    by (rule bulk_advanced[OF assms(2) _ that]) (auto split: prod.split_asm dest: bulkPatchOne_moved[OF assms(1)])
  then have "advanced db (snd (BulkPatch S now t name ids patch actor db))"
    unfolding BulkPatch_def Let_def by (auto intro!: tx_advanced)
  with ROBulkPatch show ?thesis by simp
next
  case (ROBulkDelete now t name ids actor)
  have "advanced db db'"
    if "bulk_loop (\<lambda>(i, eid, n). bulkDeleteOne S now eid t name i (actor_ptr actor)) ids (no_result, db) = Inr (res, db')" for res db'
    by (rule bulk_advanced[OF assms(2) _ that]) (auto split: prod.split_asm dest: bulkDeleteOne_moved[OF assms(1)])
  then have "advanced db (snd (BulkDelete S now t name ids actor db))"
    unfolding BulkDelete_def Let_def by (auto intro!: tx_advanced)
  with ROBulkDelete show ?thesis by simp
qed

lemma record_run_advanced: "store_law S \<Longrightarrow> record_inv S db \<Longrightarrow> advanced db (record_run S ops db)"
proof (induction ops arbitrary: db)
  case (Cons x ops)
  have "record_inv S (snd (record_step S x db))" using record_run_inv[OF Cons.prems, of "[x]"] by (simp add: record_run_def)
  then have "advanced (snd (record_step S x db)) (record_run S (x # ops) db)"
    using Cons.IH[OF Cons.prems(1)] by (simp add: record_run_def)
  with record_step_advanced[OF Cons.prems] show ?case by (rule advanced_trans)
qed (simp add: record_run_def advanced_refl)

lemma advanced_find:
  assumes "record_inv S db'" "advanced db db'" "row \<in> set (krecords db)"
  obtains row' where "find_record (r_tenant row) (r_id row) db' = Some row'" "row_after row row'"
proof -
  obtain row' where row': "row' \<in> set (krecords db')" "row_after row row'" using assms(2,3) by (auto simp: advanced_def)
  then have "r_tenant row' = r_tenant row" "r_id row' = r_id row" by (auto simp: row_after_def row_key_def)
  with find_record_unique[OF assms(1) row'(1)] that row'(2) show ?thesis by simp
qed


section \<open>Reading back\<close>

text \<open>
  A type resolved by the registry is found again under its own version (for \<open>load_ktype\<close>: \<open>load_stable\<close>).
\<close>

definition registry_stable :: "rstore \<Rightarrow> bool" where
  "registry_stable S \<longleftrightarrow> (\<forall>n v kt. rs_registry S n v = Inr kt \<longrightarrow> rs_registry S n (kt_version kt) = Inr kt)"

lemma load_stable:
  assumes "ktypes_inv db" "load_ktype n v db = Inr kt"
  shows "load_ktype n (kt_version kt) db = Inr kt"
proof (cases "v \<le> 0")
  case True
  then have "load_ktype n 0 db = Inr kt" using assms(2) load_ktype_cong[OF True order_refl] by metis
  then show ?thesis by (rule latest_found(1)[OF assms(1)])
next
  case False
  then have "kt_version kt = v"
    using assms(2) by (auto simp: load_ktype_def find_ktype_def to_ktype_def split: option.split_asm dest: find_SomeD)
  with assms(2) show ?thesis by simp
qed

lemma resolve_cong: "tenant_ktypes db' = tenant_ktypes db \<Longrightarrow> resolveKType S t n v m db' = resolveKType S t n v m db"
proof -
  assume eq: "tenant_ktypes db' = tenant_ktypes db"
  have "scanGet t n v f db' = scanGet t n v f db" for v f by (simp add: scanGet_def find_custom_def eq)
  then have "GetInTx t n v db' = GetInTx t n v db" for v by (simp add: GetInTx_def)
  moreover have "GetLatestActiveInTx t n db' = GetLatestActiveInTx t n db"
    using \<open>\<And>v f. scanGet t n v f db' = scanGet t n v f db\<close> by (simp add: GetLatestActiveInTx_def)
  ultimately have "lookupCustomKType t n v m db' = lookupCustomKType t n v m db"
    by (cases "GetLatestActiveInTx t n db") (simp_all add: lookupCustomKType_def)
  then show ?thesis by (simp add: resolveKType_def)
qed

lemma resolve_update_read:
  "resolveKType S t n v ResolveForUpdate db = Inr kt \<Longrightarrow> resolveKType S t n v ResolveForRead db = Inr kt"
  by (auto simp: resolveKType_def lookupCustomKType_def materializeCustomKType_def checkCustomKTypeStatus_def rbind_eq_Inr
      split: if_split_asm)

lemma custom_found:
  assumes "custom_inv E limit db" "GetInTx t n v db = Inr tkt \<or> GetLatestActiveInTx t n db = Inr tkt"
  shows "GetInTx t n (tk_version tkt) db = Inr tkt"
proof -
  obtain f where t: "t \<noteq> 0" "IsValidCustomName n" and sc: "scanGet t n v f db = Some tkt \<or> scanGet t n 0 f db = Some tkt"
    using assms(2) by (auto simp: GetInTx_def GetLatestActiveInTx_def split: if_split_asm option.split_asm)
  have mem: "tkt \<in> set (tenant_ktypes db)" "tk_tenant tkt = t" "tk_name tkt = n"
  proof -
    have hd: "x \<in> set (filter q rows)" if "sort_key k (filter q rows) = x # xs" for k :: "tenantKType \<Rightarrow> int" and q rows x xs
      using that by (metis list.set_intros(1) set_sort)
    have "tkt \<in> set (tenant_ktypes db) \<and> tk_tenant tkt = t \<and> tk_name tkt = n"
      using sc by (auto simp: scanGet_def find_custom_def split: if_split_asm list.split_asm dest!: find_SomeD hd)
    then show "tkt \<in> set (tenant_ktypes db)" "tk_tenant tkt = t" "tk_name tkt = n" by auto
  qed
  have "find_custom t n (tk_version tkt) db = Some tkt"
    using find_key_unique[of custom_key "tenant_ktypes db" tkt] assms(1) mem
    by (simp add: custom_inv_def find_custom_key custom_key_def)
  moreover have "0 < tk_version tkt" using assms(1) mem(1) by (auto simp: custom_inv_def custom_row_ok_def)
  ultimately show ?thesis using t by (simp add: GetInTx_def scanGet_def)
qed

lemma resolve_create_read:
  assumes "registry_stable S" "rs_custom S \<longrightarrow> custom_inv E limit db"
    and "resolveKType S t n v ResolveForCreate db = Inr kt"
  shows "resolveKType S t n (kt_version kt) ResolveForRead db = Inr kt"
proof (cases "rs_custom S \<and> IsCustomName n")
  case True
  then obtain tkt where tkt: "lookupCustomKType t n v ResolveForCreate db = Inr tkt"
    and mat: "materializeCustomKType tkt ResolveForCreate = Inr kt"
    using assms(3) by (auto simp: resolveKType_def rbind_eq_Inr)
  have "GetInTx t n v db = Inr tkt \<or> GetLatestActiveInTx t n db = Inr tkt"
    using tkt by (auto simp: lookupCustomKType_def split: if_split_asm sum.split_asm)
  from custom_found[OF _ this] assms(2) True have "GetInTx t n (tk_version tkt) db = Inr tkt" by blast
  moreover have "kt_version kt = tk_version tkt" "materializeCustomKType tkt ResolveForRead = Inr kt"
    using mat by (auto simp: materializeCustomKType_def checkCustomKTypeStatus_def rbind_eq_Inr split: if_split_asm)
  ultimately show ?thesis using True by (simp add: resolveKType_def lookupCustomKType_def)
next
  case False
  with assms(1,3) show ?thesis by (auto simp: resolveKType_def registry_stable_def)
qed

lemma find_appended: "find_record t i db = None \<Longrightarrow> row_key row = (t, i) \<Longrightarrow> krecords db' = krecords db @ [row] \<Longrightarrow>
   find_record t i db' = Some row"
  by (simp add: find_record_def find_append)

lemma find_put: "find_record t i db = Some row \<Longrightarrow> row_key row' = (t, i) \<Longrightarrow> find_record t i (put_record row' db) = Some row'"
  using find_update_rows[of "\<lambda>r. row_key r = (t, i)" "krecords db" row "\<lambda>_. row'"] by (simp add: find_record_def put_record_def)

context field_cipher
begin

text \<open>A row written with \<open>encryptFields\<close> is read back with the same payload.\<close>

lemma get_written:
  assumes enc: "rs_enc S = None \<or> rs_enc S = Some e \<and> lawful" and law: "store_law S"
    and w: "encryptFields (rs_text S) (rs_enc S) n t (kt_schema kt) data = Inr ct" "valid_json ct" "payload_of ct \<noteq> None"
    and row: "find_record t i db = Some row" "r_data row = rs_jsonb S ct" "t \<noteq> 0"
    and kt: "resolveKType S t (r_ktype row) (r_ktypeVersion row) ResolveForRead db = Inr kt"
  shows "\<exists>out. record_Get S t i db = Inr ((to_record row)\<lparr>r_data := out\<rparr>) \<and> same_payload data out"
proof -
  have st: "same_payload ct (rs_jsonb S ct)" by (rule jsonb_payload[OF law w(2,3)])
  have "\<exists>out. decryptRecord S (to_record row) db = Inr out \<and> same_payload data out"
  proof (cases "rs_enc S")
    case None
    with w(1) have "ct = data" by (simp add: encryptFields_def)
    with None st row(2) show ?thesis by (simp add: decryptRecord_def to_record_def)
  next
    case (Some e')
    with enc have S: "rs_enc S = Some e" and lawful by auto
    have "text_law (rs_text S)" using law by (simp add: store_law_def)
    from decrypt_stored[OF \<open>lawful\<close> this w(1)[unfolded S] st]
    obtain out where "decryptRecordWith (rs_text S) (rs_enc S) t (kt_schema kt) (r_data row) = Inr out" "same_payload data out"
      using row(2) S by auto
    moreover have "r_tenant row = t" using row(1) find_record_mem by blast
    ultimately show ?thesis using S kt by (simp add: decryptRecord_def to_record_def)
  qed
  with row(1,3) show ?thesis by (auto simp: record_Get_def)
qed

lemma create_get:
  assumes enc: "rs_enc S = None \<or> rs_enc S = Some e \<and> lawful" and law: "store_law S" "registry_stable S"
    and custom: "rs_custom S \<longrightarrow> custom_inv E limit db" and c: "Create S now newid eid n r db = (Inr c, db')"
  shows "r_data c = r_data r \<and> (\<exists>out. record_Get S (r_tenant r) (r_id c) db' = Inr (c\<lparr>r_data := out\<rparr>) \<and> same_payload (r_data r) out)"
  using c
proof (cases rule: Create_cases)
  case (ok kt blind ct c')
  let ?r = "create_defaults newid kt r"
  have prep: "resolveKType S (r_tenant r) (r_ktype r) (r_ktypeVersion r) ResolveForCreate db = Inr kt"
    "encryptFields (rs_text S) (rs_enc S) n (r_tenant r) (kt_schema kt) (r_data r) = Inr ct"
    using ok(3) unfolding create_prepare_ok by auto
  obtain row where ins: "insert_record S now ?r ct blind db = Inr (row, db\<lparr>krecords := krecords db @ [row]\<rparr>)"
    and c': "c = (to_record row)\<lparr>r_data := r_data r\<rparr>" and db': "krecords db' = krecords db @ [row]" "tenant_ktypes db' = tenant_ktypes db"
    using create_tx_ok[OF ok(4)] ok(1) by (metis Inr_inject)
  note i = insert_record_ok[OF ins]
  have r: "r_tenant ?r = r_tenant r" "r_ktype ?r = r_ktype r" "r_ktypeVersion ?r = kt_version kt" "r_id c = r_id ?r"
    using c' i(8) by (simp_all add: create_defaults_def to_record_def)
  have "find_record (r_tenant r) (r_id c) db' = Some row"
    by (rule find_appended[OF _ _ db'(1)]) (use i(2,6) r in auto)
  moreover have "resolveKType S (r_tenant r) (r_ktype row) (r_ktypeVersion row) ResolveForRead db' = Inr kt"
    using resolve_create_read[OF law(2) custom prep(1)] i(9,10) r by (simp add: resolve_cong[OF db'(2)])
  ultimately obtain out where "record_Get S (r_tenant r) (r_id c) db' = Inr ((to_record row)\<lparr>r_data := out\<rparr>)"
    "same_payload (r_data r) out"
    using get_written[OF enc law(1) prep(2) i(3) prepared_payloads(2)[OF law(1) ok(3)] _ i(4) ok(2)] by blast
  with c' show ?thesis by (intro conjI exI[of _ out]) simp_all
qed simp

lemma update_get:
  assumes enc: "rs_enc S = None \<or> rs_enc S = Some e \<and> lawful" and law: "store_law S" and inv: "record_inv S db"
    and u: "Update S now eid n r db = (Inr u, db')"
  shows "\<exists>g out. record_Get S (r_tenant r) (r_id r) db = Inr g \<and> (r_version r = 0 \<or> r_version r = r_version g)
     \<and> r_version u = r_version g + 1 \<and> mergeJSON (rs_text S) (r_data g) (r_data r) = Inr (r_data u)
     \<and> record_Get S (r_tenant r) (r_id r) db' = Inr (u\<lparr>r_data := out\<rparr>) \<and> same_payload (r_data u) out"
proof -
  have t: "r_tenant r \<noteq> 0" and tx: "update_tx S now eid n r db = Inr (u, db')"
    using u by (auto simp: Update_def tx_commit split: if_split_asm)
  from tx show ?thesis
  proof (cases rule: update_tx_ok)
    case (1 row kt plain blind ct row' db1)
    note w = write_patch_ok[OF 1(5)]
    have mem: "row \<in> set (krecords db)" "row_key row = (r_tenant r, r_id r)" "r_tenant row = r_tenant r"
      using find_record_mem[OF 1(1)] by (auto simp: row_key_def)
    then have "payload_of (r_data row) \<noteq> None" using inv by (auto simp: record_inv_def list_all_iff record_row_ok_def)
    note pl = patched_payloads[OF law 1(4) this]
    have p: "decryptRecordWith (rs_text S) (rs_enc S) (r_tenant row) (kt_schema kt) (r_data row) = Inr plain"
      "mergeJSON (rs_text S) plain (r_data r) = Inr (r_data u)"
      "encryptFields (rs_text S) (rs_enc S) n (r_tenant r) (kt_schema kt) (r_data u) = Inr ct"
      using 1(4) mem(3) by (auto simp: patched_def rbind_eq_Inr)
    have read: "resolveKType S (r_tenant r) (r_ktype row) (r_ktypeVersion row) ResolveForRead db = Inr kt"
      by (rule resolve_update_read[OF 1(3)])
    have "decryptRecord S (to_record row) db = Inr plain"
      using p(1) read mem(3) by (auto simp: decryptRecord_def to_record_def decryptRecordWith_def)
    then have get: "record_Get S (r_tenant r) (r_id r) db = Inr ((to_record row)\<lparr>r_data := plain\<rparr>)"
      using 1(1) t by (simp add: record_Get_def)
    note k = kernel_only_tables[OF emit_ok(1)[OF 1(7)]]
    have "find_record (r_tenant r) (r_id r) db' = Some row'"
      using find_put[OF 1(1), of row'] w(1,6) mem(2) k(1) by (simp add: find_record_def)
    moreover have tk: "tenant_ktypes db' = tenant_ktypes db" using k(3) w(1) by (simp add: put_record_def)
    have "resolveKType S (r_tenant r) (r_ktype row') (r_ktypeVersion row') ResolveForRead db' = Inr kt"
      using read w(7,8) by (simp add: resolve_cong[OF tk])
    ultimately obtain out where out: "record_Get S (r_tenant r) (r_id r) db' = Inr ((to_record row')\<lparr>r_data := out\<rparr>)"
      "same_payload (r_data u) out"
      using get_written[OF enc law p(3) w(5) pl(3) _ w(4) t] by blast
    have "u\<lparr>r_data := out\<rparr> = (to_record row')\<lparr>r_data := out\<rparr>" by (subst 1(6)) simp
    moreover have "r_version u = r_version row + 1" by (subst 1(6)) (simp add: to_record_def w(3))
    moreover have "r_version (to_record row\<lparr>r_data := plain\<rparr>) = r_version row" by (simp add: to_record_def)
    ultimately show ?thesis using get out p(2) 1(2) by force
  qed
qed

end

end
