(* ===== verification/Record_List.thy ===== *)
theory Record_List
  imports Record_Correct "HOL-Library.Product_Lexorder"
begin

text \<open>
  Reading many records (internal/record/record.go, store.go, bulk.go): cursors, pages, and the walk over
  all records of a type in chunks of 500 below a snapshot time.

  A query sees the rows of one database state; between the chunks of a walk other transactions may
  commit, so a pool gives the state that the k-th chunk sees. Rows are ordered by \<open>(updated_at, id)\<close>,
  descending. base64 is a parameter of the cursors. A callback maps the caller's state to an error or
  none and a new state; \<open>RStopForEach\<close> is the sentinel that ends a walk without error.
\<close>

section \<open>Cursors\<close>

record cursor_lib =
  cl_go :: golib
  rawurl_encode :: "string \<Rightarrow> string"
  rawurl_decode :: "string \<Rightarrow> string option"

type_synonym page_pos = "gotime \<times> uuid"

definition EncodeCursor :: "cursor_lib \<Rightarrow> page_pos \<Rightarrow> string" where
  "EncodeCursor L p = rawurl_encode L (show_int (UnixNano (fst p)) @ ''|'' @ uuid_string (cl_go L) (snd p))"

text \<open>\<open>strings.SplitN(s, "|", 3)\<close>: at most two cuts.\<close>

definition before_bar :: "string \<Rightarrow> string" where
  "before_bar s = takeWhile (\<lambda>c. c \<noteq> CHR ''|'') s"

definition after_bar :: "string \<Rightarrow> string" where
  "after_bar s = tl (dropWhile (\<lambda>c. c \<noteq> CHR ''|'') s)"

definition SplitN3 :: "string \<Rightarrow> string list" where
  "SplitN3 s =
     (if CHR ''|'' \<notin> set s then [s]
      else before_bar s #
        (let r = after_bar s in if CHR ''|'' \<notin> set r then [r] else [before_bar r, after_bar r]))"

definition DecodeCursor :: "cursor_lib \<Rightarrow> string \<Rightarrow> store_error + page_pos" where
  "DecodeCursor L token =
     (if token = [] then Inr (0, 0)
      else case rawurl_decode L token of
             None \<Rightarrow> Inl RInvalidCursor
           | Some s \<Rightarrow>
               (case SplitN3 s of
                  a # b # _ \<Rightarrow>
                    (case (ParseInt a, uuid_parse (cl_go L) b) of
                       (Some nanos, Some i) \<Rightarrow> Inr (time_Unix nanos, i)
                     | _ \<Rightarrow> Inl RInvalidCursor)
                | _ \<Rightarrow> Inl RInvalidCursor))"


section \<open>Queries\<close>

definition page_key :: "('a krecord_scheme) \<Rightarrow> page_pos" where
  "page_key r = (r_updatedAt r, r_id r)"

text \<open>
  The rows of a tenant and type with a status that satisfy \<open>p\<close>, newest first; \<open>lower\<close> is the position the
  rows must be below, a parameter of type TIMESTAMPTZ.
\<close>

definition select_rows ::
  "uuid \<Rightarrow> string \<Rightarrow> string \<Rightarrow> (krecord_row \<Rightarrow> bool) \<Rightarrow> page_pos option \<Rightarrow> krecord_row list \<Rightarrow> krecord_row list" where
  "select_rows t ktype status p lower rows =
     rev (sort_key page_key (filter (\<lambda>r. r_tenant r = t \<and> r_ktype r = ktype \<and> r_status r = status \<and> p r
       \<and> (case lower of None \<Rightarrow> True | Some pos \<Rightarrow> page_key r < (pg_time (fst pos), snd pos))) rows))"

text \<open>\<open>decryptRecordPtrsBatch\<close>: the type of a name and version is resolved once.\<close>

fun decrypt_batch ::
  "rstore \<Rightarrow> 'a ktype_db_scheme \<Rightarrow> (string \<times> int \<rightharpoonup> ktype) \<Rightarrow> krecord list \<Rightarrow> store_error + krecord list" where
  "decrypt_batch S db cache [] = Inr []"
| "decrypt_batch S db cache (r # rs) =
     rbind (case cache (r_ktype r, r_ktypeVersion r) of
              Some kt \<Rightarrow> Inr kt
            | None \<Rightarrow> resolveKType S (r_tenant r) (r_ktype r) (r_ktypeVersion r) ResolveForRead db) (\<lambda>kt.
     rbind (map_sum RField id (decryptRecordWith (rs_text S) (rs_enc S) (r_tenant r) (kt_schema kt) (r_data r))) (\<lambda>data.
     rbind (decrypt_batch S db (cache((r_ktype r, r_ktypeVersion r) \<mapsto> kt)) rs) (\<lambda>out.
     Inr (r\<lparr>r_data := data\<rparr> # out))))"

definition decryptRecordsBatch :: "rstore \<Rightarrow> 'a ktype_db_scheme \<Rightarrow> krecord list \<Rightarrow> store_error + krecord list" where
  "decryptRecordsBatch S db rs = (if rs_enc S = None \<or> rs = [] then Inr rs else decrypt_batch S db Map.empty rs)"


section \<open>Pages\<close>

record listFilter =
  lf_ktype :: string
  lf_status :: string
  lf_limit :: int
  lf_offset :: int
  lf_cursor :: string

record listPage =
  lp_records :: "krecord list"
  lp_next :: string

definition page_limit :: "listFilter \<Rightarrow> nat" where
  "page_limit f = nat (if lf_limit f \<le> 0 then 50 else if lf_limit f > 500 then 500 else lf_limit f)"

definition filter_status :: "listFilter \<Rightarrow> string" where
  "filter_status f = (if lf_status f = [] then ''active'' else lf_status f)"

definition ListPage ::
  "cursor_lib \<Rightarrow> rstore \<Rightarrow> uuid \<Rightarrow> listFilter \<Rightarrow> 'a record_db_scheme \<Rightarrow> store_error + listPage" where
  "ListPage L S t f db =
     (if lf_ktype f = [] then Inl RKTypeFilterRequired
      else rbind (DecodeCursor L (lf_cursor f)) (\<lambda>pos.
        if t = 0 then Inl RTenantRequired
        else let n = page_limit f;
                 sel = (\<lambda>lower. select_rows t (lf_ktype f) (filter_status f) (\<lambda>_. True) lower (krecords db));
                 rows = (if lf_cursor f \<noteq> [] then take n (sel (Some pos))
                         else if lf_offset f > 0 then take n (drop (nat (lf_offset f)) (sel None))
                         else take n (sel None))
             in rbind (decryptRecordsBatch S db (map to_record rows)) (\<lambda>out.
                Inr \<lparr>lp_records = out,
                     lp_next = (if length out = n then EncodeCursor L (page_key (last out)) else [])\<rparr>)))"

definition record_List ::
  "cursor_lib \<Rightarrow> rstore \<Rightarrow> uuid \<Rightarrow> listFilter \<Rightarrow> 'a record_db_scheme \<Rightarrow> store_error + krecord list" where
  "record_List L S t f db = rbind (ListPage L S t f db) (\<lambda>page. Inr (lp_records page))"

definition BulkFetch ::
  "rstore \<Rightarrow> uuid \<Rightarrow> string \<Rightarrow> uuid list \<Rightarrow> 'a record_db_scheme \<Rightarrow> store_error + krecord list" where
  "BulkFetch S t name ids db =
     (if t = 0 then Inl RTenantRequired
      else if name = [] then Inl RKTypeRequired
      else if ids = [] then Inr []
      else decryptRecordsBatch S db (map to_record
             (rev (sort_key page_key (filter (\<lambda>r. r_tenant r = t \<and> r_ktype r = name \<and> r_id r \<in> set ids) (krecords db))))))"


section \<open>Pools and snapshots\<close>

record 'db dbpool =
  in_recovery :: bool
  replay_ts :: "gotime option"
  clock_ts :: gotime
  chunk_view :: "nat \<Rightarrow> 'db"

record 'db poolRouter =
  rt_read :: "'db dbpool"
  rt_primary :: "'db dbpool"
  rt_same :: bool

definition snapshotVia :: "'db dbpool \<Rightarrow> store_error + gotime" where
  "snapshotVia pool =
     (if in_recovery pool
      then (case replay_ts pool of None \<Rightarrow> Inl RReplicaNotReady | Some ts \<Rightarrow> Inr ts)
      else Inr (clock_ts pool))"

definition pickReadPoolWithSnapshot :: "'db poolRouter \<Rightarrow> store_error + 'db dbpool \<times> gotime" where
  "pickReadPoolWithSnapshot router =
     (case snapshotVia (rt_read router) of
        Inr snapshot \<Rightarrow> Inr (rt_read router, snapshot)
      | Inl e \<Rightarrow>
          (if e = RReplicaNotReady \<and> \<not> rt_same router
           then rbind (snapshotVia (rt_primary router)) (\<lambda>snapshot. Inr (rt_primary router, snapshot))
           else Inl e))"


section \<open>Walks\<close>

type_synonym 's callback = "krecord \<Rightarrow> 's \<Rightarrow> store_error option \<times> 's"

text \<open>The callback on the rows of a chunk; \<open>Some\<close> when it ended the walk.\<close>

fun visit :: "'s callback \<Rightarrow> krecord list \<Rightarrow> 's \<Rightarrow> (store_error + unit) option \<times> 's" where
  "visit fn [] s = (None, s)"
| "visit fn (r # rs) s =
     (case fn r s of
        (None, s') \<Rightarrow> visit fn rs s'
      | (Some e, s') \<Rightarrow> (Some (if e = RStopForEach then Inr () else Inl e), s'))"

text \<open>
  The loop over the chunks. \<open>fetch k lower\<close> is the \<open>k\<close>-th chunk below the position \<open>lower\<close>, decrypted. A
  walk that does not end is \<open>None\<close>.
\<close>

definition chunk :: nat where "chunk = 500"

partial_function (option) walk_chunks ::
  "(nat \<Rightarrow> page_pos option \<Rightarrow> store_error + krecord list) \<Rightarrow> 's callback \<Rightarrow> nat \<Rightarrow> page_pos option \<Rightarrow> 's
   \<Rightarrow> ((store_error + unit) \<times> 's) option" where
  "walk_chunks fetch fn k lower s =
     (case fetch k lower of
        Inl e \<Rightarrow> Some (Inl e, s)
      | Inr page \<Rightarrow>
          (case visit fn page s of
             (Some r, s') \<Rightarrow> Some (r, s')
           | (None, s') \<Rightarrow>
               (if length page < chunk then Some (Inr (), s')
                else walk_chunks fetch fn (k + 1) (Some (page_key (last page))) s')))"

definition fetch_chunk ::
  "rstore \<Rightarrow> uuid \<Rightarrow> string \<Rightarrow> string \<Rightarrow> (krecord_row \<Rightarrow> bool) \<Rightarrow> gotime \<Rightarrow> (nat \<Rightarrow> 'a record_db_scheme) \<Rightarrow> nat
   \<Rightarrow> page_pos option \<Rightarrow> store_error + krecord list" where
  "fetch_chunk S t ktype status p snapshot views k lower =
     (if t = 0 then Inl RTenantRequired
      else decryptRecordsBatch S (views k) (map to_record (take chunk
             (select_rows t ktype status (\<lambda>r. p r \<and> r_updatedAt r \<le> pg_time snapshot) lower (krecords (views k))))))"

definition foreachKeyset ::
  "rstore \<Rightarrow> 'a record_db_scheme poolRouter \<Rightarrow> uuid \<Rightarrow> string \<Rightarrow> string \<Rightarrow> (krecord_row \<Rightarrow> bool) \<Rightarrow> 's callback \<Rightarrow> 's
   \<Rightarrow> ((store_error + unit) \<times> 's) option" where
  "foreachKeyset S router t ktype status p fn s =
     (case pickReadPoolWithSnapshot router of
        Inl e \<Rightarrow> Some (Inl e, s)
      | Inr (pool, snapshot) \<Rightarrow> walk_chunks (fetch_chunk S t ktype status p snapshot (chunk_view pool)) fn 0 None s)"

definition ForEach ::
  "rstore \<Rightarrow> 'a record_db_scheme poolRouter \<Rightarrow> uuid \<Rightarrow> listFilter \<Rightarrow> 's callback \<Rightarrow> 's \<Rightarrow> ((store_error + unit) \<times> 's) option" where
  "ForEach S router t f fn s =
     (if lf_ktype f = [] then Some (Inl RKTypeFilterRequired, s)
      else foreachKeyset S router t (lf_ktype f) (filter_status f) (\<lambda>_. True) fn s)"

definition ListAllMaxRows :: nat where "ListAllMaxRows = 100000"

text \<open>The callback of \<open>ListAll\<close> and \<open>ListByField\<close>, with the cap on the rows in memory.\<close>

definition collect :: "krecord list callback" where
  "collect r out = (if length out + 1 > ListAllMaxRows then (Some RListAllExceedsCap, out) else (None, out @ [r]))"

definition collected :: "((store_error + unit) \<times> krecord list) option \<Rightarrow> (store_error + krecord list) option" where
  "collected res = map_option (\<lambda>(r, out). map_sum id (\<lambda>_. out) r) res"

definition ListAll ::
  "rstore \<Rightarrow> 'a record_db_scheme poolRouter \<Rightarrow> uuid \<Rightarrow> listFilter \<Rightarrow> (store_error + krecord list) option" where
  "ListAll S router t f = collected (ForEach S router t f collect [])"


section \<open>Walks by the value of a field\<close>

text \<open>
  What PostgreSQL computes: the text of a top-level member of a JSON object (\<open>data->>field\<close>) and \<open>lower\<close>.
\<close>

record pg_text =
  pg_member :: "raw_message \<Rightarrow> string \<Rightarrow> string option"
  pg_lower :: "string \<Rightarrow> string"

text \<open>
  The choice between the blind index and the plain field: the first sensitive field of that name or path
  decides. An error of the type lookup or of the schema is ignored by the code.
\<close>

datatype field_lookup = ByBlindIndex string string | ByMember

definition blind_lookup ::
  "digester \<Rightarrow> uuid \<Rightarrow> fieldSpec list \<Rightarrow> string \<Rightarrow> string \<Rightarrow> store_error + field_lookup" where
  "blind_lookup h t fs field val =
     (case List.find (\<lambda>f. f_name f = field \<or> f_path f = field) fs of
        None \<Rightarrow> Inr ByMember
      | Some f \<Rightarrow>
          (if f_indexed f
           then (case h t val of
                   None \<Rightarrow> Inl (RField (BlindIndexFailed (f_name f)))
                 | Some digest \<Rightarrow> Inr (ByBlindIndex (f_name f) digest))
           else Inl (RNotIndexed field)))"

definition field_lookup_of ::
  "rstore \<Rightarrow> uuid \<Rightarrow> string \<Rightarrow> string \<Rightarrow> string \<Rightarrow> 'a ktype_db_scheme \<Rightarrow> store_error + field_lookup" where
  "field_lookup_of S t ktype field val db =
     (case rs_indexer S of
        None \<Rightarrow> Inr ByMember
      | Some h \<Rightarrow>
          (case resolveKType S t ktype 0 ResolveForRead db of
             Inl _ \<Rightarrow> Inr ByMember
           | Inr kt \<Rightarrow>
               blind_lookup h t (case sensitiveFields (kt_schema kt) of Inl _ \<Rightarrow> [] | Inr fs \<Rightarrow> fs) field val))"

definition row_matches :: "pg_text \<Rightarrow> field_lookup \<Rightarrow> string \<Rightarrow> string \<Rightarrow> krecord_row \<Rightarrow> bool" where
  "row_matches P how field val r =
     (case how of
        ByBlindIndex name digest \<Rightarrow> Option.bind (r_blind r) (\<lambda>m. map_of m name) = Some digest
      | ByMember \<Rightarrow> map_option (pg_lower P) (pg_member P (r_data r) field) = Some (pg_lower P val))"

text \<open>\<open>db\<close> is what the lookup of the type sees, on the primary.\<close>

definition ForEachByField ::
  "pg_text \<Rightarrow> rstore \<Rightarrow> 'a record_db_scheme poolRouter \<Rightarrow> 'a record_db_scheme \<Rightarrow> uuid \<Rightarrow> listFilter \<Rightarrow> string \<Rightarrow> string
   \<Rightarrow> 's callback \<Rightarrow> 's \<Rightarrow> ((store_error + unit) \<times> 's) option" where
  "ForEachByField P S router db t f field val fn s =
     (if lf_ktype f = [] then Some (Inl RKTypeFilterRequired, s)
      else if field = [] then Some (Inl RFieldRequired, s)
      else case field_lookup_of S t (lf_ktype f) field val db of
             Inl e \<Rightarrow> Some (Inl e, s)
           | Inr how \<Rightarrow> foreachKeyset S router t (lf_ktype f) (filter_status f) (row_matches P how field val) fn s)"

definition ListByField ::
  "pg_text \<Rightarrow> rstore \<Rightarrow> 'a record_db_scheme poolRouter \<Rightarrow> 'a record_db_scheme \<Rightarrow> uuid \<Rightarrow> listFilter \<Rightarrow> string \<Rightarrow> string
   \<Rightarrow> (store_error + krecord list) option" where
  "ListByField P S router db t f field val = collected (ForEachByField P S router db t f field val collect [])"

end
