(* ===== verification/Record_Properties.thy ===== *)
theory Record_Properties
  imports Record_Correct "HOL-Library.Multiset"
begin

text \<open>
  The properties of the record store: the invariant of its tables, what is stored and what is read
  back, optimistic locking, deletion and bulk operations.
\<close>

section \<open>Sensitive fields are encrypted at rest\<close>

text \<open>The field at a path is absent, null or a string that satisfies \<open>P\<close>.\<close>

definition guarded :: "(string \<Rightarrow> bool) \<Rightarrow> document \<Rightarrow> string list \<Rightarrow> bool" where
  "guarded P doc p \<longleftrightarrow>
     (case walkPath doc p of None \<Rightarrow> True | Some ANil \<Rightarrow> True | Some (AStr s) \<Rightarrow> P s | Some _ \<Rightarrow> False)"

lemma guarded_iff:
  "guarded P doc p \<longleftrightarrow>
     walkPath doc p = None \<or> leaf_at doc p = Some ANil \<or> (\<exists>s. leaf_at doc p = Some (AStr s) \<and> P s)"
  by (auto simp: guarded_def leaf_at_def split: option.splits any.splits)

lemma guarded_set:
  assumes "walkPath doc p = Some (AStr u)" "P ct" "guarded P doc q"
  shows "guarded P (set_leaf doc p (AStr ct)) q"
proof -
  have lf: "leaf_at doc p = Some (AStr u)" using assms(1) by (simp add: leaf_at_Some)
  then show ?thesis
    using assms(2,3) walk_set_present[OF lf, of "AStr ct" q] by (auto simp: guarded_iff leaf_at_set)
qed

lemma encrypt_loop_guards:
  assumes enc: "\<And>n p c. fe_encrypt e n t p = Some c \<Longrightarrow> P c"
  shows "encrypt_loop e t n fs doc ch = Inr (doc', ch') \<Longrightarrow> q \<in> PathSegments ` set fs \<or> guarded P doc q \<Longrightarrow> guarded P doc' q"
proof (induction fs arbitrary: n doc ch)
  case (Cons f fs)
  let ?p = "PathSegments f"
  show ?case
  proof (cases "walkPath doc ?p")
    case None
    then have "guarded P doc ?p" by (simp add: guarded_def)
    with None Cons show ?thesis by auto
  next
    case (Some v)
    show ?thesis
    proof (cases v)
      case ANil
      then have "guarded P doc ?p" using Some by (simp add: guarded_def)
      with ANil Some Cons show ?thesis by auto
    next
      case (AStr s)
      with Some Cons.prems(1) obtain ct where ct: "fe_encrypt e n t s = Some ct"
        and rest: "encrypt_loop e t (Suc n) fs (set_leaf doc ?p (AStr ct)) True = Inr (doc', ch')"
        by (auto split: option.split_asm)
      have "guarded P (set_leaf doc ?p (AStr ct)) ?p" using enc[OF ct] Some by (simp add: guarded_def walk_set_same)
      moreover have "guarded P doc q \<Longrightarrow> guarded P (set_leaf doc ?p (AStr ct)) q"
        using guarded_set enc[OF ct] Some AStr by blast
      ultimately show ?thesis using Cons.IH[OF rest] Cons.prems(2) by auto
    qed (use Some Cons.prems(1) in auto)
  qed
qed simp

lemma guarded_same:
  assumes "same_doc d d'" "guarded P d p"
  shows "guarded P d' p"
proof -
  have "walkPath d' p = None \<longleftrightarrow> walkPath d p = None" "walkPath d' p = Some ANil \<longleftrightarrow> walkPath d p = Some ANil"
    "walkPath d' p = Some (AStr s) \<longleftrightarrow> walkPath d p = Some (AStr s)" for s
    using walk_same[OF assms(1), of p] by (cases rule: option.rel_cases; auto dest: same_shape)+
  moreover have "guarded P x p \<longleftrightarrow> walkPath x p = None \<or> walkPath x p = Some ANil \<or> (\<exists>s. walkPath x p = Some (AStr s) \<and> P s)" for x
    by (auto simp: guarded_def split: option.splits any.splits)
  ultimately show ?thesis using assms(2) by simp
qed

lemma encryptFields_guards:
  assumes "text_law jt" "encryptFields jt (Some e) n t sch data = Inr out"
    and "\<And>n p c. fe_encrypt e n t p = Some c \<Longrightarrow> P c"
    and "sensitiveFields sch = Inr fs" "f \<in> set fs" "payload_of out = Some d"
  shows "guarded P d (PathSegments f)"
proof -
  have "fs \<noteq> []" using assms(5) by auto
  then obtain doc doc' ch where doc: "payload_of data = Some doc"
    and loop: "encrypt_loop e t n fs doc False = Inr (doc', ch)"
    and out: "if ch then marshal_doc jt doc' = Some out else out = data"
    using assms(2,4) by (auto simp: encryptFields_def unmarshalData_def rbind_eq_Inr split: option.split_asm if_split_asm)
  have "guarded P doc' (PathSegments f)"
    by (rule encrypt_loop_guards[OF assms(3) loop]) (use assms(5) in auto)
  moreover have "d = doc'"
  proof (cases ch)
    case True
    then have "marshal_doc jt doc' = Some out" using out by simp
    with encrypt_doc_ok[OF loop payload_ok[OF doc]] show ?thesis using payload_marshal[OF assms(1)] assms(6) by simp
  next
    case False
    with loop encrypt_unchanged out doc assms(6) show ?thesis by force
  qed
  ultimately show ?thesis by simp
qed

lemma km_encrypts: "fe_encrypt (km_encryptor C now nonces km) n t p = Some c \<Longrightarrow> IsEncrypted c"
  by (auto simp: km_encryptor_def right_Some EncryptString_def encryptWithKey_def IsEncrypted_def
      split: prod.split_asm sum.split_asm if_split_asm)


section \<open>What bulk operations report\<close>

definition reported :: "bulkResult \<Rightarrow> uuid multiset" where
  "reported res = mset (br_succeeded res) + mset (map fst (br_failed res))"

text \<open>One step reports its id once and emits an event exactly when it succeeds.\<close>

definition accounted :: "uuid \<Rightarrow> bulkResult \<times> 'a record_db_scheme \<Rightarrow> bulkResult \<times> 'a record_db_scheme \<Rightarrow> bool" where
  "accounted i st st' \<longleftrightarrow>
     reported (fst st') = reported (fst st) + {#i#}
     \<and> length (events (snd st')) + length (br_succeeded (fst st)) = length (events (snd st)) + length (br_succeeded (fst st'))"

lemma put_events [simp]: "events (put_record row db) = events db"
  by (simp add: put_record_def)

lemma bulkPatchOne_accounts:
  assumes "bulkPatchOne S now eid n t name i patch actor st = Inr st'"
  shows "accounted i st st'"
proof -
  obtain res db res' db' where st: "st = (res, db)" "st' = (res', db')" by fastforce
  have "bulkPatchOne S now eid n t name i patch actor (res, db) = Inr (res', db')" using assms st by simp
  then show ?thesis
  proof (cases rule: bulkPatchOne_cases)
    case failed
    then show ?thesis by (simp add: st accounted_def reported_def)
  next
    case ok
    then show ?thesis using emit_ok(2)[OF ok(5)] write_patch_ok(1)[OF ok(4)] by (auto simp: st accounted_def reported_def)
  qed
qed

lemma bulkDeleteOne_accounts:
  assumes "bulkDeleteOne S now eid t name i actor st = Inr st'"
  shows "accounted i st st'"
proof -
  obtain res db res' db' where st: "st = (res, db)" "st' = (res', db')" by fastforce
  have "bulkDeleteOne S now eid t name i actor (res, db) = Inr (res', db')" using assms st by simp
  then show ?thesis
  proof (cases rule: bulkDeleteOne_cases)
    case failed
    then show ?thesis by (simp add: st accounted_def reported_def)
  next
    case (ok row)
    obtain r sch plain where "emit S now eid r ''krecord.deleted'' sch actor (r_ktype row @ ''.bulk_delete'') plain plain
        (BumpTenantRecordCount (r_tenant row) (- 1) (put_record (tombstone now actor row) db)) = Inr db'"
      using ok(3) unfolding soft_delete_ok Let_def by blast
    from emit_ok(2)[OF this] ok(4) show ?thesis by (auto simp: st accounted_def reported_def)
  qed
qed

lemma bulk_loop_accounts:
  assumes "\<And>x s s'. f x s = Inr s' \<Longrightarrow> accounted (fst x) s s'"
  shows "bulk_loop f ids st = Inr st' \<Longrightarrow> reported (fst st') = reported (fst st) + mset (map fst ids)
     \<and> length (events (snd st')) + length (br_succeeded (fst st)) = length (events (snd st)) + length (br_succeeded (fst st'))"
proof (induction ids arbitrary: st)
  case (Cons x ids)
  then obtain s where s: "f x st = Inr s" "bulk_loop f ids s = Inr st'" by (auto simp: rbind_eq_Inr)
  with Cons.IH[OF s(2)] assms[OF s(1)] show ?case by (simp add: accounted_def)
qed simp

lemma bulk_tx_accounts:
  assumes "WithTenantTx e t (\<lambda>db. bulk_loop f ids (no_result, db)) db = (Inr res, db')"
    and "\<And>x s s'. f x s = Inr s' \<Longrightarrow> accounted (fst x) s s'"
  shows "reported res = mset (map fst ids) \<and> length (events db') = length (events db) + length (br_succeeded res)"
proof -
  have "bulk_loop f ids (no_result, db) = Inr (res, db')" using assms(1) by (simp add: tx_commit)
  from bulk_loop_accounts[OF assms(2) this] show ?thesis by (simp add: reported_def no_result_def)
qed


section \<open>Examples\<close>

text \<open>A store with one registered type and the toy cipher, an empty database and a record of tenant 1.\<close>

definition staff_schema :: raw_message where
  "staff_schema = as_raw (JObj [(''fields'', JArr
     [JObj [(''name'', JStr ''code''), (''type'', JStr ''string''), (''required'', JBool True)],
      JObj [(''name'', JStr ''iban''), (''classification'', JStr ''secret''), (''path'', JStr ''b.iban'')]])])"

definition staff :: raw_message where
  "staff = as_raw (JObj [(''code'', JStr ''E1''), (''b'', JObj [(''iban'', JStr ''D1'')])])"

definition toy_store :: rstore where
  "toy_store =
     \<lparr>rs_engine = toy_engine, rs_ktype = toy_ktype_lib,
      rs_enc = Some (km_encryptor toy_crypto 0 (\<lambda>_. toy_nonce) (toy_km (CHR ''a'') None)),
      rs_hasher = None, rs_indexer = None, rs_custom = False,
      rs_registry = (\<lambda>n v. if n = ''hr'' \<and> (v = 0 \<or> v = 1)
        then Inr \<lparr>kt_name = ''hr'', kt_version = 1, kt_schema = staff_schema, kt_createdAt = 0\<rparr>
        else Inl KTypeNotFound)\<rparr>"

definition empty_records :: record_db where
  "empty_records = ktype_db.extend empty_ktypes \<lparr>krecords = [], record_counts = Map.empty\<rparr>"

definition draft :: "int \<Rightarrow> raw_message \<Rightarrow> krecord" where
  "draft v data =
     \<lparr>r_id = 9, r_tenant = 1, r_ktype = ''hr'', r_ktypeVersion = 0, r_data = data, r_status = [], r_version = v,
      r_createdBy = 7, r_createdAt = 0, r_updatedBy = Some 7, r_updatedAt = 0, r_deletedAt = None\<rparr>"

definition created :: record_db where
  "created = snd (Create toy_store 5000 1 50 0 (draft 0 staff) empty_records)"

definition raise :: raw_message where
  "raise = as_raw (JObj [(''code'', JStr ''E2'')])"

lemma jsonb_keeps_toy: "jsonb_keeps toy_audit"
  using same_doc_refl[OF payload_ok] by (auto simp: jsonb_keeps_def toy_audit_def same_payload_def)

lemma toy_store_law: "store_law toy_store"
  by (simp add: store_law_def toy_store_def toy_engine_def rs_text_def text_law_def jsonb_law_toy jsonb_keeps_toy)

lemma toy_registry_stable: "registry_stable toy_store"
  by (auto simp: registry_stable_def toy_store_def)

lemma toy_cipher: "rs_enc toy_store = Some (km_encryptor toy_crypto 0 (\<lambda>_. toy_nonce) (toy_km (CHR ''a'') None))
    \<and> km_lawful toy_crypto (\<lambda>_. toy_nonce) (toy_km (CHR ''a'') None)"
  by (simp add: toy_store_def km_lawful_def crypto_law_toy km_inv_toy toy_nonce_def nonceSize_def)

lemma empty_records_inv: "record_inv S empty_records"
  by (simp add: record_inv_def kernel_inv_def outbox_inv_def audit_inv_def tenant_rows_def counter_def active_rows_def
      empty_records_def empty_ktypes_def empty_ledger_def ktype_db.defs ledger_db.defs record_db.defs)


text \<open>A database with one record, written before there was an encryptor.\<close>

definition staff_row :: krecord_row where
  "staff_row =
     \<lparr>r_id = 9, r_tenant = 1, r_ktype = ''hr'', r_ktypeVersion = 1, r_data = staff, r_status = ''active'', r_version = 1,
      r_createdBy = 7, r_createdAt = 0, r_updatedBy = None, r_updatedAt = 0, r_deletedAt = None, r_blind = None\<rparr>"

definition one_record :: record_db where
  "one_record = empty_records\<lparr>krecords := [staff_row], record_counts := [1 \<mapsto> 1]\<rparr>"

lemma ok_result: "(case fst p of Inl _ \<Rightarrow> False | Inr c \<Rightarrow> P c) \<Longrightarrow> \<exists>c. p = (Inr c, snd p) \<and> P c"
  by (cases p; cases "fst p") auto

lemma created_ok: "\<exists>c. Create toy_store 5000 1 50 0 (draft 0 staff) empty_records = (Inr c, created) \<and> r_id c = 9"
proof -
  have "case fst (Create toy_store 5000 1 50 0 (draft 0 staff) empty_records) of Inl _ \<Rightarrow> False | Inr c \<Rightarrow> r_id c = 9"
    by code_simp
  then show ?thesis unfolding created_def by (rule ok_result)
qed

lemma one_record_inv: "record_inv S one_record"
proof -
  have "payload_of staff \<noteq> None" by code_simp
  then show ?thesis using empty_records_inv[of S]
    by (simp add: record_inv_def one_record_def counter_def active_rows_def record_row_ok_def staff_row_def pg_time_def)
qed

lemma updated_ok:
  "\<exists>u db'. Update toy_store 6000 51 1 (draft 1 raise) one_record = (Inr u, db') \<and> r_version u = 2"
proof -
  have "case fst (Update toy_store 6000 51 1 (draft 1 raise) one_record) of Inl _ \<Rightarrow> False | Inr u \<Rightarrow> r_version u = 2"
    by code_simp
  from ok_result[OF this] show ?thesis by blast
qed

lemma deleted_ok: "\<exists>db'. record_Delete toy_store 7000 52 1 9 7 one_record = (Inr (), db')"
proof -
  have "case fst (record_Delete toy_store 7000 52 1 9 7 one_record) of Inl _ \<Rightarrow> False | Inr u \<Rightarrow> u = ()" by code_simp
  from ok_result[OF this] show ?thesis by auto
qed


section \<open>Properties\<close>







text \<open>
  An update merges the submitted members into the record. When \<open>Update\<close> succeeds the record existed and
  had the version that the caller named, unless the caller named none; the new payload is the shallow merge
  of what \<open>Get\<close> returned before with the submitted payload, the version is one higher, and \<open>Get\<close> returns
  exactly this afterwards, up to the order of members.
\<close>

theorem update_merges:
  assumes "rs_enc S = None \<or> rs_enc S = Some (km_encryptor C tm nonces km) \<and> km_lawful C nonces km"
    and "store_law S" "record_inv S db" "Update S now eid n r db = (Inr u, db')"
  shows "\<exists>g out. record_Get S (r_tenant r) (r_id r) db = Inr g \<and> (r_version r = 0 \<or> r_version r = r_version g)
     \<and> r_version u = r_version g + 1 \<and> mergeJSON (rs_text S) (r_data g) (r_data r) = Inr (r_data u)
     \<and> record_Get S (r_tenant r) (r_id r) db' = Inr (u\<lparr>r_data := out\<rparr>) \<and> same_payload (r_data u) out"
  by (rule km.update_get[OF assms])

theorem update_merges_witness:
  "\<exists>u db' out. Update toy_store 6000 51 1 (draft 1 raise) one_record = (Inr u, db') \<and> r_version u = 2
     \<and> record_Get toy_store 1 9 db' = Inr (u\<lparr>r_data := out\<rparr>) \<and> same_payload (r_data u) out"
proof -
  obtain u db' where u: "Update toy_store 6000 51 1 (draft 1 raise) one_record = (Inr u, db')" "r_version u = 2"
    using updated_ok by blast
  from update_merges[OF disjI2[OF toy_cipher] toy_store_law one_record_inv u(1)] u show ?thesis by (auto simp: draft_def)
qed

text \<open>
  C8: No update is lost. Once an update has produced version \<open>v\<close> of a record, an update that was prepared
  on any earlier version fails with a version conflict and changes nothing, whatever operations have
  happened in between.
\<close>

theorem optimistic_locking:
  assumes "store_law S" "record_inv S db" "Update S now eid n r db = (Inr u, db')"
    and "r_tenant r2 = r_tenant r" "r_id r2 = r_id r" "r_version r2 \<noteq> 0" "r_version r2 < r_version u"
  shows "Update S now2 eid2 n2 r2 (record_run S ops db') = (Inl RVersionConflict, record_run S ops db')"
proof -
  let ?db = "record_run S ops db'"
  have t: "r_tenant r \<noteq> 0" "r_id r \<noteq> 0" and tx: "update_tx S now eid n r db = Inr (u, db')"
    using assms(3) by (auto simp: Update_def tx_commit split: if_split_asm)
  have inv': "record_inv S db'" by (rule update_tx_inv[OF assms(2,1) tx])
  obtain row' where row': "row' \<in> set (krecords db')" "row_key row' = (r_tenant r, r_id r)" "r_version row' = r_version u"
    using tx
  proof (cases rule: update_tx_ok)
    case (1 row kt plain blind ct row' db1)
    note w = write_patch_ok[OF 1(5)]
    have "row_key row' = (r_tenant r, r_id r)" using find_record_mem[OF 1(1)] w(6) by (simp add: row_key_def)
    moreover have "find_record (r_tenant r) (r_id r) db' = Some row'"
      using find_put[OF 1(1), of row'] calculation w(1) kernel_only_tables(1)[OF emit_ok(1)[OF 1(7)]] by (simp add: find_record_def)
    moreover have "r_version u = r_version row'" by (subst 1(6)) (simp add: to_record_def)
    ultimately show ?thesis using that find_record_mem by metis
  qed
  obtain row where row: "find_record (r_tenant r) (r_id r) ?db = Some row" "row_after row' row"
    using advanced_find[OF record_run_inv[OF assms(1) inv', of ops] record_run_advanced[OF assms(1) inv', of ops] row'(1)] row'(2)
    by (auto simp: row_key_def)
  have "r_version r2 \<noteq> r_version row" using row(2) row'(3) assms(7) by (simp add: row_after_def)
  then have "update_tx S now2 eid2 n2 r2 ?db = Inl RVersionConflict" using row(1) assms(4-6) by (simp add: update_tx_def)
  then show ?thesis using t assms(4,5) by (simp add: Update_def WithTenantTx_def)
qed

theorem optimistic_locking_witness:
  "\<exists>u db'. Update toy_store 6000 51 1 (draft 1 raise) one_record = (Inr u, db') \<and> r_version u = 2
     \<and> Update toy_store 8000 53 4 (draft 1 staff) (record_run toy_store [RODelete 7000 52 1 9 7] db')
         = (Inl RVersionConflict, record_run toy_store [RODelete 7000 52 1 9 7] db')"
proof -
  obtain u db' where u: "Update toy_store 6000 51 1 (draft 1 raise) one_record = (Inr u, db')" "r_version u = 2"
    using updated_ok by blast
  have "r_tenant (draft 1 staff) = r_tenant (draft 1 raise)" "r_id (draft 1 staff) = r_id (draft 1 raise)"
    "r_version (draft 1 staff) \<noteq> 0" "r_version (draft 1 staff) < r_version u" using u(2) by (simp_all add: draft_def)
  from optimistic_locking[OF toy_store_law one_record_inv u(1) this] u show ?thesis by blast
qed

lemma deleted_once_facts:
  assumes "store_law S" "record_inv S db" "record_Delete S now eid t i actor db = (Inr u, db')"
  shows "\<exists>ev. events db' = events db @ [ev] \<and> ev_type ev = ''krecord.deleted'' \<and> ev_tenant ev = t"
    and "\<exists>l. audit_log db' = audit_log db @ [l] \<and> al_target l = Some i"
    and "record_Delete S now2 eid2 t i actor2 (record_run S ops db') = (Inl RNotFound, record_run S ops db')"
proof -
  obtain row where t: "t \<noteq> 0" and row: "find_record t i db = Some row" "r_status row \<noteq> ''deleted''"
    and d: "soft_delete S now eid (actor_ptr actor) ''.delete'' row db = Inr db'"
    using assms(3) by (auto simp: record_Delete_def tx_commit rbind_eq_Inr split: option.split_asm if_split_asm)
  define row' where "row' = tombstone now (actor_ptr actor) row"
  have mem: "row \<in> set (krecords db)" "r_tenant row = t" "r_id row = i" using find_record_mem[OF row(1)] by auto
  have r': "row_key row' = (t, i)" "r_status row' = ''deleted''" "r_tenant row' = t" "r_id row' = i"
    using mem by (simp_all add: row'_def tombstone_def row_key_def)
  obtain sch plain where em: "emit S now eid ((to_record row')\<lparr>r_data := plain\<rparr>) ''krecord.deleted'' sch (actor_ptr actor)
      (r_ktype row @ ''.delete'') plain plain (BumpTenantRecordCount (r_tenant row) (- 1) (put_record row' db)) = Inr db'"
    using d unfolding soft_delete_ok Let_def row'_def by blast
  have "r_tenant ((to_record row')\<lparr>r_data := plain\<rparr>) = t" "r_id ((to_record row')\<lparr>r_data := plain\<rparr>) = i"
    using r'(3,4) by (simp_all add: to_record_def)
  with emit_ok(2,3)[OF em] show "\<exists>ev. events db' = events db @ [ev] \<and> ev_type ev = ''krecord.deleted'' \<and> ev_tenant ev = t"
    "\<exists>l. audit_log db' = audit_log db @ [l] \<and> al_target l = Some i" by (auto simp: put_record_def)
  have inv': "record_inv S db'" by (rule soft_delete_inv[OF assms(2,1) mem(1) row(2) d])
  have "find_record t i db' = Some row'"
    using find_put[OF row(1) r'(1)] kernel_only_tables(1)[OF emit_ok(1)[OF em]] by (simp add: find_record_def)
  then have mem': "row' \<in> set (krecords db')" using find_record_mem by blast
  obtain row2 where "find_record t i (record_run S ops db') = Some row2" "row_after row' row2"
    using advanced_find[OF record_run_inv[OF assms(1) inv', of ops] record_run_advanced[OF assms(1) inv', of ops] mem'] r'(3,4)
    by metis
  then show "record_Delete S now2 eid2 t i actor2 (record_run S ops db') = (Inl RNotFound, record_run S ops db')"
    using t r'(2) by (simp add: record_Delete_def WithTenantTx_def row_after_def)
qed

text \<open>
  A record is deleted once. A successful \<open>Delete\<close> emits one event and one audit entry; from then on every
  further \<open>Delete\<close> of the record is answered with not found and leaves the database as it is, whatever
  operations have happened in between, so a replayed request emits nothing.
\<close>

theorem deleted_once:
  assumes "store_law S" "record_inv S db" "record_Delete S now eid t i actor db = (Inr u, db')"
  shows "(\<exists>ev. events db' = events db @ [ev] \<and> ev_type ev = ''krecord.deleted'' \<and> ev_tenant ev = t)
    \<and> (\<exists>l. audit_log db' = audit_log db @ [l] \<and> al_target l = Some i)
    \<and> record_Delete S now2 eid2 t i actor2 (record_run S ops db') = (Inl RNotFound, record_run S ops db')"
  using deleted_once_facts[OF assms] by blast

theorem deleted_once_witness:
  "\<exists>db'. record_Delete toy_store 7000 52 1 9 7 one_record = (Inr (), db')
     \<and> record_Delete toy_store 9000 54 1 9 8 (record_run toy_store [ROUpdate 8000 53 2 (draft 0 raise)] db')
         = (Inl RNotFound, record_run toy_store [ROUpdate 8000 53 2 (draft 0 raise)] db')"
proof -
  obtain db' where d: "record_Delete toy_store 7000 52 1 9 7 one_record = (Inr (), db')" using deleted_ok by blast
  from deleted_once[OF toy_store_law one_record_inv d] d show ?thesis by blast
qed

lemma bulk_accounts_facts:
  assumes "ids \<noteq> []"
    and "BulkPatch S now t name ids patch actor db = (Inr res, db') \<or> BulkDelete S now t name ids actor db = (Inr res, db')"
  shows "mset (br_succeeded res) + mset (map fst (br_failed res)) = mset (map fst ids)"
    and "length (events db') = length (events db) + length (br_succeeded res)"
proof -
  have "\<exists>f. WithTenantTx RTenantRequired t (\<lambda>db. bulk_loop f ids (no_result, db)) db = (Inr res, db')
      \<and> (\<forall>x s s'. f x s = Inr s' \<longrightarrow> accounted (fst x) s s')"
    using assms(2)
  proof
    assume "BulkPatch S now t name ids patch actor db = (Inr res, db')"
    with assms(1) obtain p where "WithTenantTx RTenantRequired t (\<lambda>db. bulk_loop
        (\<lambda>(i, eid, n). bulkPatchOne S now eid n t name i p (actor_ptr actor)) ids (no_result, db)) db = (Inr res, db')"
      by (auto simp: BulkPatch_def Let_def split: if_split_asm)
    note w = this
    show ?thesis by (rule exI, rule conjI, rule w) (auto dest: bulkPatchOne_accounts split: prod.split_asm)
  next
    assume "BulkDelete S now t name ids actor db = (Inr res, db')"
    with assms(1) have "WithTenantTx RTenantRequired t (\<lambda>db. bulk_loop
        (\<lambda>(i, eid, n). bulkDeleteOne S now eid t name i (actor_ptr actor)) ids (no_result, db)) db = (Inr res, db')"
      by (auto simp: BulkDelete_def split: if_split_asm)
    note w = this
    show ?thesis by (rule exI, rule conjI, rule w) (auto dest: bulkDeleteOne_accounts split: prod.split_asm)
  qed
  then obtain f where "WithTenantTx RTenantRequired t (\<lambda>db. bulk_loop f ids (no_result, db)) db = (Inr res, db')"
    "\<And>x s s'. f x s = Inr s' \<Longrightarrow> accounted (fst x) s s'" by blast
  from bulk_tx_accounts[OF this]
  show "mset (br_succeeded res) + mset (map fst (br_failed res)) = mset (map fst ids)"
    "length (events db') = length (events db) + length (br_succeeded res)" by (auto simp: reported_def)
qed

text \<open>
  A bulk operation accounted for every record. When a bulk patch or a bulk delete of a nonempty list of
  ids succeeds, every id appears in the result exactly as often as in the request, either as succeeded or as
  failed, and exactly one event has been emitted for every id that succeeded.
\<close>

theorem bulk_accounts:
  assumes "ids \<noteq> []"
    and "BulkPatch S now t name ids patch actor db = (Inr res, db') \<or> BulkDelete S now t name ids actor db = (Inr res, db')"
  shows "mset (br_succeeded res) + mset (map fst (br_failed res)) = mset (map fst ids)
    \<and> length (events db') = length (events db) + length (br_succeeded res)"
  using bulk_accounts_facts[OF assms] by (rule conjI)

theorem bulk_accounts_witness:
  "\<exists>res db'. BulkDelete toy_store 7000 1 ''hr'' [(9, 52, 0), (8, 53, 0)] 7 one_record = (Inr res, db')
     \<and> mset (br_succeeded res) + mset (map fst (br_failed res)) = {#9, 8#} \<and> length (events db') = 1"
proof -
  have "case fst (BulkDelete toy_store 7000 1 ''hr'' [(9, 52, 0), (8, 53, 0)] 7 one_record) of Inl _ \<Rightarrow> False
      | Inr res \<Rightarrow> br_succeeded res = [9]" by code_simp
  from ok_result[OF this] obtain res db' where r: "BulkDelete toy_store 7000 1 ''hr'' [(9, 52, 0), (8, 53, 0)] 7 one_record = (Inr res, db')"
    "br_succeeded res = [9]" by blast
  have "events one_record = []"
    by (simp add: one_record_def empty_records_def empty_ktypes_def empty_ledger_def ktype_db.defs ledger_db.defs record_db.defs)
  with bulk_accounts[OF _ disjI2[OF r(1)]] r show ?thesis by simp
qed

text \<open>A deleted record can still be patched: neither \<open>Update\<close> nor the bulk patch looks at the status.\<close>

definition gone :: record_db where
  "gone = one_record\<lparr>krecords := [staff_row\<lparr>r_status := ''deleted'', r_deletedAt := Some 7000, r_version := 2\<rparr>]\<rparr>"

lemma deleted_record_patched:
  "case fst (BulkPatch toy_store 8000 1 ''hr'' [(9, 53, 2)] raise 7 gone) of
     Inl _ \<Rightarrow> False | Inr res \<Rightarrow> br_succeeded res = [9] \<and> br_failed res = []"
  by code_simp

end
