(* ===== verification/Record_Walk.thy ===== *)
theory Record_Walk
  imports Record_List Record_Properties
begin

text \<open>
  Correctness of reading many records: batches decrypt like single records, pages follow each other
  without gap or overlap, and the walk in chunks ends and visits what a single scan would visit. The
  locale \<open>keyset\<close> states what the loop over chunks relies on in its queries; it is interpreted on the
  queries of the store, with other transactions committing between the chunks.
\<close>

section \<open>Batches\<close>

definition decrypted :: "rstore \<Rightarrow> 'a ktype_db_scheme \<Rightarrow> krecord \<Rightarrow> store_error + krecord" where
  "decrypted S db r = rbind (decryptRecord S r db) (\<lambda>data. Inr (r\<lparr>r_data := data\<rparr>))"

lemma decrypted_plain: "rs_enc S = None \<Longrightarrow> decrypted S db r = Inr r"
  by (simp add: decrypted_def decryptRecord_def)

lemma mapM_plain: "rs_enc S = None \<Longrightarrow> mapM (decrypted S db) rs = Inr rs"
  by (induction rs) (simp_all add: decrypted_plain)

lemma decrypt_batch_mapM:
  assumes "rs_enc S \<noteq> None"
  shows "\<forall>r \<in> set rs. r_tenant r = t \<Longrightarrow> (\<And>n v kt. cache (n, v) = Some kt \<Longrightarrow> resolveKType S t n v ResolveForRead db = Inr kt) \<Longrightarrow>
    decrypt_batch S db cache rs = mapM (decrypted S db) rs"
proof (induction rs arbitrary: cache)
  case (Cons r rs)
  let ?res = "resolveKType S t (r_ktype r) (r_ktypeVersion r) ResolveForRead db"
  have rt: "r_tenant r = t" using Cons.prems(1) by simp
  have kt: "(case cache (r_ktype r, r_ktypeVersion r) of Some kt \<Rightarrow> Inr kt 
      | None \<Rightarrow> resolveKType S (r_tenant r) (r_ktype r) (r_ktypeVersion r) ResolveForRead db) = ?res"
    using Cons.prems(2) rt by (auto split: option.split)
  have step: "decrypted S db r = rbind ?res (\<lambda>kt. rbind (map_sum RField id
      (decryptRecordWith (rs_text S) (rs_enc S) t (kt_schema kt) (r_data r))) (\<lambda>data. Inr (r\<lparr>r_data := data\<rparr>)))"
    using assms rt by (auto simp: decrypted_def decryptRecord_def rbind_def split: sum.split)
  show ?case
  proof (cases ?res)
    case (Inl e)
    with step show ?thesis by (simp add: rt kt)
  next
    case (Inr kt')
    have "decrypt_batch S db (cache((r_ktype r, r_ktypeVersion r) \<mapsto> kt')) rs = mapM (decrypted S db) rs"
      by (rule Cons.IH) (use Cons.prems Inr in \<open>auto split: if_split_asm\<close>)
    with Inr step show ?thesis
      by (cases "decryptRecordWith (rs_text S) (rs_enc S) t (kt_schema kt') (r_data r)") (simp_all add: rt kt)
  qed
qed simp

lemma batch_rowwise:
  assumes "\<forall>r \<in> set rs. r_tenant r = t"
  shows "decryptRecordsBatch S db rs = mapM (decrypted S db) rs"
proof (cases "rs_enc S = None \<or> rs = []")
  case True
  then show ?thesis by (auto simp: decryptRecordsBatch_def mapM_plain)
next
  case False
  then show ?thesis using decrypt_batch_mapM[OF _ assms, of S Map.empty db] by (auto simp: decryptRecordsBatch_def)
qed

lemma decrypted_key: "decrypted S db r = Inr r' \<Longrightarrow> page_key r' = page_key r"
  by (auto simp: decrypted_def rbind_eq_Inr page_key_def)

lemma batch_keys: "mapM (decrypted S db) rs = Inr out \<Longrightarrow> map page_key out = map page_key rs"
  by (induction rs arbitrary: out) (auto simp: rbind_eq_Inr decrypted_key)

lemma page_key_record [simp]: "page_key (to_record r) = page_key r"
  by (simp add: page_key_def to_record_def)


section \<open>Sorted selections\<close>

abbreviation descending :: "page_pos list \<Rightarrow> bool" where
  "descending \<equiv> sorted_wrt (\<lambda>x y. y < x)"

definition under :: "page_pos option \<Rightarrow> page_pos \<Rightarrow> bool" where
  "under lower k \<longleftrightarrow> (case lower of None \<Rightarrow> True | Some pos \<Rightarrow> k < (pg_time (fst pos), snd pos))"

lemma select_lower: "select_rows t ktype status p lower rows = filter (\<lambda>r. under lower (page_key r)) (select_rows t ktype status p None rows)"
  by (simp add: select_rows_def under_def rev_filter[symmetric] filter_sort conj_ac)

lemma set_select: "set (select_rows t ktype status p lower rows) =
   {r \<in> set rows. r_tenant r = t \<and> r_ktype r = ktype \<and> r_status r = status \<and> p r \<and> under lower (page_key r)}"
  by (auto simp: select_rows_def under_def)

lemma select_descending:
  assumes "distinct (map row_key rows)"
  shows "descending (map page_key (select_rows t ktype status p lower rows))"
proof -
  let ?f = "filter (\<lambda>r. r_tenant r = t \<and> r_ktype r = ktype \<and> r_status r = status \<and> p r
       \<and> (case lower of None \<Rightarrow> True | Some pos \<Rightarrow> page_key r < (pg_time (fst pos), snd pos))) rows"
  have "inj_on page_key (set ?f)"
    using assms by (auto simp: inj_on_def page_key_def distinct_map row_key_def)
  moreover have "distinct ?f" using assms by (simp add: distinct_map)
  ultimately have "distinct (map page_key (sort_key page_key ?f))" by (simp add: distinct_map)
  then have "sorted_wrt (<) (map page_key (sort_key page_key ?f))" by (simp add: strict_sorted_iff)
  then show ?thesis by (simp add: select_rows_def rev_map[symmetric] sorted_wrt_rev)
qed

lemma descending_filter_below:
  assumes "descending (map page_key rs)" "0 < m" "m \<le> length rs"
  shows "filter (\<lambda>r. page_key r < page_key (rs ! (m - 1))) rs = drop m rs"
proof -
  let ?k = "page_key (rs ! (m - 1))"
  have less: "page_key (rs ! j) < page_key (rs ! i)" if "i < j" "j < length rs" for i j
    using sorted_wrt_nth_less[OF assms(1), of i j] that by simp
  have "filter (\<lambda>r. page_key r < ?k) (take m rs) = []"
  proof (rule filter_False, rule ballI)
    fix r assume "r \<in> set (take m rs)"
    then obtain i where "i < m" "i < length rs" "r = rs ! i" by (auto simp: in_set_conv_nth)
    with less[of i "m - 1"] assms(2,3) show "\<not> page_key r < ?k"
      by (cases "i = m - 1") (auto simp: not_less intro!: less_imp_le)
  qed
  moreover have "filter (\<lambda>r. page_key r < ?k) (drop m rs) = drop m rs"
  proof (rule filter_True, rule ballI)
    fix r assume "r \<in> set (drop m rs)"
    then obtain i where "i < length rs - m" "r = rs ! (m + i)" by (auto simp: in_set_conv_nth)
    with less[of "m - 1" "m + i"] assms(2) show "page_key r < ?k" by (simp add: less_diff_conv add.commute)
  qed
  ultimately show ?thesis using filter_append[of "\<lambda>r. page_key r < ?k" "take m rs" "drop m rs"] by simp
qed

lemma select_next:
  assumes "distinct (map row_key rows)" "list_all (\<lambda>r. pg_time (r_updatedAt r) = r_updatedAt r) rows"
    and "A = select_rows t ktype status p None rows" "0 < m" "m \<le> length A"
  shows "select_rows t ktype status p (Some (page_key (A ! (m - 1)))) rows = drop m A"
proof -
  have "A ! (m - 1) \<in> set A" using assms(4,5) by (intro nth_mem) simp
  then have "A ! (m - 1) \<in> set rows" using assms(3) set_select by blast
  then have "pg_time (fst (page_key (A ! (m - 1)))) = fst (page_key (A ! (m - 1)))"
    using assms(2) by (auto simp: list_all_iff page_key_def)
  then have "select_rows t ktype status p (Some (page_key (A ! (m - 1)))) rows
      = filter (\<lambda>r. page_key r < page_key (A ! (m - 1))) A"
    by (subst select_lower) (simp add: under_def assms(3))
  also have "\<dots> = drop m A"
    by (rule descending_filter_below[OF _ assms(4,5)]) (use select_descending[OF assms(1)] assms(3) in simp)
  finally show ?thesis .
qed


section \<open>Cursors\<close>

definition cursor_law :: "cursor_lib \<Rightarrow> bool" where
  "cursor_law L \<longleftrightarrow> uuid_laws (cl_go L) \<and> (\<forall>u. CHR ''|'' \<notin> set (uuid_string (cl_go L) u))
     \<and> (\<forall>s. rawurl_decode L (rawurl_encode L s) = Some s) \<and> (\<forall>s. s \<noteq> [] \<longrightarrow> rawurl_encode L s \<noteq> [])"

text \<open>The instants that \<open>UnixNano\<close> represents, from 1678 to 2262.\<close>

definition unix_range :: "gotime \<Rightarrow> bool" where
  "unix_range x \<longleftrightarrow> - (2 ^ 63) \<le> x - unix_epoch \<and> x - unix_epoch < 2 ^ 63"

lemma cursor_nonempty: "cursor_law L \<Longrightarrow> EncodeCursor L pos \<noteq> []"
  by (auto simp: cursor_law_def EncodeCursor_def)

lemma cursor_roundtrip:
  assumes "cursor_law L" "unix_range (fst pos)"
  shows "DecodeCursor L (EncodeCursor L pos) = Inr pos"
proof -
  let ?a = "show_int (UnixNano (fst pos))" and ?b = "uuid_string (cl_go L) (snd pos)"
  have no: "CHR ''|'' \<notin> set ?a" "CHR ''|'' \<notin> set ?b"
    using not_in_show_int[of "CHR ''|''"] assms(1) by (auto simp: is_digit_def less_eq_char_def cursor_law_def)
  have "takeWhile (\<lambda>c. c \<noteq> CHR ''|'') (?a @ ''|'' @ ?b) = ?a" "dropWhile (\<lambda>c. c \<noteq> CHR ''|'') (?a @ ''|'' @ ?b) = ''|'' @ ?b"
    using no(1) by (subst takeWhile_append2 dropWhile_append2, auto)+
  then have "SplitN3 (?a @ ''|'' @ ?b) = [?a, ?b]"
    using no by (simp add: SplitN3_def before_bar_def after_bar_def)
  moreover have "ParseInt ?a = Some (UnixNano (fst pos))" by (rule ParseInt_show) (rule UnixNano_range)+
  moreover have "uuid_parse (cl_go L) ?b = Some (snd pos)" using assms(1) by (simp add: cursor_law_def uuid_laws_def)
  moreover have "time_Unix (UnixNano (fst pos)) = fst pos"
    using assms(2) by (intro time_Unix_Nano) (simp_all add: unix_range_def)
  moreover have "rawurl_decode L (EncodeCursor L pos) = Some (?a @ ''|'' @ ?b)"
    using assms(1) by (simp add: cursor_law_def EncodeCursor_def)
  ultimately show ?thesis using cursor_nonempty[OF assms(1)] by (simp add: DecodeCursor_def)
qed


section \<open>The loop over the chunks\<close>

text \<open>
  What the loop relies on. Each chunk is sorted and below the position it is asked for, all chunks
  together hold finitely many positions, and a position that every chunk could return is in the chunk
  or below it. \<open>lawful\<close> says for which queries the laws hold.
\<close>

locale keyset =
  fixes lawful :: "'q \<Rightarrow> bool"
    and fetch :: "'q \<Rightarrow> nat \<Rightarrow> page_pos option \<Rightarrow> store_error + krecord list"
    and possible :: "'q \<Rightarrow> page_pos set"
    and permanent :: "'q \<Rightarrow> page_pos set"
  assumes finite_positions: "lawful q \<Longrightarrow> finite (possible q)"
    and stored_time: "lawful q \<Longrightarrow> pos \<in> possible q \<Longrightarrow> pg_time (fst pos) = fst pos"
    and chunk_sorted: "lawful q \<Longrightarrow> fetch q k lower = Inr page \<Longrightarrow> descending (map page_key page)"
    and chunk_within: "lawful q \<Longrightarrow> fetch q k lower = Inr page \<Longrightarrow> r \<in> set page \<Longrightarrow>
      page_key r \<in> possible q \<and> under lower (page_key r)"
    and chunk_complete: "lawful q \<Longrightarrow> fetch q k lower = Inr page \<Longrightarrow> pos \<in> permanent q \<Longrightarrow> under lower pos \<Longrightarrow>
      pos \<in> page_key ` set page \<or> chunk \<le> length page \<and> pos < page_key (last page)"

lemma visit_append:
  "visit fn (xs @ ys) s = (case visit fn xs s of (None, s') \<Rightarrow> visit fn ys s' | (Some r, s') \<Rightarrow> (Some r, s'))"
  by (induction xs arbitrary: s) (auto split: prod.splits option.splits)

lemma descending_last: "descending (map page_key rs) \<Longrightarrow> r \<in> set rs \<Longrightarrow> page_key (last rs) \<le> page_key r"
  by (induction rs) (auto simp: less_imp_le)

text \<open>The outcome of a walk is that of the callback on the records \<open>rs\<close>, each position once.\<close>

definition walked :: "page_pos set \<Rightarrow> page_pos set \<Rightarrow> 's callback \<Rightarrow> 's \<Rightarrow> krecord list \<Rightarrow> store_error + unit \<Rightarrow> 's \<Rightarrow> bool" where
  "walked poss perm fn s rs r s' \<longleftrightarrow>
     descending (map page_key rs) \<and> page_key ` set rs \<subseteq> poss
     \<and> (visit fn rs s = (Some r, s') \<or> visit fn rs s = (None, s') \<and> (r = Inr () \<longrightarrow> perm \<subseteq> page_key ` set rs))"

lemma walked_append:
  assumes "descending (map page_key page)" "page \<noteq> []" "visit fn page s = (None, s1)"
    and "walked {pos \<in> P. pos < page_key (last page)} {pos \<in> K. pos < page_key (last page)} fn s1 rs r s'"
    and "page_key ` set page \<subseteq> P" "\<And>pos. pos \<in> K \<Longrightarrow> pos \<in> page_key ` set page \<or> pos < page_key (last page)"
  shows "walked P K fn s (page @ rs) r s'"
proof -
  have below: "page_key x < page_key (last page)" if "x \<in> set rs" for x
    using assms(4) that by (auto simp: walked_def)
  have "descending (map page_key (page @ rs))"
    using assms(1,4) below descending_last[OF assms(1)] by (fastforce simp: walked_def sorted_wrt_append intro: less_le_trans)
  moreover have "page_key ` set (page @ rs) \<subseteq> P" using assms(4,5) by (auto simp: walked_def)
  moreover have "visit fn (page @ rs) s = visit fn rs s1" by (simp add: visit_append assms(3))
  moreover have "K \<subseteq> page_key ` set (page @ rs)" if "{pos \<in> K. pos < page_key (last page)} \<subseteq> page_key ` set rs"
    using that assms(6) by fastforce
  ultimately show ?thesis using assms(4) unfolding walked_def by auto
qed

context keyset
begin

lemma walk_ends:
  assumes "lawful q" "case lower of None \<Rightarrow> True | Some pos \<Rightarrow> pos \<in> possible q"
  shows "\<exists>rs r s'. walk_chunks (fetch q) fn k lower s = Some (r, s')
    \<and> walked {pos \<in> possible q. under lower pos} {pos \<in> permanent q. under lower pos} fn s rs r s'"
  using assms(2)
proof (induction "card {pos \<in> possible q. under lower pos}" arbitrary: k lower s rule: less_induct)
  case less
  let ?P = "{pos \<in> possible q. under lower pos}" and ?K = "{pos \<in> permanent q. under lower pos}"
  show ?case
  proof (cases "fetch q k lower")
    case (Inl e)
    then have "walk_chunks (fetch q) fn k lower s = Some (Inl e, s)" by (subst walk_chunks.simps) simp
    then show ?thesis by (intro exI[of _ "[]"]) (auto simp: walked_def)
  next
    case (Inr page)
    note laws = chunk_sorted[OF assms(1) Inr] chunk_within[OF assms(1) Inr] chunk_complete[OF assms(1) Inr]
    have within: "page_key ` set page \<subseteq> ?P" using laws(2) by auto
    obtain o1 s1 where v: "visit fn page s = (o1, s1)" by fastforce
    show ?thesis
    proof (cases "o1 = None \<and> chunk \<le> length page")
      case False
      then have "\<exists>r. walk_chunks (fetch q) fn k lower s = Some (r, s1) \<and> walked ?P ?K fn s page r s1"
        using v Inr laws(1,3) within by (subst walk_chunks.simps) (cases o1; auto simp: walked_def)
      then show ?thesis by blast
    next
      case True
      let ?l = "page_key (last page)"
      have ne: "page \<noteq> []" using True by (auto simp: chunk_def)
      have l: "?l \<in> ?P" using within ne last_in_set by blast
      then have "pg_time (fst ?l) = fst ?l" using stored_time[OF assms(1)] by blast
      then have u: "under (Some ?l) pos \<longleftrightarrow> pos < ?l" for pos by (simp add: under_def)
      have trans: "under lower pos" if "pos < ?l" for pos
        using that l by (auto simp: under_def split: option.split_asm)
      have P: "{pos \<in> possible q. under (Some ?l) pos} = {pos \<in> ?P. pos < ?l}"
        "{pos \<in> permanent q. under (Some ?l) pos} = {pos \<in> ?K. pos < ?l}" using u trans by auto
      have "{pos \<in> ?P. pos < ?l} \<subset> ?P" using l by blast
      then have "card {pos \<in> possible q. under (Some ?l) pos} < card ?P"
        unfolding P using finite_positions[OF assms(1)] by (intro psubset_card_mono) auto
      from less.hyps[OF this, of "k + 1" s1] l obtain rs r s' where
        rest: "walk_chunks (fetch q) fn (k + 1) (Some ?l) s1 = Some (r, s')"
          "walked {pos \<in> ?P. pos < ?l} {pos \<in> ?K. pos < ?l} fn s1 rs r s'" unfolding P by auto
      have "walked ?P ?K fn s (page @ rs) r s'"
        by (rule walked_append[OF laws(1) ne _ rest(2) within]) (use v True laws(3) in auto)
      moreover have "walk_chunks (fetch q) fn k lower s = Some (r, s')"
        using Inr v True rest(1) by (subst walk_chunks.simps) simp
      ultimately show ?thesis by blast
    qed
  qed
qed

lemma walk_all:
  assumes "lawful q"
  shows "\<exists>rs r s'. walk_chunks (fetch q) fn 0 None s = Some (r, s') \<and> walked (possible q) (permanent q) fn s rs r s'"
  using walk_ends[OF assms, of None fn 0 s] by (simp add: under_def)

end


section \<open>The queries of the store\<close>

text \<open>
  A walk with its parameters: the store, the tenant, the type, the status, the condition on the field, the
  snapshot time and the database state that each chunk sees.
\<close>

record 'a walk_query =
  wq_store :: rstore
  wq_tenant :: uuid
  wq_ktype :: string
  wq_status :: string
  wq_cond :: "krecord_row \<Rightarrow> bool"
  wq_snapshot :: gotime
  wq_views :: "nat \<Rightarrow> 'a record_db_scheme"

definition wanted :: "'a walk_query \<Rightarrow> krecord_row \<Rightarrow> bool" where
  "wanted q r \<longleftrightarrow> r_tenant r = wq_tenant q \<and> r_ktype r = wq_ktype q \<and> r_status r = wq_status q \<and> wq_cond q r
     \<and> r_updatedAt r \<le> pg_time (wq_snapshot q)"

definition seen :: "'a walk_query \<Rightarrow> nat \<Rightarrow> page_pos set" where
  "seen q k = page_key ` {r \<in> set (krecords (wq_views q k)). wanted q r}"

definition query_fetch :: "'a walk_query \<Rightarrow> nat \<Rightarrow> page_pos option \<Rightarrow> store_error + krecord list" where
  "query_fetch q = fetch_chunk (wq_store q) (wq_tenant q) (wq_ktype q) (wq_status q) (wq_cond q) (wq_snapshot q) (wq_views q)"

definition query_rows :: "'a walk_query \<Rightarrow> nat \<Rightarrow> page_pos option \<Rightarrow> krecord_row list" where
  "query_rows q k lower = select_rows (wq_tenant q) (wq_ktype q) (wq_status q)
     (\<lambda>r. wq_cond q r \<and> r_updatedAt r \<le> pg_time (wq_snapshot q)) lower (krecords (wq_views q k))"

definition query_ok :: "'a walk_query \<Rightarrow> bool" where
  "query_ok q \<longleftrightarrow> (\<forall>k. record_inv (wq_store q) (wq_views q k)) \<and> finite (\<Union>k. seen q k)"

lemma set_query_rows: "set (query_rows q k lower) = {r \<in> set (krecords (wq_views q k)). wanted q r \<and> under lower (page_key r)}"
  by (auto simp: query_rows_def set_select wanted_def)

lemma keys_query_rows: "page_key ` set (query_rows q k lower) = {pos \<in> seen q k. under lower pos}"
  by (auto simp: set_query_rows seen_def)

lemma query_fetch_eq:
  "query_fetch q k lower =
     (if wq_tenant q = 0 then Inl RTenantRequired
      else mapM (decrypted (wq_store q) (wq_views q k)) (map to_record (take chunk (query_rows q k lower))))"
proof -
  have "\<forall>r \<in> set (map to_record (take chunk (query_rows q k lower))). r_tenant r = wq_tenant q"
    by (auto simp: to_record_def dest!: in_set_takeD simp: set_query_rows wanted_def)
  from batch_rowwise[OF this, of "wq_store q" "wq_views q k"] show ?thesis by (simp add: query_fetch_def fetch_chunk_def query_rows_def)
qed

lemma query_keys:
  assumes "query_fetch q k lower = Inr page"
  shows "map page_key page = map page_key (take chunk (query_rows q k lower))"
proof -
  have "map page_key page = map page_key (map to_record (take chunk (query_rows q k lower)))"
    using assms by (intro batch_keys) (auto simp: query_fetch_eq split: if_split_asm)
  then show ?thesis by (simp add: o_def)
qed

lemma query_descending: "query_ok q \<Longrightarrow> descending (map page_key (query_rows q k lower))"
  by (simp add: query_rows_def query_ok_def record_inv_def select_descending)

lemma descending_split:
  assumes "descending (map page_key rs)" "pos \<in> page_key ` set rs" "pos \<notin> page_key ` set (take n rs)" "0 < n"
  shows "n \<le> length rs \<and> pos < page_key (rs ! (n - 1))"
proof -
  obtain i where i: "i < length rs" "pos = page_key (rs ! i)" using assms(2) by (auto simp: in_set_conv_nth)
  have "rs ! i \<in> set (take n rs)" if "i < n" using that i by (auto simp: in_set_conv_nth)
  then have "\<not> i < n" using assms(3) i by blast
  moreover have "page_key (rs ! i) < page_key (rs ! (n - 1))" if "n \<le> i"
    using sorted_wrt_nth_less[OF assms(1), of "n - 1" i] i that assms(4) by simp
  ultimately show ?thesis using i by simp
qed

lemma query_complete:
  assumes "query_ok q" "query_fetch q k lower = Inr page" "pos \<in> seen q k" "under lower pos"
  shows "pos \<in> page_key ` set page \<or> chunk \<le> length page \<and> pos < page_key (last page)"
proof (cases "pos \<in> page_key ` set page")
  case False
  let ?A = "query_rows q k lower"
  note keys = query_keys[OF assms(2)]
  have sets: "page_key ` set page = page_key ` set (take chunk ?A)" using keys by (metis image_set)
  then have "pos \<notin> page_key ` set (take chunk ?A)" using False by simp
  moreover have "pos \<in> page_key ` set ?A" using assms(3,4) by (simp add: keys_query_rows)
  ultimately have full: "chunk \<le> length ?A \<and> pos < page_key (?A ! (chunk - 1))"
    by (intro descending_split query_descending assms(1)) (simp_all add: chunk_def)
  then have len: "length page = chunk" using arg_cong[OF keys, of length] by simp
  moreover have "page_key (last page) = page_key (?A ! (chunk - 1))"
  proof -
    have ne: "page \<noteq> []" "take chunk ?A \<noteq> []" using len full by (auto simp: chunk_def)
    have "page_key (last page) = last (map page_key (take chunk ?A))" using ne(1) by (simp add: last_map flip: keys)
    also have "\<dots> = page_key (take chunk ?A ! (chunk - 1))" using ne(2) full by (simp add: last_map last_conv_nth)
    finally show ?thesis by (simp add: chunk_def)
  qed
  ultimately show ?thesis using full by simp
qed simp

interpretation walk: keyset query_ok query_fetch "\<lambda>q. \<Union>k. seen q k" "\<lambda>q. \<Inter>k. seen q k"
proof
  fix q :: "'a walk_query" and k lower page
  assume ok: "query_ok q"
  show "finite (\<Union>k. seen q k)" using ok by (simp add: query_ok_def)
  show "pg_time (fst pos) = fst pos" if "pos \<in> (\<Union>k. seen q k)" for pos
    using that ok by (auto simp: seen_def query_ok_def record_inv_def list_all_iff record_row_ok_def page_key_def)
  assume f: "query_fetch q k lower = Inr page"
  show "descending (map page_key page)"
    using sorted_wrt_take[OF query_descending[OF ok, of k lower], of chunk] query_keys[OF f] by (simp add: take_map)
  show "page_key r \<in> (\<Union>k. seen q k) \<and> under lower (page_key r)" if "r \<in> set page" for r
  proof -
    have "page_key r \<in> set (map page_key page)" using that by simp
    then have "page_key r \<in> page_key ` set (query_rows q k lower)" using query_keys[OF f] by (auto dest: in_set_takeD)
    then show ?thesis by (auto simp: keys_query_rows)
  qed
  show "pos \<in> page_key ` set page \<or> chunk \<le> length page \<and> pos < page_key (last page)"
    if "pos \<in> (\<Inter>k. seen q k)" "under lower pos" for pos
    using query_complete[OF ok f] that by blast
qed


section \<open>The walks of the store\<close>

definition walk_of :: "rstore \<Rightarrow> uuid \<Rightarrow> listFilter \<Rightarrow> 'a record_db_scheme dbpool \<Rightarrow> gotime \<Rightarrow> 'a walk_query" where
  "walk_of S t f pool snapshot =
     \<lparr>wq_store = S, wq_tenant = t, wq_ktype = lf_ktype f, wq_status = filter_status f, wq_cond = (\<lambda>_. True),
      wq_snapshot = snapshot, wq_views = chunk_view pool\<rparr>"

lemma ForEach_walk:
  "ForEach S router t f fn s =
     (if lf_ktype f = [] then Some (Inl RKTypeFilterRequired, s)
      else case pickReadPoolWithSnapshot router of
             Inl e \<Rightarrow> Some (Inl e, s)
           | Inr (pool, snapshot) \<Rightarrow> walk_chunks (query_fetch (walk_of S t f pool snapshot)) fn 0 None s)"
  by (simp add: ForEach_def foreachKeyset_def query_fetch_def walk_of_def cong: sum.case_cong)

lemma visit_log: "visit (\<lambda>r out. (None, out @ [r])) rs out = (None, out @ rs)"
  by (induction rs arbitrary: out) auto

lemma descending_once:
  assumes "descending (map page_key rs)" "pos \<in> page_key ` set rs"
  shows "length (filter (\<lambda>r. page_key r = pos) rs) = 1"
proof -
  have "sorted_wrt (<) (rev (map page_key rs))" using assms(1) by (simp add: sorted_wrt_rev)
  then have "distinct (map page_key rs)" using strict_sorted_iff distinct_rev by blast
  moreover from this have "length (filter (\<lambda>r. page_key r = pos) rs) = card (set (filter (\<lambda>r. page_key r = pos) rs))"
    by (intro distinct_card[symmetric]) (simp add: distinct_map)
  moreover obtain r where "r \<in> set rs" "page_key r = pos" using assms(2) by blast
  ultimately have "set (filter (\<lambda>r. page_key r = pos) rs) = {r}" by (auto simp: distinct_map dest: inj_onD)
  with \<open>length _ = card _\<close> show ?thesis by simp
qed

section \<open>Walks over data that does not change\<close>

definition position :: "krecord_row list \<Rightarrow> nat \<Rightarrow> page_pos option" where
  "position rows m = (if m = 0 then None else Some (page_key (rows ! (m - 1))))"

lemma quiet_fetch:
  assumes "query_ok q" "\<forall>k. wq_views q k = db" "wq_tenant q \<noteq> 0" "m \<le> length (query_rows q 0 None)"
  shows "query_fetch q k (position (query_rows q 0 None) m)
    = mapM (decrypted (wq_store q) db) (map to_record (take chunk (drop m (query_rows q 0 None))))"
proof -
  have "record_inv (wq_store q) db" using assms(1,2) by (simp add: query_ok_def)
  then have "distinct (map row_key (krecords db))" "list_all (\<lambda>r. pg_time (r_updatedAt r) = r_updatedAt r) (krecords db)"
    by (auto simp: record_inv_def list_all_iff record_row_ok_def)
  from select_next[OF this refl, of m] assms(2,4) show ?thesis
    using assms(3) by (cases m) (simp_all add: query_fetch_eq query_rows_def position_def)
qed

lemma mapM_append: "mapM f (xs @ ys) = rbind (mapM f xs) (\<lambda>a. rbind (mapM f ys) (\<lambda>b. Inr (a @ b)))"
  by (induction xs) (auto simp: rbind_def split: sum.splits)

lemma next_position:
  assumes "mapM (decrypted S db) (map to_record (take n (drop m rows))) = Inr page" "0 < n" "m + n \<le> length rows"
  shows "Some (page_key (last page)) = position rows (m + n)"
proof -
  have keys: "map page_key page = map page_key (take n (drop m rows))" using batch_keys[OF assms(1)] by (simp add: o_def)
  have ne: "page \<noteq> []" "take n (drop m rows) \<noteq> []" using mapM_length[OF assms(1)] assms(2,3) by auto
  have "page_key (last page) = last (map page_key (take n (drop m rows)))" using ne(1) by (simp add: last_map flip: keys)
  also have "\<dots> = page_key (rows ! (m + n - 1))"
    using ne(2) assms(2,3) by (simp add: last_map last_conv_nth min_absorb2 less_diff_conv)
  finally show ?thesis using assms(2) by (simp add: position_def)
qed


lemma chunk_step:
  fixes rows :: "krecord_row list"
  assumes "mapM f (map to_record (drop m rows)) = Inr rs" "chunk \<le> length (drop m rows)"
  obtains page rest where "mapM f (map to_record (take chunk (drop m rows))) = Inr page" "length page = chunk"
    "mapM f (map to_record (drop (m + chunk) rows)) = Inr rest" "rs = page @ rest"
proof -
  have "drop m rows = take chunk (drop m rows) @ drop (m + chunk) rows" by (simp add: add.commute flip: drop_drop)
  then have "mapM f (map to_record (take chunk (drop m rows)) @ map to_record (drop (m + chunk) rows)) = Inr rs"
    using assms(1) by (metis map_append)
  then obtain page rest where p: "mapM f (map to_record (take chunk (drop m rows))) = Inr page"
    "mapM f (map to_record (drop (m + chunk) rows)) = Inr rest" "rs = page @ rest"
    by (auto simp: mapM_append rbind_eq_Inr)
  moreover have "length page = chunk" using mapM_length[OF p(1)] assms(2) by simp
  ultimately show ?thesis using that by blast
qed

definition scanned :: "'s callback \<Rightarrow> krecord list \<Rightarrow> 's \<Rightarrow> (store_error + unit) \<times> 's" where
  "scanned fn rs s = (case visit fn rs s of (Some r, s') \<Rightarrow> (r, s') | (None, s') \<Rightarrow> (Inr (), s'))"

lemma quiet_walk:
  assumes "\<And>k m. m \<le> length rows \<Longrightarrow>
      fetch k (position rows m) = mapM (decrypted S db) (map to_record (take chunk (drop m rows)))"
  shows "mapM (decrypted S db) (map to_record (drop m rows)) = Inr rs \<Longrightarrow> m \<le> length rows \<Longrightarrow>
    walk_chunks fetch fn k (position rows m) s = Some (scanned fn rs s)"
proof (induction "length rows - m" arbitrary: m k s rs rule: less_induct)
  case less
  show ?case
  proof (cases "chunk \<le> length (drop m rows)")
    case True
    from chunk_step[OF less.prems(1) True] obtain page rest where
      p: "mapM (decrypted S db) (map to_record (take chunk (drop m rows))) = Inr page" "length page = chunk"
        "mapM (decrypted S db) (map to_record (drop (m + chunk) rows)) = Inr rest" "rs = page @ rest" by blast
    have more: "m + chunk \<le> length rows" "length rows - (m + chunk) < length rows - m" using True by (auto simp: chunk_def)
    have "fetch k (position rows m) = Inr page" using assms less.prems(2) p(1) by simp
    moreover have "Some (page_key (last page)) = position rows (m + chunk)"
      by (rule next_position[OF p(1) _ more(1)]) (simp add: chunk_def)
    ultimately show ?thesis using less.hyps[OF more(2) p(3) more(1)] p(2,4)
      by (subst walk_chunks.simps) (auto simp: scanned_def visit_append split: prod.split option.split)
  next
    case False
    then have "fetch k (position rows m) = Inr rs" "length rs < chunk"
      using assms less.prems mapM_length[OF less.prems(1)] by simp_all
    then show ?thesis by (subst walk_chunks.simps) (auto simp: scanned_def split: prod.split option.split)
  qed
qed

lemma visit_collect:
  "visit collect rs out =
     (if length out + length rs \<le> ListAllMaxRows \<or> rs = [] then (None, out @ rs)
      else (Some (Inl RListAllExceedsCap), out @ take (ListAllMaxRows - length out) rs))"
proof (induction rs arbitrary: out)
  case (Cons r rs)
  show ?case
  proof (cases "length out < ListAllMaxRows")
    case True
    then have "ListAllMaxRows - length out = Suc (ListAllMaxRows - Suc (length out))" by simp
    with True Cons[of "out @ [r]"] show ?thesis by (auto simp: collect_def)
  qed (auto simp: collect_def)
qed simp

lemma quiet_collect:
  assumes "\<And>k m. m \<le> length rows \<Longrightarrow>
      fetch k (position rows m) = mapM (decrypted S db) (map to_record (take chunk (drop m rows)))"
  shows "m \<le> length rows \<Longrightarrow> length out + length (drop m rows) \<le> ListAllMaxRows \<Longrightarrow>
    collected (walk_chunks fetch collect k (position rows m) out)
      = Some (map_sum id (\<lambda>rs. out @ rs) (mapM (decrypted S db) (map to_record (drop m rows))))"
proof (induction "length rows - m" arbitrary: m k out rule: less_induct)
  case less
  let ?page = "mapM (decrypted S db) (map to_record (take chunk (drop m rows)))"
  have split: "mapM (decrypted S db) (map to_record (drop m rows))
      = rbind ?page (\<lambda>a. rbind (mapM (decrypted S db) (map to_record (drop (m + chunk) rows))) (\<lambda>b. Inr (a @ b)))"
    using mapM_append[of "decrypted S db" "map to_record (take chunk (drop m rows))" "map to_record (drop (m + chunk) rows)"]
    by (simp add: add.commute flip: map_append drop_drop)
  have fetch: "fetch k (position rows m) = ?page" using assms less.prems(1) by simp
  show ?case
  proof (cases ?page)
    case (Inl e)
    then show ?thesis using fetch split by (subst walk_chunks.simps) (simp add: collected_def)
  next
    case (Inr page)
    have len: "length page = min chunk (length rows - m)" using mapM_length[OF Inr] by (simp add: min.commute)
    then have v: "visit collect page out = (None, out @ page)" using less.prems(2) by (auto simp: visit_collect)
    show ?thesis
    proof (cases "chunk \<le> length rows - m")
      case True
      then have more: "m + chunk \<le> length rows" "length rows - (m + chunk) < length rows - m" by (auto simp: chunk_def)
      have "Some (page_key (last page)) = position rows (m + chunk)"
        by (rule next_position[OF Inr _ more(1)]) (simp add: chunk_def)
      then have "walk_chunks fetch collect k (position rows m) out
          = walk_chunks fetch collect (k + 1) (position rows (m + chunk)) (out @ page)"
        using fetch Inr v len True by (subst walk_chunks.simps) simp
      moreover have "length (out @ page) + length (drop (m + chunk) rows) \<le> ListAllMaxRows"
        using less.prems(2) len True by simp
      ultimately show ?thesis using less.hyps[OF more(2,1)] Inr split
        by (auto simp: rbind_def split: sum.split)
    next
      case False
      then have "mapM (decrypted S db) (map to_record (drop m rows)) = Inr page" using Inr by simp
      then show ?thesis using False fetch Inr v len by (subst walk_chunks.simps) (simp add: collected_def)
    qed
  qed
qed


text \<open>The rows that a walk at the snapshot selects, newest first.\<close>

definition walk_rows :: "uuid \<Rightarrow> listFilter \<Rightarrow> gotime \<Rightarrow> 'a record_db_scheme \<Rightarrow> krecord_row list" where
  "walk_rows t f snapshot db =
     select_rows t (lf_ktype f) (filter_status f) (\<lambda>r. r_updatedAt r \<le> pg_time snapshot) None (krecords db)"

lemma seen_finite: "\<forall>k. wq_views q k = db \<Longrightarrow> finite (\<Union>k. seen q k)"
  by (simp add: seen_def)

lemma quiet_query:
  assumes "pickReadPoolWithSnapshot router = Inr (pool, snapshot)" "\<forall>k. chunk_view pool k = db" "record_inv S db"
    and "lf_ktype f \<noteq> []" "t \<noteq> 0"
  shows "ForEach S router t f fn s = walk_chunks (query_fetch (walk_of S t f pool snapshot)) fn 0 (position (walk_rows t f snapshot db) 0) s"
    and "m \<le> length (walk_rows t f snapshot db) \<Longrightarrow> query_fetch (walk_of S t f pool snapshot) k (position (walk_rows t f snapshot db) m)
       = mapM (decrypted S db) (map to_record (take chunk (drop m (walk_rows t f snapshot db))))"
proof -
  let ?q = "walk_of S t f pool snapshot"
  show "ForEach S router t f fn s = walk_chunks (query_fetch ?q) fn 0 (position (walk_rows t f snapshot db) 0) s"
    using assms(1,4) by (simp add: ForEach_walk position_def)
  have "query_ok ?q" using assms(2,3) seen_finite[of ?q db] by (simp add: query_ok_def walk_of_def)
  moreover have "query_rows ?q 0 None = walk_rows t f snapshot db" using assms(2) by (simp add: query_rows_def walk_rows_def walk_of_def)
  ultimately show "m \<le> length (walk_rows t f snapshot db) \<Longrightarrow> query_fetch ?q k (position (walk_rows t f snapshot db) m)
       = mapM (decrypted S db) (map to_record (take chunk (drop m (walk_rows t f snapshot db))))"
    using quiet_fetch[of ?q db m k] assms(2,5) by (simp add: walk_of_def)
qed

lemma Get_decrypted:
  assumes "record_inv S db" "t \<noteq> 0" "row \<in> set (krecords db)" "r_tenant row = t"
  shows "record_Get S t (r_id row) db = decrypted S db (to_record row)"
  using assms find_record_unique[OF assms(1,3)] by (simp add: record_Get_def decrypted_def)

lemma mapM_map: "mapM f (map g xs) = mapM (\<lambda>x. f (g x)) xs"
  by (induction xs) simp_all

lemma rows_Get:
  assumes "record_inv S db" "t \<noteq> 0"
  shows "mapM (decrypted S db) (map to_record (walk_rows t f snapshot db))
       = mapM (\<lambda>row. record_Get S t (r_id row) db) (walk_rows t f snapshot db)"
  unfolding mapM_map by (rule mapM_cong) (auto simp: walk_rows_def set_select Get_decrypted[OF assms])

lemma quiet_scan:
  assumes "pickReadPoolWithSnapshot router = Inr (pool, snapshot)" "\<forall>k. chunk_view pool k = db" "record_inv S db"
    and "lf_ktype f \<noteq> []" "t \<noteq> 0"
    and "mapM (\<lambda>row. record_Get S t (r_id row) db) (walk_rows t f snapshot db) = Inr rs"
  shows "ForEach S router t f fn s = Some (scanned fn rs s)"
proof -
  note q = quiet_query[OF assms(1-5)]
  have "mapM (decrypted S db) (map to_record (drop 0 (walk_rows t f snapshot db))) = Inr rs"
    using rows_Get[OF assms(3,5)] assms(6) by simp
  from quiet_walk[of "walk_rows t f snapshot db" "query_fetch (walk_of S t f pool snapshot)", OF q(2) this, of fn 0 s]
  show ?thesis by (simp add: quiet_query(1)[OF assms(1-5)])
qed

section \<open>Pages\<close>

definition page_rows :: "uuid \<Rightarrow> listFilter \<Rightarrow> 'a record_db_scheme \<Rightarrow> krecord_row list" where
  "page_rows t f db = select_rows t (lf_ktype f) (filter_status f) (\<lambda>_. True) None (krecords db)"

text \<open>What a client reads that sends the cursor of each page with the next request.\<close>

primrec page_seq ::
  "cursor_lib \<Rightarrow> rstore \<Rightarrow> uuid \<Rightarrow> listFilter \<Rightarrow> 'a record_db_scheme \<Rightarrow> nat \<Rightarrow> store_error + listPage" where
  "page_seq L S t f db 0 = ListPage L S t f db"
| "page_seq L S t f db (Suc i) = rbind (page_seq L S t f db i) (\<lambda>page. ListPage L S t (f\<lparr>lf_cursor := lp_next page\<rparr>) db)"

definition page_cursor :: "cursor_lib \<Rightarrow> krecord_row list \<Rightarrow> nat \<Rightarrow> string" where
  "page_cursor L rows m = (case position rows m of None \<Rightarrow> [] | Some pos \<Rightarrow> EncodeCursor L pos)"

lemma page_limit_pos: "0 < page_limit f"
  by (simp add: page_limit_def)

lemma page_rows_Get:
  assumes "record_inv S db" "t \<noteq> 0" "mapM (\<lambda>row. record_Get S t (r_id row) db) (page_rows t f db) = Inr rs"
  shows "decryptRecordsBatch S db (map to_record (take n (drop m (page_rows t f db)))) = Inr (take n (drop m rs))"
    and "mapM (decrypted S db) (map to_record (take n (drop m (page_rows t f db)))) = Inr (take n (drop m rs))"
proof -
  have set: "row \<in> set (krecords db) \<and> r_tenant row = t" if "row \<in> set (page_rows t f db)" for row
    using that by (auto simp: page_rows_def set_select)
  then have "mapM (\<lambda>row. decrypted S db (to_record row)) (page_rows t f db) = Inr rs"
    using assms(3) Get_decrypted[OF assms(1,2)] mapM_cong[OF refl] by (metis (mono_tags, lifting))
  then show "mapM (decrypted S db) (map to_record (take n (drop m (page_rows t f db)))) = Inr (take n (drop m rs))"
    by (simp add: mapM_map mapM_Inr_iff list_all2_takeI list_all2_dropI)
  moreover have "\<forall>r \<in> set (map to_record (take n (drop m (page_rows t f db)))). r_tenant r = t"
    using set by (auto simp: to_record_def dest!: in_set_takeD in_set_dropD)
  ultimately show "decryptRecordsBatch S db (map to_record (take n (drop m (page_rows t f db)))) = Inr (take n (drop m rs))"
    using batch_rowwise[of _ t S db] by simp
qed

lemma page_select:
  assumes "cursor_law L" "record_inv S db" "\<forall>row \<in> set (krecords db). unix_range (r_updatedAt row)"
    and "0 < m" "m \<le> length (page_rows t f db)"
  shows "\<exists>pos. DecodeCursor L (page_cursor L (page_rows t f db) m) = Inr pos \<and> page_cursor L (page_rows t f db) m \<noteq> []
    \<and> select_rows t (lf_ktype f) (filter_status f) (\<lambda>_. True) (Some pos) (krecords db) = drop m (page_rows t f db)"
proof -
  let ?A = "page_rows t f db" and ?pos = "page_key (page_rows t f db ! (m - 1))"
  have "?A ! (m - 1) \<in> set ?A" using assms(4,5) by (intro nth_mem) simp
  then have "?A ! (m - 1) \<in> set (krecords db)" unfolding page_rows_def set_select by blast
  then have "unix_range (fst ?pos)" using assms(3) by (simp add: page_key_def)
  moreover have "page_cursor L ?A m = EncodeCursor L ?pos" using assms(4) by (simp add: page_cursor_def position_def)
  moreover have "select_rows t (lf_ktype f) (filter_status f) (\<lambda>_. True) (Some ?pos) (krecords db) = drop m ?A"
    by (rule select_next[OF _ _ _ assms(4,5)])
      (use assms(2) in \<open>auto simp: record_inv_def list_all_iff record_row_ok_def page_rows_def\<close>)
  ultimately show ?thesis using cursor_roundtrip[OF assms(1)] cursor_nonempty[OF assms(1)] by metis
qed

lemma page_at:
  assumes "cursor_law L" "record_inv S db" "\<forall>row \<in> set (krecords db). unix_range (r_updatedAt row)" "lf_ktype f \<noteq> []" "t \<noteq> 0"
    and "lf_offset f \<le> 0" "mapM (\<lambda>row. record_Get S t (r_id row) db) (page_rows t f db) = Inr rs" "m \<le> length rs"
  shows "ListPage L S t (f\<lparr>lf_cursor := page_cursor L (page_rows t f db) m\<rparr>) db
    = Inr \<lparr>lp_records = take (page_limit f) (drop m rs),
           lp_next = if m + page_limit f \<le> length rs then page_cursor L (page_rows t f db) (m + page_limit f) else []\<rparr>"
proof -
  let ?A = "page_rows t f db" and ?n = "page_limit f" and ?g = "f\<lparr>lf_cursor := page_cursor L (page_rows t f db) m\<rparr>"
  let ?page = "take ?n (drop m ?A)" and ?out = "take ?n (drop m rs)"
  have g: "page_limit ?g = ?n" "filter_status ?g = filter_status f" by (simp_all add: page_limit_def filter_status_def)
  have len: "length ?A = length rs" using mapM_length[OF assms(7)] by simp
  note out = page_rows_Get(1)[OF assms(2,5,7), of ?n m]
  have nxt: "(if length ?out = ?n then EncodeCursor L (page_key (last ?out)) else [])
      = (if m + ?n \<le> length rs then page_cursor L ?A (m + ?n) else [])"
  proof (cases "m + ?n \<le> length rs")
    case True
    from next_position[OF page_rows_Get(2)[OF assms(2,5,7)] page_limit_pos] True len
    have "position ?A (m + ?n) = Some (page_key (last ?out))" by simp
    then show ?thesis using True by (simp add: page_cursor_def)
  next
    case False
    then have "length ?out \<noteq> ?n" using assms(8) by simp
    with False show ?thesis by simp
  qed
  have "ListPage L S t ?g db
      = Inr \<lparr>lp_records = ?out, lp_next = if length ?out = ?n then EncodeCursor L (page_key (last ?out)) else []\<rparr>"
  proof (cases "m = 0")
    case True
    then have "page_cursor L ?A m = []" by (simp add: page_cursor_def position_def)
    with True out assms(4-6) g show ?thesis by (simp add: ListPage_def DecodeCursor_def page_rows_def[symmetric] Let_def)
  next
    case False
    then obtain pos where "DecodeCursor L (page_cursor L ?A m) = Inr pos" "page_cursor L ?A m \<noteq> []"
      "select_rows t (lf_ktype f) (filter_status f) (\<lambda>_. True) (Some pos) (krecords db) = drop m ?A"
      using page_select[OF assms(1-3), of m t f] len assms(8) by auto
    with out assms(4-5) g show ?thesis by (simp add: ListPage_def Let_def)
  qed
  then show ?thesis unfolding nxt .
qed


section \<open>Examples\<close>

text \<open>Two records of tenant 1, a primary that serves the same state to every chunk, and cursors in plain text.\<close>

definition two_records :: record_db where
  "two_records = empty_records\<lparr>
     krecords := [staff_row\<lparr>r_updatedAt := unix_epoch\<rparr>, staff_row\<lparr>r_id := 10, r_updatedAt := unix_epoch + 1000000\<rparr>],
     record_counts := [1 \<mapsto> 2]\<rparr>"

definition still :: "record_db dbpool" where
  "still = \<lparr>in_recovery = False, replay_ts = None, clock_ts = unix_epoch + 5000000, chunk_view = (\<lambda>_. two_records)\<rparr>"

definition still_router :: "record_db poolRouter" where
  "still_router = \<lparr>rt_read = still, rt_primary = still, rt_same = True\<rparr>"

definition staff_filter :: listFilter where
  "staff_filter = \<lparr>lf_ktype = ''hr'', lf_status = [], lf_limit = 1, lf_offset = 0, lf_cursor = []\<rparr>"

definition plain_cursors :: cursor_lib where
  "plain_cursors = \<lparr>cl_go = bin_lib, rawurl_encode = id, rawurl_decode = Some\<rparr>"

lemma still_picked: "pickReadPoolWithSnapshot still_router = Inr (still, unix_epoch + 5000000)"
  by (simp add: pickReadPoolWithSnapshot_def snapshotVia_def still_router_def still_def)

lemma two_records_inv: "record_inv S two_records"
proof -
  have "payload_of staff \<noteq> None" by code_simp
  then show ?thesis using empty_records_inv[of S]
    by (simp add: record_inv_def two_records_def counter_def active_rows_def record_row_ok_def staff_row_def pg_time_def
        row_key_def unix_epoch_def)
qed

lemma still_ok: "query_ok (walk_of S t f still snapshot)"
  using two_records_inv seen_finite[of "walk_of S t f still snapshot" two_records]
  by (simp add: query_ok_def walk_of_def still_def)

lemma still_rows:
  "walk_rows 1 staff_filter (unix_epoch + 5000000) two_records
     = [staff_row\<lparr>r_id := 10, r_updatedAt := unix_epoch + 1000000\<rparr>, staff_row\<lparr>r_updatedAt := unix_epoch\<rparr>]"
  "page_rows 1 staff_filter two_records
     = [staff_row\<lparr>r_id := 10, r_updatedAt := unix_epoch + 1000000\<rparr>, staff_row\<lparr>r_updatedAt := unix_epoch\<rparr>]"
  by (simp_all add: walk_rows_def page_rows_def select_rows_def two_records_def staff_row_def staff_filter_def filter_status_def
      page_key_def pg_time_def unix_epoch_def)

lemma still_reads:
  "\<exists>r10 r9. record_Get toy_store 1 10 two_records = Inr r10 \<and> record_Get toy_store 1 9 two_records = Inr r9
     \<and> r_id r10 = 10 \<and> r_id r9 = 9"
proof -
  have "case record_Get toy_store 1 10 two_records of Inl _ \<Rightarrow> False | Inr r \<Rightarrow> r_id r = 10" by code_simp
  moreover have "case record_Get toy_store 1 9 two_records of Inl _ \<Rightarrow> False | Inr r \<Rightarrow> r_id r = 9" by code_simp
  ultimately show ?thesis by (auto split: sum.split_asm)
qed

lemma still_Gets:
  obtains r10 r9 where
    "mapM (\<lambda>row. record_Get toy_store 1 (r_id row) two_records) (walk_rows 1 staff_filter (unix_epoch + 5000000) two_records) = Inr [r10, r9]"
    "mapM (\<lambda>row. record_Get toy_store 1 (r_id row) two_records) (page_rows 1 staff_filter two_records) = Inr [r10, r9]"
    "r_id r10 = 10" "r_id r9 = 9"
  using still_reads by (auto simp: still_rows staff_row_def)

lemma plain_cursor_law: "cursor_law plain_cursors"
  using uuid_laws_bin_lib set_bin_uuid by (fastforce simp: cursor_law_def plain_cursors_def bin_lib_def)


section \<open>Properties\<close>

text \<open>
  C10: A walk over the records of a type always returns, whatever the callback does and whatever other
  transactions commit between its chunks, as long as the rows at or below the snapshot time take finitely
  many positions in the order of the walk. Its outcome is that of the callback on a list of records with
  strictly decreasing positions, so no version of a record is visited twice; an error of the callback ends
  the walk with that error and the stop sentinel without one.
\<close>

theorem walk_returns:
  assumes "\<And>pool snapshot. pickReadPoolWithSnapshot router = Inr (pool, snapshot) \<Longrightarrow> query_ok (walk_of S t f pool snapshot)"
  shows "\<exists>rs r s'. ForEach S router t f fn s = Some (r, s') \<and> descending (map page_key rs)
    \<and> (visit fn rs s = (Some r, s') \<or> visit fn rs s = (None, s'))"
proof (cases "lf_ktype f = [] \<or> (\<exists>e. pickReadPoolWithSnapshot router = Inl e)")
  case True
  then show ?thesis by (intro exI[of _ "[]"]) (auto simp: ForEach_walk)
next
  case False
  then obtain pool snapshot where p: "pickReadPoolWithSnapshot router = Inr (pool, snapshot)"
    by (cases "pickReadPoolWithSnapshot router") auto
  from walk.walk_all[OF assms[OF p], of fn s] False p show ?thesis by (auto simp: ForEach_walk walked_def)
qed

theorem walk_returns_witness:
  "\<exists>rs r s'. ForEach toy_store still_router 1 staff_filter (\<lambda>r n. (None, n + r_version r)) 0 = Some (r, s')
     \<and> descending (map page_key rs)
     \<and> (visit (\<lambda>r n. (None, n + r_version r)) rs 0 = (Some r, s') \<or> visit (\<lambda>r n. (None, n + r_version r)) rs 0 = (None, s'))"
  by (rule walk_returns) (use still_ok in \<open>simp add: still_picked\<close>)


text \<open>
  C35: A record that no other transaction touches while a walk runs is visited exactly once: if every chunk
  can see the row, with the filter's type and status and a time at or below the snapshot, then a walk that
  ends without error has passed the record to the callback once, whatever rows appear, change or vanish
  around it.
\<close>

theorem walk_covers:
  assumes "pickReadPoolWithSnapshot router = Inr (pool, snapshot)" "query_ok (walk_of S t f pool snapshot)" "lf_ktype f \<noteq> []"
    and "\<forall>k. row \<in> set (krecords (chunk_view pool k))" "r_tenant row = t" "r_ktype row = lf_ktype f"
    and "r_status row = filter_status f" "r_updatedAt row \<le> pg_time snapshot"
    and "ForEach S router t f (\<lambda>r out. (None, out @ [r])) [] = Some (Inr (), out)"
  shows "length (filter (\<lambda>r. r_id r = r_id row \<and> r_updatedAt r = r_updatedAt row) out) = 1"
proof -
  let ?q = "walk_of S t f pool snapshot"
  have "page_key row \<in> (\<Inter>k. seen ?q k)" using assms(4-8) by (auto simp: seen_def wanted_def walk_of_def)
  moreover obtain rs r s' where "walk_chunks (query_fetch ?q) (\<lambda>r out. (None, out @ [r])) 0 None [] = Some (r, s')"
    and w: "walked (\<Union>k. seen ?q k) (\<Inter>k. seen ?q k) (\<lambda>r out. (None, out @ [r])) [] rs r s'"
    using walk.walk_all[OF assms(2), of "\<lambda>r out. (None, out @ [r])" "[]"] by blast
  moreover from this have "r = Inr ()" "s' = out" using assms(1,3,9) by (auto simp: ForEach_walk)
  ultimately have "descending (map page_key out)" "page_key row \<in> page_key ` set out"
    using w by (auto simp: walked_def visit_log)
  from descending_once[OF this] show ?thesis by (simp add: page_key_def conj_commute)
qed

theorem walk_covers_witness:
  "\<exists>out. ForEach toy_store still_router 1 staff_filter (\<lambda>r out. (None, out @ [r])) [] = Some (Inr (), out)
     \<and> length (filter (\<lambda>r. r_id r = 10 \<and> r_updatedAt r = unix_epoch + 1000000) out) = 1"
proof -
  obtain r10 r9 where r: "mapM (\<lambda>row. record_Get toy_store 1 (r_id row) two_records)
      (walk_rows 1 staff_filter (unix_epoch + 5000000) two_records) = Inr [r10, r9]" by (rule still_Gets)
  have "ForEach toy_store still_router 1 staff_filter (\<lambda>r out. (None, out @ [r])) [] = Some (Inr (), [r10, r9])"
    using quiet_scan[OF still_picked _ two_records_inv _ _ r, of "\<lambda>r out. (None, out @ [r])" "[]"]
    by (simp add: still_def staff_filter_def scanned_def)
  moreover from walk_covers[OF still_picked still_ok _ _ _ _ _ _ this, of "staff_row\<lparr>r_id := 10, r_updatedAt := unix_epoch + 1000000\<rparr>"]
  have "length (filter (\<lambda>r. r_id r = 10 \<and> r_updatedAt r = unix_epoch + 1000000) [r10, r9]) = 1"
    by (simp add: staff_filter_def filter_status_def still_def two_records_def staff_row_def pg_time_def unix_epoch_def)
  ultimately show ?thesis by blast
qed


text \<open>
  C11: \<open>ListAll\<close> over data that does not change returns exactly what \<open>Get\<close> returns for the rows the filter
  selects, newest first, or the first error of them; it fails with the cap error when more than
  \<open>ListAllMaxRows\<close> rows can be read, and never returns a truncated list.
\<close>

theorem list_all_exact:
  assumes "pickReadPoolWithSnapshot router = Inr (pool, snapshot)" "\<forall>k. chunk_view pool k = db" "record_inv S db"
    and "lf_ktype f \<noteq> []" "t \<noteq> 0"
  shows "(length (walk_rows t f snapshot db) \<le> ListAllMaxRows \<longrightarrow>
       ListAll S router t f = Some (mapM (\<lambda>row. record_Get S t (r_id row) db) (walk_rows t f snapshot db)))
     \<and> (ListAllMaxRows < length (walk_rows t f snapshot db)
       \<and> (\<exists>rs. mapM (\<lambda>row. record_Get S t (r_id row) db) (walk_rows t f snapshot db) = Inr rs) \<longrightarrow>
       ListAll S router t f = Some (Inl RListAllExceedsCap))"
proof -
  let ?A = "walk_rows t f snapshot db"
  note q = quiet_query[OF assms(1-5)]
  have "ListAll S router t f = Some (mapM (\<lambda>row. record_Get S t (r_id row) db) ?A)" if "length ?A \<le> ListAllMaxRows"
    using quiet_collect[of ?A "query_fetch (walk_of S t f pool snapshot)" S db 0 "[]" 0, OF q(2)] that rows_Get[OF assms(3,5), of f snapshot]
    by (simp add: ListAll_def q(1) id_def sum.map_ident)
  moreover have "ListAll S router t f = Some (Inl RListAllExceedsCap)"
    if "ListAllMaxRows < length ?A" "mapM (\<lambda>row. record_Get S t (r_id row) db) ?A = Inr rs" for rs
  proof -
    have m: "mapM (decrypted S db) (map to_record (drop 0 ?A)) = Inr rs" using rows_Get[OF assms(3,5)] that(2) by simp
    have "length rs > ListAllMaxRows" using mapM_length[OF that(2)] that(1) by simp
    then have "visit collect rs [] = (Some (Inl RListAllExceedsCap), take ListAllMaxRows rs)" by (auto simp: visit_collect)
    with quiet_walk[of ?A "query_fetch (walk_of S t f pool snapshot)", OF q(2) m, of collect 0 "[]"] show ?thesis by (simp add: ListAll_def q(1) scanned_def collected_def)
  qed
  ultimately show ?thesis by blast
qed

theorem list_all_exact_witness:
  "\<exists>r10 r9. ListAll toy_store still_router 1 staff_filter = Some (Inr [r10, r9]) \<and> r_id r10 = 10 \<and> r_id r9 = 9"
proof -
  obtain r10 r9 where r: "mapM (\<lambda>row. record_Get toy_store 1 (r_id row) two_records)
      (walk_rows 1 staff_filter (unix_epoch + 5000000) two_records) = Inr [r10, r9]" "r_id r10 = 10" "r_id r9 = 9"
    by (rule still_Gets)
  have "length (walk_rows 1 staff_filter (unix_epoch + 5000000) two_records) \<le> ListAllMaxRows"
    by (simp add: still_rows ListAllMaxRows_def)
  with list_all_exact[OF still_picked _ two_records_inv, of staff_filter 1] r show ?thesis
    by (auto simp: still_def staff_filter_def)
qed


text \<open>
  C36: Following the cursors of \<open>ListPage\<close> from the first page reads every record once: the \<open>i\<close>-th page
  holds the records from \<open>i\<close> times the limit on, of those that \<open>Get\<close> returns for the rows the filter
  selects, newest first, with no gap and no overlap, and the page that is not full has no cursor.
\<close>

theorem pages_follow:
  assumes "cursor_law L" "record_inv S db" "\<forall>row \<in> set (krecords db). unix_range (r_updatedAt row)" "lf_ktype f \<noteq> []" "t \<noteq> 0"
    and "lf_offset f \<le> 0" "lf_cursor f = []"
    and "mapM (\<lambda>row. record_Get S t (r_id row) db) (page_rows t f db) = Inr rs" "i * page_limit f \<le> length rs"
  shows "\<exists>page. page_seq L S t f db i = Inr page \<and> lp_records page = take (page_limit f) (drop (i * page_limit f) rs)
    \<and> (lp_next page = [] \<longleftrightarrow> length rs < (i + 1) * page_limit f)"
proof -
  let ?n = "page_limit f"
  note at_m = page_at[OF assms(1-6,8)]
  have start: "f\<lparr>lf_cursor := page_cursor L (page_rows t f db) 0\<rparr> = f"
    using assms(7) by (simp add: page_cursor_def position_def)
  have seq: "page_seq L S t f db j = ListPage L S t (f\<lparr>lf_cursor := page_cursor L (page_rows t f db) (j * ?n)\<rparr>) db"
    if "j * ?n \<le> length rs" for j
    using that
  proof (induction j)
    case (Suc j)
    then have le: "j * ?n \<le> length rs" "j * ?n + ?n \<le> length rs" by simp_all
    with Suc.IH at_m[OF le(1)] show ?case by (simp add: add.commute)
  qed (simp add: start)
  have "page_cursor L (page_rows t f db) (i * ?n + ?n) \<noteq> []"
    using cursor_nonempty[OF assms(1)] page_limit_pos[of f] by (simp add: page_cursor_def position_def)
  then show ?thesis using seq[OF assms(9)] at_m[OF assms(9)] by (auto simp: add.commute)
qed

theorem pages_follow_witness:
  "\<exists>page. page_seq plain_cursors toy_store 1 staff_filter two_records 1 = Inr page \<and> map r_id (lp_records page) = [9]
     \<and> lp_next page \<noteq> []"
proof -
  obtain r10 r9 where r: "mapM (\<lambda>row. record_Get toy_store 1 (r_id row) two_records) (page_rows 1 staff_filter two_records)
      = Inr [r10, r9]" "r_id r9 = 9" by (rule still_Gets)
  have "page_limit staff_filter = 1" by (simp add: page_limit_def staff_filter_def)
  with pages_follow[OF plain_cursor_law two_records_inv _ _ _ _ _ r(1), of 1] r(2) show ?thesis
    by (auto simp: two_records_def staff_row_def unix_range_def staff_filter_def)
qed

end
