(* ===== verification/Inventory.thy ===== *)
theory Inventory
  imports Ledger
begin

text \<open>
  The stock ledger (internal/inventory/inventory.go, store.go, serial.go): items, warehouses, signed stock
  moves with lots and serial numbers, reversals and transfers, and the readers.

  The tables extend those of outbox and audit log. \<open>NUMERIC\<close> columns round: the quantity of a move has four
  decimals, the running quantity of a lot six. Each operation takes one clock reading, the id of its event
  and, for new serials, the ids in the order in which they are drawn. Ids of moves come from a sequence;
  the gaps that failed transactions leave in it are not modelled. Of the foreign keys the one from serials
  to warehouses is modelled, the others follow from the checks of the code.
\<close>

section \<open>Data\<close>

record item =
  it_tenant :: uuid
  it_ID :: uuid
  it_SKU :: string
  it_Name :: string
  it_UOM :: string
  it_Active :: bool
  it_ReorderLevel :: decimal
  it_LotTracked :: bool
  it_SerialTracked :: bool

record warehouse =
  wh_tenant :: uuid
  wh_ID :: uuid
  wh_Code :: string
  wh_Name :: string

record move =
  mv_ID :: int
  mv_tenant :: uuid
  mv_item :: uuid
  mv_wh :: uuid
  mv_Qty :: decimal
  mv_UnitCost :: decimal
  mv_SourceKType :: string
  mv_SourceID :: "uuid option"
  mv_MovedAt :: gotime
  mv_CreatedBy :: uuid
  mv_ReversalOf :: "int option"
  mv_BatchID :: "uuid option"
  mv_SerialNos :: "string list"
  mv_OutStatus :: string

record move_row =
  mr_id :: int
  mr_tenant :: uuid
  mr_item :: uuid
  mr_wh :: uuid
  mr_qty :: decimal
  mr_unit_cost :: "decimal option"
  mr_source_ktype :: "string option"
  mr_source_id :: "uuid option"
  mr_moved_at :: gotime
  mr_reversal_of :: "int option"
  mr_batch :: "uuid option"
  mr_created_by :: "uuid option"

record batch =
  bt_tenant :: uuid
  bt_ID :: uuid
  bt_item :: uuid
  bt_BatchNo :: string
  bt_ManufacturedAt :: "gotime option"
  bt_ExpiresAt :: "gotime option"
  bt_QtyOnHand :: decimal
  bt_Metadata :: raw_message
  bt_CreatedBy :: uuid
  bt_CreatedAt :: gotime
  bt_UpdatedAt :: gotime

record serial =
  sr_tenant :: uuid
  sr_ID :: uuid
  sr_item :: uuid
  sr_SerialNo :: string
  sr_Status :: string
  sr_wh :: "uuid option"
  sr_batch :: "uuid option"
  sr_CreatedBy :: "uuid option"
  sr_CreatedAt :: gotime
  sr_UpdatedAt :: gotime

record transfer =
  tf_tenant :: uuid
  tf_item :: uuid
  tf_From :: uuid
  tf_To :: uuid
  tf_Qty :: decimal
  tf_UnitCost :: decimal
  tf_MovedAt :: gotime
  tf_CreatedBy :: uuid
  tf_BatchID :: "uuid option"
  tf_SerialNos :: "string list"

record inventory_db = audit_store +
  inv_items :: "item list"
  inv_warehouses :: "warehouse list"
  inv_moves :: "move_row list"
  inv_seq :: int
  inv_batches :: "batch list"
  inv_serials :: "serial list"
  move_serials :: "(uuid \<times> int \<times> uuid) list"

datatype inv_error =
    InvTenantRequired
  | InvArgs
  | InvTxTenant
  | ErrItemNotFound
  | ErrWarehouseNotFound
  | ErrMoveInvalid
  | ErrTransferUnbalanced
  | ErrDuplicateSourceMove
  | ErrMoveNotFound
  | ErrAlreadyReversed
  | ErrCannotReverseContra
  | ErrBatchNotFound
  | ErrBatchItemMismatch
  | ErrDuplicateBatch
  | ErrBatchInvalid
  | ErrInsufficientLotStock
  | ErrLotRequired
  | ErrSerialRequired
  | ErrSerialQtyMismatch
  | ErrSerialNotAvailable
  | ErrSerialAlreadyInStock
  | ErrSerialNotFound
  | ErrSerialUnsupported
  | ErrDuplicateSerialInput
  | InvNumeric
  | InvCheck
  | InvUnique
  | InvForeignKey
  | InvOffset
  | InvKernel kernel_error
  | InvDecode

record stock_store =
  ss_engine :: engine
  ss_decimal :: decimal_lib

definition SerialStatusInStock :: string where "SerialStatusInStock = ''in_stock''"
definition SerialStatusConsumed :: string where "SerialStatusConsumed = ''consumed''"
definition SerialStatusDelivered :: string where "SerialStatusDelivered = ''delivered''"

definition inv_numeric :: "nat \<Rightarrow> nat \<Rightarrow> decimal \<Rightarrow> inv_error + decimal" where
  "inv_numeric p s x = (case pg_numeric p s x of None \<Rightarrow> Inl InvNumeric | Some y \<Rightarrow> Inr y)"

definition nullableUUIDValue :: "uuid \<Rightarrow> uuid option" where
  "nullableUUIDValue u = (if u = 0 then None else Some u)"

text \<open>\<open>LIMIT\<close> and \<open>OFFSET\<close>; PostgreSQL refuses a negative offset.\<close>

definition inv_page :: "int \<Rightarrow> int \<Rightarrow> 'r list \<Rightarrow> inv_error + 'r list" where
  "inv_page limit offset rows = (if offset < 0 then Inl InvOffset else Inr (take (nat limit) (drop (nat offset) rows)))"


section \<open>Items\<close>

definition find_item :: "uuid \<Rightarrow> uuid \<Rightarrow> 'a inventory_db_scheme \<Rightarrow> item option" where
  "find_item t i db = List.find (\<lambda>it. it_tenant it = t \<and> it_ID it = i) (inv_items db)"

definition find_sku :: "uuid \<Rightarrow> string \<Rightarrow> 'a inventory_db_scheme \<Rightarrow> item option" where
  "find_sku t sku db = List.find (\<lambda>it. it_tenant it = t \<and> it_SKU it = sku) (inv_items db)"

definition upsert_item_tx :: "item \<Rightarrow> 'a inventory_db_scheme \<Rightarrow> inv_error + item \<times> 'a inventory_db_scheme" where
  "upsert_item_tx it db =
     rbind (inv_numeric 20 4 (it_ReorderLevel it)) (\<lambda>level.
       let row = it\<lparr>it_ReorderLevel := level\<rparr>
       in case find_sku (it_tenant it) (it_SKU it) db of
            Some old \<Rightarrow>
              (let row' = row\<lparr>it_ID := it_ID old\<rparr>
               in Inr (row', db\<lparr>inv_items := update_rows (\<lambda>x. it_tenant x = it_tenant it \<and> it_SKU x = it_SKU it) (\<lambda>_. row')
                     (inv_items db)\<rparr>))
          | None \<Rightarrow>
              (if find_item (it_tenant it) (it_ID it) db \<noteq> None then Inl InvUnique
               else Inr (row, db\<lparr>inv_items := inv_items db @ [row]\<rparr>)))"

definition UpsertItem :: "uuid \<Rightarrow> item \<Rightarrow> 'a inventory_db_scheme \<Rightarrow> (inv_error + item) \<times> 'a inventory_db_scheme" where
  "UpsertItem fresh it db =
     (if it_tenant it = 0 then (Inl InvTenantRequired, db)
      else if it_SKU it = [] \<or> it_Name it = [] \<or> it_UOM it = [] then (Inl InvArgs, db)
      else WithTenantTx InvTxTenant (it_tenant it)
             (upsert_item_tx (it\<lparr>it_ID := (if it_ID it = 0 then fresh else it_ID it)\<rparr>)) db)"

definition GetItem :: "uuid \<Rightarrow> uuid \<Rightarrow> 'a inventory_db_scheme \<Rightarrow> inv_error + item" where
  "GetItem t i db =
     (if t = 0 \<or> i = 0 then Inl InvArgs
      else case find_item t i db of None \<Rightarrow> Inl ErrItemNotFound | Some it \<Rightarrow> Inr it)"

definition GetItemBySKU :: "uuid \<Rightarrow> string \<Rightarrow> 'a inventory_db_scheme \<Rightarrow> inv_error + item" where
  "GetItemBySKU t sku db =
     (if t = 0 \<or> sku = [] then Inl InvArgs
      else case find_sku t sku db of None \<Rightarrow> Inl ErrItemNotFound | Some it \<Rightarrow> Inr it)"

definition ListItems :: "uuid \<Rightarrow> bool option \<Rightarrow> int \<Rightarrow> int \<Rightarrow> 'a inventory_db_scheme \<Rightarrow> inv_error + item list" where
  "ListItems t active limit offset db =
     (if t = 0 then Inl InvTenantRequired
      else inv_page (if limit \<le> 0 \<or> limit > 500 then 100 else limit) offset
             (sort_key it_SKU (filter (\<lambda>it. it_tenant it = t \<and> (case active of None \<Rightarrow> True | Some b \<Rightarrow> it_Active it = b))
                (inv_items db))))"


section \<open>Warehouses\<close>

definition find_warehouse :: "uuid \<Rightarrow> uuid \<Rightarrow> 'a inventory_db_scheme \<Rightarrow> warehouse option" where
  "find_warehouse t w db = List.find (\<lambda>x. wh_tenant x = t \<and> wh_ID x = w) (inv_warehouses db)"

definition find_wh_code :: "uuid \<Rightarrow> string \<Rightarrow> 'a inventory_db_scheme \<Rightarrow> warehouse option" where
  "find_wh_code t code db = List.find (\<lambda>x. wh_tenant x = t \<and> wh_Code x = code) (inv_warehouses db)"

definition upsert_warehouse_tx :: "warehouse \<Rightarrow> 'a inventory_db_scheme \<Rightarrow> inv_error + warehouse \<times> 'a inventory_db_scheme" where
  "upsert_warehouse_tx w db =
     (case find_wh_code (wh_tenant w) (wh_Code w) db of
        Some old \<Rightarrow>
          (let w' = w\<lparr>wh_ID := wh_ID old\<rparr>
           in Inr (w', db\<lparr>inv_warehouses := update_rows (\<lambda>x. wh_tenant x = wh_tenant w \<and> wh_Code x = wh_Code w) (\<lambda>_. w')
                 (inv_warehouses db)\<rparr>))
      | None \<Rightarrow>
          (if find_warehouse (wh_tenant w) (wh_ID w) db \<noteq> None then Inl InvUnique
           else Inr (w, db\<lparr>inv_warehouses := inv_warehouses db @ [w]\<rparr>)))"

definition UpsertWarehouse :: "uuid \<Rightarrow> warehouse \<Rightarrow> 'a inventory_db_scheme \<Rightarrow> (inv_error + warehouse) \<times> 'a inventory_db_scheme" where
  "UpsertWarehouse fresh w db =
     (if wh_tenant w = 0 then (Inl InvTenantRequired, db)
      else if wh_Code w = [] \<or> wh_Name w = [] then (Inl InvArgs, db)
      else WithTenantTx InvTxTenant (wh_tenant w) (upsert_warehouse_tx (w\<lparr>wh_ID := (if wh_ID w = 0 then fresh else wh_ID w)\<rparr>)) db)"

definition GetWarehouseByCode :: "uuid \<Rightarrow> string \<Rightarrow> 'a inventory_db_scheme \<Rightarrow> inv_error + warehouse" where
  "GetWarehouseByCode t code db =
     (if t = 0 \<or> code = [] then Inl InvArgs
      else case find_wh_code t code db of None \<Rightarrow> Inl ErrWarehouseNotFound | Some w \<Rightarrow> Inr w)"

definition ListWarehouses :: "uuid \<Rightarrow> 'a inventory_db_scheme \<Rightarrow> inv_error + warehouse list" where
  "ListWarehouses t db =
     (if t = 0 then Inl InvTenantRequired else Inr (sort_key wh_Code (filter (\<lambda>w. wh_tenant w = t) (inv_warehouses db))))"


section \<open>Lots and tracking\<close>

definition itemTracking :: "uuid \<Rightarrow> uuid \<Rightarrow> 'a inventory_db_scheme \<Rightarrow> bool \<times> bool" where
  "itemTracking t i db = (case find_item t i db of None \<Rightarrow> (False, False) | Some it \<Rightarrow> (it_LotTracked it, it_SerialTracked it))"

definition validateMoveTracking :: "move \<Rightarrow> bool \<Rightarrow> bool \<Rightarrow> inv_error + unit" where
  "validateMoveTracking m lotTracked serialTracked =
     (if lotTracked \<and> mv_BatchID m = None then Inl ErrLotRequired
      else if mv_SerialNos m \<noteq> [] \<and> \<not> serialTracked then Inl ErrSerialUnsupported
      else if serialTracked \<and> mv_SerialNos m = [] then Inl ErrSerialRequired
      else if serialTracked \<and> \<bar>mv_Qty m\<bar> \<noteq> of_nat (length (mv_SerialNos m)) then Inl ErrSerialQtyMismatch
      else Inr ())"

definition find_batch :: "uuid \<Rightarrow> uuid \<Rightarrow> 'a inventory_db_scheme \<Rightarrow> batch option" where
  "find_batch t b db = List.find (\<lambda>x. bt_tenant x = t \<and> bt_ID x = b) (inv_batches db)"

definition rollBatchQty ::
  "gotime \<Rightarrow> uuid \<Rightarrow> uuid \<Rightarrow> decimal \<Rightarrow> 'a inventory_db_scheme \<Rightarrow> inv_error + 'a inventory_db_scheme" where
  "rollBatchQty now t b delta db =
     (case find_batch t b db of
        None \<Rightarrow> Inl ErrInsufficientLotStock
      | Some row \<Rightarrow>
          (if bt_QtyOnHand row + delta < 0 then Inl ErrInsufficientLotStock
           else rbind (inv_numeric 20 6 (bt_QtyOnHand row + delta)) (\<lambda>q.
             Inr (db\<lparr>inv_batches := update_rows (\<lambda>x. bt_tenant x = t \<and> bt_ID x = b)
                    (\<lambda>x. x\<lparr>bt_QtyOnHand := q, bt_UpdatedAt := pg_time now\<rparr>) (inv_batches db)\<rparr>))))"

definition check_batch :: "move \<Rightarrow> 'a inventory_db_scheme \<Rightarrow> inv_error + unit" where
  "check_batch m db =
     (case mv_BatchID m of
        None \<Rightarrow> Inr ()
      | Some b \<Rightarrow>
          (case find_batch (mv_tenant m) b db of
             None \<Rightarrow> Inl ErrBatchNotFound
           | Some row \<Rightarrow> if bt_item row \<noteq> mv_item m then Inl ErrBatchItemMismatch else Inr ()))"

definition roll_batch :: "gotime \<Rightarrow> uuid \<Rightarrow> uuid option \<Rightarrow> decimal \<Rightarrow> 'a inventory_db_scheme \<Rightarrow> inv_error + 'a inventory_db_scheme" where
  "roll_batch now t b delta db = (case b of None \<Rightarrow> Inr db | Some b \<Rightarrow> rollBatchQty now t b delta db)"


section \<open>Serials\<close>

fun check_serial_nos :: "string list \<Rightarrow> string set \<Rightarrow> inv_error + unit" where
  "check_serial_nos [] seen = Inr ()"
| "check_serial_nos (sn # sns) seen =
     (if sn = [] then Inl ErrMoveInvalid
      else if sn \<in> seen then Inl ErrDuplicateSerialInput
      else check_serial_nos sns (insert sn seen))"

definition find_serial :: "uuid \<Rightarrow> uuid \<Rightarrow> string \<Rightarrow> 'a inventory_db_scheme \<Rightarrow> serial option" where
  "find_serial t i sn db = List.find (\<lambda>s. sr_tenant s = t \<and> sr_item s = i \<and> sr_SerialNo s = sn) (inv_serials db)"

text \<open>\<open>UPDATE inventory_serials \<dots> WHERE tenant_id AND id\<close>.\<close>

definition put_serial :: "uuid \<Rightarrow> uuid \<Rightarrow> (serial \<Rightarrow> serial) \<Rightarrow> 'a inventory_db_scheme \<Rightarrow> 'a inventory_db_scheme" where
  "put_serial t i f db = db\<lparr>inv_serials := update_rows (\<lambda>s. sr_tenant s = t \<and> sr_ID s = i) f (inv_serials db)\<rparr>"

definition restockSerial ::
  "gotime \<Rightarrow> uuid \<Rightarrow> move \<Rightarrow> string \<Rightarrow> 'a inventory_db_scheme \<Rightarrow> inv_error + uuid \<times> 'a inventory_db_scheme" where
  "restockSerial now fresh m sn db =
     (case find_serial (mv_tenant m) (mv_item m) sn db of
        None \<Rightarrow>
          (if (mv_tenant m, fresh) \<in> set (map (\<lambda>s. (sr_tenant s, sr_ID s)) (inv_serials db)) then Inl InvUnique
           else if find_warehouse (mv_tenant m) (mv_wh m) db = None then Inl InvForeignKey
           else Inr (fresh, db\<lparr>inv_serials := inv_serials db @
                  [\<lparr>sr_tenant = mv_tenant m, sr_ID = fresh, sr_item = mv_item m, sr_SerialNo = sn, sr_Status = SerialStatusInStock,
                    sr_wh = Some (mv_wh m), sr_batch = mv_BatchID m, sr_CreatedBy = nullableUUIDValue (mv_CreatedBy m),
                    sr_CreatedAt = pg_time now, sr_UpdatedAt = pg_time now\<rparr>]\<rparr>))
      | Some s \<Rightarrow>
          (if sr_Status s = SerialStatusInStock then Inl ErrSerialAlreadyInStock
           else if find_warehouse (mv_tenant m) (mv_wh m) db = None then Inl InvForeignKey
           else Inr (sr_ID s, put_serial (mv_tenant m) (sr_ID s)
                  (\<lambda>s. s\<lparr>sr_Status := SerialStatusInStock, sr_wh := Some (mv_wh m),
                          sr_batch := (case mv_BatchID m of None \<Rightarrow> sr_batch s | Some b \<Rightarrow> Some b), sr_UpdatedAt := pg_time now\<rparr>) db)))"

definition issueSerial ::
  "gotime \<Rightarrow> move \<Rightarrow> string \<Rightarrow> string \<Rightarrow> 'a inventory_db_scheme \<Rightarrow> inv_error + uuid \<times> 'a inventory_db_scheme" where
  "issueSerial now m sn outStatus db =
     (case find_serial (mv_tenant m) (mv_item m) sn db of
        None \<Rightarrow> Inl ErrSerialNotAvailable
      | Some s \<Rightarrow>
          (if sr_Status s = SerialStatusInStock \<and> sr_wh s = Some (mv_wh m)
           then Inr (sr_ID s, put_serial (mv_tenant m) (sr_ID s)
                  (\<lambda>s. s\<lparr>sr_Status := outStatus, sr_wh := None, sr_UpdatedAt := pg_time now\<rparr>) db)
           else Inl ErrSerialNotAvailable))"

definition link_serial :: "uuid \<Rightarrow> int \<Rightarrow> uuid \<Rightarrow> 'a inventory_db_scheme \<Rightarrow> 'a inventory_db_scheme" where
  "link_serial t mid sid db =
     (if (t, mid, sid) \<in> set (move_serials db) then db else db\<lparr>move_serials := move_serials db @ [(t, mid, sid)]\<rparr>)"

fun serials_loop ::
  "gotime \<Rightarrow> (nat \<Rightarrow> uuid) \<Rightarrow> move \<Rightarrow> int \<Rightarrow> string \<Rightarrow> nat \<Rightarrow> string list \<Rightarrow> 'a inventory_db_scheme \<Rightarrow> inv_error + 'a inventory_db_scheme" where
  "serials_loop now fresh m mid outStatus n [] db = Inr db"
| "serials_loop now fresh m mid outStatus n (sn # sns) db =
     rbind (if mv_Qty m > 0 then restockSerial now (fresh n) m sn db else issueSerial now m sn outStatus db)
       (\<lambda>(sid, db1). serials_loop now fresh m mid outStatus (Suc n) sns (link_serial (mv_tenant m) mid sid db1))"

definition applyMoveSerials ::
  "gotime \<Rightarrow> (nat \<Rightarrow> uuid) \<Rightarrow> move \<Rightarrow> int \<Rightarrow> 'a inventory_db_scheme \<Rightarrow> inv_error + 'a inventory_db_scheme" where
  "applyMoveSerials now fresh m mid db =
     rbind (check_serial_nos (mv_SerialNos m) {}) (\<lambda>_.
       let outStatus = (if mv_OutStatus m = [] then SerialStatusConsumed else mv_OutStatus m)
       in if \<not> mv_Qty m > 0 \<and> outStatus \<noteq> SerialStatusConsumed \<and> outStatus \<noteq> SerialStatusDelivered then Inl ErrMoveInvalid
          else serials_loop now fresh m mid outStatus 0 (mv_SerialNos m) db)"

fun reverse_loop ::
  "gotime \<Rightarrow> uuid \<Rightarrow> int \<Rightarrow> decimal \<Rightarrow> uuid \<Rightarrow> uuid list \<Rightarrow> 'a inventory_db_scheme \<Rightarrow> inv_error + 'a inventory_db_scheme" where
  "reverse_loop now t contra qty w [] db = Inr db"
| "reverse_loop now t contra qty w (sid # sids) db =
     (if qty > 0
      then reverse_loop now t contra qty w sids (link_serial t contra sid
             (put_serial t sid (\<lambda>s. s\<lparr>sr_Status := SerialStatusConsumed, sr_wh := None, sr_UpdatedAt := pg_time now\<rparr>) db))
      else if find_warehouse t w db = None then Inl InvForeignKey
      else reverse_loop now t contra qty w sids (link_serial t contra sid
             (put_serial t sid (\<lambda>s. s\<lparr>sr_Status := SerialStatusInStock, sr_wh := Some w, sr_UpdatedAt := pg_time now\<rparr>) db)))"

definition reverseMoveSerials ::
  "gotime \<Rightarrow> uuid \<Rightarrow> int \<Rightarrow> int \<Rightarrow> decimal \<Rightarrow> uuid \<Rightarrow> 'a inventory_db_scheme \<Rightarrow> inv_error + 'a inventory_db_scheme" where
  "reverseMoveSerials now t orig contra qty w db =
     reverse_loop now t contra qty w (map (snd \<circ> snd) (filter (\<lambda>(t', mid, _). t' = t \<and> mid = orig) (move_serials db))) db"


section \<open>Moves\<close>

text \<open>
  The partial unique indexes: one move per source, item and warehouse (a NULL source type is distinct from
  everything), and one contra-entry per move.
\<close>

definition same_source :: "move_row \<Rightarrow> move_row \<Rightarrow> bool" where
  "same_source r r' \<longleftrightarrow>
     mr_tenant r = mr_tenant r' \<and> mr_source_id r \<noteq> None \<and> mr_source_id r = mr_source_id r'
     \<and> mr_source_ktype r \<noteq> None \<and> mr_source_ktype r = mr_source_ktype r' \<and> mr_item r = mr_item r' \<and> mr_wh r = mr_wh r'"

definition same_reversal :: "move_row \<Rightarrow> move_row \<Rightarrow> bool" where
  "same_reversal r r' \<longleftrightarrow> mr_tenant r = mr_tenant r' \<and> mr_reversal_of r \<noteq> None \<and> mr_reversal_of r = mr_reversal_of r'"

definition insert_move :: "move_row \<Rightarrow> 'a inventory_db_scheme \<Rightarrow> inv_error + int \<times> 'a inventory_db_scheme" where
  "insert_move r db =
     rbind (inv_numeric 20 4 (mr_qty r)) (\<lambda>q.
     rbind (case mr_unit_cost r of None \<Rightarrow> Inr None | Some c \<Rightarrow> rbind (inv_numeric 20 4 c) (\<lambda>c. Inr (Some c))) (\<lambda>c.
       let row = r\<lparr>mr_id := inv_seq db, mr_qty := q, mr_unit_cost := c, mr_moved_at := pg_time (mr_moved_at r)\<rparr>
       in if list_ex (same_source row) (inv_moves db) then Inl ErrDuplicateSourceMove
          else if list_ex (same_reversal row) (inv_moves db) then Inl ErrAlreadyReversed
          else Inr (inv_seq db, db\<lparr>inv_moves := inv_moves db @ [row], inv_seq := inv_seq db + 1\<rparr>)))"

definition move_to_row :: "move \<Rightarrow> move_row" where
  "move_to_row m =
     \<lparr>mr_id = 0, mr_tenant = mv_tenant m, mr_item = mv_item m, mr_wh = mv_wh m, mr_qty = mv_Qty m,
      mr_unit_cost = (if mv_UnitCost m = 0 then None else Some (mv_UnitCost m)), mr_source_ktype = nullIfEmpty (mv_SourceKType m),
      mr_source_id = mv_SourceID m, mr_moved_at = mv_MovedAt m, mr_reversal_of = None, mr_batch = mv_BatchID m,
      mr_created_by = nullableUUIDValue (mv_CreatedBy m)\<rparr>"

definition opt_json :: "('x \<Rightarrow> json) \<Rightarrow> 'x option \<Rightarrow> json" where
  "opt_json f x = (case x of None \<Rightarrow> JNull | Some y \<Rightarrow> f y)"

definition move_payload :: "stock_store \<Rightarrow> move \<Rightarrow> json" where
  "move_payload S m = (let E = ss_engine S in
     JObj [(''id'', int_json (mv_ID m)), (''item_id'', uuid_json E (mv_item m)), (''warehouse_id'', uuid_json E (mv_wh m)),
           (''qty'', JStr (dec_string (ss_decimal S) (mv_Qty m))), (''unit_cost'', JStr (dec_string (ss_decimal S) (mv_UnitCost m))),
           (''source_ktype'', JStr (mv_SourceKType m)), (''source_id'', opt_json (uuid_json E) (mv_SourceID m)),
           (''reversal_of'', opt_json int_json (mv_ReversalOf m)), (''batch_id'', opt_json (uuid_json E) (mv_BatchID m)),
           (''moved_at'', time_json E (mv_MovedAt m))])"

definition emitMove ::
  "stock_store \<Rightarrow> gotime \<Rightarrow> uuid \<Rightarrow> move \<Rightarrow> string \<Rightarrow> 'a inventory_db_scheme \<Rightarrow> inv_error + 'a inventory_db_scheme" where
  "emitMove S now eid m ty db =
     map_sum InvKernel id
       (rbind (emit_event (ss_engine S) now eid (mv_tenant m) ty (move_payload S m) db) (\<lambda>db1.
          if eng_auditor (ss_engine S)
          then LogTx (eng_audit (ss_engine S)) now
                 \<lparr>ae_tenant = mv_tenant m, ae_actor = nullableUUIDValue (mv_CreatedBy m), ae_kind = ''user'', ae_action = ty,
                  ae_ktype = ''inventory.move'', ae_target = None, ae_before = no_json,
                  ae_after = raw_of (eng_json (ss_engine S)) (move_payload S m), ae_context = no_json\<rparr> db1
          else Inr db1))"

definition validateRecordMoveInputs :: "move \<Rightarrow> inv_error + unit" where
  "validateRecordMoveInputs m =
     (if mv_tenant m = 0 then Inl InvTenantRequired
      else if mv_item m = 0 \<or> mv_wh m = 0 then Inl ErrMoveInvalid
      else if mv_Qty m = 0 then Inl ErrMoveInvalid
      else Inr ())"

definition recordMoveInTx ::
  "stock_store \<Rightarrow> gotime \<Rightarrow> uuid \<Rightarrow> (nat \<Rightarrow> uuid) \<Rightarrow> move \<Rightarrow> 'a inventory_db_scheme \<Rightarrow> inv_error + move \<times> 'a inventory_db_scheme" where
  "recordMoveInTx S now eid fresh m db =
     rbind (case itemTracking (mv_tenant m) (mv_item m) db of (lot, ser) \<Rightarrow> validateMoveTracking m lot ser) (\<lambda>_.
     rbind (check_batch m db) (\<lambda>_.
     rbind (insert_move (move_to_row m) db) (\<lambda>(mid, db1).
     rbind (roll_batch now (mv_tenant m) (mv_BatchID m) (mv_Qty m) db1) (\<lambda>db2.
     rbind (if mv_SerialNos m = [] then Inr db2 else applyMoveSerials now fresh m mid db2) (\<lambda>db3.
     rbind (emitMove S now eid (m\<lparr>mv_ID := mid\<rparr>) ''inventory.move.recorded'' db3) (\<lambda>db4.
       Inr (m\<lparr>mv_ID := mid\<rparr>, db4)))))))"

definition move_time :: "gotime \<Rightarrow> move \<Rightarrow> move" where
  "move_time now m = m\<lparr>mv_MovedAt := (if mv_MovedAt m = 0 then now else mv_MovedAt m)\<rparr>"

definition RecordMove ::
  "stock_store \<Rightarrow> gotime \<Rightarrow> uuid \<Rightarrow> (nat \<Rightarrow> uuid) \<Rightarrow> move \<Rightarrow> 'a inventory_db_scheme \<Rightarrow> (inv_error + move) \<times> 'a inventory_db_scheme" where
  "RecordMove S now eid fresh m db =
     (case validateRecordMoveInputs m of
        Inl e \<Rightarrow> (Inl e, db)
      | Inr _ \<Rightarrow> WithTenantTx InvTxTenant (mv_tenant m) (recordMoveInTx S now eid fresh (move_time now m)) db)"

definition RecordMoveTx ::
  "stock_store \<Rightarrow> gotime \<Rightarrow> uuid \<Rightarrow> (nat \<Rightarrow> uuid) \<Rightarrow> move \<Rightarrow> 'a inventory_db_scheme \<Rightarrow> inv_error + move \<times> 'a inventory_db_scheme" where
  "RecordMoveTx S now eid fresh m db =
     rbind (validateRecordMoveInputs m) (\<lambda>_. recordMoveInTx S now eid fresh (move_time now m) db)"

text \<open>The legs of a transfer: out of the source, then into the destination.\<close>

definition transfer_leg :: "transfer \<Rightarrow> uuid \<Rightarrow> decimal \<Rightarrow> move" where
  "transfer_leg t w q =
     \<lparr>mv_ID = 0, mv_tenant = tf_tenant t, mv_item = tf_item t, mv_wh = w, mv_Qty = q, mv_UnitCost = tf_UnitCost t,
      mv_SourceKType = ''inventory.transfer'', mv_SourceID = None, mv_MovedAt = tf_MovedAt t, mv_CreatedBy = tf_CreatedBy t,
      mv_ReversalOf = None, mv_BatchID = tf_BatchID t, mv_SerialNos = tf_SerialNos t, mv_OutStatus = []\<rparr>"

definition transfer_tx ::
  "stock_store \<Rightarrow> gotime \<Rightarrow> uuid \<Rightarrow> uuid \<Rightarrow> (nat \<Rightarrow> uuid) \<Rightarrow> transfer \<Rightarrow> 'a inventory_db_scheme
   \<Rightarrow> inv_error + move list \<times> 'a inventory_db_scheme" where
  "transfer_tx S now eid1 eid2 fresh t db =
     rbind (recordMoveInTx S now eid1 fresh (transfer_leg t (tf_From t) (- tf_Qty t)) db) (\<lambda>(m1, db1).
     rbind (recordMoveInTx S now eid2 fresh (transfer_leg t (tf_To t) (tf_Qty t)) db1) (\<lambda>(m2, db2).
       Inr ([m1, m2], db2)))"

definition RecordTransfer ::
  "stock_store \<Rightarrow> gotime \<Rightarrow> uuid \<Rightarrow> uuid \<Rightarrow> (nat \<Rightarrow> uuid) \<Rightarrow> transfer \<Rightarrow> 'a inventory_db_scheme
   \<Rightarrow> (inv_error + move list) \<times> 'a inventory_db_scheme" where
  "RecordTransfer S now eid1 eid2 fresh t db =
     (if tf_tenant t = 0 then (Inl InvTenantRequired, db)
      else if tf_item t = 0 then (Inl ErrMoveInvalid, db)
      else if tf_From t = 0 \<or> tf_To t = 0 \<or> tf_From t = tf_To t then (Inl ErrTransferUnbalanced, db)
      else if \<not> tf_Qty t > 0 then (Inl ErrTransferUnbalanced, db)
      else WithTenantTx InvTxTenant (tf_tenant t)
             (transfer_tx S now eid1 eid2 fresh (t\<lparr>tf_MovedAt := (if tf_MovedAt t = 0 then now else tf_MovedAt t)\<rparr>)) db)"

definition find_move :: "uuid \<Rightarrow> int \<Rightarrow> 'a inventory_db_scheme \<Rightarrow> move_row option" where
  "find_move t mid db = List.find (\<lambda>r. mr_tenant r = t \<and> mr_id r = mid) (inv_moves db)"

text \<open>The contra-entry of a row, and the move that is returned for it.\<close>

definition contra_row :: "gotime \<Rightarrow> uuid \<Rightarrow> move_row \<Rightarrow> move_row" where
  "contra_row now actor r =
     r\<lparr>mr_qty := - mr_qty r, mr_source_ktype := None, mr_source_id := None, mr_moved_at := now,
       mr_reversal_of := Some (mr_id r), mr_created_by := nullableUUIDValue actor\<rparr>"

definition contra_move :: "gotime \<Rightarrow> uuid \<Rightarrow> int \<Rightarrow> move_row \<Rightarrow> move" where
  "contra_move now actor mid r =
     \<lparr>mv_ID = mid, mv_tenant = mr_tenant r, mv_item = mr_item r, mv_wh = mr_wh r, mv_Qty = - mr_qty r,
      mv_UnitCost = (case mr_unit_cost r of None \<Rightarrow> 0 | Some c \<Rightarrow> c), mv_SourceKType = [], mv_SourceID = None, mv_MovedAt = now,
      mv_CreatedBy = actor, mv_ReversalOf = Some (mr_id r), mv_BatchID = mr_batch r, mv_SerialNos = [], mv_OutStatus = []\<rparr>"

definition reverse_tx ::
  "stock_store \<Rightarrow> gotime \<Rightarrow> uuid \<Rightarrow> uuid \<Rightarrow> int \<Rightarrow> uuid \<Rightarrow> 'a inventory_db_scheme \<Rightarrow> inv_error + move \<times> 'a inventory_db_scheme" where
  "reverse_tx S now eid t mid actor db =
     (case find_move t mid db of
        None \<Rightarrow> Inl ErrMoveNotFound
      | Some r \<Rightarrow>
          (if mr_reversal_of r \<noteq> None then Inl ErrCannotReverseContra
           else
             rbind (insert_move (contra_row now actor r) db) (\<lambda>(cid, db1).
             rbind (roll_batch now t (mr_batch r) (- mr_qty r) db1) (\<lambda>db2.
             rbind (reverseMoveSerials now t mid cid (mr_qty r) (mr_wh r) db2) (\<lambda>db3.
             rbind (emitMove S now eid (contra_move now actor cid r) ''inventory.move.reversed'' db3) (\<lambda>db4.
               Inr (contra_move now actor cid r, db4)))))))"

definition ReverseMove ::
  "stock_store \<Rightarrow> gotime \<Rightarrow> uuid \<Rightarrow> uuid \<Rightarrow> int \<Rightarrow> uuid \<Rightarrow> 'a inventory_db_scheme \<Rightarrow> (inv_error + move) \<times> 'a inventory_db_scheme" where
  "ReverseMove S now eid t mid actor db =
     (if t = 0 then (Inl InvTenantRequired, db)
      else if mid \<le> 0 then (Inl ErrMoveInvalid, db)
      else WithTenantTx InvTxTenant t (reverse_tx S now eid t mid actor) db)"


section \<open>Reading moves and stock\<close>

definition row_to_move :: "move_row \<Rightarrow> move" where
  "row_to_move r =
     \<lparr>mv_ID = mr_id r, mv_tenant = mr_tenant r, mv_item = mr_item r, mv_wh = mr_wh r, mv_Qty = mr_qty r,
      mv_UnitCost = (case mr_unit_cost r of None \<Rightarrow> 0 | Some c \<Rightarrow> c),
      mv_SourceKType = (case mr_source_ktype r of None \<Rightarrow> [] | Some k \<Rightarrow> k), mv_SourceID = mr_source_id r,
      mv_MovedAt = mr_moved_at r, mv_CreatedBy = (case mr_created_by r of None \<Rightarrow> 0 | Some u \<Rightarrow> u),
      mv_ReversalOf = mr_reversal_of r, mv_BatchID = mr_batch r, mv_SerialNos = [], mv_OutStatus = []\<rparr>"

record moveFilter =
  mf_item :: "uuid option"
  mf_wh :: "uuid option"
  mf_SourceKType :: string
  mf_SourceID :: "uuid option"
  mf_From :: "gotime option"
  mf_To :: "gotime option"
  mf_Limit :: int
  mf_Offset :: int

definition opt_holds :: "('x \<Rightarrow> bool) \<Rightarrow> 'x option \<Rightarrow> bool" where
  "opt_holds p x = (case x of None \<Rightarrow> True | Some y \<Rightarrow> p y)"

definition move_selected :: "uuid \<Rightarrow> moveFilter \<Rightarrow> move_row \<Rightarrow> bool" where
  "move_selected t f r \<longleftrightarrow>
     mr_tenant r = t \<and> opt_holds (\<lambda>i. mr_item r = i) (mf_item f) \<and> opt_holds (\<lambda>w. mr_wh r = w) (mf_wh f)
     \<and> (mf_SourceKType f \<noteq> [] \<longrightarrow> mr_source_ktype r = Some (mf_SourceKType f))
     \<and> opt_holds (\<lambda>s. mr_source_id r = Some s) (mf_SourceID f)
     \<and> opt_holds (\<lambda>x. mr_moved_at r \<ge> pg_time x) (mf_From f) \<and> opt_holds (\<lambda>x. mr_moved_at r \<le> pg_time x) (mf_To f)"

definition ListMoves :: "uuid \<Rightarrow> moveFilter \<Rightarrow> 'a inventory_db_scheme \<Rightarrow> inv_error + move list" where
  "ListMoves t f db =
     (if t = 0 then Inl InvTenantRequired
      else map_sum id (map row_to_move) (inv_page (if mf_Limit f \<le> 0 \<or> mf_Limit f > 500 then 100 else mf_Limit f) (mf_Offset f)
             (rev (sort_key mr_moved_at (sort_key mr_id (filter (move_selected t f) (inv_moves db)))))))"

definition GetMoveBySource :: "uuid \<Rightarrow> string \<Rightarrow> uuid \<Rightarrow> uuid \<Rightarrow> uuid \<Rightarrow> 'a inventory_db_scheme \<Rightarrow> inv_error + move" where
  "GetMoveBySource t kt src i w db =
     (if t = 0 \<or> kt = [] \<or> src = 0 then Inl InvArgs
      else case List.find (\<lambda>r. mr_tenant r = t \<and> mr_source_ktype r = Some kt \<and> mr_source_id r = Some src \<and> mr_item r = i \<and> mr_wh r = w)
                  (inv_moves db) of
             None \<Rightarrow> Inl ErrItemNotFound
           | Some r \<Rightarrow> Inr ((row_to_move r)\<lparr>mv_ReversalOf := None, mv_BatchID := None\<rparr>))"

text \<open>The view \<open>stock_levels\<close>: the sum of the quantities of an item in a warehouse.\<close>

definition stock_level :: "uuid \<Rightarrow> uuid \<Rightarrow> uuid \<Rightarrow> 'a inventory_db_scheme \<Rightarrow> decimal" where
  "stock_level t i w db = sum_list (map mr_qty (filter (\<lambda>r. mr_tenant r = t \<and> mr_item r = i \<and> mr_wh r = w) (inv_moves db)))"

definition ListStockLevels :: "uuid \<Rightarrow> uuid option \<Rightarrow> 'a inventory_db_scheme \<Rightarrow> inv_error + (uuid \<times> uuid \<times> decimal) list" where
  "ListStockLevels t item db =
     (if t = 0 then Inl InvTenantRequired
      else Inr (map (\<lambda>(i, w). (i, w, stock_level t i w db))
             (sort_key fst (sort_key snd (remdups (map (\<lambda>r. (mr_item r, mr_wh r))
                (filter (\<lambda>r. mr_tenant r = t \<and> opt_holds (\<lambda>i. mr_item r = i) item) (inv_moves db))))))))"

record valuationRow =
  vr_item :: uuid
  vr_SKU :: string
  vr_Name :: string
  vr_Qty :: decimal
  vr_ValueCost :: decimal

definition valuation_row :: "uuid \<Rightarrow> gotime \<Rightarrow> 'a inventory_db_scheme \<Rightarrow> item \<Rightarrow> valuationRow" where
  "valuation_row t asOf db it =
     (let ms = filter (\<lambda>r. mr_tenant r = t \<and> mr_item r = it_ID it \<and> mr_moved_at r \<le> pg_time asOf) (inv_moves db)
      in \<lparr>vr_item = it_ID it, vr_SKU = it_SKU it, vr_Name = it_Name it, vr_Qty = sum_list (map mr_qty ms),
          vr_ValueCost = sum_list (map (\<lambda>r. mr_qty r * (case mr_unit_cost r of None \<Rightarrow> 0 | Some c \<Rightarrow> c)) ms)\<rparr>)"

definition Valuation :: "gotime \<Rightarrow> uuid \<Rightarrow> gotime \<Rightarrow> 'a inventory_db_scheme \<Rightarrow> inv_error + gotime \<times> valuationRow list \<times> decimal" where
  "Valuation now t asOf db =
     (if t = 0 then Inl InvTenantRequired
      else let d = (if asOf = 0 then now else asOf);
               rows = map (valuation_row t d db) (sort_key it_SKU (filter (\<lambda>it. it_tenant it = t) (inv_items db)))
           in Inr (d, rows, fold (\<lambda>r acc. acc + vr_ValueCost r) rows 0))"


section \<open>Lots, serials and traces\<close>

definition create_batch_tx :: "stock_store \<Rightarrow> batch \<Rightarrow> 'a inventory_db_scheme \<Rightarrow> inv_error + batch \<times> 'a inventory_db_scheme" where
  "create_batch_tx S b db =
     (if find_item (bt_tenant b) (bt_item b) db = None then Inl ErrItemNotFound
      else rbind (inv_numeric 20 6 (bt_QtyOnHand b)) (\<lambda>q.
        if \<not> valid_json (bt_Metadata b) then Inl InvCheck
        else if q < 0 then Inl InvCheck
        else if find_batch (bt_tenant b) (bt_ID b) db \<noteq> None
               \<or> list_ex (\<lambda>x. bt_tenant x = bt_tenant b \<and> bt_item x = bt_item b \<and> bt_BatchNo x = bt_BatchNo b) (inv_batches db)
        then Inl ErrDuplicateBatch
        else Inr (b, db\<lparr>inv_batches := inv_batches db @
               [b\<lparr>bt_QtyOnHand := q, bt_ManufacturedAt := map_option Truncate_day (bt_ManufacturedAt b),
                  bt_ExpiresAt := map_option Truncate_day (bt_ExpiresAt b),
                  bt_Metadata := jsonb (eng_audit (ss_engine S)) (bt_Metadata b),
                  bt_CreatedAt := pg_time (bt_CreatedAt b), bt_UpdatedAt := pg_time (bt_UpdatedAt b)\<rparr>]\<rparr>)))"

definition CreateBatch :: "stock_store \<Rightarrow> gotime \<Rightarrow> uuid \<Rightarrow> batch \<Rightarrow> 'a inventory_db_scheme \<Rightarrow> (inv_error + batch) \<times> 'a inventory_db_scheme" where
  "CreateBatch S now fresh b db =
     (if bt_tenant b = 0 then (Inl InvTenantRequired, db)
      else if bt_item b = 0 then (Inl ErrBatchInvalid, db)
      else if bt_BatchNo b = [] then (Inl ErrBatchInvalid, db)
      else WithTenantTx InvTxTenant (bt_tenant b)
             (create_batch_tx S (b\<lparr>bt_ID := (if bt_ID b = 0 then fresh else bt_ID b),
                bt_Metadata := (if raw_text (bt_Metadata b) = [] then empty_payload else bt_Metadata b),
                bt_CreatedAt := now, bt_UpdatedAt := now\<rparr>)) db)"

definition getBatchTx :: "uuid \<Rightarrow> uuid \<Rightarrow> 'a inventory_db_scheme \<Rightarrow> inv_error + batch" where
  "getBatchTx t b db = (case find_batch t b db of None \<Rightarrow> Inl ErrBatchNotFound | Some row \<Rightarrow> Inr row)"

definition GetBatch :: "uuid \<Rightarrow> uuid \<Rightarrow> 'a inventory_db_scheme \<Rightarrow> inv_error + batch" where
  "GetBatch t b db = (if t = 0 \<or> b = 0 then Inl ErrBatchNotFound else getBatchTx t b db)"

definition ListBatchesForItem :: "uuid \<Rightarrow> uuid \<Rightarrow> 'a inventory_db_scheme \<Rightarrow> inv_error + batch list" where
  "ListBatchesForItem t i db =
     (if t = 0 \<or> i = 0 then Inr []
      else Inr (sort_key (\<lambda>b. bt_ExpiresAt b = None) (sort_key (\<lambda>b. case bt_ExpiresAt b of None \<Rightarrow> 0 | Some x \<Rightarrow> x)
             (sort_key bt_CreatedAt (filter (\<lambda>b. bt_tenant b = t \<and> bt_item b = i) (inv_batches db))))))"

record serialFilter =
  sf_item :: "uuid option"
  sf_wh :: "uuid option"
  sf_batch :: "uuid option"
  sf_Status :: string
  sf_Limit :: int
  sf_Offset :: int

definition ListSerials :: "uuid \<Rightarrow> serialFilter \<Rightarrow> 'a inventory_db_scheme \<Rightarrow> inv_error + serial list" where
  "ListSerials t f db =
     (if t = 0 then Inl InvTenantRequired
      else inv_page (if sf_Limit f \<le> 0 \<or> sf_Limit f > 1000 then 200 else sf_Limit f) (sf_Offset f)
             (sort_key sr_item (sort_key sr_SerialNo (filter (\<lambda>s. sr_tenant s = t \<and> opt_holds (\<lambda>i. sr_item s = i) (sf_item f)
                \<and> opt_holds (\<lambda>w. sr_wh s = Some w) (sf_wh f) \<and> opt_holds (\<lambda>b. sr_batch s = Some b) (sf_batch f)
                \<and> (sf_Status f \<noteq> [] \<longrightarrow> sr_Status s = sf_Status f)) (inv_serials db)))))"

definition GetSerial :: "uuid \<Rightarrow> uuid \<Rightarrow> string \<Rightarrow> 'a inventory_db_scheme \<Rightarrow> inv_error + serial" where
  "GetSerial t i sn db =
     (if t = 0 \<or> i = 0 \<or> sn = [] then Inl InvArgs
      else case find_serial t i sn db of None \<Rightarrow> Inl ErrSerialNotFound | Some s \<Rightarrow> Inr s)"

text \<open>The view \<open>stock_levels_by_batch\<close>.\<close>

definition batch_level :: "uuid \<Rightarrow> uuid \<Rightarrow> uuid \<Rightarrow> uuid \<Rightarrow> 'a inventory_db_scheme \<Rightarrow> decimal" where
  "batch_level t i w b db = sum_list (map mr_qty (filter (\<lambda>r. mr_tenant r = t \<and> mr_item r = i \<and> mr_wh r = w \<and> mr_batch r = Some b)
     (inv_moves db)))"

definition ListStockLevelsByBatch :: "uuid \<Rightarrow> uuid option \<Rightarrow> 'a inventory_db_scheme \<Rightarrow> inv_error + (uuid \<times> uuid \<times> uuid \<times> decimal) list" where
  "ListStockLevelsByBatch t item db =
     (if t = 0 then Inl InvTenantRequired
      else Inr (map (\<lambda>(i, w, b). (i, w, b, batch_level t i w b db))
             (sort_key fst (sort_key (fst \<circ> snd) (sort_key (snd \<circ> snd) (remdups (map (\<lambda>r. (mr_item r, mr_wh r, the (mr_batch r)))
                (filter (\<lambda>r. mr_tenant r = t \<and> mr_batch r \<noteq> None \<and> opt_holds (\<lambda>i. mr_item r = i) item) (inv_moves db)))))))))"

record traceEvent =
  te_MoveID :: int
  te_item :: uuid
  te_wh :: uuid
  te_Qty :: decimal
  te_SourceKType :: string
  te_SourceID :: "uuid option"
  te_BatchID :: "uuid option"
  te_MovedAt :: gotime

definition scanTraceEvent :: "move_row \<Rightarrow> traceEvent" where
  "scanTraceEvent r =
     \<lparr>te_MoveID = mr_id r, te_item = mr_item r, te_wh = mr_wh r, te_Qty = mr_qty r,
      te_SourceKType = (case mr_source_ktype r of None \<Rightarrow> [] | Some k \<Rightarrow> k), te_SourceID = mr_source_id r,
      te_BatchID = mr_batch r, te_MovedAt = mr_moved_at r\<rparr>"

definition traceEventsBySerial :: "uuid \<Rightarrow> uuid \<Rightarrow> 'a inventory_db_scheme \<Rightarrow> traceEvent list" where
  "traceEventsBySerial t sid db =
     map scanTraceEvent (sort_key mr_id (filter (\<lambda>r. mr_tenant r = t \<and> (t, mr_id r, sid) \<in> set (move_serials db)) (inv_moves db)))"

definition TraceSerial :: "uuid \<Rightarrow> uuid \<Rightarrow> string \<Rightarrow> 'a inventory_db_scheme \<Rightarrow> inv_error + serial \<times> traceEvent list" where
  "TraceSerial t i sn db =
     (if t = 0 \<or> i = 0 \<or> sn = [] then Inl InvArgs
      else case find_serial t i sn db of
             None \<Rightarrow> Inl ErrSerialNotFound
           | Some s \<Rightarrow> Inr (s, traceEventsBySerial t (sr_ID s) db))"

definition TraceLot :: "uuid \<Rightarrow> uuid \<Rightarrow> 'a inventory_db_scheme \<Rightarrow> inv_error + batch \<times> traceEvent list" where
  "TraceLot t b db =
     (if t = 0 \<or> b = 0 then Inl InvArgs
      else rbind (getBatchTx t b db) (\<lambda>row.
        Inr (row, map scanTraceEvent (sort_key mr_id (filter (\<lambda>r. mr_tenant r = t \<and> mr_batch r = Some b) (inv_moves db))))))"


section \<open>The posting hook\<close>

text \<open>
  \<open>PosterHook\<close> (internal/inventory/hook.go) turns the lines of a posted invoice or bill into moves, one per
  item and warehouse. The decoding of the lines is a parameter; each move is a transaction of its own.
\<close>

record invoiceLine =
  il_item :: string
  il_wh :: string
  il_Qty :: decimal
  il_UnitPrice :: decimal
  il_UnitCost :: decimal

record aggregatedLine =
  ag_item :: uuid
  ag_wh :: uuid
  ag_qty :: decimal
  ag_costTimesQty :: decimal
  ag_qtyAbs :: decimal

definition ag_key :: "aggregatedLine \<Rightarrow> uuid \<times> uuid" where
  "ag_key a = (ag_item a, ag_wh a)"

text \<open>A line added to its pair; pairs stay in the order of their first line.\<close>

definition add_line :: "uuid \<Rightarrow> uuid \<Rightarrow> decimal \<Rightarrow> decimal \<Rightarrow> decimal \<Rightarrow> aggregatedLine list \<Rightarrow> aggregatedLine list" where
  "add_line i w qty unitCost absQty agg =
     update_rows (\<lambda>a. ag_key a = (i, w))
       (\<lambda>a. a\<lparr>ag_qty := ag_qty a + qty, ag_costTimesQty := ag_costTimesQty a + unitCost * absQty, ag_qtyAbs := ag_qtyAbs a + absQty\<rparr>)
       (if (i, w) \<in> set (map ag_key agg) then agg
        else agg @ [\<lparr>ag_item = i, ag_wh = w, ag_qty = 0, ag_costTimesQty = 0, ag_qtyAbs = 0\<rparr>])"

fun aggregate :: "golib \<Rightarrow> bool \<Rightarrow> invoiceLine list \<Rightarrow> aggregatedLine list \<Rightarrow> inv_error + aggregatedLine list" where
  "aggregate L neg [] agg = Inr agg"
| "aggregate L neg (l # ls) agg =
     (if il_item l = [] \<or> il_wh l = [] then aggregate L neg ls agg
      else if il_Qty l = 0 then aggregate L neg ls agg
      else case (uuid_parse L (il_item l), uuid_parse L (il_wh l)) of
             (Some i, Some w) \<Rightarrow>
               aggregate L neg ls (add_line i w (if neg then - il_Qty l else il_Qty l)
                 (if il_UnitCost l = 0 then il_UnitPrice l else il_UnitCost l) \<bar>il_Qty l\<bar> agg)
           | _ \<Rightarrow> Inl InvDecode)"

definition hook_move :: "stock_store \<Rightarrow> uuid \<Rightarrow> uuid \<Rightarrow> string \<Rightarrow> uuid \<Rightarrow> aggregatedLine \<Rightarrow> move" where
  "hook_move S t actor kt src a =
     \<lparr>mv_ID = 0, mv_tenant = t, mv_item = ag_item a, mv_wh = ag_wh a, mv_Qty = ag_qty a,
      mv_UnitCost = (if ag_qtyAbs a > 0 then dec_div (ss_decimal S) (ag_costTimesQty a) (ag_qtyAbs a) else 0),
      mv_SourceKType = kt, mv_SourceID = Some src, mv_MovedAt = 0, mv_CreatedBy = actor, mv_ReversalOf = None,
      mv_BatchID = None, mv_SerialNos = [], mv_OutStatus = []\<rparr>"

fun post_lines ::
  "stock_store \<Rightarrow> (nat \<Rightarrow> gotime \<times> uuid) \<Rightarrow> uuid \<Rightarrow> uuid \<Rightarrow> string \<Rightarrow> uuid \<Rightarrow> nat \<Rightarrow> aggregatedLine list \<Rightarrow> 'a inventory_db_scheme
   \<Rightarrow> (inv_error + unit) \<times> 'a inventory_db_scheme" where
  "post_lines S ck t actor kt src n [] db = (Inr (), db)"
| "post_lines S ck t actor kt src n (a # as) db =
     (if ag_qty a = 0 then post_lines S ck t actor kt src n as db
      else case RecordMove S (fst (ck n)) (snd (ck n)) (\<lambda>_. 0) (hook_move S t actor kt src a) db of
             (Inl e, db') \<Rightarrow>
               (if e = ErrDuplicateSourceMove then post_lines S ck t actor kt src (Suc n) as db' else (Inl e, db'))
           | (Inr _, db') \<Rightarrow> post_lines S ck t actor kt src (Suc n) as db')"

definition applyLines ::
  "stock_store \<Rightarrow> (raw_message \<Rightarrow> invoiceLine list option) \<Rightarrow> (nat \<Rightarrow> gotime \<times> uuid) \<Rightarrow> uuid \<Rightarrow> uuid \<Rightarrow> raw_message \<Rightarrow> uuid \<Rightarrow> string \<Rightarrow> bool
   \<Rightarrow> 'a inventory_db_scheme \<Rightarrow> (inv_error + unit) \<times> 'a inventory_db_scheme" where
  "applyLines S dec ck t src data actor kt neg db =
     (case (if raw_text data = [] then Some [] else dec data) of
        None \<Rightarrow> (Inl InvDecode, db)
      | Some ls \<Rightarrow>
          (case aggregate (eng_lib (ss_engine S)) neg ls [] of
             Inl e \<Rightarrow> (Inl e, db)
           | Inr agg \<Rightarrow> post_lines S ck t actor kt src 0 agg db))"

end
