(* ===== verification/Inventory_Correct.thy ===== *)
theory Inventory_Correct
  imports Inventory
begin

text \<open>
  Correctness of the stock ledger. Lemmas on the steps of a move, the invariant of the tables, what an
  operation does to the stock levels, and the properties.
\<close>

section \<open>Rounding of columns\<close>

lemma inv_numeric_ok: "inv_numeric p s x = Inr y \<longleftrightarrow> y = round_dec s x \<and> \<bar>y\<bar> < 10 ^ (p - s)"
  by (auto simp: inv_numeric_def pg_numeric_def Let_def)

lemma round_dec_minus: "round_dec s (- x) = - round_dec s x"
  by (simp add: round_dec_def)

lemma round_scaled: "scaled s x \<Longrightarrow> round_dec s x = x"
  using round_dec_scaled[of x s] round_dec_scaled[of "- x" s] round_dec_minus[of s x] by (cases "0 \<le> x") (auto simp: scaled_def)

lemma scaled_round: "scaled s (round_dec s x)"
  by (simp add: scaled_def round_dec_def sgn_if)

lemma scaled_ops: "scaled s x \<Longrightarrow> scaled s y \<Longrightarrow> scaled s (x + y)" "scaled s x \<Longrightarrow> scaled s (- x)"
  by (simp_all add: scaled_def distrib_right)

lemma scaled_mono:
  assumes "scaled s x" "s \<le> s'"
  shows "scaled s' x"
proof -
  have "x * 10 ^ s' = (x * 10 ^ s) * 10 ^ (s' - s)" using assms(2) by (simp add: mult.assoc flip: power_add)
  moreover have "(x * 10 ^ s) * 10 ^ (s' - s) \<in> \<int>" using assms(1) unfolding scaled_def by (rule Ints_mult) simp
  ultimately show ?thesis by (simp only: scaled_def)
qed

lemma scaled_sum: "(\<And>x. x \<in> set xs \<Longrightarrow> scaled s (f x)) \<Longrightarrow> scaled s (sum_list (map f xs))"
  by (induction xs) (auto simp: scaled_def distrib_right)


section \<open>Steps of a move\<close>

definition fits :: "decimal \<Rightarrow> bool" where
  "fits x \<longleftrightarrow> \<bar>round_dec 4 x\<bar> < 10 ^ 16"

definition row_fits :: "move_row \<Rightarrow> bool" where
  "row_fits r \<longleftrightarrow> fits (mr_qty r) \<and> (\<forall>c. mr_unit_cost r = Some c \<longrightarrow> fits c)"

definition stored :: "int \<Rightarrow> move_row \<Rightarrow> move_row" where
  "stored n r = r\<lparr>mr_id := n, mr_qty := round_dec 4 (mr_qty r), mr_unit_cost := map_option (round_dec 4) (mr_unit_cost r),
     mr_moved_at := pg_time (mr_moved_at r)\<rparr>"

lemma stored_simps [simp]:
  "mr_id (stored n r) = n" "mr_tenant (stored n r) = mr_tenant r" "mr_item (stored n r) = mr_item r" "mr_wh (stored n r) = mr_wh r"
  "mr_qty (stored n r) = round_dec 4 (mr_qty r)" "mr_source_id (stored n r) = mr_source_id r"
  "mr_source_ktype (stored n r) = mr_source_ktype r" "mr_reversal_of (stored n r) = mr_reversal_of r" "mr_batch (stored n r) = mr_batch r"
  "mr_unit_cost (stored n r) = map_option (round_dec 4) (mr_unit_cost r)"
  by (simp_all add: stored_def)

lemma insert_move_eq:
  "insert_move r db =
     (if \<not> row_fits r then Inl InvNumeric
      else if list_ex (same_source r) (inv_moves db) then Inl ErrDuplicateSourceMove
      else if list_ex (same_reversal r) (inv_moves db) then Inl ErrAlreadyReversed
      else Inr (inv_seq db, db\<lparr>inv_moves := inv_moves db @ [stored (inv_seq db) r], inv_seq := inv_seq db + 1\<rparr>))"
proof -
  have num: "inv_numeric 20 4 x = (if fits x then Inr (round_dec 4 x) else Inl InvNumeric)" for x
    by (simp add: inv_numeric_def pg_numeric_def fits_def Let_def)
  have src: "same_source (r\<lparr>mr_id := n, mr_qty := q, mr_unit_cost := c, mr_moved_at := d\<rparr>) = same_source r"
    "same_reversal (r\<lparr>mr_id := n, mr_qty := q, mr_unit_cost := c, mr_moved_at := d\<rparr>) = same_reversal r" for n q c d
    by (auto simp: same_source_def same_reversal_def fun_eq_iff)
  show ?thesis
    by (cases "mr_unit_cost r") (auto simp: insert_move_def num src row_fits_def stored_def Let_def)
qed

lemma insert_move_ok:
  "insert_move r db = Inr (mid, db') \<longleftrightarrow>
     row_fits r \<and> (\<forall>x \<in> set (inv_moves db). \<not> same_source r x \<and> \<not> same_reversal r x) \<and> mid = inv_seq db
     \<and> db' = db\<lparr>inv_moves := inv_moves db @ [stored (inv_seq db) r], inv_seq := inv_seq db + 1\<rparr>"
  by (auto simp: insert_move_eq list_ex_iff)

lemma rollBatchQty_ok:
  assumes "rollBatchQty now t b delta db = Inr db'"
  obtains row where "find_batch t b db = Some row" "0 \<le> bt_QtyOnHand row + delta"
    "db' = db\<lparr>inv_batches := update_rows (\<lambda>x. bt_tenant x = t \<and> bt_ID x = b)
       (\<lambda>x. x\<lparr>bt_QtyOnHand := round_dec 6 (bt_QtyOnHand row + delta), bt_UpdatedAt := pg_time now\<rparr>) (inv_batches db)\<rparr>"
  using assms by (auto simp: rollBatchQty_def rbind_eq_Inr inv_numeric_ok not_less split: option.split_asm if_split_asm)

text \<open>What the serial steps leave alone.\<close>

definition serials_only :: "'a inventory_db_scheme \<Rightarrow> 'a inventory_db_scheme \<Rightarrow> bool" where
  "serials_only db db' \<longleftrightarrow>
     inv_items db' = inv_items db \<and> inv_warehouses db' = inv_warehouses db \<and> inv_moves db' = inv_moves db \<and> inv_seq db' = inv_seq db
     \<and> inv_batches db' = inv_batches db \<and> events db' = events db \<and> audit_log db' = audit_log db \<and> audit_seq db' = audit_seq db"

lemma serials_only_refl [simp]: "serials_only db db"
  by (simp add: serials_only_def)

lemma serials_only_trans: "serials_only a b \<Longrightarrow> serials_only b c \<Longrightarrow> serials_only a c"
  by (simp add: serials_only_def)

lemma put_serial_only: "serials_only db (put_serial t i f db)"
  by (simp add: serials_only_def put_serial_def)

lemma link_serial_only: "serials_only db (link_serial t mid sid db)"
  by (simp add: serials_only_def link_serial_def)

lemma restock_only: "restockSerial now fr m sn db = Inr (sid, db') \<Longrightarrow> serials_only db db'"
  by (auto simp: restockSerial_def put_serial_def serials_only_def split: option.split_asm if_split_asm)

lemma issue_only: "issueSerial now m sn st db = Inr (sid, db') \<Longrightarrow> serials_only db db'"
  by (auto simp: issueSerial_def put_serial_only split: option.split_asm if_split_asm)

lemma serials_loop_only: "serials_loop now fr m mid st n sns db = Inr db' \<Longrightarrow> serials_only db db'"
proof (induction sns arbitrary: n db)
  case (Cons sn sns)
  then obtain sid db1 where one: "(if mv_Qty m > 0 then restockSerial now (fr n) m sn db else issueSerial now m sn st db) = Inr (sid, db1)"
    and rest: "serials_loop now fr m mid st (Suc n) sns (link_serial (mv_tenant m) mid sid db1) = Inr db'"
    by (auto simp: rbind_eq_Inr)
  have "serials_only db db1" using one restock_only issue_only by (metis (full_types))
  then show ?case using Cons.IH[OF rest] link_serial_only serials_only_trans by metis
qed simp

lemma applyMoveSerials_ok:
  assumes "applyMoveSerials now fr m mid db = Inr db'"
  obtains st where "check_serial_nos (mv_SerialNos m) {} = Inr ()" "serials_loop now fr m mid st 0 (mv_SerialNos m) db = Inr db'"
    "\<not> mv_Qty m > 0 \<Longrightarrow> st \<in> {SerialStatusConsumed, SerialStatusDelivered}"
  using assms by (auto simp: applyMoveSerials_def rbind_eq_Inr Let_def split: if_split_asm)

lemma reverse_loop_only: "reverse_loop now t c q w sids db = Inr db' \<Longrightarrow> serials_only db db'"
proof (induction sids arbitrary: db)
  case (Cons sid sids)
  obtain f where "reverse_loop now t c q w sids (link_serial t c sid (put_serial t sid f db)) = Inr db'"
    using Cons.prems by (auto split: if_split_asm)
  from Cons.IH[OF this] show ?case using put_serial_only link_serial_only serials_only_trans by metis
qed simp


section \<open>Effects of a recorded move\<close>

lemma kernel_only_stock:
  fixes db db' :: "'a inventory_db_scheme"
  assumes "kernel_only db db'"
  shows "inv_moves db' = inv_moves db" "inv_seq db' = inv_seq db" "inv_batches db' = inv_batches db"
    "inv_serials db' = inv_serials db" "move_serials db' = move_serials db" "inv_items db' = inv_items db"
    "inv_warehouses db' = inv_warehouses db"
proof -
  obtain x y z where "db' = db\<lparr>events := x, audit_log := y, audit_seq := z\<rparr>" using assms unfolding kernel_only_def by blast
  then show "inv_moves db' = inv_moves db" "inv_seq db' = inv_seq db" "inv_batches db' = inv_batches db"
    "inv_serials db' = inv_serials db" "move_serials db' = move_serials db" "inv_items db' = inv_items db"
    "inv_warehouses db' = inv_warehouses db" by simp_all
qed

lemma kernel_inv_cong:
  "events db' = events db \<Longrightarrow> audit_log db' = audit_log db \<Longrightarrow> audit_seq db' = audit_seq db \<Longrightarrow> kernel_inv E db' = kernel_inv E db"
  by (simp add: kernel_inv_def outbox_inv_def audit_inv_def tenant_rows_def)

lemma payload_decodes: "unmarshal_any (move_payload S m) \<noteq> None"
  by (simp add: move_payload_def Let_def uuid_json_def time_json_def opt_json_def split: option.splits)

lemma emitMove_ok:
  assumes "emitMove S now eid m ty db = Inr db'"
  shows "kernel_only db db'"
    and "kernel_inv (ss_engine S) db \<Longrightarrow> jsonb_law (eng_audit (ss_engine S)) \<Longrightarrow> kernel_inv (ss_engine S) db'"
proof -
  let ?E = "ss_engine S"
  let ?ent = "\<lparr>ae_tenant = mv_tenant m, ae_actor = nullableUUIDValue (mv_CreatedBy m), ae_kind = ''user'', ae_action = ty,
    ae_ktype = ''inventory.move'', ae_target = None, ae_before = no_json, ae_after = raw_of (eng_json ?E) (move_payload S m), ae_context = no_json\<rparr>"
  obtain db1 where e: "emit_event ?E now eid (mv_tenant m) ty (move_payload S m) db = Inr db1"
    and l: "(if eng_auditor ?E then LogTx (eng_audit ?E) now ?ent db1 else Inr db1) = Inr db'"
    using assms by (auto simp: emitMove_def rbind_eq_Inr elim!: map_sum_InrE)
  obtain evs where evs: "db1 = db\<lparr>events := events db @ evs\<rparr>" using emit_event_ok[OF e] by metis
  show "kernel_only db db'"
    using l evs by (auto simp: kernel_only_def split: if_split_asm elim!: LogTx_shape)
  assume k: "kernel_inv ?E db" "jsonb_law (eng_audit ?E)"
  have k1: "outbox_inv db1" "audit_inv (eng_audit ?E) db1"
    using k(1) emit_event_inv[OF _ e] evs audit_inv_events by (auto simp: kernel_inv_def)
  have dec: "entry_decodable ?ent" using payload_decodes by (simp add: entry_decodable_def valid_json_def no_json_def)
  show "kernel_inv ?E db'"
  proof (cases "eng_auditor ?E")
    case True
    then have l': "LogTx (eng_audit ?E) now ?ent db1 = Inr db'" using l by simp
    show ?thesis using LogTx_inv[OF k1(2) l' k(2) dec] LogTx_shape[OF l'] outbox_inv_audit k1(1) unfolding kernel_inv_def by metis
  next
    case False
    then show ?thesis using l k1 by (simp add: kernel_inv_def)
  qed
qed

text \<open>
  \<open>recorded\<close>: what a recorded move does to the tables. \<open>db2\<close> and \<open>db3\<close> are the states around the serial
  steps.
\<close>

definition rolled :: "gotime \<Rightarrow> uuid \<Rightarrow> uuid option \<Rightarrow> decimal \<Rightarrow> batch list \<Rightarrow> batch list \<Rightarrow> bool" where
  "rolled now t b delta bs bs' \<longleftrightarrow>
     (case b of
        None \<Rightarrow> bs' = bs
      | Some b \<Rightarrow>
          (\<exists>row. List.find (\<lambda>x. bt_tenant x = t \<and> bt_ID x = b) bs = Some row \<and> 0 \<le> bt_QtyOnHand row + delta
             \<and> bs' = update_rows (\<lambda>x. bt_tenant x = t \<and> bt_ID x = b)
                  (\<lambda>x. x\<lparr>bt_QtyOnHand := round_dec 6 (bt_QtyOnHand row + delta), bt_UpdatedAt := pg_time now\<rparr>) bs))"

lemma roll_batch_ok:
  assumes "roll_batch now t b delta db = Inr db'"
  shows "rolled now t b delta (inv_batches db) (inv_batches db')" "\<exists>bs. db' = db\<lparr>inv_batches := bs\<rparr>"
  using assms by (auto simp: roll_batch_def rolled_def find_batch_def split: option.splits elim!: rollBatchQty_ok intro: exI[of _ "inv_batches db"])

lemma recordMoveInTx_ok:
  fixes db db' :: "'a inventory_db_scheme"
  assumes "recordMoveInTx S now eid fr m db = Inr (out, db')"
  obtains db2 db3 :: "'a inventory_db_scheme" where "out = m\<lparr>mv_ID := inv_seq db\<rparr>"
    "validateMoveTracking m (fst (itemTracking (mv_tenant m) (mv_item m) db)) (snd (itemTracking (mv_tenant m) (mv_item m) db)) = Inr ()"
    "check_batch m db = Inr ()" "row_fits (move_to_row m)" "\<forall>x \<in> set (inv_moves db). \<not> same_source (move_to_row m) x"
    "inv_moves db' = inv_moves db @ [stored (inv_seq db) (move_to_row m)]" "inv_seq db' = inv_seq db + 1"
    "rolled now (mv_tenant m) (mv_BatchID m) (mv_Qty m) (inv_batches db) (inv_batches db')"
    "inv_serials db2 = inv_serials db" "move_serials db2 = move_serials db" "inv_warehouses db2 = inv_warehouses db"
    "if mv_SerialNos m = [] then db3 = db2 else applyMoveSerials now fr m (inv_seq db) db2 = Inr db3"
    "inv_serials db' = inv_serials db3" "move_serials db' = move_serials db3"
    "inv_items db' = inv_items db" "inv_warehouses db' = inv_warehouses db"
    "kernel_inv (ss_engine S) db \<Longrightarrow> jsonb_law (eng_audit (ss_engine S)) \<Longrightarrow> kernel_inv (ss_engine S) db'"
proof -
  obtain lot ser where it: "itemTracking (mv_tenant m) (mv_item m) db = (lot, ser)" by fastforce
  obtain mid db1 db2 db3 where
    v: "validateMoveTracking m (fst (itemTracking (mv_tenant m) (mv_item m) db)) (snd (itemTracking (mv_tenant m) (mv_item m) db)) = Inr ()"
    and cb: "check_batch m db = Inr ()" and ins: "insert_move (move_to_row m) db = Inr (mid, db1)"
    and rb: "roll_batch now (mv_tenant m) (mv_BatchID m) (mv_Qty m) db1 = Inr db2"
    and ser: "(if mv_SerialNos m = [] then Inr db2 else applyMoveSerials now fr m mid db2) = Inr db3"
    and em: "emitMove S now eid (m\<lparr>mv_ID := mid\<rparr>) ''inventory.move.recorded'' db3 = Inr db'" and out: "out = m\<lparr>mv_ID := mid\<rparr>"
    using assms by (auto simp: recordMoveInTx_def rbind_eq_Inr it)
  note i = ins[unfolded insert_move_ok]
  obtain bs where db2: "db2 = db1\<lparr>inv_batches := bs\<rparr>" using roll_batch_ok(2)[OF rb] by blast
  have s: "serials_only db2 db3" using ser by (auto split: if_split_asm elim!: applyMoveSerials_ok intro: serials_loop_only)
  note k = kernel_only_stock[OF emitMove_ok(1)[OF em]]
  have "kernel_inv (ss_engine S) db3 = kernel_inv (ss_engine S) db"
    using s i db2 by (intro kernel_inv_cong) (auto simp: serials_only_def)
  with emitMove_ok(2)[OF em] have inv: "kernel_inv (ss_engine S) db \<Longrightarrow> jsonb_law (eng_audit (ss_engine S)) \<Longrightarrow> kernel_inv (ss_engine S) db'"
    by simp
  show thesis
    by (rule that[of db2 db3]) (use roll_batch_ok(1)[OF rb] v cb i db2 s k ser out inv in \<open>auto simp: serials_only_def split: if_split_asm\<close>)
qed


section \<open>The invariant of the tables\<close>

text \<open>
  A row appended to the ledger with its effect on the lots: what recording a move and reversing one have in
  common. \<open>d\<close> is what is added to the lot.
\<close>

definition appended :: "stock_store \<Rightarrow> gotime \<Rightarrow> move_row \<Rightarrow> decimal \<Rightarrow> 'a inventory_db_scheme \<Rightarrow> 'a inventory_db_scheme \<Rightarrow> bool" where
  "appended S now r d db db' \<longleftrightarrow>
     row_fits r \<and> (\<forall>x \<in> set (inv_moves db). \<not> same_source r x \<and> \<not> same_reversal r x)
     \<and> inv_moves db' = inv_moves db @ [stored (inv_seq db) r] \<and> inv_seq db' = inv_seq db + 1
     \<and> rolled now (mr_tenant r) (mr_batch r) d (inv_batches db) (inv_batches db')
     \<and> (\<forall>b row. mr_batch r = Some b \<longrightarrow> find_batch (mr_tenant r) b db = Some row \<longrightarrow> bt_item row = mr_item r)
     \<and> inv_items db' = inv_items db \<and> inv_warehouses db' = inv_warehouses db
     \<and> (kernel_inv (ss_engine S) db \<longrightarrow> jsonb_law (eng_audit (ss_engine S)) \<longrightarrow> kernel_inv (ss_engine S) db')"

lemma move_to_row_simps [simp]:
  "mr_tenant (move_to_row m) = mv_tenant m" "mr_item (move_to_row m) = mv_item m" "mr_wh (move_to_row m) = mv_wh m"
  "mr_qty (move_to_row m) = mv_Qty m" "mr_batch (move_to_row m) = mv_BatchID m" "mr_reversal_of (move_to_row m) = None"
  "mr_source_id (move_to_row m) = mv_SourceID m" "mr_source_ktype (move_to_row m) = nullIfEmpty (mv_SourceKType m)"
  by (simp_all add: move_to_row_def)

lemma contra_row_simps [simp]:
  "mr_tenant (contra_row now u r) = mr_tenant r" "mr_item (contra_row now u r) = mr_item r" "mr_wh (contra_row now u r) = mr_wh r"
  "mr_qty (contra_row now u r) = - mr_qty r" "mr_batch (contra_row now u r) = mr_batch r"
  "mr_reversal_of (contra_row now u r) = Some (mr_id r)" "mr_source_id (contra_row now u r) = None"
  "mr_source_ktype (contra_row now u r) = None" "mr_unit_cost (contra_row now u r) = mr_unit_cost r"
  by (simp_all add: contra_row_def)

lemma record_appended:
  assumes "recordMoveInTx S now eid fr m db = Inr (out, db')"
  shows "appended S now (move_to_row m) (mv_Qty m) db db'"
  using assms
proof (rule recordMoveInTx_ok)
  fix db2 db3 :: "'a inventory_db_scheme"
  assume "check_batch m db = Inr ()"
  then have "\<forall>b row. mv_BatchID m = Some b \<longrightarrow> find_batch (mv_tenant m) b db = Some row \<longrightarrow> bt_item row = mv_item m"
    by (auto simp: check_batch_def split: if_split_asm)
  moreover assume "row_fits (move_to_row m)" "\<forall>x \<in> set (inv_moves db). \<not> same_source (move_to_row m) x"
    "inv_moves db' = inv_moves db @ [stored (inv_seq db) (move_to_row m)]" "inv_seq db' = inv_seq db + 1"
    "rolled now (mv_tenant m) (mv_BatchID m) (mv_Qty m) (inv_batches db) (inv_batches db')"
    "inv_items db' = inv_items db" "inv_warehouses db' = inv_warehouses db"
    "kernel_inv (ss_engine S) db \<Longrightarrow> jsonb_law (eng_audit (ss_engine S)) \<Longrightarrow> kernel_inv (ss_engine S) db'"
  ultimately show ?thesis by (auto simp: appended_def same_reversal_def)
qed

text \<open>
  The invariant: ids below the sequence, the two partial unique indexes, rounded quantities, lots with
  unique ids and no negative quantity, moves that refer to lots of their item, outbox and audit log.
\<close>

definition row_ok :: "'a inventory_db_scheme \<Rightarrow> move_row \<Rightarrow> bool" where
  "row_ok db r \<longleftrightarrow>
     0 < mr_id r \<and> mr_id r < inv_seq db \<and> scaled 4 (mr_qty r) \<and> row_fits r \<and> (\<forall>c. mr_unit_cost r = Some c \<longrightarrow> scaled 4 c)
     \<and> (\<forall>b. mr_batch r = Some b \<longrightarrow> (\<exists>x \<in> set (inv_batches db). bt_tenant x = mr_tenant r \<and> bt_ID x = b \<and> bt_item x = mr_item r))"

definition bt_key :: "batch \<Rightarrow> uuid \<times> uuid" where
  "bt_key b = (bt_tenant b, bt_ID b)"

definition stock_inv :: "stock_store \<Rightarrow> 'a inventory_db_scheme \<Rightarrow> bool" where
  "stock_inv S db \<longleftrightarrow>
     kernel_inv (ss_engine S) db \<and> 0 < inv_seq db \<and> distinct (map mr_id (inv_moves db)) \<and> (\<forall>r \<in> set (inv_moves db). row_ok db r)
     \<and> sorted_wrt (\<lambda>x y. \<not> same_source y x \<and> \<not> same_reversal y x) (inv_moves db)
     \<and> distinct (map bt_key (inv_batches db)) \<and> (\<forall>b \<in> set (inv_batches db). 0 \<le> bt_QtyOnHand b)"

lemma rolled_rows:
  assumes "rolled now t b d bs bs'" "distinct (map bt_key bs)"
  shows "map bt_key bs' = map bt_key bs" and "map bt_item bs' = map bt_item bs"
    and "map bt_QtyOnHand bs' = map (\<lambda>x. if b = Some (bt_ID x) \<and> bt_tenant x = t then round_dec 6 (bt_QtyOnHand x + d) else bt_QtyOnHand x) bs"
    and "\<And>x. x \<in> set bs \<Longrightarrow> b = Some (bt_ID x) \<Longrightarrow> bt_tenant x = t \<Longrightarrow> 0 \<le> bt_QtyOnHand x + d"
    and "\<And>i. b = Some i \<Longrightarrow> \<exists>x \<in> set bs. bt_key x = (t, i)"
proof -
  have "map bt_key bs' = map bt_key bs \<and> map bt_item bs' = map bt_item bs
    \<and> map bt_QtyOnHand bs' = map (\<lambda>x. if b = Some (bt_ID x) \<and> bt_tenant x = t then round_dec 6 (bt_QtyOnHand x + d) else bt_QtyOnHand x) bs
    \<and> (\<forall>x \<in> set bs. b = Some (bt_ID x) \<longrightarrow> bt_tenant x = t \<longrightarrow> 0 \<le> bt_QtyOnHand x + d) \<and> (\<forall>i. b = Some i \<longrightarrow> (\<exists>x \<in> set bs. bt_key x = (t, i)))"
  proof (cases b)
    case None
    with assms(1) show ?thesis by (auto simp: rolled_def)
  next
    case (Some i)
    then obtain row where row: "List.find (\<lambda>x. bt_tenant x = t \<and> bt_ID x = i) bs = Some row" "0 \<le> bt_QtyOnHand row + d"
      and bs': "bs' = update_rows (\<lambda>x. bt_tenant x = t \<and> bt_ID x = i)
         (\<lambda>x. x\<lparr>bt_QtyOnHand := round_dec 6 (bt_QtyOnHand row + d), bt_UpdatedAt := pg_time now\<rparr>) bs"
      using assms(1) by (auto simp: rolled_def)
    have r: "row \<in> set bs" "bt_key row = (t, i)" using find_SomeD[OF row(1)] by (auto simp: bt_key_def)
    have uniq: "x = row" if "x \<in> set bs" "bt_tenant x = t" "bt_ID x = i" for x
      using assms(2) that r unfolding distinct_map by (intro inj_onD[of bt_key "set bs" x row]) (auto simp: bt_key_def)
    let ?g = "\<lambda>x. if bt_tenant x = t \<and> bt_ID x = i then x\<lparr>bt_QtyOnHand := round_dec 6 (bt_QtyOnHand row + d), bt_UpdatedAt := pg_time now\<rparr> else x"
    have q: "bt_QtyOnHand (?g x) = (if b = Some (bt_ID x) \<and> bt_tenant x = t then round_dec 6 (bt_QtyOnHand x + d) else bt_QtyOnHand x)"
      if "x \<in> set bs" for x using uniq[OF that] Some by simp
    have "map bt_key bs' = map bt_key bs" "map bt_item bs' = map bt_item bs" unfolding bs' update_rows_def by (simp_all add: bt_key_def)
    moreover have "map bt_QtyOnHand bs' = map (\<lambda>x. if b = Some (bt_ID x) \<and> bt_tenant x = t then round_dec 6 (bt_QtyOnHand x + d) else bt_QtyOnHand x) bs"
      unfolding bs' update_rows_def map_map o_def by (rule map_cong[OF refl q])
    moreover have "0 \<le> bt_QtyOnHand x + d" if "x \<in> set bs" "b = Some (bt_ID x)" "bt_tenant x = t" for x
      using uniq[OF that(1)] that Some row(2) by simp
    ultimately show ?thesis using r Some by auto
  qed
  then show "map bt_key bs' = map bt_key bs" "map bt_item bs' = map bt_item bs"
    "map bt_QtyOnHand bs' = map (\<lambda>x. if b = Some (bt_ID x) \<and> bt_tenant x = t then round_dec 6 (bt_QtyOnHand x + d) else bt_QtyOnHand x) bs"
    "\<And>x. x \<in> set bs \<Longrightarrow> b = Some (bt_ID x) \<Longrightarrow> bt_tenant x = t \<Longrightarrow> 0 \<le> bt_QtyOnHand x + d"
    "\<And>i. b = Some i \<Longrightarrow> \<exists>x \<in> set bs. bt_key x = (t, i)" by blast+
qed


lemma batch_member:
  assumes "map bt_key bs' = map bt_key bs" "map bt_item bs' = map bt_item bs" "x \<in> set bs"
  shows "\<exists>x' \<in> set bs'. bt_tenant x' = bt_tenant x \<and> bt_ID x' = bt_ID x \<and> bt_item x' = bt_item x"
proof -
  obtain i where i: "i < length bs" "x = bs ! i" using assms(3) by (auto simp: in_set_conv_nth)
  have "length bs' = length bs" using arg_cong[OF assms(1), of length] by simp
  then have "i < length bs'" "bt_key (bs' ! i) = bt_key x" "bt_item (bs' ! i) = bt_item x"
    using i arg_cong[OF assms(1), of "\<lambda>l. l ! i"] arg_cong[OF assms(2), of "\<lambda>l. l ! i"] by auto
  then show ?thesis by (intro bexI[of _ "bs' ! i"]) (auto simp: bt_key_def)
qed

lemma row_ok_later:
  assumes "row_ok db r" "inv_seq db \<le> inv_seq db'"
    and "map bt_key (inv_batches db') = map bt_key (inv_batches db)" "map bt_item (inv_batches db') = map bt_item (inv_batches db)"
  shows "row_ok db' r"
  using assms batch_member[OF assms(3,4)] unfolding row_ok_def by (metis order_less_le_trans)

lemma round_idem: "round_dec s (round_dec s x) = round_dec s x"
  by (rule round_scaled[OF scaled_round])

lemma stored_row_ok:
  assumes "appended S now r d db db'" "stock_inv S db"
  shows "row_ok db' (stored (inv_seq db) r)"
proof -
  note rl = rolled_rows[of now "mr_tenant r" "mr_batch r" d "inv_batches db" "inv_batches db'"]
  have R: "rolled now (mr_tenant r) (mr_batch r) d (inv_batches db) (inv_batches db')" and D: "distinct (map bt_key (inv_batches db))"
    using assms by (auto simp: appended_def stock_inv_def)
  have "\<exists>x \<in> set (inv_batches db'). bt_tenant x = mr_tenant r \<and> bt_ID x = b \<and> bt_item x = mr_item r" if b: "mr_batch r = Some b" for b
  proof -
    obtain x where x: "x \<in> set (inv_batches db)" "bt_key x = (mr_tenant r, b)" using rl(5)[OF R D b] by blast
    have "find_batch (mr_tenant r) b db = Some x"
      using find_key_unique[OF D x(1)] x(2) by (simp add: find_batch_def bt_key_def)
    then have "bt_item x = mr_item r" using assms(1) b unfolding appended_def by blast
    with batch_member[OF rl(1,2)[OF R D] x(1)] x(2) show ?thesis by (auto simp: bt_key_def)
  qed
  then show ?thesis using assms scaled_round by (auto simp: row_ok_def appended_def stock_inv_def row_fits_def fits_def round_idem)
qed

lemma appended_inv:
  assumes "appended S now r d db db'" "stock_inv S db" "jsonb_law (eng_audit (ss_engine S))"
  shows "stock_inv S db'"
proof -
  have R: "rolled now (mr_tenant r) (mr_batch r) d (inv_batches db) (inv_batches db')" and D: "distinct (map bt_key (inv_batches db))"
    using assms by (auto simp: appended_def stock_inv_def)
  note rl = rolled_rows[OF R D]
  have src: "same_source (stored n r) x \<longleftrightarrow> same_source r x" "same_reversal (stored n r) x \<longleftrightarrow> same_reversal r x" for n x
    by (simp_all add: same_source_def same_reversal_def)
  have "0 \<le> q" if "q \<in> set (map bt_QtyOnHand (inv_batches db'))" for q
    using that assms(2) rl(4) round_dec_nonneg unfolding rl(3) by (fastforce simp: stock_inv_def)
  moreover have "\<forall>x \<in> set (inv_moves db). row_ok db' x"
    using assms(1,2) by (auto intro!: row_ok_later[OF _ _ rl(1,2)] simp: stock_inv_def appended_def)
  ultimately show ?thesis
    using assms stored_row_ok[OF assms(1,2)] rl(1) src
    by (auto simp: stock_inv_def appended_def sorted_wrt_append row_ok_def)
qed


lemma reverse_tx_ok:
  fixes db db' :: "'a inventory_db_scheme"
  assumes "reverse_tx S now eid t mid actor db = Inr (c, db')"
  obtains r and db2 db3 :: "'a inventory_db_scheme" where "find_move t mid db = Some r" "mr_reversal_of r = None" "c = contra_move now actor (inv_seq db) r"
    "row_fits (contra_row now actor r)" "\<forall>x \<in> set (inv_moves db). \<not> same_reversal (contra_row now actor r) x"
    "inv_moves db' = inv_moves db @ [stored (inv_seq db) (contra_row now actor r)]" "inv_seq db' = inv_seq db + 1"
    "rolled now t (mr_batch r) (- mr_qty r) (inv_batches db) (inv_batches db')"
    "inv_serials db2 = inv_serials db" "move_serials db2 = move_serials db" "inv_warehouses db2 = inv_warehouses db"
    "reverseMoveSerials now t mid (inv_seq db) (mr_qty r) (mr_wh r) db2 = Inr db3" "inv_serials db' = inv_serials db3"
    "inv_items db' = inv_items db" "inv_warehouses db' = inv_warehouses db"
    "kernel_inv (ss_engine S) db \<Longrightarrow> jsonb_law (eng_audit (ss_engine S)) \<Longrightarrow> kernel_inv (ss_engine S) db'"
proof -
  obtain r cid db1 db2 db3 where
    f: "find_move t mid db = Some r" "mr_reversal_of r = None" and ins: "insert_move (contra_row now actor r) db = Inr (cid, db1)"
    and rb: "roll_batch now t (mr_batch r) (- mr_qty r) db1 = Inr db2"
    and ser: "reverseMoveSerials now t mid cid (mr_qty r) (mr_wh r) db2 = Inr db3"
    and em: "emitMove S now eid (contra_move now actor cid r) ''inventory.move.reversed'' db3 = Inr db'" and out: "c = contra_move now actor cid r"
    using assms by (auto simp: reverse_tx_def rbind_eq_Inr split: option.split_asm if_split_asm)
  note i = ins[unfolded insert_move_ok]
  obtain bs where db2: "db2 = db1\<lparr>inv_batches := bs\<rparr>" using roll_batch_ok(2)[OF rb] by blast
  have s: "serials_only db2 db3" using ser unfolding reverseMoveSerials_def by (rule reverse_loop_only)
  note k = kernel_only_stock[OF emitMove_ok(1)[OF em]]
  have "kernel_inv (ss_engine S) db3 = kernel_inv (ss_engine S) db"
    using s i db2 by (intro kernel_inv_cong) (auto simp: serials_only_def)
  with emitMove_ok(2)[OF em] have inv: "kernel_inv (ss_engine S) db \<Longrightarrow> jsonb_law (eng_audit (ss_engine S)) \<Longrightarrow> kernel_inv (ss_engine S) db'"
    by simp
  show thesis
    by (rule that[of r db2 db3]) (use roll_batch_ok(1)[OF rb] f i db2 s k ser out inv in \<open>auto simp: serials_only_def\<close>)
qed

lemma reverse_appended:
  assumes "reverse_tx S now eid t mid actor db = Inr (c, db')" "stock_inv S db"
  obtains r where "find_move t mid db = Some r" "mr_reversal_of r = None" "r \<in> set (inv_moves db)" "mr_tenant r = t" "mr_id r = mid"
    "c = contra_move now actor (inv_seq db) r" "appended S now (contra_row now actor r) (- mr_qty r) db db'"
  using assms(1)
proof (rule reverse_tx_ok)
  fix r and db2 db3 :: "'a inventory_db_scheme"
  assume f: "find_move t mid db = Some r" "mr_reversal_of r = None" and c: "c = contra_move now actor (inv_seq db) r"
    and rest: "row_fits (contra_row now actor r)" "\<forall>x \<in> set (inv_moves db). \<not> same_reversal (contra_row now actor r) x"
    "inv_moves db' = inv_moves db @ [stored (inv_seq db) (contra_row now actor r)]" "inv_seq db' = inv_seq db + 1"
    "rolled now t (mr_batch r) (- mr_qty r) (inv_batches db) (inv_batches db')"
    "inv_items db' = inv_items db" "inv_warehouses db' = inv_warehouses db"
    "kernel_inv (ss_engine S) db \<Longrightarrow> jsonb_law (eng_audit (ss_engine S)) \<Longrightarrow> kernel_inv (ss_engine S) db'"
  have r: "r \<in> set (inv_moves db)" "mr_tenant r = t" "mr_id r = mid" using find_SomeD[OF f(1)[unfolded find_move_def]] by auto
  have "bt_item x = mr_item r" if b: "mr_batch r = Some b" "find_batch t b db = Some x" for b x
  proof -
    have x: "x \<in> set (inv_batches db)" "bt_key x = (t, b)" using find_SomeD[OF b(2)[unfolded find_batch_def]] by (auto simp: bt_key_def)
    obtain y where y: "y \<in> set (inv_batches db)" "bt_key y = (t, b)" "bt_item y = mr_item r"
      using assms(2) r b(1) by (fastforce simp: stock_inv_def row_ok_def bt_key_def)
    have "x = y" using assms(2) x y unfolding stock_inv_def distinct_map by (intro inj_onD[of bt_key "set (inv_batches db)"]) auto
    with y show ?thesis by simp
  qed
  with rest r have "appended S now (contra_row now actor r) (- mr_qty r) db db'" by (auto simp: appended_def same_source_def)
  with f c r that show thesis by blast
qed


section \<open>Lots and the ledger\<close>

definition lot_total :: "uuid \<Rightarrow> uuid \<Rightarrow> 'a inventory_db_scheme \<Rightarrow> decimal" where
  "lot_total t b db = sum_list (map mr_qty (filter (\<lambda>r. mr_tenant r = t \<and> mr_batch r = Some b) (inv_moves db)))"

definition lots_match :: "'a inventory_db_scheme \<Rightarrow> bool" where
  "lots_match db \<longleftrightarrow> (\<forall>b \<in> set (inv_batches db). bt_QtyOnHand b = lot_total (bt_tenant b) (bt_ID b) db)"

lemma lot_total_scaled: "stock_inv S db \<Longrightarrow> scaled 4 (lot_total t b db)"
  unfolding lot_total_def by (rule scaled_sum) (auto simp: stock_inv_def row_ok_def)

lemma appended_lots:
  assumes "appended S now r d db db'" "stock_inv S db" "lots_match db" "mr_qty r = d" "scaled 4 d"
  shows "lots_match db'"
  unfolding lots_match_def
proof
  fix x' assume "x' \<in> set (inv_batches db')"
  then obtain i where i: "i < length (inv_batches db')" "x' = inv_batches db' ! i" by (auto simp: in_set_conv_nth)
  have R: "rolled now (mr_tenant r) (mr_batch r) d (inv_batches db) (inv_batches db')" and D: "distinct (map bt_key (inv_batches db))"
    using assms by (auto simp: appended_def stock_inv_def)
  note rl = rolled_rows[OF R D]
  let ?x = "inv_batches db ! i"
  have len: "length (inv_batches db') = length (inv_batches db)" using arg_cong[OF rl(1), of length] by simp
  then have key: "bt_tenant x' = bt_tenant ?x" "bt_ID x' = bt_ID ?x"
    using i arg_cong[OF rl(1), of "\<lambda>l. l ! i"] by (simp_all add: bt_key_def)
  have q: "bt_QtyOnHand x' = (if mr_batch r = Some (bt_ID ?x) \<and> bt_tenant ?x = mr_tenant r then round_dec 6 (bt_QtyOnHand ?x + d) else bt_QtyOnHand ?x)"
    using i len arg_cong[OF rl(3), of "\<lambda>l. l ! i"] by simp
  have old: "bt_QtyOnHand ?x = lot_total (bt_tenant ?x) (bt_ID ?x) db" using assms(3) i len by (simp add: lots_match_def)
  have "scaled 4 (bt_QtyOnHand ?x + d)" unfolding old by (rule scaled_ops(1)[OF lot_total_scaled[OF assms(2)] assms(5)])
  then have "round_dec 6 (bt_QtyOnHand ?x + d) = bt_QtyOnHand ?x + d" by (intro round_scaled scaled_mono[of 4 _ 6]) simp_all
  moreover have "lot_total t b db' = lot_total t b db + (if mr_tenant r = t \<and> mr_batch r = Some b then d else 0)" for t b
    using assms(1,4) round_scaled[OF assms(5)] by (simp add: lot_total_def appended_def)
  ultimately have "lot_total (bt_tenant ?x) (bt_ID ?x) db' = bt_QtyOnHand x'" 
    unfolding q using old by (cases "mr_batch r = Some (bt_ID ?x) \<and> bt_tenant ?x = mr_tenant r") auto
  then show "bt_QtyOnHand x' = lot_total (bt_tenant x') (bt_ID x') db'" by (simp add: key)
qed



section \<open>Operations and runs\<close>

datatype inv_op =
    IOItem uuid item
  | IOWarehouse uuid warehouse
  | IOBatch gotime uuid batch
  | IOMove gotime uuid "nat \<Rightarrow> uuid" move
  | IOTransfer gotime uuid uuid "nat \<Rightarrow> uuid" transfer
  | IOReverse gotime uuid uuid int uuid

definition finished :: "('e + 'x) \<times> 's \<Rightarrow> ('e + unit) \<times> 's" where
  "finished p = (map_sum id (\<lambda>_. ()) (fst p), snd p)"

fun inv_step :: "stock_store \<Rightarrow> inv_op \<Rightarrow> 'a inventory_db_scheme \<Rightarrow> (inv_error + unit) \<times> 'a inventory_db_scheme" where
  "inv_step S (IOItem fr it) db = finished (UpsertItem fr it db)"
| "inv_step S (IOWarehouse fr w) db = finished (UpsertWarehouse fr w db)"
| "inv_step S (IOBatch now fr b) db = finished (CreateBatch S now fr b db)"
| "inv_step S (IOMove now eid fr m) db = finished (RecordMove S now eid fr m db)"
| "inv_step S (IOTransfer now e1 e2 fr t) db = finished (RecordTransfer S now e1 e2 fr t db)"
| "inv_step S (IOReverse now eid t mid u) db = finished (ReverseMove S now eid t mid u db)"

definition inv_run :: "stock_store \<Rightarrow> inv_op list \<Rightarrow> 'a inventory_db_scheme \<Rightarrow> 'a inventory_db_scheme" where
  "inv_run S ops db = fold (\<lambda>x db. snd (inv_step S x db)) ops db"

lemma finished_Inr: "finished p = (Inr u, db') \<longleftrightarrow> (\<exists>x. p = (Inr x, db'))"
  by (cases p; cases "fst p") (auto simp: finished_def)

lemma finished_Inl: "finished p = (Inl e, db') \<longleftrightarrow> p = (Inl e, db')"
  by (cases p; cases "fst p") (auto simp: finished_def)

text \<open>The transactions behind the operations.\<close>

lemma RecordMove_ok:
  "RecordMove S now eid fr m db = (Inr out, db') \<longleftrightarrow>
     validateRecordMoveInputs m = Inr () \<and> recordMoveInTx S now eid fr (move_time now m) db = Inr (out, db')"
  by (auto simp: RecordMove_def tx_commit validateRecordMoveInputs_def split: sum.split if_split_asm)

lemma RecordMove_error: "RecordMove S now eid fr m db = (Inl e, db') \<Longrightarrow> db' = db"
  by (auto simp: RecordMove_def dest: tx_error_rolls_back split: sum.split_asm)

lemma move_time_simps [simp]:
  "mv_tenant (move_time now m) = mv_tenant m" "mv_item (move_time now m) = mv_item m" "mv_wh (move_time now m) = mv_wh m"
  "mv_Qty (move_time now m) = mv_Qty m" "mv_BatchID (move_time now m) = mv_BatchID m" "mv_SerialNos (move_time now m) = mv_SerialNos m"
  "mv_SourceID (move_time now m) = mv_SourceID m" "mv_SourceKType (move_time now m) = mv_SourceKType m"
  "mv_UnitCost (move_time now m) = mv_UnitCost m"
  by (simp_all add: move_time_def)

lemma RecordTransfer_ok:
  assumes "RecordTransfer S now e1 e2 fr t db = (Inr ms, db')"
  obtains t' m1 m2 db1 where "t' = t\<lparr>tf_MovedAt := (if tf_MovedAt t = 0 then now else tf_MovedAt t)\<rparr>" "ms = [m1, m2]"
    "recordMoveInTx S now e1 fr (transfer_leg t' (tf_From t) (- tf_Qty t)) db = Inr (m1, db1)"
    "recordMoveInTx S now e2 fr (transfer_leg t' (tf_To t) (tf_Qty t)) db1 = Inr (m2, db')"
    "tf_tenant t \<noteq> 0" "tf_From t \<noteq> tf_To t" "tf_Qty t > 0"
  using assms by (auto simp: RecordTransfer_def tx_commit transfer_tx_def rbind_eq_Inr split: if_split_asm)

lemma RecordTransfer_error: "RecordTransfer S now e1 e2 fr t db = (Inl e, db') \<Longrightarrow> db' = db"
  by (auto simp: RecordTransfer_def dest: tx_error_rolls_back split: if_split_asm)

lemma ReverseMove_ok:
  "ReverseMove S now eid t mid u db = (Inr c, db') \<longleftrightarrow> t \<noteq> 0 \<and> 0 < mid \<and> reverse_tx S now eid t mid u db = Inr (c, db')"
  by (auto simp: ReverseMove_def tx_commit)

lemma ReverseMove_error: "ReverseMove S now eid t mid u db = (Inl e, db') \<Longrightarrow> db' = db"
  by (auto simp: ReverseMove_def dest: tx_error_rolls_back split: if_split_asm)

lemma leg_simps [simp]:
  "mv_tenant (transfer_leg t w q) = tf_tenant t" "mv_item (transfer_leg t w q) = tf_item t" "mv_wh (transfer_leg t w q) = w"
  "mv_Qty (transfer_leg t w q) = q" "mv_BatchID (transfer_leg t w q) = tf_BatchID t" "mv_SerialNos (transfer_leg t w q) = tf_SerialNos t"
  "mv_SourceID (transfer_leg t w q) = None"
  by (simp_all add: transfer_leg_def)

text \<open>Items and warehouses: the other tables stay.\<close>

lemma UpsertItem_ok:
  assumes "UpsertItem fr it db = (Inr out, db')"
  shows "\<exists>rows. db' = db\<lparr>inv_items := rows\<rparr>"
  using assms
  by (auto simp: UpsertItem_def tx_commit upsert_item_tx_def rbind_eq_Inr Let_def split: if_split_asm option.split_asm)

lemma UpsertWarehouse_ok:
  assumes "UpsertWarehouse fr w db = (Inr out, db')"
  shows "\<exists>rows. db' = db\<lparr>inv_warehouses := rows\<rparr>"
  using assms by (auto simp: UpsertWarehouse_def tx_commit upsert_warehouse_tx_def Let_def split: if_split_asm option.split_asm)

lemma CreateBatch_ok:
  assumes "CreateBatch S now fr b db = (Inr out, db')"
  obtains row where "db' = db\<lparr>inv_batches := inv_batches db @ [row]\<rparr>" "bt_key row \<notin> set (map bt_key (inv_batches db))"
    "0 \<le> bt_QtyOnHand row" "bt_QtyOnHand row = round_dec 6 (bt_QtyOnHand b)"
proof -
  have "\<exists>row. db' = db\<lparr>inv_batches := inv_batches db @ [row]\<rparr> \<and> find_batch (bt_tenant row) (bt_ID row) db = None
    \<and> 0 \<le> bt_QtyOnHand row \<and> bt_QtyOnHand row = round_dec 6 (bt_QtyOnHand b)"
    using assms by (auto simp: CreateBatch_def tx_commit create_batch_tx_def rbind_eq_Inr inv_numeric_ok not_less split: if_split_asm)
  then obtain row where row: "db' = db\<lparr>inv_batches := inv_batches db @ [row]\<rparr>" "find_batch (bt_tenant row) (bt_ID row) db = None"
    "0 \<le> bt_QtyOnHand row" "bt_QtyOnHand row = round_dec 6 (bt_QtyOnHand b)" by blast
  have "bt_key row \<notin> set (map bt_key (inv_batches db))" using row(2) by (auto simp: find_batch_def find_None_iff bt_key_def)
  with row that show thesis by blast
qed


lemma stock_inv_items [simp]:
  "stock_inv S (db\<lparr>inv_items := rows\<rparr>) = stock_inv S db" "stock_inv S (db\<lparr>inv_warehouses := ws\<rparr>) = stock_inv S db"
  by (auto simp: stock_inv_def row_ok_def kernel_inv_def outbox_inv_def audit_inv_def tenant_rows_def)

lemma CreateBatch_inv:
  assumes "CreateBatch S now fr b db = (Inr out, db')" "stock_inv S db"
  shows "stock_inv S db'"
  using assms(1)
proof (rule CreateBatch_ok)
  fix row assume row: "db' = db\<lparr>inv_batches := inv_batches db @ [row]\<rparr>" "bt_key row \<notin> set (map bt_key (inv_batches db))" "0 \<le> bt_QtyOnHand row"
  have "kernel_inv (ss_engine S) db' = kernel_inv (ss_engine S) db" by (rule kernel_inv_cong) (simp_all add: row(1))
  moreover have "row_ok db' r" if "row_ok db r" for r using that by (auto simp: row_ok_def row(1))
  ultimately show ?thesis using assms(2) row by (auto simp: stock_inv_def)
qed

text \<open>The effect of a successful operation on the ledger, for each kind.\<close>

lemma step_inv:
  assumes "jsonb_law (eng_audit (ss_engine S))" "stock_inv S db" "inv_step S x db = (Inr u, db')"
  shows "stock_inv S db'"
proof (cases x)
  case (IOTransfer now e1 e2 fr t)
  then obtain ms where "RecordTransfer S now e1 e2 fr t db = (Inr ms, db')" using assms(3) by (auto simp: finished_Inr)
  then show ?thesis
    by (rule RecordTransfer_ok) (meson appended_inv assms(1,2) record_appended)
next
  case (IOReverse now eid t mid u)
  then obtain c where "reverse_tx S now eid t mid u db = Inr (c, db')" using assms(3) by (auto simp: finished_Inr ReverseMove_ok)
  from reverse_appended[OF this assms(2)] show ?thesis using appended_inv[OF _ assms(2,1)] by metis
next
  case (IOMove now eid fr m)
  then show ?thesis using assms appended_inv record_appended by (fastforce simp: finished_Inr RecordMove_ok)
next
  case (IOItem fr it)
  then show ?thesis using assms(2,3) by (auto simp: finished_Inr dest!: UpsertItem_ok)
next
  case (IOWarehouse fr w)
  then show ?thesis using assms(2,3) by (auto simp: finished_Inr dest!: UpsertWarehouse_ok)
next
  case (IOBatch now fr b)
  then show ?thesis using assms(2,3) CreateBatch_inv by (auto simp: finished_Inr)
qed

lemma step_error: "inv_step S x db = (Inl e, db') \<Longrightarrow> db' = db"
  by (cases x) (auto simp: finished_Inl UpsertItem_def UpsertWarehouse_def CreateBatch_def
      dest: RecordMove_error RecordTransfer_error ReverseMove_error tx_error_rolls_back split: if_split_asm)


interpretation stock: atomic_component "\<lambda>db. jsonb_law (eng_audit (ss_engine S)) \<longrightarrow> stock_inv S db" "inv_step S" for S :: stock_store
  by unfold_locales (auto intro: step_inv dest: step_error)

lemma inv_run_exec: "inv_run S ops db = fold (stock.exec S) ops db"
  unfolding inv_run_def stock.exec_def ..

lemma inv_run_inv: "jsonb_law (eng_audit (ss_engine S)) \<Longrightarrow> stock_inv S db \<Longrightarrow> stock_inv S (inv_run S ops db)"
  using stock.run_keeps[of S db ops] by (simp add: inv_run_exec)

lemma inv_run_Cons: "inv_run S (x # ops) db = inv_run S ops (snd (inv_step S x db))"
  by (simp add: inv_run_def)

lemma run_induct:
  assumes "P db" "\<And>x db u db'. x \<in> set ops \<Longrightarrow> P db \<Longrightarrow> inv_step S x db = (Inr u, db') \<Longrightarrow> P db'"
  shows "P (inv_run S ops db)"
  using assms
proof (induction ops arbitrary: db)
  case (Cons x ops)
  obtain r db' where r: "inv_step S x db = (r, db')" by fastforce
  have "P db'" using Cons.prems r step_error[of S x db] by (cases r) fastforce+
  then have "P (inv_run S ops db')" by (rule Cons.IH) (meson Cons.prems(2) list.set_intros(2))
  then show ?case using r by (simp add: inv_run_Cons)
qed (simp add: inv_run_def)

text \<open>The ledger is append-only.\<close>

lemma appended_prefix: "appended S now r d db db' \<Longrightarrow> prefix (inv_moves db) (inv_moves db')"
  by (simp add: appended_def)

lemma step_prefix:
  assumes "stock_inv S db" "jsonb_law (eng_audit (ss_engine S))" "inv_step S x db = (Inr u, db')"
  shows "prefix (inv_moves db) (inv_moves db')"
proof (cases x)
  case (IOTransfer now e1 e2 fr t)
  then obtain ms where "RecordTransfer S now e1 e2 fr t db = (Inr ms, db')" using assms(3) by (auto simp: finished_Inr)
  then show ?thesis by (rule RecordTransfer_ok) (meson appended_prefix prefix_order.trans record_appended)
next
  case (IOReverse now eid t mid u)
  then obtain c where "reverse_tx S now eid t mid u db = Inr (c, db')" using assms(3) by (auto simp: finished_Inr ReverseMove_ok)
  from reverse_appended[OF this assms(1)] show ?thesis using appended_prefix by metis
next
  case (IOMove now eid fr m)
  then show ?thesis using assms(3) appended_prefix record_appended by (fastforce simp: finished_Inr RecordMove_ok)
next
  case (IOBatch now fr b)
  then show ?thesis using assms(3) by (auto simp: finished_Inr elim!: CreateBatch_ok)
qed (use assms(3) in \<open>auto simp: finished_Inr dest!: UpsertItem_ok UpsertWarehouse_ok\<close>)

lemma run_prefix:
  assumes "stock_inv S db" "jsonb_law (eng_audit (ss_engine S))"
  shows "prefix (inv_moves db) (inv_moves (inv_run S ops db)) \<and> stock_inv S (inv_run S ops db)"
  by (rule run_induct[where P = "\<lambda>d. prefix (inv_moves db) (inv_moves d) \<and> stock_inv S d"])
    (use assms step_prefix step_inv prefix_order.trans in \<open>blast+\<close>)

lemma find_move_prefix:
  "find_move t mid db = Some r \<Longrightarrow> prefix (inv_moves db) (inv_moves db') \<Longrightarrow> find_move t mid db' = Some r"
  by (auto simp: find_move_def find_append prefix_def)


section \<open>Effects on stock\<close>

lemma appended_level:
  "appended S now r d db db' \<Longrightarrow> stock_level t i w db' =
     stock_level t i w db + (if mr_tenant r = t \<and> mr_item r = i \<and> mr_wh r = w then round_dec 4 (mr_qty r) else 0)"
  by (auto simp: appended_def stock_level_def)

lemma reverse_again:
  assumes "stock_inv S db" "find_move t mid db = Some r" "mr_reversal_of r = None" "t \<noteq> 0" "0 < mid"
    and "x \<in> set (inv_moves db)" "mr_tenant x = t" "mr_reversal_of x = Some mid"
  shows "ReverseMove S now eid t mid u db = (Inl ErrAlreadyReversed, db)"
proof -
  have r: "r \<in> set (inv_moves db)" "mr_tenant r = t" "mr_id r = mid" using find_SomeD[OF assms(2)[unfolded find_move_def]] by auto
  then have "row_fits (contra_row now u r)"
    using assms(1) by (auto simp: stock_inv_def row_ok_def row_fits_def fits_def round_dec_minus)
  moreover have "same_reversal (contra_row now u r) x" using assms(7,8) r by (simp add: same_reversal_def)
  ultimately have "insert_move (contra_row now u r) db = Inl ErrAlreadyReversed"
    using assms(6) by (auto simp: insert_move_eq list_ex_iff same_source_def)
  then show ?thesis using assms(2-5) by (simp add: ReverseMove_def WithTenantTx_def reverse_tx_def)
qed

lemma find_move_at:
  assumes "stock_inv S db" "r \<in> set (inv_moves db)"
  shows "find_move (mr_tenant r) (mr_id r) db = Some r"
proof -
  have "distinct (map (\<lambda>r. (mr_tenant r, mr_id r)) (inv_moves db))"
    using assms(1) by (auto simp: stock_inv_def distinct_map inj_on_def)
  from find_key_unique[OF this assms(2)] show ?thesis by (simp add: find_move_def)
qed



section \<open>Serials in stock\<close>

definition in_stock :: "uuid \<Rightarrow> uuid \<Rightarrow> uuid \<Rightarrow> serial \<Rightarrow> bool" where
  "in_stock t i w s \<longleftrightarrow> sr_tenant s = t \<and> sr_item s = i \<and> sr_Status s = SerialStatusInStock \<and> sr_wh s = Some w"

definition serial_count :: "uuid \<Rightarrow> uuid \<Rightarrow> uuid \<Rightarrow> 'a inventory_db_scheme \<Rightarrow> int" where
  "serial_count t i w db = int (length (filter (in_stock t i w) (inv_serials db)))"

definition sr_key :: "serial \<Rightarrow> uuid \<times> uuid" where "sr_key s = (sr_tenant s, sr_ID s)"

definition sr_no :: "serial \<Rightarrow> uuid \<times> uuid \<times> string" where "sr_no s = (sr_tenant s, sr_item s, sr_SerialNo s)"

definition serial_keys :: "'a inventory_db_scheme \<Rightarrow> bool" where
  "serial_keys db \<longleftrightarrow> distinct (map sr_key (inv_serials db)) \<and> distinct (map sr_no (inv_serials db))"

lemma count_update_at:
  assumes "distinct (map key rows)" "row \<in> set rows"
  shows "int (length (filter p (update_rows (\<lambda>x. key x = key row) f rows)))
    = int (length (filter p rows)) + of_bool (p (f row)) - of_bool (p row)"
  using assms
proof (induction rows)
  case (Cons x xs)
  have other: "update_rows (\<lambda>y. key y = key row) f xs = xs" if "key row \<notin> key ` set xs"
    using that unfolding update_rows_def by (intro map_idI) (metis image_eqI)
  show ?case
  proof (cases "x = row")
    case True
    with Cons.prems other show ?thesis by (auto simp: update_rows_def)
  next
    case False
    with Cons.prems have "row \<in> set xs" "key x \<noteq> key row" by (auto simp: rev_image_eqI)
    with Cons show ?thesis by (auto simp: update_rows_def)
  qed
qed simp

lemma put_serial_count:
  assumes "serial_keys db" "s \<in> set (inv_serials db)" "\<And>x. sr_key (f x) = sr_key x" "\<And>x. sr_no (f x) = sr_no x"
  shows "serial_count t i w (put_serial (sr_tenant s) (sr_ID s) f db)
      = serial_count t i w db + of_bool (in_stock t i w (f s)) - of_bool (in_stock t i w s)"
    and "serial_keys (put_serial (sr_tenant s) (sr_ID s) f db)"
proof -
  have eq: "inv_serials (put_serial (sr_tenant s) (sr_ID s) f db) = update_rows (\<lambda>x. sr_key x = sr_key s) f (inv_serials db)"
    by (simp add: put_serial_def sr_key_def)
  show "serial_count t i w (put_serial (sr_tenant s) (sr_ID s) f db)
      = serial_count t i w db + of_bool (in_stock t i w (f s)) - of_bool (in_stock t i w s)"
    unfolding serial_count_def eq by (rule count_update_at) (use assms(1,2) in \<open>simp_all add: serial_keys_def\<close>)
  show "serial_keys (put_serial (sr_tenant s) (sr_ID s) f db)"
    using assms(1) unfolding serial_keys_def eq
    by (simp add: map_update_rows[of _ _ sr_key] map_update_rows[of _ _ sr_no] assms(3,4))
qed

lemma link_serial_count [simp]:
  "serial_count t i w (link_serial t' mid sid db) = serial_count t i w db" "serial_keys (link_serial t' mid sid db) = serial_keys db"
  by (simp_all add: serial_count_def serial_keys_def link_serial_def)

lemma find_serialD:
  "find_serial t i sn db = Some s \<Longrightarrow> s \<in> set (inv_serials db) \<and> sr_tenant s = t \<and> sr_item s = i \<and> sr_SerialNo s = sn"
  using find_SomeD by (fastforce simp: find_serial_def)

lemma restock_count:
  assumes "restockSerial now fr m sn db = Inr (sid, db')" "serial_keys db"
  shows "serial_count t i w db' = serial_count t i w db + of_bool (t = mv_tenant m \<and> i = mv_item m \<and> w = mv_wh m)" "serial_keys db'"
proof -
  have "serial_count t i w db' = serial_count t i w db + of_bool (t = mv_tenant m \<and> i = mv_item m \<and> w = mv_wh m) \<and> serial_keys db'"
  proof (cases "find_serial (mv_tenant m) (mv_item m) sn db")
    case None
    then have "(mv_tenant m, mv_item m, sn) \<notin> set (map sr_no (inv_serials db))"
      by (auto simp: find_serial_def find_None_iff sr_no_def)
    with None assms show ?thesis
      by (auto simp: restockSerial_def serial_count_def serial_keys_def sr_key_def[abs_def] sr_no_def in_stock_def split: if_split_asm)
  next
    case (Some s)
    note s = find_serialD[OF Some]
    let ?f = "\<lambda>s. s\<lparr>sr_Status := SerialStatusInStock, sr_wh := Some (mv_wh m),
        sr_batch := (case mv_BatchID m of None \<Rightarrow> sr_batch s | Some b \<Rightarrow> Some b), sr_UpdatedAt := pg_time now\<rparr>"
    have "sr_Status s \<noteq> SerialStatusInStock" "db' = put_serial (sr_tenant s) (sr_ID s) ?f db"
      using assms(1) Some s by (auto simp: restockSerial_def split: if_split_asm)
    with put_serial_count[OF assms(2), of s ?f] s show ?thesis by (auto simp: sr_key_def sr_no_def in_stock_def)
  qed
  then show "serial_count t i w db' = serial_count t i w db + of_bool (t = mv_tenant m \<and> i = mv_item m \<and> w = mv_wh m)" "serial_keys db'"
    by simp_all
qed

lemma issue_count:
  assumes "issueSerial now m sn st db = Inr (sid, db')" "serial_keys db" "st \<noteq> SerialStatusInStock"
  shows "serial_count t i w db' = serial_count t i w db - of_bool (t = mv_tenant m \<and> i = mv_item m \<and> w = mv_wh m)" "serial_keys db'"
proof -
  obtain s where f: "find_serial (mv_tenant m) (mv_item m) sn db = Some s" and st: "sr_Status s = SerialStatusInStock" "sr_wh s = Some (mv_wh m)"
    and db': "db' = put_serial (mv_tenant m) (sr_ID s) (\<lambda>s. s\<lparr>sr_Status := st, sr_wh := None, sr_UpdatedAt := pg_time now\<rparr>) db"
    using assms(1) by (auto simp: issueSerial_def split: option.split_asm if_split_asm)
  note s = find_serialD[OF f]
  show "serial_count t i w db' = serial_count t i w db - of_bool (t = mv_tenant m \<and> i = mv_item m \<and> w = mv_wh m)" "serial_keys db'"
    using put_serial_count[OF assms(2), of s "\<lambda>s. s\<lparr>sr_Status := st, sr_wh := None, sr_UpdatedAt := pg_time now\<rparr>"] s st assms(3)
    unfolding db' by (auto simp: sr_key_def sr_no_def in_stock_def)
qed

lemma serials_loop_count:
  assumes "\<not> mv_Qty m > 0 \<Longrightarrow> st \<noteq> SerialStatusInStock"
  shows "serials_loop now fr m mid st n sns db = Inr db' \<Longrightarrow> serial_keys db \<Longrightarrow>
    serial_keys db' \<and> serial_count t i w db' = serial_count t i w db
      + of_bool (t = mv_tenant m \<and> i = mv_item m \<and> w = mv_wh m) * (if mv_Qty m > 0 then int (length sns) else - int (length sns))"
proof (induction sns arbitrary: n db)
  case (Cons sn sns)
  obtain sid db1 where one: "(if mv_Qty m > 0 then restockSerial now (fr n) m sn db else issueSerial now m sn st db) = Inr (sid, db1)"
    and rest: "serials_loop now fr m mid st (Suc n) sns (link_serial (mv_tenant m) mid sid db1) = Inr db'"
    using Cons.prems(1) by (auto simp: rbind_eq_Inr)
  have "serial_keys db1 \<and> serial_count t i w db1 = serial_count t i w db
      + of_bool (t = mv_tenant m \<and> i = mv_item m \<and> w = mv_wh m) * (if mv_Qty m > 0 then 1 else - 1)"
  proof (cases "mv_Qty m > 0")
    case True
    then show ?thesis using one restock_count[OF _ Cons.prems(2), of now "fr n" m sn sid db1] by simp
  next
    case False
    then show ?thesis using one issue_count[OF _ Cons.prems(2) assms, of now m sn sid db1] by simp
  qed
  with Cons.IH[OF rest] show ?case by (auto simp: algebra_simps)
qed simp


definition tracked :: "uuid \<Rightarrow> uuid \<Rightarrow> 'a inventory_db_scheme \<Rightarrow> bool" where
  "tracked t i db \<longleftrightarrow> (\<exists>it. find_item t i db = Some it \<and> it_SerialTracked it)"

definition serials_match :: "uuid \<Rightarrow> uuid \<Rightarrow> 'a inventory_db_scheme \<Rightarrow> bool" where
  "serials_match t i db \<longleftrightarrow> serial_keys db \<and> tracked t i db \<and> (\<forall>w. of_int (serial_count t i w db) = stock_level t i w db)"

lemma serial_tables_cong:
  "inv_serials a = inv_serials b \<Longrightarrow> serial_keys a = serial_keys b"
  "inv_serials a = inv_serials b \<Longrightarrow> serial_count t i w a = serial_count t i w b"
  by (simp_all add: serial_keys_def serial_count_def)

lemma scaled_of_int: "scaled s (of_int n)"
  by (simp add: scaled_def)

lemma record_serials_match:
  fixes db db' :: "'a inventory_db_scheme"
  assumes "recordMoveInTx S now eid fr m db = Inr (out, db')" "serials_match t i db"
  shows "serials_match t i db'"
  using assms(1)
proof (rule recordMoveInTx_ok)
  fix db2 db3 :: "'a inventory_db_scheme"
  let ?here = "t = mv_tenant m \<and> i = mv_item m" and ?n = "int (length (mv_SerialNos m))"
  assume v: "validateMoveTracking m (fst (itemTracking (mv_tenant m) (mv_item m) db)) (snd (itemTracking (mv_tenant m) (mv_item m) db)) = Inr ()"
    and d2: "inv_serials db2 = inv_serials db" and d3: "inv_serials db' = inv_serials db3" and items: "inv_items db' = inv_items db"
    and ser: "if mv_SerialNos m = [] then db3 = db2 else applyMoveSerials now fr m (inv_seq db) db2 = Inr db3"
  have keys: "serial_keys db2" using assms(2) serial_tables_cong(1)[OF d2] by (simp add: serials_match_def)
  have cnt: "serial_keys db3 \<and> (\<forall>w. serial_count t i w db3 = serial_count t i w db2
      + of_bool (?here \<and> w = mv_wh m) * (if mv_Qty m > 0 then ?n else - ?n))"
  proof (cases "mv_SerialNos m = []")
    case False
    with ser have "applyMoveSerials now fr m (inv_seq db) db2 = Inr db3" by simp
    then show ?thesis
    proof (rule applyMoveSerials_ok)
      fix st assume "serials_loop now fr m (inv_seq db) st 0 (mv_SerialNos m) db2 = Inr db3"
        "\<not> mv_Qty m > 0 \<Longrightarrow> st \<in> {SerialStatusConsumed, SerialStatusDelivered}"
      with serials_loop_count[OF _ _ keys, of m st now fr "inv_seq db" 0 "mv_SerialNos m" db3 t i] show ?thesis
        by (auto simp: SerialStatusInStock_def SerialStatusConsumed_def SerialStatusDelivered_def)
    qed
  qed (use ser keys in simp)
  have q: "mv_Qty m = of_int (if mv_Qty m > 0 then ?n else - ?n)" if ?here
  proof -
    have "snd (itemTracking (mv_tenant m) (mv_item m) db)" using assms(2) that by (auto simp: serials_match_def tracked_def itemTracking_def)
    then have "\<bar>mv_Qty m\<bar> = of_nat (length (mv_SerialNos m))" using v by (auto simp: validateMoveTracking_def split: if_split_asm)
    then show ?thesis by (auto simp: abs_if split: if_split_asm)
  qed
  have lvl: "stock_level t i w db' = stock_level t i w db + (if ?here \<and> w = mv_wh m then mv_Qty m else 0)" for w
    using appended_level[OF record_appended[OF assms(1)], of t i w] q round_scaled[OF scaled_of_int[of 4 "if mv_Qty m > 0 then ?n else - ?n"]]
    by (cases ?here) auto
  have eqc: "serial_count t i w db' = serial_count t i w db + of_bool (?here \<and> w = mv_wh m) * (if mv_Qty m > 0 then ?n else - ?n)" for w
    using cnt serial_tables_cong(2)[OF d2] serial_tables_cong(2)[OF d3] by simp
  have "of_int (serial_count t i w db') = stock_level t i w db'" for w
  proof (cases "?here \<and> w = mv_wh m")
    case True
    then show ?thesis unfolding lvl eqc using assms(2) q by (simp add: serials_match_def)
  next
    case False
    then show ?thesis unfolding lvl eqc using assms(2) by (auto simp: serials_match_def)
  qed
  moreover have "serial_keys db'" using cnt serial_tables_cong(1)[OF d3] by simp
  moreover have "tracked t i db'" using assms(2) items by (simp add: serials_match_def tracked_def find_item_def)
  ultimately show ?thesis by (simp add: serials_match_def)
qed

text \<open>Operations that go forward: no reversal, and no change of the items.\<close>

fun forward_op :: "inv_op \<Rightarrow> bool" where
  "forward_op (IOReverse _ _ _ _ _) = False"
| "forward_op (IOItem _ _) = False"
| "forward_op _ = True"

lemma serials_match_tables [simp]:
  "serials_match t i (db\<lparr>inv_batches := bs\<rparr>) = serials_match t i db" "serials_match t i (db\<lparr>inv_warehouses := ws\<rparr>) = serials_match t i db"
  by (simp_all add: serials_match_def serial_keys_def serial_count_def stock_level_def tracked_def find_item_def)

lemma forward_serials:
  assumes "forward_op x" "serials_match t i db" "inv_step S x db = (Inr u, db')"
  shows "serials_match t i db'"
proof (cases x)
  case (IOTransfer now e1 e2 fr tr)
  then obtain ms where "RecordTransfer S now e1 e2 fr tr db = (Inr ms, db')" using assms(3) by (auto simp: finished_Inr)
  then show ?thesis by (rule RecordTransfer_ok) (meson assms(2) record_serials_match)
next
  case (IOMove now eid fr m)
  then show ?thesis using assms(2,3) record_serials_match by (fastforce simp: finished_Inr RecordMove_ok)
next
  case (IOWarehouse fr w)
  then show ?thesis using assms(2,3) by (auto simp: finished_Inr dest!: UpsertWarehouse_ok)
next
  case (IOBatch now fr b)
  then show ?thesis using assms(2,3) by (auto simp: finished_Inr elim!: CreateBatch_ok)
qed (use assms(1) in auto)

text \<open>Quantities that the columns hold exactly, and lots that start empty.\<close>

fun exact_stock_op :: "inv_op \<Rightarrow> bool" where
  "exact_stock_op (IOBatch now fr b) \<longleftrightarrow> bt_QtyOnHand b = 0"
| "exact_stock_op (IOMove now eid fr m) \<longleftrightarrow> scaled 4 (mv_Qty m)"
| "exact_stock_op (IOTransfer now e1 e2 fr t) \<longleftrightarrow> scaled 4 (tf_Qty t)"
| "exact_stock_op _ \<longleftrightarrow> True"

lemma record_lots:
  assumes "recordMoveInTx S now eid fr m db = Inr (out, db')" "stock_inv S db" "lots_match db" "scaled 4 (mv_Qty m)"
  shows "lots_match db'"
  by (rule appended_lots[OF record_appended[OF assms(1)] assms(2,3)]) (use assms(4) in simp_all)

lemma CreateBatch_lots:
  assumes "CreateBatch S now fr b db = (Inr out, db')" "stock_inv S db" "lots_match db" "bt_QtyOnHand b = 0"
  shows "lots_match db'"
  using assms(1)
proof (rule CreateBatch_ok)
  fix row assume row: "db' = db\<lparr>inv_batches := inv_batches db @ [row]\<rparr>" "bt_key row \<notin> set (map bt_key (inv_batches db))"
    "bt_QtyOnHand row = round_dec 6 (bt_QtyOnHand b)"
  have "filter (\<lambda>r. mr_tenant r = bt_tenant row \<and> mr_batch r = Some (bt_ID row)) (inv_moves db) = []"
  proof (rule filter_False, rule ballI)
    fix r assume "r \<in> set (inv_moves db)"
    with assms(2) have "row_ok db r" by (simp add: stock_inv_def)
    then have "\<exists>x \<in> set (inv_batches db). bt_key x = bt_key row" if "mr_tenant r = bt_tenant row \<and> mr_batch r = Some (bt_ID row)"
      using that by (auto simp: row_ok_def bt_key_def)
    then show "\<not> (mr_tenant r = bt_tenant row \<and> mr_batch r = Some (bt_ID row))" using row(2) unfolding set_map by (metis image_eqI)
  qed
  then have "lot_total (bt_tenant row) (bt_ID row) db = 0" by (simp add: lot_total_def)
  moreover have "lot_total t' b' db' = lot_total t' b' db" for t' b' by (simp add: lot_total_def row(1))
  ultimately show ?thesis using assms(3,4) row(1,3) by (auto simp: lots_match_def)
qed

lemma exact_lots:
  assumes "exact_stock_op x" "jsonb_law (eng_audit (ss_engine S))" "stock_inv S db" "lots_match db" "inv_step S x db = (Inr u, db')"
  shows "lots_match db'"
proof (cases x)
  case (IOTransfer now e1 e2 fr t)
  then obtain ms where "RecordTransfer S now e1 e2 fr t db = (Inr ms, db')" using assms(5) by (auto simp: finished_Inr)
  then show ?thesis
  proof (rule RecordTransfer_ok)
    fix t' m1 m2 db1
    assume l: "recordMoveInTx S now e1 fr (transfer_leg t' (tf_From t) (- tf_Qty t)) db = Inr (m1, db1)"
      "recordMoveInTx S now e2 fr (transfer_leg t' (tf_To t) (tf_Qty t)) db1 = Inr (m2, db')"
    have "lots_match db1" by (rule record_lots[OF l(1) assms(3,4)]) (use assms(1) IOTransfer scaled_ops(2) in simp)
    then show ?thesis using record_lots[OF l(2)] appended_inv[OF record_appended[OF l(1)] assms(3,2)] assms(1) IOTransfer by simp
  qed
next
  case (IOReverse now eid t mid u)
  then obtain c where "reverse_tx S now eid t mid u db = Inr (c, db')" using assms(5) by (auto simp: finished_Inr ReverseMove_ok)
  from this assms(3) show ?thesis
  proof (rule reverse_appended)
    fix r assume r: "r \<in> set (inv_moves db)" "appended S now (contra_row now u r) (- mr_qty r) db db'"
    have "scaled 4 (- mr_qty r)" using r(1) assms(3) scaled_ops(2) by (auto simp: stock_inv_def row_ok_def)
    with appended_lots[OF r(2) assms(3,4)] show ?thesis by simp
  qed
next
  case (IOMove now eid fr m)
  then show ?thesis using assms record_lots[of S now eid fr "move_time now m" db] by (auto simp: finished_Inr RecordMove_ok)
next
  case (IOBatch now fr b)
  then show ?thesis using assms CreateBatch_lots by (auto simp: finished_Inr)
qed (use assms(4,5) in \<open>auto simp: finished_Inr lots_match_def lot_total_def dest!: UpsertItem_ok UpsertWarehouse_ok\<close>)

end
