(* ===== verification/Inventory_Properties.thy ===== *)
theory Inventory_Properties
  imports Inventory_Correct
begin

text \<open>
  The properties of the stock ledger: lots agree with the ledger and are never oversold, serial numbers agree
  with stock, transfers conserve it, a move is reversed at most once, a posted document moves its stock once.
\<close>

section \<open>The posting hook\<close>

text \<open>The moves of a source document.\<close>

definition source_moves :: "uuid \<Rightarrow> string \<Rightarrow> uuid \<Rightarrow> 'a inventory_db_scheme \<Rightarrow> move_row list" where
  "source_moves t kt src db =
     filter (\<lambda>r. mr_tenant r = t \<and> mr_source_ktype r = Some kt \<and> mr_source_id r = Some src) (inv_moves db)"

lemma hook_row:
  fixes now S t u src a
  assumes "kt \<noteq> []"
  defines "r \<equiv> move_to_row (move_time now (hook_move S t u kt src a))"
  shows "mr_source_ktype r = Some kt" "mr_source_id r = Some src" "mr_tenant r = t" "mr_item r = ag_item a" "mr_wh r = ag_wh a"
    "mr_qty r = ag_qty a"
  using assms(1) unfolding r_def by (simp_all add: hook_move_def nullIfEmpty_def)

lemma emitMove_error: "emitMove S now eid m ty db = Inl e \<Longrightarrow> \<exists>k. e = InvKernel k"
  by (auto simp: emitMove_def map_sum_def split: sum.split_asm)

definition row_pair :: "move_row \<Rightarrow> uuid \<times> uuid" where
  "row_pair r = (mr_item r, mr_wh r)"

lemma same_source_pair:
  assumes "kt \<noteq> []" "mr_tenant x = t" "mr_source_ktype x = Some kt" "mr_source_id x = Some src"
  shows "same_source (move_to_row (move_time now (hook_move S t u kt src a))) x \<longleftrightarrow> row_pair x = ag_key a"
  using assms hook_row[OF assms(1), where now = now and S = S and t = t and u = u and src = src and a = a]
  by (auto simp: same_source_def row_pair_def ag_key_def)

text \<open>One attempt for one pair: the move is there afterwards, recorded now or before.\<close>

lemma hook_step_ok:
  assumes "RecordMove S now eid fr (hook_move S t u kt src a) db = (Inr out, db')" "kt \<noteq> []"
  shows "\<exists>r. source_moves t kt src db' = source_moves t kt src db @ [r] \<and> row_pair r = ag_key a \<and> mr_qty r = round_dec 4 (ag_qty a)
    \<and> ag_key a \<notin> row_pair ` set (source_moves t kt src db)"
proof -
  let ?r = "move_to_row (move_time now (hook_move S t u kt src a))"
  have ap: "appended S now ?r (ag_qty a) db db'"
    using assms(1) record_appended[of S now eid fr "move_time now (hook_move S t u kt src a)" db out db']
    by (simp add: RecordMove_ok hook_move_def)
  note h = hook_row[OF assms(2), where now = now and S = S and t = t and u = u and src = src and a = a]
  have "ag_key a \<noteq> row_pair x" if "x \<in> set (source_moves t kt src db)" for x
    using that ap same_source_pair[OF assms(2), of x t src now S u a] by (auto simp: source_moves_def appended_def)
  then show ?thesis using ap h by (auto simp: source_moves_def appended_def row_pair_def ag_key_def)
qed

lemma hook_step_dup:
  assumes "RecordMove S now eid fr (hook_move S t u kt src a) db = (Inl ErrDuplicateSourceMove, db')" "kt \<noteq> []"
  shows "ag_key a \<in> row_pair ` set (source_moves t kt src db)"
proof -
  let ?m = "move_time now (hook_move S t u kt src a)"
  have "recordMoveInTx S now eid fr ?m db = Inl ErrDuplicateSourceMove"
    using assms(1) by (auto simp: RecordMove_def validateRecordMoveInputs_def WithTenantTx_def split: sum.split_asm if_split_asm prod.split_asm)
  moreover have "mv_BatchID ?m = None" "mv_SerialNos ?m = []" by (simp_all add: hook_move_def)
  ultimately have "insert_move (move_to_row ?m) db = Inl ErrDuplicateSourceMove"
    by (auto simp: recordMoveInTx_def rbind_eq_Inl validateMoveTracking_def check_batch_def roll_batch_def
        dest!: emitMove_error split: if_split_asm prod.split_asm)
  then obtain x where x: "x \<in> set (inv_moves db)" "same_source (move_to_row ?m) x"
    by (auto simp: insert_move_eq list_ex_iff split: if_split_asm)
  then have "mr_tenant x = t" "mr_source_ktype x = Some kt" "mr_source_id x = Some src"
    using hook_row[OF assms(2), where now = now and S = S and t = t and u = u and src = src and a = a] by (auto simp: same_source_def)
  with x same_source_pair[OF assms(2), of x t src now S u a] show ?thesis
    by (intro image_eqI[of _ _ x]) (auto simp: source_moves_def)
qed


definition moves_of :: "uuid \<Rightarrow> string \<Rightarrow> uuid \<Rightarrow> aggregatedLine list \<Rightarrow> 'a inventory_db_scheme \<Rightarrow> bool" where
  "moves_of t kt src agg db \<longleftrightarrow>
     distinct (map row_pair (source_moves t kt src db))
     \<and> (\<forall>r \<in> set (source_moves t kt src db). \<exists>a \<in> set agg. ag_qty a \<noteq> 0 \<and> row_pair r = ag_key a \<and> mr_qty r = round_dec 4 (ag_qty a))"

lemma post_lines_moves:
  assumes "kt \<noteq> []"
  shows "post_lines S ck t u kt src n as db = (res, db') \<Longrightarrow> set as \<subseteq> set agg \<Longrightarrow> moves_of t kt src agg db \<Longrightarrow>
    moves_of t kt src agg db' \<and> set (source_moves t kt src db) \<subseteq> set (source_moves t kt src db')
    \<and> (res = Inr () \<longrightarrow> (\<forall>a \<in> set as. ag_qty a \<noteq> 0 \<longrightarrow> ag_key a \<in> row_pair ` set (source_moves t kt src db')))"
proof (induction as arbitrary: n db)
  case (Cons a as)
  show ?case
  proof (cases "ag_qty a = 0")
    case True
    with Cons show ?thesis by auto
  next
    case False
    obtain r1 db1 where r1: "RecordMove S (fst (ck n)) (snd (ck n)) (\<lambda>_. 0) (hook_move S t u kt src a) db = (r1, db1)" by fastforce
    show ?thesis
    proof (cases r1)
      case (Inl e)
      have db1: "db1 = db" using r1 Inl RecordMove_error by blast
      show ?thesis
      proof (cases "e = ErrDuplicateSourceMove")
        case True
        then have "post_lines S ck t u kt src (Suc n) as db = (res, db')" using Cons.prems(1) False r1 Inl db1 by simp
        from Cons.IH[OF this] hook_step_dup[OF _ assms, of S "fst (ck n)" "snd (ck n)" "\<lambda>_. 0" t u src a db db1] Cons.prems(2,3) r1 Inl True
        show ?thesis by (auto simp: subset_iff image_iff)
      next
        case False
        then show ?thesis using Cons.prems \<open>ag_qty a \<noteq> 0\<close> r1 Inl db1 by auto
      qed
    next
      case (Inr out)
      then have rest: "post_lines S ck t u kt src (Suc n) as db1 = (res, db')" using Cons.prems(1) False r1 by simp
      obtain r where r: "source_moves t kt src db1 = source_moves t kt src db @ [r]" "row_pair r = ag_key a" "mr_qty r = round_dec 4 (ag_qty a)"
        "ag_key a \<notin> row_pair ` set (source_moves t kt src db)"
        using hook_step_ok[OF r1[unfolded Inr] assms] by blast
      have "moves_of t kt src agg db1" using Cons.prems(2,3) r False by (auto simp: moves_of_def)
      from Cons.IH[OF rest _ this] Cons.prems(2) r(1) have ih: "moves_of t kt src agg db'" "r \<in> set (source_moves t kt src db')"
        "set (source_moves t kt src db) \<subseteq> set (source_moves t kt src db')"
        "res = Inr () \<longrightarrow> (\<forall>a \<in> set as. ag_qty a \<noteq> 0 \<longrightarrow> ag_key a \<in> row_pair ` set (source_moves t kt src db'))" by auto
      have "ag_key a \<in> row_pair ` set (source_moves t kt src db')" unfolding r(2)[symmetric] using ih(2) by (rule imageI)
      with ih show ?thesis by auto
    qed
  qed
qed simp

lemma aggregate_distinct: "aggregate L neg ls agg0 = Inr agg \<Longrightarrow> distinct (map ag_key agg0) \<Longrightarrow> distinct (map ag_key agg)"
proof (induction L neg ls agg0 rule: aggregate.induct)
  case (2 L neg l ls agg0)
  have "distinct (map ag_key (add_line i w q c d agg0))" for i w q c d
  proof -
    have "map ag_key (add_line i w q c d agg0) = map ag_key (if (i, w) \<in> set (map ag_key agg0) then agg0
        else agg0 @ [\<lparr>ag_item = i, ag_wh = w, ag_qty = 0, ag_costTimesQty = 0, ag_qtyAbs = 0\<rparr>])"
      unfolding add_line_def by (rule map_update_rows) (simp add: ag_key_def)
    moreover have "ag_key \<lparr>ag_item = i, ag_wh = w, ag_qty = 0, ag_costTimesQty = 0, ag_qtyAbs = 0\<rparr> = (i, w)" by (simp add: ag_key_def)
    ultimately show ?thesis using 2(5) by simp
  qed
  with 2 show ?case by (auto split: if_split_asm option.split_asm)
qed simp

lemma applyLines_moves:
  assumes "kt \<noteq> []" "(if raw_text data = [] then Some [] else dec data) = Some ls" "aggregate (eng_lib (ss_engine S)) neg ls [] = Inr agg"
    and "applyLines S dec ck t src data u kt neg db = (res, db')" "moves_of t kt src agg db"
  shows "moves_of t kt src agg db'
    \<and> (res = Inr () \<longrightarrow> (\<forall>a \<in> set agg. ag_qty a \<noteq> 0 \<longrightarrow> ag_key a \<in> row_pair ` set (source_moves t kt src db')))"
  using post_lines_moves[OF assms(1), of S ck t u src 0 agg db res db' agg] assms(2-5) by (simp add: applyLines_def)

lemma attempts_moves:
  assumes "kt \<noteq> []" "(if raw_text data = [] then Some [] else dec data) = Some ls" "aggregate (eng_lib (ss_engine S)) neg ls [] = Inr agg"
  shows "moves_of t kt src agg db \<Longrightarrow> moves_of t kt src agg (fold (\<lambda>ck db. snd (applyLines S dec ck t src data u kt neg db)) cks db)"
proof (induction cks arbitrary: db)
  case (Cons ck cks)
  obtain res db1 where "applyLines S dec ck t src data u kt neg db = (res, db1)" by fastforce
  with applyLines_moves[OF assms this Cons.prems] Cons.IH[of db1] show ?case by simp
qed simp


section \<open>Examples\<close>

definition toy_stock :: stock_store where
  "toy_stock = \<lparr>ss_engine = toy_engine, ss_decimal = toy_decimal\<rparr>"

definition bolt :: item where
  "bolt = \<lparr>it_tenant = 1, it_ID = 5, it_SKU = ''B'', it_Name = ''bolt'', it_UOM = ''u'', it_Active = True, it_ReorderLevel = 0,
     it_LotTracked = False, it_SerialTracked = True\<rparr>"

definition grain :: item where
  "grain = bolt\<lparr>it_ID := 6, it_SKU := ''G'', it_LotTracked := True, it_SerialTracked := False\<rparr>"

definition stores :: inventory_db where
  "stores = \<lparr>tenants = [(1, ''active'')], events = [], audit_log = [], audit_seq = 1, inv_items = [bolt, grain],
     inv_warehouses = [\<lparr>wh_tenant = 1, wh_ID = 3, wh_Code = ''N'', wh_Name = ''north''\<rparr>, \<lparr>wh_tenant = 1, wh_ID = 4, wh_Code = ''S'', wh_Name = ''south''\<rparr>],
     inv_moves = [], inv_seq = 1, inv_batches = [], inv_serials = [], move_serials = []\<rparr>"

definition receive :: "decimal \<Rightarrow> string list \<Rightarrow> move" where
  "receive q sns =
     \<lparr>mv_ID = 0, mv_tenant = 1, mv_item = 5, mv_wh = 3, mv_Qty = q, mv_UnitCost = 2, mv_SourceKType = [], mv_SourceID = None,
      mv_MovedAt = 0, mv_CreatedBy = 7, mv_ReversalOf = None, mv_BatchID = None, mv_SerialNos = sns, mv_OutStatus = []\<rparr>"

lemma stores_inv: "stock_inv S stores"
  by (simp add: stock_inv_def stores_def kernel_inv_def outbox_inv_def audit_inv_def tenant_rows_def)

lemma toy_stock_law: "jsonb_law (eng_audit (ss_engine toy_stock))"
  by (simp add: toy_stock_def toy_engine_def jsonb_law_toy)

lemma stores_match: "lots_match stores" "serials_match 1 5 stores"
  by (simp_all add: lots_match_def serials_match_def stores_def serial_keys_def tracked_def find_item_def bolt_def serial_count_def
      stock_level_def)


section \<open>Properties\<close>


definition lot_ops :: "inv_op list" where
  "lot_ops =
     [IOBatch 1000 20 \<lparr>bt_tenant = 1, bt_ID = 8, bt_item = 6, bt_BatchNo = ''L'', bt_ManufacturedAt = None, bt_ExpiresAt = None,
        bt_QtyOnHand = 0, bt_Metadata = no_json, bt_CreatedBy = 7, bt_CreatedAt = 0, bt_UpdatedAt = 0\<rparr>,
      IOMove 2000 21 (\<lambda>_. 0) ((receive 10 [])\<lparr>mv_item := 6, mv_BatchID := Some 8\<rparr>),
      IOMove 3000 22 (\<lambda>_. 0) ((receive (- 12) [])\<lparr>mv_item := 6, mv_BatchID := Some 8\<rparr>),
      IOMove 4000 23 (\<lambda>_. 0) ((receive (- 4) [])\<lparr>mv_item := 6, mv_BatchID := Some 8\<rparr>)]"


text \<open>
  C37: For an item tracked by serial number, the number of its serials in stock at a warehouse is the stock level
  there, which is therefore never negative: this holds after any sequence of moves, transfers and new lots and
  warehouses, whatever their outcomes, as long as no move is reversed and the items stay as they are.
\<close>

theorem serials_are_stock:
  assumes "serials_match t i db" "list_all forward_op ops"
  shows "of_int (serial_count t i w (inv_run S ops db)) = stock_level t i w (inv_run S ops db) \<and> 0 \<le> stock_level t i w (inv_run S ops db)"
proof -
  have "serials_match t i (inv_run S ops db)"
    by (rule run_induct[where P = "serials_match t i"]) (use assms in \<open>auto simp: list_all_iff intro: forward_serials\<close>)
  then have eq: "of_int (serial_count t i w (inv_run S ops db)) = stock_level t i w (inv_run S ops db)" by (simp add: serials_match_def)
  moreover have "0 \<le> (of_int (serial_count t i w (inv_run S ops db)) :: decimal)" by (simp add: serial_count_def)
  ultimately show ?thesis by simp
qed

definition serial_ops :: "inv_op list" where
  "serial_ops =
     [IOMove 2000 21 (\<lambda>n. 30 + of_nat n) (receive 2 [''a'', ''b'']), IOMove 3000 22 (\<lambda>_. 0) (receive (- 1) [''z'']),
      IOTransfer 4000 23 24 (\<lambda>_. 0) \<lparr>tf_tenant = 1, tf_item = 5, tf_From = 3, tf_To = 4, tf_Qty = 1, tf_UnitCost = 2, tf_MovedAt = 0,
        tf_CreatedBy = 7, tf_BatchID = None, tf_SerialNos = [''b'']\<rparr>]"

theorem serials_are_stock_witness:
  "serial_count 1 5 4 (inv_run toy_stock serial_ops stores) = 1 \<and> stock_level 1 5 4 (inv_run toy_stock serial_ops stores) = 1"
proof -
  have "serial_count 1 5 4 (inv_run toy_stock serial_ops stores) = 1" by code_simp
  moreover have "list_all forward_op serial_ops" by (simp add: serial_ops_def)
  ultimately show ?thesis using serials_are_stock[OF stores_match(2), of serial_ops 4 toy_stock] by simp
qed




text \<open>
  C15: A reversal cancels its move exactly, once. When it succeeds, the level of the item of the original move falls
  by the quantity of that move and no other level changes; after any further operations a second reversal of
  the same move is refused as already reversed and a reversal of the contra-entry as such, both without effect.
\<close>

theorem reversal_cancels_once:
  assumes "jsonb_law (eng_audit (ss_engine S))" "stock_inv S db" "ReverseMove S now eid t mid u db = (Inr c, db1)"
  shows "\<exists>r. find_move t mid db = Some r \<and> mr_reversal_of r = None
    \<and> (\<forall>t' i w. stock_level t' i w db1 = stock_level t' i w db - (if t' = t \<and> i = mr_item r \<and> w = mr_wh r then mr_qty r else 0))
    \<and> (\<forall>ops now' eid' u'. ReverseMove S now' eid' t mid u' (inv_run S ops db1) = (Inl ErrAlreadyReversed, inv_run S ops db1)
        \<and> ReverseMove S now' eid' t (mv_ID c) u' (inv_run S ops db1) = (Inl ErrCannotReverseContra, inv_run S ops db1))"
proof -
  have pre: "t \<noteq> 0" "0 < mid" and tx: "reverse_tx S now eid t mid u db = Inr (c, db1)" using assms(3) by (simp_all add: ReverseMove_ok)
  from tx assms(2) show ?thesis
  proof (rule reverse_appended)
    fix r assume r: "find_move t mid db = Some r" "mr_reversal_of r = None" "r \<in> set (inv_moves db)" "mr_tenant r = t" "mr_id r = mid"
      and c: "c = contra_move now u (inv_seq db) r" and ap: "appended S now (contra_row now u r) (- mr_qty r) db db1"
    let ?x = "stored (inv_seq db) (contra_row now u r)"
    have x: "?x \<in> set (inv_moves db1)" using ap by (simp add: appended_def)
    have inv1: "stock_inv S db1" by (rule appended_inv[OF ap assms(2,1)])
    have q: "round_dec 4 (- mr_qty r) = - mr_qty r"
      using r(3) assms(2) by (intro round_scaled scaled_ops(2)) (auto simp: stock_inv_def row_ok_def)
    have lvl: "stock_level t' i w db1 = stock_level t' i w db - (if t' = t \<and> i = mr_item r \<and> w = mr_wh r then mr_qty r else 0)" for t' i w
      using appended_level[OF ap, of t' i w] q r(4) by auto
    have later: "ReverseMove S now' eid' t mid u' (inv_run S ops db1) = (Inl ErrAlreadyReversed, inv_run S ops db1)
        \<and> ReverseMove S now' eid' t (mv_ID c) u' (inv_run S ops db1) = (Inl ErrCannotReverseContra, inv_run S ops db1)" for ops now' eid' u'
    proof -
      have p: "prefix (inv_moves db1) (inv_moves (inv_run S ops db1))" "stock_inv S (inv_run S ops db1)"
        using run_prefix[OF inv1 assms(1)] by auto
      have x': "?x \<in> set (inv_moves (inv_run S ops db1))" using x set_mono_prefix[OF p(1)] by blast
      have "find_move t mid (inv_run S ops db1) = Some r"
        using find_move_prefix[OF find_move_prefix[OF r(1) appended_prefix[OF ap]] p(1)] .
      then have 1: "ReverseMove S now' eid' t mid u' (inv_run S ops db1) = (Inl ErrAlreadyReversed, inv_run S ops db1)"
        by (rule reverse_again[OF p(2) _ r(2) pre x']) (use r in simp_all)
      have "find_move t (mv_ID c) (inv_run S ops db1) = Some ?x" using find_move_at[OF p(2) x'] r(4) c by (simp add: contra_move_def)
      moreover have "0 < mv_ID c" using assms(2) c by (simp add: contra_move_def stock_inv_def)
      ultimately have "ReverseMove S now' eid' t (mv_ID c) u' (inv_run S ops db1) = (Inl ErrCannotReverseContra, inv_run S ops db1)"
        using pre by (simp add: ReverseMove_def WithTenantTx_def reverse_tx_def)
      with 1 show ?thesis ..
    qed
    show ?thesis using r(1,2) lvl later by blast
  qed
qed


definition one_move :: inventory_db where
  "one_move = stores\<lparr>inv_moves := [stored 1 (move_to_row ((receive 3 [])\<lparr>mv_item := 9, mv_SourceKType := ''s'', mv_SourceID := Some 77\<rparr>))],
     inv_seq := 2\<rparr>"

lemma one_move_inv: "stock_inv S one_move"
  using stores_inv[of S] scaled_round[of 4]
  by (auto simp: stock_inv_def one_move_def stores_def row_ok_def row_fits_def fits_def receive_def move_to_row_def stored_def
      kernel_inv_def outbox_inv_def audit_inv_def tenant_rows_def round_scaled scaled_def)

theorem reversal_cancels_once_witness:
  "\<exists>c db1. ReverseMove toy_stock 5000 41 1 1 7 one_move = (Inr c, db1) \<and> stock_level 1 9 3 db1 = 0
     \<and> ReverseMove toy_stock 6000 42 1 1 7 db1 = (Inl ErrAlreadyReversed, db1)"
proof -
  have "case fst (ReverseMove toy_stock 5000 41 1 1 7 one_move) of Inl _ \<Rightarrow> False | Inr c \<Rightarrow> mv_ID c = 2" by code_simp
  then obtain c db1 where r: "ReverseMove toy_stock 5000 41 1 1 7 one_move = (Inr c, db1)"
    by (cases "ReverseMove toy_stock 5000 41 1 1 7 one_move"; cases "fst (ReverseMove toy_stock 5000 41 1 1 7 one_move)") auto
  from reversal_cancels_once[OF toy_stock_law one_move_inv r] obtain r0 where
    r0: "find_move 1 1 one_move = Some r0" "\<And>t i w. stock_level t i w db1 = stock_level t i w one_move
        - (if t = 1 \<and> i = mr_item r0 \<and> w = mr_wh r0 then mr_qty r0 else 0)"
      "\<And>ops now' eid' u'. ReverseMove toy_stock now' eid' 1 1 u' (inv_run toy_stock ops db1) = (Inl ErrAlreadyReversed, inv_run toy_stock ops db1)"
    by blast
  have "stock_level 1 9 3 one_move = mr_qty r0" "mr_item r0 = 9" "mr_wh r0 = 3"
    using r0(1) by (auto simp: find_move_def one_move_def stock_level_def receive_def)
  then have "stock_level 1 9 3 db1 = 0" using r0(2)[of 1 9 3] by simp
  moreover have "ReverseMove toy_stock 6000 42 1 1 7 db1 = (Inl ErrAlreadyReversed, db1)" using r0(3)[of 6000 42 7 "[]"] by (simp add: inv_run_def)
  ultimately show ?thesis using r by blast
qed


text \<open>An invoice with two lines of one item, and a line of an item tracked by serials, which the hook cannot post.\<close>

definition two_lines :: "raw_message \<Rightarrow> invoiceLine list option" where
  "two_lines _ = Some [\<lparr>il_item = bin_uuid 9, il_wh = bin_uuid 3, il_Qty = 1, il_UnitPrice = 4, il_UnitCost = 0\<rparr>,
     \<lparr>il_item = bin_uuid 9, il_wh = bin_uuid 3, il_Qty = 2, il_UnitPrice = 4, il_UnitCost = 3\<rparr>]"

definition invoice :: raw_message where
  "invoice = empty_payload"


text \<open>
  Reversals can separate serials from stock. A serial is received and delivered, then the receipt is reversed, then
  the delivery: the ledger is back at zero, but the serial counts as in stock.
\<close>

definition reversal_ops :: "inv_op list" where
  "reversal_ops =
     [IOMove 2000 21 (\<lambda>_. 30) (receive 1 [''a'']), IOMove 3000 22 (\<lambda>_. 0) ((receive (- 1) [''a''])\<lparr>mv_OutStatus := ''delivered''\<rparr>),
      IOReverse 4000 23 1 1 7, IOReverse 5000 24 1 2 7]"

lemma reversal_separates_serials:
  "serial_count 1 5 3 (inv_run toy_stock reversal_ops stores) = 1 \<and> stock_level 1 5 3 (inv_run toy_stock reversal_ops stores) = 0"
  by code_simp

text \<open>A quantity beyond the ledger's four decimals enters the lot and not the ledger.\<close>

lemma lot_rounding:
  "map bt_QtyOnHand (inv_batches (inv_run toy_stock
       [hd lot_ops, IOMove 2000 21 (\<lambda>_. 0) ((receive (1 / 25000) [])\<lparr>mv_item := 6, mv_BatchID := Some 8\<rparr>)] stores)) = [1 / 25000]
   \<and> map mr_qty (inv_moves (inv_run toy_stock
       [hd lot_ops, IOMove 2000 21 (\<lambda>_. 0) ((receive (1 / 25000) [])\<lparr>mv_item := 6, mv_BatchID := Some 8\<rparr>)] stores)) = [0]"
  by code_simp

end
