(* ===== verification/Bill_Of_Materials.thy ===== *)
theory Bill_Of_Materials
  imports Ledger_Currency
begin

text \<open>
  The data of manufacturing (internal/manufacturing/manufacturing.go, routing.go): bills of materials with their
  components, routings with their operations, work centers, work orders and job cards, the arithmetic they carry
  and the tables of legal status changes. Division is that of the decimal library and a parameter.
\<close>

record bomComponent =
  cp_BOMID :: uuid
  cp_item :: uuid
  cp_Qty :: decimal
  cp_UOM :: string
  cp_Scrap :: "decimal option"
  cp_SortOrder :: int

record bom =
  bm_tenant :: uuid
  bm_ID :: uuid
  bm_item :: uuid
  bm_Version :: string
  bm_Status :: string
  bm_OutputQty :: decimal
  bm_UOM :: string
  bm_Notes :: string
  bm_CreatedBy :: uuid
  bm_CreatedAt :: gotime
  bm_UpdatedAt :: gotime
  bm_Components :: "bomComponent list"

record routingOperation =
  op_RoutingID :: uuid
  op_Sequence :: int
  op_Name :: string
  op_WorkCenter :: uuid
  op_SetupTime :: decimal
  op_CycleTime :: decimal
  op_Description :: string

record routing =
  rt_tenant :: uuid
  rt_ID :: uuid
  rt_item :: uuid
  rt_Version :: string
  rt_Status :: string
  rt_Notes :: string
  rt_CreatedBy :: uuid
  rt_CreatedAt :: gotime
  rt_UpdatedAt :: gotime
  rt_Operations :: "routingOperation list"

record workCenter =
  wc_tenant :: uuid
  wc_ID :: uuid
  wc_Name :: string
  wc_CapacityPerHour :: decimal
  wc_OperatingHours :: decimal
  wc_Efficiency :: decimal
  wc_Status :: string
  wc_Notes :: string
  wc_CreatedBy :: uuid
  wc_CreatedAt :: gotime
  wc_UpdatedAt :: gotime

record workOrder =
  wo_tenant :: uuid
  wo_ID :: uuid
  wo_item :: uuid
  wo_BOMID :: "uuid option"
  wo_RoutingID :: "uuid option"
  wo_wh :: uuid
  wo_PlannedQty :: decimal
  wo_ActualQty :: "decimal option"
  wo_Status :: string
  wo_ScheduledStart :: "gotime option"
  wo_ScheduledEnd :: "gotime option"
  wo_StartedAt :: "gotime option"
  wo_CompletedAt :: "gotime option"
  wo_Notes :: string
  wo_CreatedBy :: uuid
  wo_CreatedAt :: gotime
  wo_UpdatedAt :: gotime

record jobCard =
  jc_tenant :: uuid
  jc_ID :: uuid
  jc_WorkOrder :: uuid
  jc_Seq :: int
  jc_WorkCenter :: uuid
  jc_Status :: string
  jc_PlannedStart :: "gotime option"
  jc_PlannedEnd :: "gotime option"
  jc_ActualStart :: "gotime option"
  jc_ActualEnd :: "gotime option"
  jc_Operator :: "uuid option"
  jc_QtyProduced :: decimal
  jc_QtyRejected :: decimal
  jc_Notes :: string
  jc_CreatedAt :: gotime
  jc_UpdatedAt :: gotime

text \<open>Status changes; re-asserting the current status is always allowed.\<close>

definition bom_CanTransitionTo :: "string \<Rightarrow> string \<Rightarrow> bool" where
  "bom_CanTransitionTo s target \<longleftrightarrow>
     s = target \<or>
     (if s = ''draft'' then target = ''active'' \<or> target = ''obsolete''
      else if s = ''active'' then target = ''obsolete''
      else False)"

definition wo_CanTransitionTo :: "string \<Rightarrow> string \<Rightarrow> bool" where
  "wo_CanTransitionTo s target \<longleftrightarrow>
     s = target \<or>
     (if s = ''draft'' then target = ''released'' \<or> target = ''cancelled''
      else if s = ''released'' then target = ''in_progress'' \<or> target = ''completed'' \<or> target = ''cancelled''
      else if s = ''in_progress'' then target = ''completed'' \<or> target = ''cancelled''
      else if s = ''completed'' then target = ''closed''
      else False)"

definition jc_CanTransitionTo :: "string \<Rightarrow> string \<Rightarrow> bool" where
  "jc_CanTransitionTo s target \<longleftrightarrow>
     s = target \<or>
     (if s = ''pending'' then target = ''in_progress'' \<or> target = ''completed''
      else if s = ''in_progress'' then target = ''completed''
      else False)"

definition EffectiveQty :: "decimal_lib \<Rightarrow> bomComponent \<Rightarrow> decimal" where
  "EffectiveQty D c =
     (case cp_Scrap c of
        None \<Rightarrow> cp_Qty c
      | Some s \<Rightarrow> if s = 0 then cp_Qty c else cp_Qty c * (1 + dec_div D s 100))"

definition LoadMinutes :: "routingOperation \<Rightarrow> decimal \<Rightarrow> decimal" where
  "LoadMinutes oper qty = op_SetupTime oper + op_CycleTime oper * (if qty < 0 then 0 else qty)"

definition AvailableMinutesPerDay :: "decimal_lib \<Rightarrow> workCenter \<Rightarrow> decimal" where
  "AvailableMinutesPerDay D wc =
     (if wc_Status wc \<noteq> ''active'' then 0
      else wc_OperatingHours wc * 60 * dec_div D (wc_Efficiency wc) 100)"

end
