(* ===== verification/MRP_Planner.thy ===== *)
theory MRP_Planner
  imports Bill_Of_Materials Go_Values "HOL-Library.Product_Lexorder"
begin

text \<open>
  The planning kernel (internal/manufacturing/mrp.go; \<open>buildItemData\<close> of store_mrp.go): low-level codes, netting,
  explosion of bills of materials and backward scheduling. A Go map is a function where the code only reads it
  and an association list where it ranges over it. Go leaves the order of a range open: the order in which the
  code meets the keys of \<open>independent\<close> is that of the list, and \<open>ord n\<close> permutes the keys of \<open>gross\<close> in the
  n-th round of the planning loop. Due dates are dates in UTC, so a calendar day is 24 hours; \<open>int\<close> is 64 bits wide.
\<close>

datatype mrp_error = ErrMRPCyclicBOM | ErrMRPInvalidBOMOutputQty

record mrpItemData =
  id_OnHand :: decimal
  id_Scheduled :: decimal
  id_BOM :: "bom option"
  id_Routing :: "routing option"

record mrpDemand =
  md_qty :: decimal
  md_due :: gotime

record mrpPlannedOrder =
  po_tenant :: uuid
  po_ID :: uuid
  po_RunID :: uuid
  po_item :: uuid
  po_Type :: string
  po_Qty :: decimal
  po_Due :: gotime
  po_Start :: gotime
  po_Level :: nat
  po_BOMID :: "uuid option"
  po_RoutingID :: "uuid option"
  po_Lead :: int
  po_CreatedAt :: gotime

definition defaultBuyLeadTimeDays :: int where "defaultBuyLeadTimeDays = 7"
definition defaultMakeLeadTimeDays :: int where "defaultMakeLeadTimeDays = 1"
definition mrpMaxExplosionLevels :: nat where "mrpMaxExplosionLevels = 50"

type_synonym item_data = "uuid \<Rightarrow> mrpItemData option"
type_synonym demands = "(uuid \<times> mrpDemand) list"

text \<open>Reading a missing key of the map of items gives the zero value of the struct.\<close>

definition item_info :: "item_data \<Rightarrow> uuid \<Rightarrow> mrpItemData" where
  "item_info data i =
     (case data i of None \<Rightarrow> \<lparr>id_OnHand = 0, id_Scheduled = 0, id_BOM = None, id_Routing = None\<rparr> | Some info \<Rightarrow> info)"

definition components_of :: "item_data \<Rightarrow> uuid \<Rightarrow> uuid list" where
  "components_of data i = (case id_BOM (item_info data i) of None \<Rightarrow> [] | Some b \<Rightarrow> map cp_item (bm_Components b))"


section \<open>Low-level codes\<close>

function visit_item :: "item_data \<Rightarrow> uuid set \<Rightarrow> uuid \<Rightarrow> nat \<Rightarrow> (uuid \<Rightarrow> nat option) \<Rightarrow> mrp_error + (uuid \<Rightarrow> nat option)"
  and visit_components :: "item_data \<Rightarrow> uuid set \<Rightarrow> uuid list \<Rightarrow> nat \<Rightarrow> (uuid \<Rightarrow> nat option) \<Rightarrow> mrp_error + (uuid \<Rightarrow> nat option)" where
  "visit_item data onPath i lvl level =
     (if lvl > mrpMaxExplosionLevels then Inl ErrMRPCyclicBOM
      else if i \<in> onPath then Inl ErrMRPCyclicBOM
      else if (case level i of None \<Rightarrow> False | Some cur \<Rightarrow> cur \<ge> lvl) then Inr level
      else if id_BOM (item_info data i) = None then Inr (level(i \<mapsto> lvl))
      else visit_components data (insert i onPath) (components_of data i) (lvl + 1) (level(i \<mapsto> lvl)))"
| "visit_components data onPath [] lvl level = Inr level"
| "visit_components data onPath (c # cs) lvl level =
     rbind (visit_item data onPath c lvl level) (\<lambda>level'. visit_components data onPath cs lvl level')"
  by pat_completeness auto

termination
  by (relation "measures
       [\<lambda>x. case x of Inl (_, _, _, lvl, _) \<Rightarrow> 52 - lvl | Inr (_, _, _, lvl, _) \<Rightarrow> 52 - lvl,
        \<lambda>x. case x of Inl _ \<Rightarrow> 0 | Inr (_, _, cs, _, _) \<Rightarrow> Suc (length cs)]")
    (auto simp: mrpMaxExplosionLevels_def)

fun visit_roots :: "item_data \<Rightarrow> uuid list \<Rightarrow> (uuid \<Rightarrow> nat option) \<Rightarrow> mrp_error + (uuid \<Rightarrow> nat option)" where
  "visit_roots data [] level = Inr level"
| "visit_roots data (i # is) level = rbind (visit_item data {} i 0 level) (\<lambda>level'. visit_roots data is level')"

definition computeLowLevelCodes :: "demands \<Rightarrow> item_data \<Rightarrow> mrp_error + (uuid \<Rightarrow> nat option)" where
  "computeLowLevelCodes demand data = visit_roots data (map fst demand) (\<lambda>_. None)"

text \<open>A missing level reads as 0.\<close>

definition level_of :: "(uuid \<Rightarrow> nat option) \<Rightarrow> uuid \<Rightarrow> nat" where
  "level_of level i = (case level i of None \<Rightarrow> 0 | Some n \<Rightarrow> n)"

definition lessByLevel :: "golib \<Rightarrow> (uuid \<Rightarrow> nat option) \<Rightarrow> uuid \<Rightarrow> uuid \<Rightarrow> bool" where
  "lessByLevel L level a b =
     (if level_of level a \<noteq> level_of level b then level_of level a < level_of level b
      else uuid_string L a < uuid_string L b)"


section \<open>Lead times\<close>

definition go_int :: "int \<Rightarrow> int" where
  "go_int n = sint (word_of_int n :: 64 word)"

fun sum_days :: "decimal_lib \<Rightarrow> decimal \<Rightarrow> (uuid \<Rightarrow> decimal option) \<Rightarrow> routingOperation list \<Rightarrow> int \<Rightarrow> int" where
  "sum_days D qty wcAvail [] t = t"
| "sum_days D qty wcAvail (oper # ops) t =
     (let load = LoadMinutes oper qty
      in if load \<le> 0 then sum_days D qty wcAvail ops t
         else case wcAvail (op_WorkCenter oper) of
                None \<Rightarrow> sum_days D qty wcAvail ops (go_int (t + 1))
              | Some avail \<Rightarrow>
                  if avail \<le> 0 then sum_days D qty wcAvail ops (go_int (t + 1))
                  else let d = go_int \<lceil>dec_div D load avail\<rceil>
                       in sum_days D qty wcAvail ops (go_int (t + (if d < 1 then 1 else d))))"

definition makeLeadTimeDays :: "decimal_lib \<Rightarrow> routing option \<Rightarrow> decimal \<Rightarrow> (uuid \<Rightarrow> decimal option) \<Rightarrow> int" where
  "makeLeadTimeDays D r qty wcAvail =
     (case r of
        None \<Rightarrow> defaultMakeLeadTimeDays
      | Some r \<Rightarrow>
          (if rt_Operations r = [] then defaultMakeLeadTimeDays
           else let t = sum_days D qty wcAvail (rt_Operations r) 0
                in if t < 1 then defaultMakeLeadTimeDays else t))"

definition backwardSchedule :: "gotime \<Rightarrow> int \<Rightarrow> gotime" where
  "backwardSchedule due leadDays = due - (if leadDays < 0 then 0 else leadDays) * day_ns"


section \<open>Planning\<close>

text \<open>The range over \<open>gross\<close> that picks the unprocessed item of the smallest level.\<close>

fun pick_next :: "golib \<Rightarrow> (uuid \<Rightarrow> nat option) \<Rightarrow> uuid list \<Rightarrow> uuid list \<Rightarrow> uuid option \<Rightarrow> uuid option" where
  "pick_next L level processed [] found = found"
| "pick_next L level processed (i # is) found =
     pick_next L level processed is
       (if i \<in> set processed then found
        else case found of None \<Rightarrow> Some i | Some nxt \<Rightarrow> if lessByLevel L level i nxt then Some i else found)"

definition add_gross :: "uuid \<Rightarrow> decimal \<Rightarrow> gotime \<Rightarrow> demands \<Rightarrow> demands" where
  "add_gross i qty start gross =
     (if i \<in> set (map fst gross)
      then update_rows (\<lambda>(k, _). k = i)
             (\<lambda>(k, d). (k, d\<lparr>md_qty := md_qty d + qty, md_due := (if start < md_due d then start else md_due d)\<rparr>)) gross
      else gross @ [(i, \<lparr>md_qty = qty, md_due = start\<rparr>)])"

text \<open>The demand of an order for \<open>net\<close> units on one component.\<close>

definition component_qty :: "decimal_lib \<Rightarrow> bom \<Rightarrow> decimal \<Rightarrow> bomComponent \<Rightarrow> decimal" where
  "component_qty D b net c = dec_div D (EffectiveQty D c * net) (bm_OutputQty b)"

definition explode :: "decimal_lib \<Rightarrow> bom \<Rightarrow> decimal \<Rightarrow> gotime \<Rightarrow> demands \<Rightarrow> demands" where
  "explode D b net start gross = fold (\<lambda>c g. add_gross (cp_item c) (component_qty D b net c) start g) (bm_Components b) gross"

definition planned_order ::
  "decimal_lib \<Rightarrow> (uuid \<Rightarrow> decimal option) \<Rightarrow> int \<Rightarrow> (uuid \<Rightarrow> nat option) \<Rightarrow> uuid \<Rightarrow> mrpItemData \<Rightarrow> decimal \<Rightarrow> gotime \<Rightarrow> mrpPlannedOrder" where
  "planned_order D wcAvail buyLead level i info net due =
     (let lead = (if id_BOM info = None then buyLead else makeLeadTimeDays D (id_Routing info) net wcAvail)
      in \<lparr>po_tenant = 0, po_ID = 0, po_RunID = 0, po_item = i,
          po_Type = (if id_BOM info = None then ''buy'' else ''make''), po_Qty = net, po_Due = due,
          po_Start = backwardSchedule due lead, po_Level = level_of level i,
          po_BOMID = map_option bm_ID (id_BOM info),
          po_RoutingID = (if id_BOM info = None then None else map_option rt_ID (id_Routing info)),
          po_Lead = lead, po_CreatedAt = 0\<rparr>)"

lemma pick_next_new:
  "pick_next L level processed is found = Some i \<Longrightarrow> (\<forall>j. found = Some j \<longrightarrow> j \<notin> set processed) \<Longrightarrow> i \<notin> set processed"
proof (induction "is" arbitrary: found)
  case (Cons k ks)
  show ?case by (rule Cons.IH[OF Cons.prems(1)[unfolded pick_next.simps]]) (use Cons.prems(2) in \<open>auto split: option.splits\<close>)
qed simp

function plan_loop ::
  "golib \<Rightarrow> decimal_lib \<Rightarrow> (nat \<Rightarrow> uuid list \<Rightarrow> uuid list) \<Rightarrow> item_data \<Rightarrow> (uuid \<Rightarrow> decimal option) \<Rightarrow> int \<Rightarrow> (uuid \<Rightarrow> nat option)
   \<Rightarrow> demands \<Rightarrow> uuid list \<Rightarrow> mrpPlannedOrder list \<Rightarrow> mrp_error + mrpPlannedOrder list" where
  "plan_loop L D ord data wcAvail buyLead level gross processed planned =
     (case pick_next L level processed (ord (length processed) (map fst gross)) None of
        None \<Rightarrow> Inr planned
      | Some nxt \<Rightarrow>
          (let d = (case map_of gross nxt of None \<Rightarrow> \<lparr>md_qty = 0, md_due = 0\<rparr> | Some d \<Rightarrow> d);
               info = item_info data nxt;
               net = md_qty d - id_OnHand info - id_Scheduled info;
               processed' = nxt # processed
           in if net \<le> 0 then plan_loop L D ord data wcAvail buyLead level gross processed' planned
              else
                let p = planned_order D wcAvail buyLead level nxt info net (md_due d);
                    planned' = planned @ [p]
                in case id_BOM info of
                     None \<Rightarrow> plan_loop L D ord data wcAvail buyLead level gross processed' planned'
                   | Some b \<Rightarrow>
                       (if \<not> bm_OutputQty b > 0 then Inl ErrMRPInvalidBOMOutputQty
                        else plan_loop L D ord data wcAvail buyLead level (explode D b net (po_Start p) gross) processed' planned')))"
  by pat_completeness auto

termination
proof (relation "measure (\<lambda>(_, _, _, _, _, _, _, _, processed, _). card (- set processed))", goal_cases)
  case 1
  then show ?case by simp
qed (auto intro!: psubset_card_mono dest!: pick_next_new)

definition order_key :: "golib \<Rightarrow> mrpPlannedOrder \<Rightarrow> nat \<times> string" where
  "order_key L p = (po_Level p, uuid_string L (po_item p))"

definition planMRP ::
  "golib \<Rightarrow> decimal_lib \<Rightarrow> (nat \<Rightarrow> uuid list \<Rightarrow> uuid list) \<Rightarrow> demands \<Rightarrow> item_data \<Rightarrow> (uuid \<Rightarrow> decimal option) \<Rightarrow> int
   \<Rightarrow> mrp_error + mrpPlannedOrder list" where
  "planMRP L D ord demand data wcAvail buyLeadDays =
     (let buyLead = (if buyLeadDays \<le> 0 then defaultBuyLeadTimeDays else buyLeadDays)
      in rbind (computeLowLevelCodes demand data) (\<lambda>level.
         rbind (plan_loop L D ord data wcAvail buyLead level demand [] []) (\<lambda>planned.
           Inr (sort_key (order_key L) planned))))"


section \<open>The supply snapshot\<close>

text \<open>
  The items reachable from the demand. The recursion \<open>ensure\<close> is a stack here: an item that is met for the first
  time is entered and its components are visited next.
\<close>

function ensure_items ::
  "(uuid \<Rightarrow> bom option) \<Rightarrow> (uuid \<Rightarrow> routing option) \<Rightarrow> (uuid \<Rightarrow> decimal) \<Rightarrow> (uuid \<Rightarrow> decimal) \<Rightarrow> uuid list \<Rightarrow> item_data \<Rightarrow> item_data" where
  "ensure_items boms routings onHand scheduled [] data = data"
| "ensure_items boms routings onHand scheduled (i # is) data =
     (if data i \<noteq> None then ensure_items boms routings onHand scheduled is data
      else ensure_items boms routings onHand scheduled
             ((case boms i of None \<Rightarrow> [] | Some b \<Rightarrow> map cp_item (bm_Components b)) @ is)
             (data(i \<mapsto> \<lparr>id_OnHand = onHand i, id_Scheduled = scheduled i, id_BOM = boms i,
                         id_Routing = (if boms i = None then None else routings i)\<rparr>)))"
  by pat_completeness auto

termination
proof (relation "measures [\<lambda>(_, _, _, _, _, data). card (- dom data), \<lambda>(_, _, _, _, is, _). length is]", goal_cases)
  case (3 boms routings onHand scheduled i "is" data)
  then have "- dom (data(i \<mapsto> x)) \<subset> - dom data" for x by auto
  then show ?case by (auto intro!: psubset_card_mono)
qed auto

definition buildItemData ::
  "demands \<Rightarrow> (uuid \<Rightarrow> bom option) \<Rightarrow> (uuid \<Rightarrow> routing option) \<Rightarrow> (uuid \<Rightarrow> decimal) \<Rightarrow> (uuid \<Rightarrow> decimal) \<Rightarrow> item_data" where
  "buildItemData demand boms routings onHand scheduled =
     ensure_items boms routings onHand scheduled (map fst demand) (\<lambda>_. None)"

end
