(* ===== verification/MRP_Correct.thy ===== *)
theory MRP_Correct
  imports MRP_Planner "HOL-Library.Multiset"
begin

text \<open>
  Correctness of the planning kernel. Low-level codes are the lengths of the longest paths in the graph of the
  active bills of materials, and they exist exactly if no path is longer than the limit; the planning loop nets
  every item after all orders that consume it, so the orders satisfy the balance of material.
\<close>

section \<open>Paths through bills of materials\<close>

inductive bom_path :: "item_data \<Rightarrow> uuid \<Rightarrow> nat \<Rightarrow> uuid \<Rightarrow> bool" for data r where
  path_here: "bom_path data r 0 r"
| path_step: "bom_path data r n i \<Longrightarrow> j \<in> set (components_of data i) \<Longrightarrow> bom_path data r (Suc n) j"

lemma bom_path_trans: "bom_path data j m k \<Longrightarrow> bom_path data i n j \<Longrightarrow> bom_path data i (n + m) k"
  by (induction rule: bom_path.induct) (auto intro: bom_path.intros)

lemma bom_path_cycle: "bom_path data i k i \<Longrightarrow> bom_path data i (m * k) i"
  by (induction m) (auto intro: bom_path.intros bom_path_trans simp: add.commute)

definition too_deep :: "item_data \<Rightarrow> uuid set \<Rightarrow> bool" where
  "too_deep data R \<longleftrightarrow> (\<exists>r \<in> R. \<exists>n i. bom_path data r n i \<and> mrpMaxExplosionLevels < n)"

lemma cycle_too_deep:
  assumes "r \<in> R" "bom_path data r n i" "bom_path data i k i" "0 < k"
  shows "too_deep data R"
proof -
  have "bom_path data r (n + Suc mrpMaxExplosionLevels * k) i" by (rule bom_path_trans[OF bom_path_cycle[OF assms(3)] assms(2)])
  moreover have "mrpMaxExplosionLevels < Suc mrpMaxExplosionLevels * k" using assms(4) by (cases k) auto
  ultimately show ?thesis using assms(1) unfolding too_deep_def by (meson trans_less_add2)
qed

section \<open>Low-level codes\<close>

text \<open>
  The invariant of the search: levels are lengths of paths, within the limit, and an entered item that is not on
  the current path has all components at deeper levels.
\<close>

definition settled :: "item_data \<Rightarrow> (uuid \<Rightarrow> nat option) \<Rightarrow> uuid \<Rightarrow> bool" where
  "settled data level i \<longleftrightarrow> (\<forall>n j. level i = Some n \<longrightarrow> j \<in> set (components_of data i) \<longrightarrow> (\<exists>m > n. level j = Some m))"

definition levels_ok :: "item_data \<Rightarrow> uuid set \<Rightarrow> uuid set \<Rightarrow> (uuid \<Rightarrow> nat option) \<Rightarrow> bool" where
  "levels_ok data R P level \<longleftrightarrow>
     (\<forall>i n. level i = Some n \<longrightarrow> n \<le> mrpMaxExplosionLevels \<and> (\<exists>r \<in> R. bom_path data r n i))
     \<and> (\<forall>i. i \<notin> P \<longrightarrow> settled data level i)"

definition deeper :: "(uuid \<Rightarrow> nat option) \<Rightarrow> (uuid \<Rightarrow> nat option) \<Rightarrow> uuid set \<Rightarrow> bool" where
  "deeper level level' P \<longleftrightarrow>
     (\<forall>i n. level i = Some n \<longrightarrow> (\<exists>m \<ge> n. level' i = Some m)) \<and> (\<forall>i \<in> P. level' i = level i)"

lemma deeper_refl: "deeper l l P"
  by (auto simp: deeper_def)

lemma deeper_trans: "deeper l1 l2 P \<Longrightarrow> deeper l2 l3 P \<Longrightarrow> deeper l1 l3 P"
  unfolding deeper_def by (metis order_trans)

lemma deeper_mono: "deeper l l' (insert i P) \<Longrightarrow> deeper l l' P"
  by (auto simp: deeper_def)

lemma enter_level:
  assumes "levels_ok data R P level" "r \<in> R" "bom_path data r lvl i" "lvl \<le> mrpMaxExplosionLevels"
    and "\<not> (case level i of None \<Rightarrow> False | Some cur \<Rightarrow> cur \<ge> lvl)" "i \<notin> P"
  shows "levels_ok data R (insert i P) (level(i \<mapsto> lvl))" "deeper level (level(i \<mapsto> lvl)) P"
proof -
  have old: "n < lvl" if "level i = Some n" for n using assms(5) that by simp
  have "settled data (level(i \<mapsto> lvl)) j" if j: "j \<notin> insert i P" for j
    unfolding settled_def
  proof (intro allI impI)
    fix n k assume n: "(level(i \<mapsto> lvl)) j = Some n" and k: "k \<in> set (components_of data j)"
    have "settled data level j" "level j = Some n" using j n assms(1) by (auto simp: levels_ok_def)
    then obtain m where m: "n < m" "level k = Some m" using k unfolding settled_def by blast
    then show "\<exists>m > n. (level(i \<mapsto> lvl)) k = Some m" using old by (cases "k = i") (auto intro: less_trans)
  qed
  then show "levels_ok data R (insert i P) (level(i \<mapsto> lvl))" using assms(1-4) by (auto simp: levels_ok_def)
  show "deeper level (level(i \<mapsto> lvl)) P" using assms(6) old by (auto simp: deeper_def intro: less_imp_le)
qed

lemma visit_item_ok:
  "visit_item data P i lvl level = Inr level' \<Longrightarrow> levels_ok data R P level \<Longrightarrow> r \<in> R \<Longrightarrow> bom_path data r lvl i
   \<Longrightarrow> levels_ok data R P level' \<and> deeper level level' P \<and> (\<exists>m \<ge> lvl. level' i = Some m)"
  and visit_all_ok:
  "visit_components data P cs lvl level = Inr level' \<Longrightarrow> levels_ok data R P level \<Longrightarrow> r \<in> R \<Longrightarrow> (\<forall>c \<in> set cs. bom_path data r lvl c)
   \<Longrightarrow> levels_ok data R P level' \<and> deeper level level' P \<and> (\<forall>c \<in> set cs. \<exists>m \<ge> lvl. level' c = Some m)"
proof (induction data P i lvl level and data P cs lvl level arbitrary: level' and level' rule: visit_item_visit_components.induct)
  case (1 data P i lvl level)
  have new: "lvl \<le> mrpMaxExplosionLevels" "i \<notin> P" using 1(2) by (auto split: if_splits)
  show ?case
  proof (cases "case level i of None \<Rightarrow> False | Some cur \<Rightarrow> cur \<ge> lvl")
    case True
    with 1(2,3) new show ?thesis by (auto simp: deeper_refl split: option.splits)
  next
    case False
    note entered = enter_level[OF 1(3,4,5) new(1) False new(2)]
    show ?thesis
    proof (cases "id_BOM (item_info data i)")
      case None
      then have l': "level' = level(i \<mapsto> lvl)" using 1(2) False new by auto
      have "settled data level' i" using None by (simp add: settled_def components_of_def)
      then have "levels_ok data R P level'" using entered(1) unfolding levels_ok_def l' by (metis insert_iff)
      moreover have "level' i = Some lvl" by (simp add: l')
      ultimately show ?thesis using entered(2) unfolding l' by blast
    next
      case (Some b)
      have v: "visit_components data (insert i P) (components_of data i) (lvl + 1) (level(i \<mapsto> lvl)) = Inr level'"
        using 1(2) False new Some by auto
      have below: "\<forall>c \<in> set (components_of data i). bom_path data r (lvl + 1) c" using path_step[OF 1(5)] by simp
      have b: "\<not> mrpMaxExplosionLevels < lvl" "id_BOM (item_info data i) \<noteq> None" using new Some by auto
      from 1(1)[OF b(1) new(2) False b(2) v entered(1) 1(4) below]
      have ih: "levels_ok data R (insert i P) level'" "deeper (level(i \<mapsto> lvl)) level' (insert i P)"
        "\<forall>c \<in> set (components_of data i). \<exists>m \<ge> lvl + 1. level' c = Some m" by blast+
      have i: "level' i = Some lvl" using ih(2) by (simp add: deeper_def)
      have "settled data level' i" using ih(3) i by (fastforce simp: settled_def)
      then have "levels_ok data R P level'" using ih(1) unfolding levels_ok_def by (metis insert_iff)
      then show ?thesis using deeper_trans[OF entered(2) deeper_mono[OF ih(2)]] i by blast
    qed
  qed
next
  case (3 data P c cs lvl level)
  then obtain l1 where v: "visit_item data P c lvl level = Inr l1" "visit_components data P cs lvl l1 = Inr level'" by (auto simp: rbind_eq_Inr)
  from 3(1)[OF v(1) 3(4,5)] 3(6) have ih1: "levels_ok data R P l1" "deeper level l1 P" "\<exists>m \<ge> lvl. l1 c = Some m" by auto
  from 3(2)[OF v(1) v(2) ih1(1) 3(5)] 3(6) have ih2: "levels_ok data R P level'" "deeper l1 level' P"
    "\<forall>c \<in> set cs. \<exists>m \<ge> lvl. level' c = Some m" by auto
  have "\<exists>m \<ge> lvl. level' c = Some m" using ih1(3) ih2(2) by (auto simp: deeper_def) (meson order_trans)
  with ih2 show ?case using deeper_trans[OF ih1(2) ih2(2)] by auto
qed (auto simp: deeper_refl)

lemma visit_item_error:
  "visit_item data P i lvl level = Inl e \<Longrightarrow> r \<in> R \<Longrightarrow> bom_path data r lvl i \<Longrightarrow> (\<forall>p \<in> P. \<exists>k > 0. bom_path data p k i)
   \<Longrightarrow> e = ErrMRPCyclicBOM \<and> too_deep data R"
  and visit_all_error:
  "visit_components data P cs lvl level = Inl e \<Longrightarrow> r \<in> R \<Longrightarrow> (\<forall>c \<in> set cs. bom_path data r lvl c \<and> (\<forall>p \<in> P. \<exists>k > 0. bom_path data p k c))
   \<Longrightarrow> e = ErrMRPCyclicBOM \<and> too_deep data R"
proof (induction data P i lvl level and data P cs lvl level arbitrary: e and e rule: visit_item_visit_components.induct)
  case (1 data P i lvl level)
  consider "lvl > mrpMaxExplosionLevels" | "lvl \<le> mrpMaxExplosionLevels" "i \<in> P"
    | "lvl \<le> mrpMaxExplosionLevels" "i \<notin> P" "\<not> (case level i of None \<Rightarrow> False | Some cur \<Rightarrow> cur \<ge> lvl)" "id_BOM (item_info data i) \<noteq> None"
    using 1(2) by (auto split: if_splits)
  then show ?case
  proof cases
    case 1
    with \<open>visit_item data P i lvl level = Inl e\<close> \<open>r \<in> R\<close> \<open>bom_path data r lvl i\<close> show ?thesis by (auto simp: too_deep_def)
  next
    case 2
    with \<open>visit_item data P i lvl level = Inl e\<close> \<open>r \<in> R\<close> \<open>bom_path data r lvl i\<close> \<open>\<forall>p \<in> P. \<exists>k > 0. bom_path data p k i\<close>
    show ?thesis by (auto intro: cycle_too_deep)
  next
    case 3
    have v: "visit_components data (insert i P) (components_of data i) (lvl + 1) (level(i \<mapsto> lvl)) = Inl e"
      using 1(2) 3 by auto
    have "bom_path data r (lvl + 1) c \<and> (\<forall>p \<in> insert i P. \<exists>k > 0. bom_path data p k c)" if c: "c \<in> set (components_of data i)" for c
    proof (intro conjI ballI)
      show "bom_path data r (lvl + 1) c" using path_step[OF 1(4) c] by simp
      fix p assume "p \<in> insert i P"
      then have "\<exists>k. bom_path data p k i" using 1(5) path_here by blast
      then show "\<exists>k > 0. bom_path data p k c" using path_step[OF _ c] by blast
    qed
    then show ?thesis using 1(1)[OF _ 3(2,3,4) v 1(3)] 3(1) by simp
  qed
next
  case (3 data P c cs lvl level)
  then show ?case by (auto simp: rbind_eq_Inl)
qed auto

declare visit_item.simps [simp del] and plan_loop.simps [simp del]

lemma visit_roots_ok:
  "visit_roots data is level = Inr level' \<Longrightarrow> levels_ok data R {} level \<Longrightarrow> set is \<subseteq> R
   \<Longrightarrow> levels_ok data R {} level' \<and> deeper level level' {} \<and> (\<forall>i \<in> set is. level' i \<noteq> None)"
proof (induction "is" arbitrary: level)
  case (Cons i "is")
  then obtain l1 where v: "visit_item data {} i 0 level = Inr l1" "visit_roots data is l1 = Inr level'" by (auto simp: rbind_eq_Inr)
  have i: "i \<in> R" using Cons.prems(3) by simp
  from visit_item_ok[OF v(1) Cons.prems(2) i path_here] have 1: "levels_ok data R {} l1" "deeper level l1 {}" "l1 i \<noteq> None" by auto
  from Cons.IH[OF v(2) 1(1)] Cons.prems(3) have 2: "levels_ok data R {} level'" "deeper l1 level' {}" "\<forall>i \<in> set is. level' i \<noteq> None" by auto
  have "level' i \<noteq> None" using 1(3) 2(2) by (auto simp: deeper_def)
  with 2 show ?case using deeper_trans[OF 1(2) 2(2)] by auto
qed (auto simp: deeper_refl)

lemma visit_roots_error:
  "visit_roots data is level = Inl e \<Longrightarrow> set is \<subseteq> R \<Longrightarrow> e = ErrMRPCyclicBOM \<and> too_deep data R"
  by (induction "is" arbitrary: level) (auto simp: rbind_eq_Inl dest: visit_item_error[OF _ _ path_here])

lemma settled_path:
  assumes "bom_path data r n i" "\<And>i. settled data level i" "level r \<noteq> None"
  shows "\<exists>m \<ge> n. level i = Some m"
  using assms(1)
proof induction
  case path_here
  then show ?case using assms(3) by auto
next
  case (path_step n i j)
  then obtain m where m: "n \<le> m" "level i = Some m" by blast
  with assms(2)[of i] path_step(2) obtain k where "m < k" "level j = Some k" unfolding settled_def by blast
  with m(1) show ?case by (metis Suc_leI order.strict_trans1)
qed

lemma levels_paths:
  assumes "computeLowLevelCodes demand data = Inr level"
  shows "levels_ok data (fst ` set demand) {} level" "\<And>i. i \<in> fst ` set demand \<Longrightarrow> level i \<noteq> None"
    and "\<And>i. settled data level i"
proof -
  have "levels_ok data (fst ` set demand) {} (\<lambda>_. None)" by (simp add: levels_ok_def settled_def)
  from visit_roots_ok[OF assms[unfolded computeLowLevelCodes_def] this]
  show "levels_ok data (fst ` set demand) {} level" "\<And>i. i \<in> fst ` set demand \<Longrightarrow> level i \<noteq> None" "\<And>i. settled data level i"
    by (auto simp: levels_ok_def)
qed

text \<open>The reference: the length of the longest path from an item in demand.\<close>

definition path_lengths :: "demands \<Rightarrow> item_data \<Rightarrow> uuid \<Rightarrow> nat set" where
  "path_lengths demand data i = {n. \<exists>r \<in> fst ` set demand. bom_path data r n i}"

definition low_level_code :: "demands \<Rightarrow> item_data \<Rightarrow> uuid \<Rightarrow> nat option" where
  "low_level_code demand data i = (if path_lengths demand data i = {} then None else Some (Max (path_lengths demand data i)))"

lemma codes_exact: "computeLowLevelCodes demand data = Inr level \<Longrightarrow> level = low_level_code demand data"
proof
  fix i assume c: "computeLowLevelCodes demand data = Inr level"
  note ok = levels_paths[OF c]
  have path: "\<exists>m \<ge> n. level i = Some m" if "n \<in> path_lengths demand data i" for n
  proof -
    from that obtain r where "r \<in> fst ` set demand" "bom_path data r n i" unfolding path_lengths_def by blast
    then show ?thesis using settled_path[OF _ ok(3) ok(2)] by blast
  qed
  show "level i = low_level_code demand data i"
  proof (cases "level i")
    case None
    then have "path_lengths demand data i = {}" using path by auto
    with None show ?thesis by (simp add: low_level_code_def)
  next
    case (Some m)
    then have m: "m \<in> path_lengths demand data i" using ok(1) by (auto simp: levels_ok_def path_lengths_def)
    have up: "n \<le> m" if "n \<in> path_lengths demand data i" for n using path[OF that] Some by auto
    then have "finite (path_lengths demand data i)" using finite_nat_set_iff_bounded_le by blast
    then have "Max (path_lengths demand data i) = m" using m up by (intro Max_eqI)
    with m Some show ?thesis by (auto simp: low_level_code_def)
  qed
qed

lemma codes_exist:
  "computeLowLevelCodes demand data =
     (if too_deep data (fst ` set demand) then Inl ErrMRPCyclicBOM else Inr (low_level_code demand data))"
proof (cases "computeLowLevelCodes demand data")
  case (Inl e)
  then show ?thesis using visit_roots_error[of data "map fst demand" "\<lambda>_. None" e "fst ` set demand"] by (simp add: computeLowLevelCodes_def)
next
  case (Inr level)
  note ok = levels_paths[OF Inr]
  have "n \<le> mrpMaxExplosionLevels" if r: "r \<in> fst ` set demand" "bom_path data r n i" for r n i
  proof -
    obtain m where "m \<ge> n" "level i = Some m" using settled_path[OF r(2) ok(3) ok(2)[OF r(1)]] by blast
    then show ?thesis using ok(1) unfolding levels_ok_def by (meson order_trans)
  qed
  then have "\<not> too_deep data (fst ` set demand)" unfolding too_deep_def by (meson not_less)
  with Inr show ?thesis using codes_exact[OF Inr] by simp
qed

section \<open>The choice of the next item\<close>

definition level_key :: "golib \<Rightarrow> (uuid \<Rightarrow> nat option) \<Rightarrow> uuid \<Rightarrow> nat \<times> string" where
  "level_key L level i = (level_of level i, uuid_string L i)"

lemma lessByLevel_key: "lessByLevel L level a b \<longleftrightarrow> level_key L level a < level_key L level b"
  by (auto simp: lessByLevel_def level_key_def less_prod_def)

lemma level_key_inj: "uuid_laws L \<Longrightarrow> level_key L level a = level_key L level b \<Longrightarrow> a = b"
  by (auto simp: level_key_def dest: uuid_string_inj)

definition open_items :: "uuid list \<Rightarrow> uuid list \<Rightarrow> uuid option \<Rightarrow> uuid set" where
  "open_items processed is found = {i \<in> set is. i \<notin> set processed} \<union> set_option found"

lemma pick_next_None: "pick_next L level processed is found = None \<longleftrightarrow> open_items processed is found = {}"
  by (induction "is" arbitrary: found) (auto simp: open_items_def split: if_splits option.splits)

lemma pick_next_Some:
  "pick_next L level processed is found = Some i
   \<Longrightarrow> i \<in> open_items processed is found \<and> (\<forall>j \<in> open_items processed is found. level_key L level i \<le> level_key L level j)"
proof (induction "is" arbitrary: found)
  case (Cons k ks)
  let ?f = "if k \<in> set processed then found else case found of None \<Rightarrow> Some k | Some nxt \<Rightarrow> if lessByLevel L level k nxt then Some k else found"
  have p: "pick_next L level processed ks ?f = Some i" using Cons.prems by simp
  from Cons.IH[OF p] have ih: "i \<in> open_items processed ks ?f" "\<forall>j \<in> open_items processed ks ?f. level_key L level i \<le> level_key L level j" by auto
  have sub: "open_items processed ks ?f \<subseteq> open_items processed (k # ks) found"
    by (auto simp: open_items_def split: if_splits option.splits)
  have "\<exists>j' \<in> open_items processed ks ?f. level_key L level j' \<le> level_key L level j" if "j \<in> open_items processed (k # ks) found" for j
    using that by (cases found) (auto simp: open_items_def lessByLevel_key not_less intro: less_imp_le)
  then show ?case using ih sub by (meson order_trans subsetD)
qed (auto simp: open_items_def)

text \<open>With distinct texts for distinct ids there is one smallest item, whatever the order of the range.\<close>

lemma pick_next_order:
  assumes "uuid_laws L" "set is = set js"
  shows "pick_next L level processed is None = pick_next L level processed js None"
proof -
  have o: "open_items processed is None = open_items processed js None" using assms(2) by (simp add: open_items_def)
  show ?thesis
  proof (cases "pick_next L level processed is None")
    case None
    then show ?thesis using o pick_next_None by metis
  next
    case (Some i)
    moreover from this o obtain j where j: "pick_next L level processed js None = Some j"
      using pick_next_None[of L level processed js None] pick_next_Some[OF Some] by fastforce
    ultimately have "level_key L level i = level_key L level j"
      using pick_next_Some[OF Some] pick_next_Some[OF j] o by (auto intro: order_antisym)
    with Some j show ?thesis using level_key_inj[OF assms(1)] by simp
  qed
qed


section \<open>Gross demand\<close>

definition keys_of :: "demands \<Rightarrow> uuid set" where
  "keys_of g = fst ` set g"

definition gross_qty :: "demands \<Rightarrow> uuid \<Rightarrow> decimal" where
  "gross_qty g i = (case map_of g i of None \<Rightarrow> 0 | Some d \<Rightarrow> md_qty d)"

definition gross_due :: "demands \<Rightarrow> uuid \<Rightarrow> gotime" where
  "gross_due g i = (case map_of g i of None \<Rightarrow> 0 | Some d \<Rightarrow> md_due d)"

lemma keys_dom: "keys_of g = dom (map_of g)"
  by (simp add: keys_of_def dom_map_of_conv_image_fst)

lemma map_of_update_key:
  "map_of (update_rows (\<lambda>(k, _). k = i) (\<lambda>(k, d). (k, f d)) g) = (map_of g)(i := map_option f (map_of g i))"
  by (induction g) (auto simp: update_rows_def)

lemma map_of_add_gross:
  "map_of (add_gross i qty start g) = (map_of g)(i \<mapsto>
     (case map_of g i of None \<Rightarrow> \<lparr>md_qty = qty, md_due = start\<rparr>
      | Some d \<Rightarrow> d\<lparr>md_qty := md_qty d + qty, md_due := min start (md_due d)\<rparr>))"
proof (cases "i \<in> keys_of g")
  case True
  then obtain d where d: "map_of g i = Some d" by (auto simp: keys_dom)
  have eq: "(if start < md_due d then start else md_due d) = min start (md_due d)" by auto
  show ?thesis using True d by (simp add: add_gross_def keys_of_def map_of_update_key eq)
next
  case False
  then have "map_of g i = None" by (auto simp: keys_dom)
  then show ?thesis using False by (auto simp: add_gross_def keys_of_def map_add_def split: option.splits)
qed

lemma fst_add_gross: "map fst (add_gross i qty start g) = (if i \<in> keys_of g then map fst g else map fst g @ [i])"
  by (auto simp: add_gross_def keys_of_def map_update_rows split: prod.splits)

lemma add_gross_facts:
  "keys_of (add_gross i qty start g) = insert i (keys_of g)"
  "distinct (map fst g) \<Longrightarrow> distinct (map fst (add_gross i qty start g))"
  "gross_qty (add_gross i qty start g) j = gross_qty g j + (if j = i then qty else 0)"
  "gross_due (add_gross i qty start g) j = (if j = i then (if i \<in> keys_of g then min start (gross_due g i) else start) else gross_due g j)"
proof -
  show "keys_of (add_gross i qty start g) = insert i (keys_of g)" by (auto simp: keys_dom map_of_add_gross)
  show "distinct (map fst g) \<Longrightarrow> distinct (map fst (add_gross i qty start g))"
    unfolding fst_add_gross by (auto simp: keys_of_def)
  show "gross_qty (add_gross i qty start g) j = gross_qty g j + (if j = i then qty else 0)"
    by (auto simp: gross_qty_def map_of_add_gross split: option.splits)
  show "gross_due (add_gross i qty start g) j = (if j = i then (if i \<in> keys_of g then min start (gross_due g i) else start) else gross_due g j)"
    by (auto simp: gross_due_def map_of_add_gross keys_dom split: option.splits)
qed

definition explode_all :: "(bomComponent \<Rightarrow> decimal) \<Rightarrow> gotime \<Rightarrow> bomComponent list \<Rightarrow> demands \<Rightarrow> demands" where
  "explode_all q start cs g = fold (\<lambda>c g. add_gross (cp_item c) (q c) start g) cs g"

lemma explode_facts:
  "keys_of (explode_all q start cs g) = keys_of g \<union> cp_item ` set cs"
  "distinct (map fst g) \<Longrightarrow> distinct (map fst (explode_all q start cs g))"
  "gross_qty (explode_all q start cs g) j = gross_qty g j + sum_list (map q (filter (\<lambda>c. cp_item c = j) cs))"
  "gross_due (explode_all q start cs g) j =
     (if j \<in> cp_item ` set cs then (if j \<in> keys_of g then min start (gross_due g j) else start) else gross_due g j)"
  by (induction cs arbitrary: g) (auto simp: explode_all_def add_gross_facts)

lemma explode_map_of: "map_of g = map_of h \<Longrightarrow> map_of (explode_all q start cs g) = map_of (explode_all q start cs h)"
proof (induction cs arbitrary: g h)
  case (Cons c cs)
  then have "map_of (add_gross (cp_item c) (q c) start g) = map_of (add_gross (cp_item c) (q c) start h)"
    by (simp add: map_of_add_gross)
  from Cons.IH[OF this] show ?case by (simp add: explode_all_def)
qed (simp add: explode_all_def)

section \<open>The planning loop\<close>

definition map_order :: "(nat \<Rightarrow> uuid list \<Rightarrow> uuid list) \<Rightarrow> bool" where
  "map_order ord \<longleftrightarrow> (\<forall>n xs. mset (ord n xs) = mset xs)"

lemma map_order_set: "map_order ord \<Longrightarrow> set (ord n xs) = set xs"
  unfolding map_order_def by (metis set_mset_mset)

definition bom_lines :: "mrpItemData \<Rightarrow> bomComponent list" where
  "bom_lines info = (case id_BOM info of None \<Rightarrow> [] | Some b \<Rightarrow> bm_Components b)"

definition line_qty :: "decimal_lib \<Rightarrow> mrpItemData \<Rightarrow> decimal \<Rightarrow> bomComponent \<Rightarrow> decimal" where
  "line_qty D info net c = (case id_BOM info of None \<Rightarrow> 0 | Some b \<Rightarrow> component_qty D b net c)"

definition bad_output :: "mrpItemData \<Rightarrow> bool" where
  "bad_output info \<longleftrightarrow> (case id_BOM info of None \<Rightarrow> False | Some b \<Rightarrow> \<not> bm_OutputQty b > 0)"

definition net_of :: "item_data \<Rightarrow> demands \<Rightarrow> uuid \<Rightarrow> decimal" where
  "net_of data g i = gross_qty g i - id_OnHand (item_info data i) - id_Scheduled (item_info data i)"

lemma components_lines: "components_of data i = map cp_item (bom_lines (item_info data i))"
  by (simp add: components_of_def bom_lines_def split: option.splits)

lemma plan_loop_step:
  "plan_loop L D ord data wc buy level g pr pl =
     (case pick_next L level pr (ord (length pr) (map fst g)) None of
        None \<Rightarrow> Inr pl
      | Some i \<Rightarrow>
          (let info = item_info data i; net = net_of data g i; p = planned_order D wc buy level i info net (gross_due g i)
           in if net \<le> 0 then plan_loop L D ord data wc buy level g (i # pr) pl
              else if bad_output info then Inl ErrMRPInvalidBOMOutputQty
              else plan_loop L D ord data wc buy level (explode_all (line_qty D info net) (po_Start p) (bom_lines info) g) (i # pr) (pl @ [p])))"
  by (subst plan_loop.simps)
    (auto simp: Let_def net_of_def gross_qty_def gross_due_def bad_output_def bom_lines_def line_qty_def explode_def explode_all_def
      split: option.splits)

lemma plan_loop_invariant:
  assumes step: "\<And>g pr pl i. I g pr pl \<Longrightarrow> pick_next L level pr (ord (length pr) (map fst g)) None = Some i
      \<Longrightarrow> (net_of data g i \<le> 0 \<longrightarrow> I g (i # pr) pl)
        \<and> (0 < net_of data g i \<longrightarrow> \<not> bad_output (item_info data i) \<longrightarrow>
            (let info = item_info data i; net = net_of data g i; p = planned_order D wc buy level i info net (gross_due g i)
             in I (explode_all (line_qty D info net) (po_Start p) (bom_lines info) g) (i # pr) (pl @ [p])))"
    and "I g pr pl" "plan_loop L D ord data wc buy level g pr pl = Inr ps"
  shows "\<exists>g' pr'. I g' pr' ps \<and> pick_next L level pr' (ord (length pr') (map fst g')) None = None"
  using assms(2,3)
proof (induction "card (- set pr)" arbitrary: g pr pl rule: less_induct)
  case less
  show ?case
  proof (cases "pick_next L level pr (ord (length pr) (map fst g)) None")
    case None
    then show ?thesis using less.prems by (subst (asm) plan_loop_step) auto
  next
    case (Some i)
    then have dec: "card (- set (i # pr)) < card (- set pr)"
      using pick_next_new[OF Some] by (intro psubset_card_mono) auto
    note st = step[OF less.prems(1) Some]
    show ?thesis
    proof (cases "net_of data g i \<le> 0")
      case True
      then have "plan_loop L D ord data wc buy level g (i # pr) pl = Inr ps"
        using less.prems(2) Some by (subst (asm) plan_loop_step) (simp add: Let_def)
      then show ?thesis using less.hyps[OF dec] st True by blast
    next
      case False
      let ?info = "item_info data i" and ?net = "net_of data g i"
      let ?p = "planned_order D wc buy level i ?info ?net (gross_due g i)"
      have "\<not> bad_output ?info"
        "plan_loop L D ord data wc buy level (explode_all (line_qty D ?info ?net) (po_Start ?p) (bom_lines ?info) g) (i # pr) (pl @ [?p]) = Inr ps"
        using less.prems(2) Some False by (subst (asm) plan_loop_step, simp add: Let_def split: if_splits)+
      then show ?thesis using less.hyps[OF dec] st False by (auto simp: Let_def)
    qed
  qed
qed

lemma plan_loop_order:
  assumes "uuid_laws L" "map_order ord" "map_order ord'" "map_of g = map_of h"
  shows "plan_loop L D ord data wc buy level g pr pl = plan_loop L D ord' data wc buy level h pr pl"
  using assms(4)
proof (induction "card (- set pr)" arbitrary: g h pr pl rule: less_induct)
  case less
  have "set (map fst g) = set (map fst h)" using keys_dom[of g] keys_dom[of h] less.prems by (simp add: keys_of_def)
  then have pick: "pick_next L level pr (ord' (length pr) (map fst h)) None = pick_next L level pr (ord (length pr) (map fst g)) None"
    by (intro pick_next_order[OF assms(1)]) (simp add: map_order_set[OF assms(2)] map_order_set[OF assms(3)])
  have same: "net_of data h = net_of data g" "gross_due h = gross_due g"
    using less.prems by (auto simp: net_of_def gross_qty_def gross_due_def intro!: ext)
  show ?case
  proof (cases "pick_next L level pr (ord (length pr) (map fst g)) None")
    case None
    then show ?thesis by (subst (1 2) plan_loop_step) (simp add: pick)
  next
    case (Some i)
    then have dec: "card (- set (i # pr)) < card (- set pr)"
      using pick_next_new[OF Some] by (intro psubset_card_mono) auto
    have "plan_loop L D ord data wc buy level g (i # pr) pl = plan_loop L D ord' data wc buy level h (i # pr) pl" for pl
      using less.hyps[OF dec less.prems] .
    moreover have "plan_loop L D ord data wc buy level (explode_all q s cs g) (i # pr) pl
        = plan_loop L D ord' data wc buy level (explode_all q s cs h) (i # pr) pl" for q s cs pl
      using less.hyps[OF dec explode_map_of[OF less.prems]] .
    ultimately show ?thesis using Some by (subst (1 2) plan_loop_step) (simp add: pick same Let_def)
  qed
qed

section \<open>Balance of material\<close>

text \<open>
  What the orders of a plan consume: the demand of one order on an item, of all orders, the items that are needed
  at all, and the dates by which an item is needed.
\<close>

definition order_uses :: "decimal_lib \<Rightarrow> item_data \<Rightarrow> mrpPlannedOrder \<Rightarrow> uuid \<Rightarrow> decimal" where
  "order_uses D data p i =
     sum_list (map (line_qty D (item_info data (po_item p)) (po_Qty p)) (filter (\<lambda>c. cp_item c = i) (bom_lines (item_info data (po_item p)))))"

definition dependent_qty :: "decimal_lib \<Rightarrow> item_data \<Rightarrow> mrpPlannedOrder list \<Rightarrow> uuid \<Rightarrow> decimal" where
  "dependent_qty D data ps i = sum_list (map (\<lambda>p. order_uses D data p i) ps)"

definition required_items :: "demands \<Rightarrow> item_data \<Rightarrow> mrpPlannedOrder list \<Rightarrow> uuid set" where
  "required_items demand data ps = keys_of demand \<union> (\<Union>p \<in> set ps. set (components_of data (po_item p)))"

definition needed_by :: "demands \<Rightarrow> item_data \<Rightarrow> mrpPlannedOrder list \<Rightarrow> uuid \<Rightarrow> gotime set" where
  "needed_by demand data ps i =
     (if i \<in> keys_of demand then {gross_due demand i} else {}) \<union> po_Start ` {p \<in> set ps. i \<in> set (components_of data (po_item p))}"

definition plan_inv ::
  "decimal_lib \<Rightarrow> item_data \<Rightarrow> (uuid \<Rightarrow> decimal option) \<Rightarrow> int \<Rightarrow> (uuid \<Rightarrow> nat option) \<Rightarrow> demands \<Rightarrow> demands \<Rightarrow> uuid list \<Rightarrow> mrpPlannedOrder list \<Rightarrow> bool" where
  "plan_inv D data wc buy level demand g pr pl \<longleftrightarrow>
     set pr \<subseteq> keys_of g
     \<and> (\<forall>k \<in> keys_of g. level k \<noteq> None)
     \<and> (\<forall>y \<in> set pr. \<forall>z \<in> keys_of g - set pr. level_of level y \<le> level_of level z)
     \<and> (\<forall>i. gross_qty g i = gross_qty demand i + dependent_qty D data pl i)
     \<and> keys_of g = required_items demand data pl
     \<and> (\<forall>i \<in> keys_of g. gross_due g i = Min (needed_by demand data pl i))
     \<and> distinct (map po_item pl)
     \<and> set pl = (\<lambda>i. planned_order D wc buy level i (item_info data i) (net_of data g i) (gross_due g i)) ` {i \<in> set pr. 0 < net_of data g i}"

lemma planned_order_sel [simp]:
  "po_item (planned_order D wc buy level i info net due) = i"
  "po_Qty (planned_order D wc buy level i info net due) = net"
  "po_Due (planned_order D wc buy level i info net due) = due"
  "po_Level (planned_order D wc buy level i info net due) = level_of level i"
  by (simp_all add: planned_order_def Let_def)

lemma picked_item:
  assumes "plan_inv D data wc buy level demand g pr pl" "map_order ord"
    and "pick_next L level pr (ord (length pr) (map fst g)) None = Some i"
  shows "i \<in> keys_of g" "i \<notin> set pr" "\<And>z. z \<in> keys_of g \<Longrightarrow> z \<notin> set pr \<Longrightarrow> level_of level i \<le> level_of level z"
proof -
  have "open_items pr (ord (length pr) (map fst g)) None = keys_of g - set pr"
    by (auto simp: open_items_def keys_of_def map_order_set[OF assms(2)])
  with pick_next_Some[OF assms(3)] have i: "i \<in> keys_of g - set pr"
    and min: "\<And>z. z \<in> keys_of g - set pr \<Longrightarrow> level_key L level i \<le> level_key L level z" by auto
  then show "i \<in> keys_of g" "i \<notin> set pr" by auto
  show "level_of level i \<le> level_of level z" if "z \<in> keys_of g" "z \<notin> set pr" for z
    using min[of z] that by (auto simp: level_key_def less_eq_prod_def)
qed

lemma plan_inv_skip:
  assumes "plan_inv D data wc buy level demand g pr pl" "map_order ord"
    "pick_next L level pr (ord (length pr) (map fst g)) None = Some i" "net_of data g i \<le> 0"
  shows "plan_inv D data wc buy level demand g (i # pr) pl"
proof -
  have "{j \<in> set (i # pr). 0 < net_of data g j} = {j \<in> set pr. 0 < net_of data g j}" using assms(4) by auto
  then show ?thesis using assms(1) picked_item[OF assms(1-3)] unfolding plan_inv_def by auto
qed

lemma components_deeper:
  assumes "\<And>j. settled data level j" "level i \<noteq> None" "c \<in> set (components_of data i)"
  shows "level c \<noteq> None" "level_of level i < level_of level c"
  using assms(1)[of i] assms(2,3) by (fastforce simp: settled_def level_of_def)+

lemma plan_inv_order:
  assumes I: "plan_inv D data wc buy level demand g pr pl" and settled: "\<And>j. settled data level j"
    and pick: "map_order ord" "pick_next L level pr (ord (length pr) (map fst g)) None = Some i"
    and pos: "0 < net_of data g i"
    and p: "p = planned_order D wc buy level i (item_info data i) (net_of data g i) (gross_due g i)"
    and g': "g' = explode_all (line_qty D (item_info data i) (net_of data g i)) (po_Start p) (bom_lines (item_info data i)) g"
  shows "plan_inv D data wc buy level demand g' (i # pr) (pl @ [p])"
proof -
  note i = picked_item[OF I pick]
  have cs: "cp_item ` set (bom_lines (item_info data i)) = set (components_of data i)" by (simp add: components_lines)
  have lv: "\<And>k. k \<in> keys_of g \<Longrightarrow> level k \<noteq> None" using I unfolding plan_inv_def by blast
  note below = components_deeper[OF settled lv[OF i(1)]]
  have keys: "keys_of g' = keys_of g \<union> set (components_of data i)" unfolding g' explode_facts(1) cs ..
  have old: "y \<notin> set (components_of data i)" if "y \<in> set (i # pr)" for y
  proof
    assume y: "y \<in> set (components_of data i)"
    have "level_of level y \<le> level_of level i" using that I i(1,2) by (cases "y = i") (auto simp: plan_inv_def)
    with below(2)[OF y] show False by simp
  qed
  have qty: "gross_qty g' j = gross_qty g j + order_uses D data p j" for j
    unfolding g' explode_facts(3) order_uses_def by (simp add: p)
  have none: "order_uses D data p y = 0" if "y \<notin> set (components_of data i)" for y
  proof -
    have "filter (\<lambda>c. cp_item c = y) (bom_lines (item_info data i)) = []" using that by (auto simp: components_lines filter_empty_conv)
    then show ?thesis by (simp add: order_uses_def p)
  qed
  have due: "gross_due g' j = (if j \<in> set (components_of data i) then (if j \<in> keys_of g then min (po_Start p) (gross_due g j) else po_Start p) else gross_due g j)" for j
    unfolding g' explode_facts(4) cs ..
  have same: "net_of data g' y = net_of data g y" "gross_due g' y = gross_due g y" if "y \<in> set (i # pr)" for y
    using qty[of y] none[OF old[OF that]] due[of y] old[OF that] by (auto simp: net_of_def)
  have req: "required_items demand data (pl @ [p]) = required_items demand data pl \<union> set (components_of data i)"
    by (auto simp: required_items_def p)
  have need: "needed_by demand data (pl @ [p]) j = needed_by demand data pl j \<union> (if j \<in> set (components_of data i) then {po_Start p} else {})" for j
    by (auto simp: needed_by_def p)
  have empty: "needed_by demand data pl j = {} \<longleftrightarrow> j \<notin> keys_of g" for j
  proof -
    have "keys_of g = required_items demand data pl" using I unfolding plan_inv_def by blast
    then show ?thesis by (auto simp: needed_by_def required_items_def)
  qed
  have fin: "finite (needed_by demand data pl j)" for j by (simp add: needed_by_def)
  have 1: "gross_due g' j = Min (needed_by demand data (pl @ [p]) j)" if "j \<in> keys_of g'" for j
  proof (cases "j \<in> keys_of g")
    case True
    then have "gross_due g j = Min (needed_by demand data pl j)" using I unfolding plan_inv_def by blast
    then show ?thesis unfolding need due using True empty[of j] fin[of j] by (auto simp: Min_insert2)
  next
    case False
    then show ?thesis unfolding need due using that keys empty[of j] by auto
  qed
  have 2: "set (pl @ [p]) = (\<lambda>i. planned_order D wc buy level i (item_info data i) (net_of data g' i) (gross_due g' i)) ` {j \<in> set (i # pr). 0 < net_of data g' j}"
  proof -
    have "{j \<in> set (i # pr). 0 < net_of data g' j} = insert i {j \<in> set pr. 0 < net_of data g j}" using pos same by auto
    then have "(\<lambda>i. planned_order D wc buy level i (item_info data i) (net_of data g' i) (gross_due g' i)) ` {j \<in> set (i # pr). 0 < net_of data g' j}
        = insert p ((\<lambda>i. planned_order D wc buy level i (item_info data i) (net_of data g i) (gross_due g i)) ` {j \<in> set pr. 0 < net_of data g j})"
      using same by (auto simp: p intro!: image_eqI)
    then show ?thesis using I unfolding plan_inv_def by simp
  qed
  have 3: "distinct (map po_item (pl @ [p]))" using I i(2) by (auto simp: plan_inv_def p)
  have 4: "\<forall>y \<in> set (i # pr). \<forall>z \<in> keys_of g' - set (i # pr). level_of level y \<le> level_of level z"
  proof (intro ballI)
    fix y z assume y: "y \<in> set (i # pr)" and z: "z \<in> keys_of g' - set (i # pr)"
    have yi: "level_of level y \<le> level_of level i" using y I i(1,2) by (cases "y = i") (auto simp: plan_inv_def)
    have "level_of level i \<le> level_of level z" using z i(3) below(2)[of z] keys by (cases "z \<in> keys_of g") auto
    with yi show "level_of level y \<le> level_of level z" by simp
  qed
  have 5: "gross_qty g' j = gross_qty demand j + dependent_qty D data (pl @ [p]) j" for j
    using I qty[of j] by (simp add: plan_inv_def dependent_qty_def)
  have 6: "set (i # pr) \<subseteq> keys_of g'" "\<forall>k \<in> keys_of g'. level k \<noteq> None" using I i(1) keys below(1) by (auto simp: plan_inv_def)
  have 7: "keys_of g' = required_items demand data (pl @ [p])" using I keys req by (simp add: plan_inv_def)
  show ?thesis unfolding plan_inv_def using 1 2 3 4 5 6 7 by simp
qed

lemma plan_inv_start:
  "(\<And>k. k \<in> keys_of demand \<Longrightarrow> level k \<noteq> None) \<Longrightarrow> plan_inv D data wc buy level demand demand [] []"
  by (auto simp: plan_inv_def dependent_qty_def required_items_def needed_by_def)

lemma plan_loop_result:
  assumes "map_order ord" "computeLowLevelCodes demand data = Inr level"
    and "plan_loop L D ord data wc buy level demand [] [] = Inr ps"
  obtains g where "plan_inv D data wc buy level demand g (sorted_list_of_set (keys_of g)) ps"
proof -
  note lv = levels_paths[OF assms(2)]
  have start: "plan_inv D data wc buy level demand demand [] []" by (rule plan_inv_start) (use lv(2) in \<open>auto simp: keys_of_def\<close>)
  have "\<exists>g' pr'. plan_inv D data wc buy level demand g' pr' ps \<and> pick_next L level pr' (ord (length pr') (map fst g')) None = None"
    by (rule plan_loop_invariant[where I = "plan_inv D data wc buy level demand", OF _ start assms(3)])
      (auto simp: Let_def intro: plan_inv_skip[OF _ assms(1)] plan_inv_order[OF _ lv(3) assms(1)])
  then obtain g pr where g: "plan_inv D data wc buy level demand g pr ps" "open_items pr (ord (length pr) (map fst g)) None = {}"
    unfolding pick_next_None by blast
  then have "set pr = keys_of g" by (auto simp: open_items_def plan_inv_def keys_of_def map_order_set[OF assms(1)])
  then have "set pr = set (sorted_list_of_set (keys_of g))" by (simp add: keys_of_def)
  with g(1) have "plan_inv D data wc buy level demand g (sorted_list_of_set (keys_of g)) ps" unfolding plan_inv_def by simp
  then show ?thesis using that by blast
qed

text \<open>The result of the whole planner: its orders, before and after sorting, are the same.\<close>

lemma planMRP_parts:
  assumes "planMRP L D ord demand data wc buy = Inr ps"
  obtains level pl where "computeLowLevelCodes demand data = Inr level" "set pl = set ps" "mset pl = mset ps"
    "plan_loop L D ord data wc (if buy \<le> 0 then defaultBuyLeadTimeDays else buy) level demand [] [] = Inr pl" "sorted (map (order_key L) ps)"
  using assms by (auto simp: planMRP_def rbind_eq_Inr Let_def)

lemma plan_inv_mset:
  assumes "plan_inv D data wc buy level demand g pr pl" "mset pl = mset ps"
  shows "plan_inv D data wc buy level demand g pr ps"
proof -
  have e1: "set pl = set ps" using assms(2) by (metis set_mset_mset)
  then have e2: "required_items demand data pl = required_items demand data ps" "needed_by demand data pl = needed_by demand data ps"
    by (auto simp: required_items_def needed_by_def)
  have e3: "dependent_qty D data pl = dependent_qty D data ps"
    unfolding dependent_qty_def by (intro ext) (metis assms(2) mset_map sum_mset_sum_list)
  have e4: "distinct (map po_item pl) = distinct (map po_item ps)" by (metis assms(2) mset_eq_imp_distinct_iff mset_map)
  show ?thesis using assms(1) unfolding plan_inv_def e1 e2 e3 e4 .
qed

lemma plan_facts:
  assumes "map_order ord" "planMRP L D ord demand data wc buy = Inr ps"
  obtains level g buy' where "computeLowLevelCodes demand data = Inr level" "0 < buy'"
    "plan_inv D data wc buy' level demand g (sorted_list_of_set (keys_of g)) ps" "sorted (map (order_key L) ps)"
proof -
  let ?buy = "if buy \<le> 0 then defaultBuyLeadTimeDays else buy"
  from planMRP_parts[OF assms(2)] obtain level pl where c: "computeLowLevelCodes demand data = Inr level" and pl: "mset pl = mset ps"
    and loop: "plan_loop L D ord data wc ?buy level demand [] [] = Inr pl" and so: "sorted (map (order_key L) ps)" by blast
  from plan_loop_result[OF assms(1) c loop] obtain g where "plan_inv D data wc ?buy level demand g (sorted_list_of_set (keys_of g)) pl" by blast
  from that[OF c _ plan_inv_mset[OF this pl] so] show ?thesis by (simp add: defaultBuyLeadTimeDays_def)
qed

text \<open>The orders of a plan, one per required item that lacks stock.\<close>

lemma plan_inv_orders:
  assumes "plan_inv D data wc buy level demand g (sorted_list_of_set (keys_of g)) ps"
  shows "keys_of g = required_items demand data ps"
    and "net_of data g i = gross_qty demand i + dependent_qty D data ps i - id_OnHand (item_info data i) - id_Scheduled (item_info data i)"
    and "i \<in> keys_of g \<Longrightarrow> gross_due g i = Min (needed_by demand data ps i) \<and> level i \<noteq> None"
    and "p \<in> set ps \<longleftrightarrow> (\<exists>i \<in> keys_of g. 0 < net_of data g i \<and> p = planned_order D wc buy level i (item_info data i) (net_of data g i) (gross_due g i))"
proof -
  have "finite (keys_of g)" by (simp add: keys_of_def)
  then have "set (sorted_list_of_set (keys_of g)) = keys_of g" by simp
  note I = assms[unfolded plan_inv_def this]
  show "keys_of g = required_items demand data ps"
    "net_of data g i = gross_qty demand i + dependent_qty D data ps i - id_OnHand (item_info data i) - id_Scheduled (item_info data i)"
    "i \<in> keys_of g \<Longrightarrow> gross_due g i = Min (needed_by demand data ps i) \<and> level i \<noteq> None"
    using I by (auto simp: net_of_def)
  have "set ps = (\<lambda>i. planned_order D wc buy level i (item_info data i) (net_of data g i) (gross_due g i)) ` {i \<in> keys_of g. 0 < net_of data g i}"
    using I by blast
  then show "p \<in> set ps \<longleftrightarrow> (\<exists>i \<in> keys_of g. 0 < net_of data g i \<and> p = planned_order D wc buy level i (item_info data i) (net_of data g i) (gross_due g i))"
    by blast
qed

lemma filter_key_single: "distinct (map f xs) \<Longrightarrow> x \<in> set xs \<Longrightarrow> filter (\<lambda>y. f y = f x) xs = [x]"
  by (induction xs) (auto simp: filter_empty_conv dest: sym)

definition planned_qty :: "mrpPlannedOrder list \<Rightarrow> uuid \<Rightarrow> decimal" where
  "planned_qty ps i = sum_list (map po_Qty (filter (\<lambda>p. po_item p = i) ps))"

lemma makeLead_positive: "1 \<le> makeLeadTimeDays D r qty wc"
  by (auto simp: makeLeadTimeDays_def defaultMakeLeadTimeDays_def Let_def split: option.splits)

lemma planned_order_lead:
  assumes "0 < buy"
  shows "1 \<le> po_Lead (planned_order D wc buy level i info net due)"
    "po_Start (planned_order D wc buy level i info net due) = due - po_Lead (planned_order D wc buy level i info net due) * day_ns"
  using assms makeLead_positive[of D "id_Routing info" net wc] by (auto simp: planned_order_def Let_def backwardSchedule_def)


section \<open>Errors\<close>

lemma plan_loop_error: "plan_loop L D ord data wc buy level g pr pl = Inl e \<Longrightarrow> e = ErrMRPInvalidBOMOutputQty \<and> (\<exists>i. bad_output (item_info data i))"
proof (induction "card (- set pr)" arbitrary: g pr pl rule: less_induct)
  case less
  obtain i where i: "pick_next L level pr (ord (length pr) (map fst g)) None = Some i"
    using less.prems by (subst (asm) plan_loop_step) (auto split: option.splits)
  then have dec: "card (- set (i # pr)) < card (- set pr)"
    using pick_next_new[OF i] by (intro psubset_card_mono) auto
  show ?case using less.prems less.hyps[OF dec] i by (subst (asm) plan_loop_step) (auto simp: Let_def split: if_splits)
qed


section \<open>The supply snapshot\<close>

definition item_supply ::
  "(uuid \<Rightarrow> bom option) \<Rightarrow> (uuid \<Rightarrow> routing option) \<Rightarrow> (uuid \<Rightarrow> decimal) \<Rightarrow> (uuid \<Rightarrow> decimal) \<Rightarrow> uuid \<Rightarrow> mrpItemData" where
  "item_supply boms routings onHand scheduled i =
     \<lparr>id_OnHand = onHand i, id_Scheduled = scheduled i, id_BOM = boms i, id_Routing = (if boms i = None then None else routings i)\<rparr>"

definition snapshot_of :: "(uuid \<Rightarrow> mrpItemData) \<Rightarrow> uuid set \<Rightarrow> item_data \<Rightarrow> bool" where
  "snapshot_of S K res \<longleftrightarrow>
     (\<forall>i x. res i = Some x \<longrightarrow> x = S i) \<and> K \<subseteq> dom res \<and> (\<forall>i \<in> dom res. set (components_of res i) \<subseteq> dom res)"

lemma ensure_items_closed:
  "\<lbrakk>\<forall>i x. data i = Some x \<longrightarrow> x = item_supply boms routings onHand scheduled i;
    \<forall>i \<in> dom data. set (components_of data i) \<subseteq> dom data \<union> set is\<rbrakk>
   \<Longrightarrow> snapshot_of (item_supply boms routings onHand scheduled) (set is \<union> dom data) (ensure_items boms routings onHand scheduled is data)"
proof (induction boms routings onHand scheduled "is" data rule: ensure_items.induct)
  case (1 boms routings onHand scheduled data)
  then show ?case by (simp add: snapshot_of_def)
next
  case (2 boms routings onHand scheduled i "is" data)
  let ?cs = "case boms i of None \<Rightarrow> [] | Some b \<Rightarrow> map cp_item (bm_Components b)"
  let ?S = "item_supply boms routings onHand scheduled"
  show ?case
  proof (cases "data i = None")
    case True
    have step: "ensure_items boms routings onHand scheduled (i # is) data = ensure_items boms routings onHand scheduled (?cs @ is) (data(i \<mapsto> ?S i))"
      using True by (simp add: item_supply_def)
    have comps: "components_of (data(i \<mapsto> ?S i)) k = (if k = i then ?cs else components_of data k)" for k
      by (auto simp: components_of_def item_info_def item_supply_def)
    have closed: "\<forall>k \<in> dom (data(i \<mapsto> ?S i)). set (components_of (data(i \<mapsto> ?S i)) k) \<subseteq> dom (data(i \<mapsto> ?S i)) \<union> set (?cs @ is)"
      unfolding comps using 2(4) by (auto split: if_splits)
    have n: "\<not> data i \<noteq> None" and v: "\<forall>k x. (data(i \<mapsto> ?S i)) k = Some x \<longrightarrow> x = ?S k" using True 2(3) by auto
    from 2(2)[OF n, folded item_supply_def, OF v closed] show ?thesis unfolding step snapshot_of_def by auto
  next
    case False
    then have "\<forall>k \<in> dom data. set (components_of data k) \<subseteq> dom data \<union> set is" using 2(4) by fastforce
    with 2(1)[OF False 2(3)] False show ?thesis by (auto simp: snapshot_of_def)
  qed
qed

lemma buildItemData_supply:
  assumes "i \<in> keys_of demand" "bom_path (\<lambda>i. Some (item_supply boms routings onHand scheduled i)) i n j"
  shows "buildItemData demand boms routings onHand scheduled j = Some (item_supply boms routings onHand scheduled j)"
proof -
  let ?d = "buildItemData demand boms routings onHand scheduled" and ?all = "\<lambda>i. Some (item_supply boms routings onHand scheduled i)"
  have "snapshot_of (item_supply boms routings onHand scheduled) (set (map fst demand) \<union> dom (\<lambda>_. None :: mrpItemData option)) ?d"
    unfolding buildItemData_def by (rule ensure_items_closed) auto
  then have val: "\<And>i x. ?d i = Some x \<Longrightarrow> x = item_supply boms routings onHand scheduled i" and keys: "keys_of demand \<subseteq> dom ?d"
    and closed: "\<And>i. i \<in> dom ?d \<Longrightarrow> set (components_of ?d i) \<subseteq> dom ?d" by (auto simp: snapshot_of_def keys_of_def)
  have "j \<in> dom ?d" using assms(2)
  proof induction
    case path_here
    then show ?case using keys assms(1) by blast
  next
    case (path_step n k l)
    then obtain x where "?d k = Some x" "x = item_supply boms routings onHand scheduled k" using val by blast
    then have "components_of ?d k = components_of ?all k" by (simp add: components_of_def item_info_def)
    then show ?case using path_step(2) closed[OF path_step(3)] by auto
  qed
  then show ?thesis using val by blast
qed

end
