(* ===== verification/MRP_Properties.thy ===== *)
theory MRP_Properties
  imports MRP_Correct
begin

text \<open>
  The properties of the planning kernel, with examples on a small product structure.
\<close>

section \<open>An example\<close>

text \<open>
  Item 1 takes two of item 2 and one of item 3, item 3 takes one of item 2; five of item 2 are in stock, and ten of
  item 1 are due on day 100. The lead times are one day for making and seven for buying.
\<close>

definition part_line :: "uuid \<Rightarrow> decimal \<Rightarrow> bomComponent" where
  "part_line i q = \<lparr>cp_BOMID = 0, cp_item = i, cp_Qty = q, cp_UOM = ''ea'', cp_Scrap = None, cp_SortOrder = 1\<rparr>"

definition recipe :: "uuid \<Rightarrow> bomComponent list \<Rightarrow> bom" where
  "recipe i cs = \<lparr>bm_tenant = 1, bm_ID = i + 100, bm_item = i, bm_Version = ''1'', bm_Status = ''active'', bm_OutputQty = 1, bm_UOM = ''ea'',
     bm_Notes = [], bm_CreatedBy = 0, bm_CreatedAt = 0, bm_UpdatedAt = 0, bm_Components = cs\<rparr>"

definition bike_data :: item_data where
  "bike_data = map_of
     [(1, \<lparr>id_OnHand = 0, id_Scheduled = 0, id_BOM = Some (recipe 1 [part_line 2 2, part_line 3 1]), id_Routing = None\<rparr>),
      (2, \<lparr>id_OnHand = 5, id_Scheduled = 0, id_BOM = None, id_Routing = None\<rparr>),
      (3, \<lparr>id_OnHand = 0, id_Scheduled = 0, id_BOM = Some (recipe 3 [part_line 2 1]), id_Routing = None\<rparr>)]"

definition bike_demand :: demands where
  "bike_demand = [(1, \<lparr>md_qty = 10, md_due = 100 * day_ns\<rparr>)]"

definition given_order :: "nat \<Rightarrow> uuid list \<Rightarrow> uuid list" where
  "given_order _ xs = xs"

definition exact_decimal :: decimal_lib where
  "exact_decimal = \<lparr>dec_div = (\<lambda>a b. a / b), dec_string = (\<lambda>_. ''1'')\<rparr>"

definition bike_plan :: "mrp_error + mrpPlannedOrder list" where
  "bike_plan = planMRP bin_lib exact_decimal given_order bike_demand bike_data (\<lambda>_. None) 0"

lemma map_orders: "map_order given_order" "map_order (\<lambda>_. rev)"
  by (simp_all add: map_order_def given_order_def)

lemma bike_plan_value:
  "case bike_plan of Inl _ \<Rightarrow> False
   | Inr ps \<Rightarrow> map (\<lambda>p. (po_item p, po_Qty p, po_Due p)) ps = [(1, 10, 100 * day_ns), (3, 10, 99 * day_ns), (2, 25, 98 * day_ns)]"
  by code_simp

lemma bike_planE:
  obtains ps where "bike_plan = Inr ps"
    "map (\<lambda>p. (po_item p, po_Qty p, po_Due p)) ps = [(1, 10, 100 * day_ns), (3, 10, 99 * day_ns), (2, 25, 98 * day_ns)]"
proof (cases bike_plan)
  case (Inl e)
  show ?thesis using bike_plan_value[unfolded Inl sum.case] by simp
next
  case (Inr ps)
  show ?thesis by (rule that[OF Inr]) (use bike_plan_value[unfolded Inr sum.case] in assumption)
qed


section \<open>Properties\<close>

text \<open>
  C17: Low-level codes. Whatever the order of the demand items, the search succeeds exactly if no path through the
  active bills of materials, starting at an item in demand, is longer than 50 steps (a cycle gives such paths),
  and then the code of every item is the length of the longest path that leads to it; items that no path reaches have none.
\<close>

theorem low_level_codes_exact:
  "computeLowLevelCodes demand data =
     (if too_deep data (fst ` set demand) then Inl ErrMRPCyclicBOM else Inr (low_level_code demand data))"
  by (rule codes_exist)

text \<open>
  C16: Balance of material. Every order is for an item that is in demand or a component of another order's item,
  there is at most one order per item, and for every such item the planned quantity is what is missing: the
  independent demand plus what the planned orders consume, less stock and scheduled receipts, or nothing if that is
  negative. So no item is netted before all the orders that consume it.
\<close>

theorem plan_balances:
  assumes "map_order ord" "planMRP L D ord demand data wc buy = Inr ps"
  shows "po_item ` set ps \<subseteq> required_items demand data ps \<and> distinct (map po_item ps)
    \<and> (\<forall>i. i \<in> required_items demand data ps \<longrightarrow>
          planned_qty ps i = max 0 (gross_qty demand i + dependent_qty D data ps i
            - id_OnHand (item_info data i) - id_Scheduled (item_info data i)))"
proof -
  obtain level g buy' where I: "plan_inv D data wc buy' level demand g (sorted_list_of_set (keys_of g)) ps"
    by (rule plan_facts[OF assms])
  note g = plan_inv_orders[OF I]
  have dist: "distinct (map po_item ps)" using I by (simp add: plan_inv_def)
  have "planned_qty ps i = max 0 (net_of data g i)" if i: "i \<in> keys_of g" for i
  proof (cases "0 < net_of data g i")
    case True
    let ?p = "planned_order D wc buy' level i (item_info data i) (net_of data g i) (gross_due g i)"
    have "?p \<in> set ps" unfolding g(4) using True i by blast
    from filter_key_single[OF dist this] show ?thesis using True by (simp add: planned_qty_def)
  next
    case False
    have "po_item p \<noteq> i" if "p \<in> set ps" for p using that False unfolding g(4) by auto
    then have "filter (\<lambda>p. po_item p = i) ps = []" by (simp add: filter_empty_conv)
    with False show ?thesis by (simp add: planned_qty_def)
  qed
  moreover have "po_item ` set ps \<subseteq> keys_of g" using g(4) by auto
  ultimately show ?thesis using g(1,2) dist by simp
qed

theorem plan_balances_witness:
  "\<exists>ps. bike_plan = Inr ps \<and> distinct (map po_item ps)
     \<and> planned_qty ps 1 = max 0 (gross_qty bike_demand 1 + dependent_qty exact_decimal bike_data ps 1 - 0 - 0)"
proof -
  obtain ps where ps: "bike_plan = Inr ps" by (rule bike_planE)
  note b = plan_balances[OF map_orders(1) ps[unfolded bike_plan_def]]
  have "1 \<in> required_items bike_demand bike_data ps" by (simp add: required_items_def keys_of_def bike_demand_def)
  with b have "planned_qty ps 1 = max 0 (gross_qty bike_demand 1 + dependent_qty exact_decimal bike_data ps 1
      - id_OnHand (item_info bike_data 1) - id_Scheduled (item_info bike_data 1))" by blast
  with ps b show ?thesis by (auto simp: item_info_def bike_data_def)
qed

text \<open>
  C39: Dates. Every order is due on the earliest date its item is needed by, that is the earliest due date of its
  independent demand and of the starts of the orders that consume it, and starts its lead time before that, at
  least one day earlier. So no order starts before its components are due, and the orders are listed parents first.
\<close>

theorem plan_dates:
  assumes "map_order ord" "planMRP L D ord demand data wc buy = Inr ps" "p \<in> set ps"
  shows "po_Due p = Min (needed_by demand data ps (po_item p)) \<and> 1 \<le> po_Lead p \<and> po_Start p = po_Due p - po_Lead p * day_ns
    \<and> (\<forall>q. q \<in> set ps \<longrightarrow> po_item q \<in> set (components_of data (po_item p)) \<longrightarrow> po_Due q \<le> po_Start p \<and> po_Level p < po_Level q)
    \<and> sorted (map (order_key L) ps)"
proof -
  obtain level g buy' where c: "computeLowLevelCodes demand data = Inr level" and buy: "0 < buy'"
    and I: "plan_inv D data wc buy' level demand g (sorted_list_of_set (keys_of g)) ps" and so: "sorted (map (order_key L) ps)"
    by (rule plan_facts[OF assms(1,2)])
  note g = plan_inv_orders[OF I]
  let ?order = "\<lambda>i. planned_order D wc buy' level i (item_info data i) (net_of data g i) (gross_due g i)"
  obtain i where i: "i \<in> keys_of g" "p = ?order i" using assms(3) unfolding g(4) by blast
  have child: "po_Due q \<le> po_Start p \<and> po_Level p < po_Level q" if q: "q \<in> set ps" "po_item q \<in> set (components_of data (po_item p))" for q
  proof -
    obtain j where j: "j \<in> keys_of g" "q = ?order j" using q(1) unfolding g(4) by blast
    have ij: "j \<in> set (components_of data i)" using q(2) i(2) j(2) by simp
    have "po_Start p \<in> needed_by demand data ps j" using assms(3) ij i(2) by (auto simp: needed_by_def)
    moreover have "finite (needed_by demand data ps j)" by (simp add: needed_by_def)
    ultimately have "po_Due q \<le> po_Start p" using g(3)[OF j(1)] j(2) by simp
    moreover have "level_of level i < level_of level j"
      using components_deeper(2)[OF levels_paths(3)[OF c] _ ij] g(3)[OF i(1)] by blast
    ultimately show ?thesis using i(2) j(2) by simp
  qed
  have "po_Due p = Min (needed_by demand data ps (po_item p))" using g(3)[OF i(1)] i(2) by simp
  moreover have "1 \<le> po_Lead p" "po_Start p = po_Due p - po_Lead p * day_ns"
    unfolding i(2) using planned_order_lead[OF buy] by simp_all
  ultimately show ?thesis using child so by blast
qed

theorem plan_dates_witness:
  "\<exists>ps p. bike_plan = Inr ps \<and> p \<in> set ps \<and> po_item p = 1 \<and> po_Start p \<le> 99 * day_ns"
proof -
  obtain ps where ps: "bike_plan = Inr ps"
    and v: "map (\<lambda>p. (po_item p, po_Qty p, po_Due p)) ps = [(1, 10, 100 * day_ns), (3, 10, 99 * day_ns), (2, 25, 98 * day_ns)]" by (rule bike_planE)
  then obtain p where p: "p \<in> set ps" "po_item p = 1" "po_Due p = 100 * day_ns" by (cases ps) auto
  from plan_dates[OF map_orders(1) ps[unfolded bike_plan_def] p(1)]
  have "1 \<le> po_Lead p" "po_Start p = po_Due p - po_Lead p * day_ns" by auto
  with p(3) have "po_Start p \<le> 99 * day_ns" by (simp add: day_ns_def)
  with ps p show ?thesis by blast
qed

text \<open>
  C40: The plan does not depend on the order in which Go ranges over its maps: neither on the order of the demand
  items nor on the order in which the planning loop meets the items in each round.
\<close>

theorem plan_deterministic:
  assumes "uuid_laws L" "map_order ord" "map_order ord'" "distinct (map fst demand)" "mset demand' = mset demand"
  shows "planMRP L D ord demand data wc buy = planMRP L D ord' demand' data wc buy"
proof -
  have same: "set demand' = set demand" "distinct (map fst demand')"
    using assms(4,5) by (metis set_mset_mset) (metis assms(4,5) mset_eq_imp_distinct_iff mset_map)
  then have m: "map_of demand = map_of demand'"
    using assms(4) by (metis map_of_eqI map_of_inject_set)
  have "computeLowLevelCodes demand data = computeLowLevelCodes demand' data"
    unfolding codes_exist low_level_code_def path_lengths_def same(1) ..
  then show ?thesis unfolding planMRP_def Let_def by (simp add: plan_loop_order[OF assms(1-3) m])
qed

theorem plan_deterministic_witness:
  "planMRP bin_lib exact_decimal given_order bike_demand bike_data (\<lambda>_. None) 0
   = planMRP bin_lib exact_decimal (\<lambda>_. rev) bike_demand bike_data (\<lambda>_. None) 0"
  using plan_deterministic[OF uuid_laws_bin_lib map_orders, of bike_demand bike_demand] by (simp add: bike_demand_def)

end
