(* ===== verification/Spec2Isabelle.thy ===== *)
theory Spec2Isabelle
  imports LRU_Cache Condition Authz FX_Revaluation Record_Walk Inventory_Properties MRP_Properties
begin

text \<open>
  Kapp is a multi-tenant business platform written in Go on PostgreSQL. Its kernel (under src/internal/)
  keeps every tenant's data apart, describes business objects by schemas (KTypes), stores them as
  versioned JSON records, moves them through workflows and approvals, books a double-entry ledger, and
  writes an outbox event and a hash-chained audit entry in the transaction of every change. This library
  models that kernel and proves what makes it correct. Every definition is a translation of the source
  file named in its theory; every operation of a modelled component is the whole operation, with its
  guards, its errors and its effects on the tables.

  \<^bold>\<open>How the code is modelled.\<close> A database is a record of tables (lists of rows, in insertion order); the
  records extend one another from \<open>outbox_db\<close> through the kernel, the ledger and the type registry to
  \<open>record_db\<close>, so an operation of a component leaves the tables of the others alone by construction. A Go
  function that returns \<open>(T, error)\<close> is a function into a sum, \<open>rbind\<close> its early return (\<open>Kapp_Prelude\<close>).
  \<open>WithTenantTx\<close> (\<open>Tenant_Tx\<close>; src/internal/dbutil/txn.go) commits on success and restores the tables on
  an error. Go's JSON values, times and numbers are in \<open>Go_Values\<close> and \<open>Go_Strconv\<close>. UUIDs are 128-bit
  words, Go integers that can overflow are written with their width, decimals are rationals, and rounding
  to a column's scale is explicit. Code outside the repository (SHA-256, HKDF, AES-GCM, HMAC, base64,
  regular expressions, the rendering of JSON, the JSONB normal form, google/uuid, decimal division) is a
  parameter with its documented laws as named hypotheses; each law has an instance in a witness.

  \<^bold>\<open>Components.\<close>
  \<^item> \<open>LRU_Cache\<close> (platform/lru.go): hash map and linked list as an explicit heap; refinement of a map with
    expiry, capacity and recency.
  \<^item> \<open>Condition\<close> (authz/condition/condition.go): parser, evaluation and legacy form of record conditions;
    the parser accepts exactly the grammar, depth at most 16, malformed payloads deny.
  \<^item> \<open>Authz\<close> (authz/store.go): roles, inheritance, permission rows, the cache of permission sets; the exact
    decision and a bound on the age of the data it rests on.
  \<^item> \<open>Outbox\<close> (events/store.go), \<open>Audit_Log\<close> (audit/store.go, services/api/audit.go), \<open>Kernel_Tx\<close>: emission
    and draining of events, the hash chain and its verifier, the invariant both keep. The locale
    \<open>atomic_component\<close> of \<open>Tenant_Tx\<close> is the contract of a component whose operations run in one
    transaction; every writing component interprets it.
  \<^item> \<open>Workflow\<close> (workflow/engine.go), \<open>Approvals\<close> (workflow/approvals.go): runs follow their definitions, an
    approval needs its quorum of distinct approvers, final states stay.
  \<^item> \<open>Ledger_Currency\<close>, \<open>Ledger\<close>, \<open>Ledger_Correct\<close>, \<open>Ledger_Reports\<close>, \<open>FX_Revaluation\<close> (ledger/currency.go,
    store.go, period.go, reports.go, tax.go, fx_revaluation.go): rates, accounts, postings, periods, trial
    balance and income statement, revaluation; books balance, sources post once, reports close.
  \<^item> \<open>KType_Validator\<close>, \<open>KType_Registry\<close> (ktype/validator.go, store.go, tenant_store.go): schemas, exact
    validation, the registry with its cache, tenant-authored types with their lifecycle.
  \<^item> \<open>Record_Paths\<close>, \<open>Record_Fields\<close>, \<open>Record_Protection\<close>, \<open>Tenant_Keys\<close> (record/paths.go, redact.go,
    store.go, tenant/encryption.go): paths into payloads, encryption and redaction of sensitive fields,
    blind indexes, role-based field filtering, key derivation and rotation. The locale \<open>field_cipher\<close> is
    what records rely on in a cipher; the key manager is its instance.
  \<^item> \<open>Record_Store\<close>, \<open>Record_Correct\<close>, \<open>Record_Properties\<close> (record/store.go, bulk.go, redact.go,
    platform/quota.go): creating, reading, updating, deleting and bulk operations with their events, audit
    entries and the quota counter; the invariant, the round trip through encryption, optimistic locking.
  \<^item> \<open>Record_List\<close>, \<open>Record_Walk\<close> (record/record.go, store.go, bulk.go): cursors, pages and walks in chunks
    while other transactions commit. The locale \<open>keyset\<close> is what the loop relies on in its queries.
  \<^item> \<open>Inventory\<close>, \<open>Inventory_Correct\<close>, \<open>Inventory_Properties\<close> (inventory/inventory.go, store.go, serial.go,
    hook.go): the append-only ledger of stock moves with lots, serial numbers, transfers, reversals and the
    hook that moves the stock of posted documents; lots are never oversold and agree with the ledger, the
    serials in stock are the stock, a document moves its stock once however often it is retried.
  \<^item> \<open>Bill_Of_Materials\<close>, \<open>MRP_Planner\<close>, \<open>MRP_Correct\<close>, \<open>MRP_Properties\<close> (manufacturing/manufacturing.go,
    routing.go, mrp.go, \<open>buildItemData\<close> of store_mrp.go): the planning of material requirements. Low-level
    codes are the lengths of longest paths, the planned orders balance demand and supply of every item, the
    dates follow the lead times, and the plan does not depend on the order in which Go ranges over its maps.

  \<^bold>\<open>Bounds and termination.\<close> Recursion follows the data except in a few places: \<open>compileNode\<close> recurses on
  the size of the JSON value (the code's depth limit is 16), the role closure of \<open>Authz\<close> on the roles not
  yet visited, the search for low-level codes on the 50 levels the code allows, the planning loop on the
  items not yet processed, and the walk of \<open>Record_Walk\<close>, which is a partial function (a walk that does not end is
  \<open>None\<close>) and is proved to return. The chunk size 500, the cap of 100000 rows, the page limit 500 and the
  cache sizes are those of the code. No definition uses fuel.

  \<^bold>\<open>Not modelled.\<close> Failures of the database connection, deadlocks and foreign keys (every statement of a
  modelled transaction succeeds or fails with the error of the constraint it violates); row-level
  security (the tenant filter of each query is modelled, the policy behind it is not); the strings of
  wrapped errors (errors are values of a datatype); metrics, tracing and logging; NUL characters, which
  JSONB refuses; replication lag between a replica's snapshot time and its rows. The remaining parts of
  the system (HTTP services, the chat bridge, the marketplace, the HR, sales, helpdesk and learning
  modules, importers, exporters, reporting) are clients of these components and are listed in the
  manifest with the reason why they are left out.
\<close>

end
